(* ===== verification/PushStream.thy ===== *)
theory PushStream
  imports Prelude
begin

text \<open>
  Push-fed queues consumed by one pull-based iterator. The program has two
  implementations: the run handle's \<open>EventStream\<close> (\<open>agents/engine/run-handle.ts\<close>, wakers
  in an array that is swapped out) and \<open>LiveEventStream\<close> (\<open>nodes/events.ts\<close>, wakers in a
  set that is cleared). \<open>push_stream\<close> is the interface both satisfy: first in
  first out delivery and no lost wakeup are proved once from its laws.

  A pending \<open>next()\<close> is a numbered waiter. Calling a waker resolves a promise; the waiter
  then re-enters the loop of \<open>#next\<close>, which is a further \<open>Next\<close> of the same number, and
  until then it is listed as ready.
\<close>

section \<open>The interface\<close>

datatype 'e pull = Item 'e | Finished | Suspended

datatype 'e stream_op = Push 'e | Close | Detach | Next nat

text \<open>A history of operations, with what the calls of \<open>next\<close> answered.\<close>

fun run_ops :: "('e stream_op \<Rightarrow> 's \<Rightarrow> 's \<times> 'e pull option) \<Rightarrow> 'e stream_op list \<Rightarrow> 's \<Rightarrow> 's \<times> 'e pull list" where
  "run_ops exec [] s = (s, [])"
| "run_ops exec (x # xs) s =
     (let (s1, p) = exec x s; (s2, ps) = run_ops exec xs s1
      in (s2, (case p of None \<Rightarrow> ps | Some q \<Rightarrow> q # ps)))"

fun items :: "'e pull list \<Rightarrow> 'e list" where
  "items [] = []"
| "items (Item e # ps) = e # items ps"
| "items (_ # ps) = items ps"

text \<open>What a history gives the stream to deliver: the pushes before it is closed or detached.\<close>

fun accepted :: "'e stream_op list \<Rightarrow> 'e list" where
  "accepted [] = []"
| "accepted (Push e # xs) = e # accepted xs"
| "accepted (Close # xs) = []"
| "accepted (Detach # xs) = []"
| "accepted (Next w # xs) = accepted xs"

locale push_stream =
  fixes exec :: "'e stream_op \<Rightarrow> 's \<Rightarrow> 's \<times> 'e pull option"
    and buffered :: "'s \<Rightarrow> 'e list"
    and waiting :: "'s \<Rightarrow> nat list"
    and ready :: "'s \<Rightarrow> nat list"
    and closed :: "'s \<Rightarrow> bool"
    and detached :: "'s \<Rightarrow> bool"
  assumes push_ignored:
      "closed s \<or> detached s \<Longrightarrow> exec (Push e) s = (s, None)"
    and push_open:
      "\<not> closed s \<Longrightarrow> \<not> detached s \<Longrightarrow> exec (Push e) s = (s', p) \<Longrightarrow>
       p = None \<and> buffered s' = buffered s @ [e] \<and> waiting s' = [] \<and> ready s' = ready s @ waiting s
       \<and> \<not> closed s' \<and> \<not> detached s'"
    and close_law:
      "exec Close s = (s', p) \<Longrightarrow>
       p = None \<and> buffered s' = buffered s \<and> waiting s' = [] \<and> ready s' = ready s @ waiting s
       \<and> closed s' \<and> detached s' = detached s"
    and detach_law:
      "exec Detach s = (s', p) \<Longrightarrow>
       p = None \<and> buffered s' = [] \<and> waiting s' = [] \<and> ready s' = ready s @ waiting s
       \<and> closed s' = closed s \<and> detached s'"
    and next_flags:
      "exec (Next w) s = (s', p) \<Longrightarrow> closed s' = closed s \<and> detached s' = detached s"
    and next_detached:
      "detached s \<Longrightarrow> exec (Next w) s = (s', p) \<Longrightarrow>
       p = Some Finished \<and> buffered s' = buffered s \<and> waiting s' = waiting s"
    and next_item:
      "\<not> detached s \<Longrightarrow> buffered s = e # es \<Longrightarrow> exec (Next w) s = (s', p) \<Longrightarrow>
       p = Some (Item e) \<and> buffered s' = es \<and> waiting s' = waiting s"
    and next_closed:
      "\<not> detached s \<Longrightarrow> buffered s = [] \<Longrightarrow> closed s \<Longrightarrow> exec (Next w) s = (s', p) \<Longrightarrow>
       p = Some Finished \<and> buffered s' = [] \<and> waiting s' = waiting s"
    and next_empty:
      "\<not> detached s \<Longrightarrow> buffered s = [] \<Longrightarrow> \<not> closed s \<Longrightarrow> exec (Next w) s = (s', p) \<Longrightarrow>
       p = Some Suspended \<and> buffered s' = [] \<and> waiting s' = waiting s @ [w]"
begin

text \<open>No lost wakeup: somebody waits only when there is nothing to answer.\<close>

definition idle_waiters :: "'s \<Rightarrow> bool" where
  "idle_waiters s = (waiting s \<noteq> [] \<longrightarrow> buffered s = [] \<and> \<not> closed s \<and> \<not> detached s)"

lemma exec_idle_waiters:
  assumes "idle_waiters s" "exec x s = (s', p)"
  shows "idle_waiters s'"
proof (cases x)
  case (Push e)
  with assms show ?thesis
    using push_ignored [of s e] push_open [of s e s' p]
    by (cases "closed s \<or> detached s") (auto simp: idle_waiters_def)
next
  case Close
  with assms close_law [of s s' p] show ?thesis by (simp add: idle_waiters_def)
next
  case Detach
  with assms detach_law [of s s' p] show ?thesis by (simp add: idle_waiters_def)
next
  case (Next w)
  with assms(2) have ex: "exec (Next w) s = (s', p)" by simp
  consider "detached s" | e es where "\<not> detached s" "buffered s = e # es"
    | "\<not> detached s" "buffered s = []" "closed s" | "\<not> detached s" "buffered s = []" "\<not> closed s"
    by (cases "buffered s") auto
  then show ?thesis
  proof cases
    case 1
    with assms(1) next_detached [OF 1 ex] next_flags [OF ex] show ?thesis by (simp add: idle_waiters_def)
  next
    case 2
    with assms(1) next_item [OF 2 ex] next_flags [OF ex] show ?thesis by (auto simp: idle_waiters_def)
  next
    case 3
    with assms(1) next_closed [OF 3 ex] next_flags [OF ex] show ?thesis by (simp add: idle_waiters_def)
  next
    case 4
    with assms(1) next_empty [OF 4 ex] next_flags [OF ex] show ?thesis by (simp add: idle_waiters_def)
  qed
qed

lemma run_idle_waiters: "idle_waiters s \<Longrightarrow> run_ops exec xs s = (s', ps) \<Longrightarrow> idle_waiters s'"
proof (induction xs arbitrary: s ps)
  case (Cons x xs)
  then show ?case by (auto split: prod.splits intro: exec_idle_waiters)
qed simp

text \<open>Delivery: what was delivered and what is buffered is what was accepted, in order.\<close>

lemma run_detached:
  "detached s \<Longrightarrow> buffered s = [] \<Longrightarrow> run_ops exec xs s = (s', ps) \<Longrightarrow> items ps = [] \<and> buffered s' = []"
proof (induction xs arbitrary: s ps)
  case (Cons x xs)
  obtain s1 p where ex: "exec x s = (s1, p)" by (cases "exec x s")
  obtain ps2 where r: "run_ops exec xs s1 = (s', ps2)" and ps: "ps = (case p of None \<Rightarrow> ps2 | Some q \<Rightarrow> q # ps2)"
    using Cons.prems(3) ex by (auto split: prod.splits)
  have "detached s1 \<and> buffered s1 = [] \<and> (p = None \<or> p = Some Finished)"
  proof (cases x)
    case (Push e)
    with ex push_ignored [of s e] Cons.prems show ?thesis by simp
  next
    case Close
    with ex close_law [of s s1 p] Cons.prems show ?thesis by simp
  next
    case Detach
    with ex detach_law [of s s1 p] Cons.prems show ?thesis by simp
  next
    case (Next w)
    with ex next_detached [of s w s1 p] next_flags [of w s s1 p] Cons.prems show ?thesis by simp
  qed
  with Cons.IH [OF _ _ r] ps show ?case by auto
qed simp

lemma run_delivers:
  assumes "\<not> detached s" "run_ops exec xs s = (s', ps)"
  shows "\<exists>rest. items ps @ rest = buffered s @ (if closed s then [] else accepted xs)
                \<and> (Detach \<notin> set xs \<longrightarrow> rest = buffered s')"
  using assms
proof (induction xs arbitrary: s ps)
  case (Cons x xs)
  obtain s1 p where ex: "exec x s = (s1, p)" by (cases "exec x s")
  obtain ps2 where r: "run_ops exec xs s1 = (s', ps2)" and ps: "ps = (case p of None \<Rightarrow> ps2 | Some q \<Rightarrow> q # ps2)"
    using Cons.prems(2) ex by (auto split: prod.splits)
  note nd = Cons.prems(1)
  show ?case
  proof (cases x)
    case (Push e)
    show ?thesis
    proof (cases "closed s")
      case True
      with Push ex push_ignored [of s e] have "s1 = s" "p = None" by simp_all
      with Cons.IH [of s1] nd r ps True Push show ?thesis by auto
    next
      case False
      with Push ex nd push_open [of s e s1 p]
      have "p = None" "buffered s1 = buffered s @ [e]" "\<not> closed s1" "\<not> detached s1" by simp_all
      with Cons.IH [of s1] r ps False Push show ?thesis by auto
    qed
  next
    case Close
    with ex nd close_law [of s s1 p]
    have "p = None" "buffered s1 = buffered s" "closed s1" "\<not> detached s1" by simp_all
    with Cons.IH [of s1] r ps Close show ?thesis by auto
  next
    case Detach
    with ex detach_law [of s s1 p] have s1: "p = None" "buffered s1 = []" "detached s1" by simp_all
    with run_detached [of s1 xs s' ps2] r ps Detach show ?thesis by auto
  next
    case (Next w)
    with ex have ex': "exec (Next w) s = (s1, p)" by simp
    note fl = next_flags [OF ex']
    show ?thesis
    proof (cases "buffered s")
      case (Cons e es)
      from next_item [OF nd Cons ex'] fl Cons.prems nd Cons Next Cons.IH [of s1] r ps
      show ?thesis by auto
    next
      case Nil
      have "(p = Some Finished \<or> p = Some Suspended) \<and> buffered s1 = []"
        using next_closed [OF nd Nil _ ex'] next_empty [OF nd Nil _ ex'] by (cases "closed s") auto
      with fl nd Nil Next Cons.IH [of s1] r ps show ?thesis by auto
    qed
  qed
qed simp

end

end
