(* ===== verification/NodeEvents.thy ===== *)
theory NodeEvents
  imports PushStream
begin

text \<open>
  \<open>nodes/events.ts\<close>: \<open>LiveEventStream\<close> and the seq-stamping emitter
  \<open>createRunEventStream\<close> that node runs and workflow runs publish through. The clock is an
  argument: each \<open>emit\<close> gets the ISO time its call of \<open>clock.now()\<close> produced.
\<close>

section \<open>The live stream\<close>

record 'e live_stream =
  ls_buffer :: "'e list"
  ls_wakers :: "nat list"
  ls_ready :: "nat list"
  ls_closed :: bool
  ls_detached :: bool
  ls_consumed :: bool

definition ls_init :: "'e live_stream" where
  "ls_init = \<lparr>ls_buffer = [], ls_wakers = [], ls_ready = [], ls_closed = False,
     ls_detached = False, ls_consumed = False\<rparr>"

text \<open>\<open>#wake\<close>: call every waker of the set, then clear it; a waker only schedules its waiter.\<close>

definition ls_wake :: "'e live_stream \<Rightarrow> 'e live_stream" where
  "ls_wake s = s\<lparr>ls_ready := ls_ready s @ ls_wakers s, ls_wakers := []\<rparr>"

definition ls_push :: "'e \<Rightarrow> 'e live_stream \<Rightarrow> 'e live_stream" where
  "ls_push e s =
     (if ls_closed s \<or> ls_detached s then s
      else ls_wake (s\<lparr>ls_buffer := ls_buffer s @ [e]\<rparr>))"

definition ls_close :: "'e live_stream \<Rightarrow> 'e live_stream" where
  "ls_close s = ls_wake (s\<lparr>ls_closed := True\<rparr>)"

definition ls_detach :: "'e live_stream \<Rightarrow> 'e live_stream" where
  "ls_detach s = ls_wake (s\<lparr>ls_detached := True, ls_buffer := []\<rparr>)"

datatype live_stream_error = LiveSingleConsumer

definition ls_iterate :: "'e live_stream \<Rightarrow> live_stream_error + 'e live_stream" where
  "ls_iterate s = (if ls_consumed s then Inl LiveSingleConsumer else Inr (s\<lparr>ls_consumed := True\<rparr>))"

definition ls_next :: "nat \<Rightarrow> 'e live_stream \<Rightarrow> 'e pull \<times> 'e live_stream" where
  "ls_next w s =
     (let s = s\<lparr>ls_ready := remove1 w (ls_ready s)\<rparr> in
      if ls_detached s then (Finished, s)
      else case ls_buffer s of
             e # es \<Rightarrow> (Item e, s\<lparr>ls_buffer := es\<rparr>)
           | [] \<Rightarrow> (if ls_closed s then (Finished, s)
                    else (Suspended, s\<lparr>ls_wakers := ls_wakers s @ [w]\<rparr>)))"

fun ls_exec :: "'e stream_op \<Rightarrow> 'e live_stream \<Rightarrow> 'e live_stream \<times> 'e pull option" where
  "ls_exec (Push e) s = (ls_push e s, None)"
| "ls_exec Close s = (ls_close s, None)"
| "ls_exec Detach s = (ls_detach s, None)"
| "ls_exec (Next w) s = (case ls_next w s of (p, s') \<Rightarrow> (s', Some p))"

lemmas ls_defs = ls_wake_def ls_push_def ls_close_def ls_detach_def ls_next_def

interpretation ls: push_stream ls_exec ls_buffer ls_wakers ls_ready ls_closed ls_detached
  by unfold_locales (auto simp: ls_defs Let_def split: if_splits list.splits)

section \<open>The seq-stamping emitter\<close>

record 'b stamped =
  ev_body :: 'b
  ev_seq :: nat
  ev_time :: string

record 'b run_event_stream =
  rs_live :: "'b stamped live_stream"
  rs_seq :: nat

definition create_run_event_stream :: "'b run_event_stream" where
  "create_run_event_stream = \<lparr>rs_live = ls_init, rs_seq = 0\<rparr>"

definition rs_emit :: "string \<Rightarrow> 'b \<Rightarrow> 'b run_event_stream \<Rightarrow> 'b stamped \<times> 'b run_event_stream" where
  "rs_emit time body s =
     (let event = \<lparr>ev_body = body, ev_seq = rs_seq s, ev_time = time\<rparr>
      in (event, s\<lparr>rs_seq := rs_seq s + 1, rs_live := ls_push event (rs_live s)\<rparr>))"

definition rs_close :: "'b run_event_stream \<Rightarrow> 'b run_event_stream" where
  "rs_close s = s\<lparr>rs_live := ls_close (rs_live s)\<rparr>"

text \<open>A sequence of emissions, with the events it returned.\<close>

fun rs_emits :: "(string \<times> 'b) list \<Rightarrow> 'b run_event_stream \<Rightarrow> 'b stamped list \<times> 'b run_event_stream" where
  "rs_emits [] s = ([], s)"
| "rs_emits ((t, b) # xs) s =
     (let (e, s1) = rs_emit t b s; (es, s2) = rs_emits xs s1 in (e # es, s2))"

lemma rs_emits_gen:
  "rs_emits xs s = (es, s') \<Longrightarrow>
   map ev_seq es = [rs_seq s..<rs_seq s + length xs] \<and> rs_seq s' = rs_seq s + length xs
   \<and> map ev_body es = map snd xs
   \<and> ls_buffer (rs_live s') = ls_buffer (rs_live s) @
        (if ls_closed (rs_live s) \<or> ls_detached (rs_live s) then [] else es)"
proof (induction xs arbitrary: s es)
  case (Cons x xs)
  obtain t b where x: "x = (t, b)" by (cases x)
  define e where "e = \<lparr>ev_body = b, ev_seq = rs_seq s, ev_time = t\<rparr>"
  define s1 where "s1 = s\<lparr>rs_seq := rs_seq s + 1, rs_live := ls_push e (rs_live s)\<rparr>"
  obtain es1 where r: "rs_emits xs s1 = (es1, s')" and es: "es = e # es1"
    using Cons.prems x by (auto simp: rs_emit_def Let_def e_def s1_def split: prod.splits)
  have live: "ls_closed (rs_live s1) = ls_closed (rs_live s)" "ls_detached (rs_live s1) = ls_detached (rs_live s)"
    "ls_buffer (rs_live s1) = ls_buffer (rs_live s) @
        (if ls_closed (rs_live s) \<or> ls_detached (rs_live s) then [] else [e])" "rs_seq s1 = Suc (rs_seq s)"
    by (simp_all add: s1_def ls_defs)
  have upt: "[rs_seq s..<rs_seq s + length (x # xs)] = rs_seq s # [rs_seq s1..<rs_seq s1 + length xs]"
    using live(4) by (simp add: upt_conv_Cons del: upt_Suc)
  show ?case
    unfolding upt using Cons.IH [OF r] live es x by (auto simp: e_def)
qed simp

text \<open>
  A fresh run event stream numbers its events 0, 1, 2, ... in emission order, and its
  consumer will be given all of them.
\<close>

lemma run_event_stream_dense:
  assumes "rs_emits xs create_run_event_stream = (es, s)"
  shows "map ev_seq es = [0..<length xs] \<and> map ev_body es = map snd xs \<and> ls_buffer (rs_live s) = es"
  using rs_emits_gen [OF assms] by (simp add: create_run_event_stream_def ls_init_def)

text \<open>
  The live stream delivers in order and without loss what was pushed before it was
  closed or detached, and never leaves a consumer suspended while it could be answered.
\<close>

lemma live_stream_delivery:
  assumes "run_ops ls_exec xs ls_init = (s, ps)"
  shows "(\<exists>rest. items ps @ rest = accepted xs \<and> (Detach \<notin> set xs \<longrightarrow> rest = ls_buffer s))
       \<and> (ls_wakers s = [] \<or> (ls_buffer s = [] \<and> \<not> ls_closed s \<and> \<not> ls_detached s))"
  using ls.run_delivers [of ls_init xs s ps] ls.run_idle_waiters [of ls_init xs s ps] assms
  by (auto simp: ls_init_def ls.idle_waiters_def)

end
