(* ===== verification/Json.thy ===== *)
theory Json
  imports Prelude
begin

text \<open>
  JSON values (\<open>contracts/json.ts\<close>) and the library function \<open>JSON.stringify\<close> on them.
  A string is a list of code units below 256. A number is carried by its rendering
  (\<open>Number.prototype.toString\<close>): the program never computes with the numbers of a JSON
  value, and finite numbers render differently when they differ. An object is the list of
  its properties in the order the engine enumerates them.
\<close>

section \<open>Values\<close>

datatype json =
    JNull
  | JBool bool
  | JNum string
  | JStr string
  | JArr "json list"
  | JObj "(string \<times> json) list"

text \<open>\<open>JsonObject\<close>: a record from strings to values.\<close>

type_synonym json_object = "(string \<times> json) list"

section \<open>Rendering\<close>

definition hex_digit :: "nat \<Rightarrow> char" where
  "hex_digit n = ''0123456789abcdef'' ! (n mod 16)"

text \<open>\<open>QuoteJSONString\<close>: the short escapes, then \<open>\u00XX\<close> for the other control codes.\<close>

definition escape_char :: "char \<Rightarrow> string" where
  "escape_char c =
     (let n = (of_char c :: nat) in
      if n = 34 then [CHR 0x5C, CHR 0x22]
      else if n = 92 then [CHR 0x5C, CHR 0x5C]
      else if n = 8 then [CHR 0x5C, CHR ''b'']
      else if n = 9 then [CHR 0x5C, CHR ''t'']
      else if n = 10 then [CHR 0x5C, CHR ''n'']
      else if n = 12 then [CHR 0x5C, CHR ''f'']
      else if n = 13 then [CHR 0x5C, CHR ''r'']
      else if n < 32 then [CHR 0x5C, CHR ''u'', CHR ''0'', CHR ''0'', hex_digit (n div 16), hex_digit n]
      else [c])"

definition escape :: "string \<Rightarrow> string" where
  "escape s = concat (map escape_char s)"

definition quote :: "string \<Rightarrow> string" where
  "quote s = [CHR 0x22] @ escape s @ [CHR 0x22]"

fun stringify :: "json \<Rightarrow> string"
  and stringify_items :: "json list \<Rightarrow> string"
  and stringify_members :: "(string \<times> json) list \<Rightarrow> string"
where
  "stringify JNull = ''null''"
| "stringify (JBool b) = (if b then ''true'' else ''false'')"
| "stringify (JNum n) = n"
| "stringify (JStr s) = quote s"
| "stringify (JArr xs) = ''['' @ stringify_items xs @ '']''"
| "stringify (JObj kvs) = ''{'' @ stringify_members kvs @ ''}''"
| "stringify_items [] = []"
| "stringify_items [x] = stringify x"
| "stringify_items (x # y # ys) = stringify x @ '','' @ stringify_items (y # ys)"
| "stringify_members [] = []"
| "stringify_members [(k, v)] = quote k @ '':'' @ stringify v"
| "stringify_members ((k, v) # kv # kvs) = quote k @ '':'' @ stringify v @ '','' @ stringify_members (kv # kvs)"

section \<open>Rendering is unambiguous\<close>

text \<open>
  Renderings are read back left to right: from the first difference in the rendered text
  the values differ. The argument is a prefix lemma per syntactic class; a value is followed
  by one of the delimiters \<open>, ] }\<close> or by the end.
\<close>

definition num_char :: "char \<Rightarrow> bool" where
  "num_char c = (c \<in> set ''0123456789+-.eE'')"

definition wf_num :: "string \<Rightarrow> bool" where
  "wf_num n = (n \<noteq> [] \<and> list_all num_char n \<and> hd n \<in> set ''-0123456789'')"

fun wf_json :: "json \<Rightarrow> bool"
  and wf_items :: "json list \<Rightarrow> bool"
  and wf_members :: "(string \<times> json) list \<Rightarrow> bool"
where
  "wf_json JNull = True"
| "wf_json (JBool b) = True"
| "wf_json (JNum n) = wf_num n"
| "wf_json (JStr s) = True"
| "wf_json (JArr xs) = wf_items xs"
| "wf_json (JObj kvs) = wf_members kvs"
| "wf_items [] = True"
| "wf_items (x # xs) = (wf_json x \<and> wf_items xs)"
| "wf_members [] = True"
| "wf_members ((k, v) # kvs) = (wf_json v \<and> wf_members kvs)"

lemma escape_simps [simp]:
  "escape [] = []"
  "escape (c # cs) = escape_char c @ escape cs"
  by (simp_all add: escape_def)

lemma hex_digit_eq_iff: "hex_digit m = hex_digit n \<longleftrightarrow> m mod 16 = n mod 16"
proof -
  have d: "distinct ''0123456789abcdef''" by simp
  show ?thesis
    unfolding hex_digit_def by (subst nth_eq_iff_index_eq [OF d]) simp_all
qed

lemma of_char_eq_iff: "(of_char a :: nat) = of_char b \<longleftrightarrow> a = b"
  by (metis char_of_char)

lemma escape_char_not_Nil: "escape_char c \<noteq> []"
  by (simp add: escape_char_def Let_def)

text \<open>The escapes form a prefix code, and none of them starts with the quote.\<close>

lemma hd_escape_char: "hd (escape_char c) \<noteq> CHR 0x22"
proof (cases "(of_char c :: nat) = 34")
  case False
  then have "c \<noteq> CHR 0x22" by auto
  with False show ?thesis by (simp add: escape_char_def Let_def)
qed (simp add: escape_char_def Let_def)

lemma of_char_backslash: "of_char c = (92::nat) \<longleftrightarrow> c = CHR 0x5C"
  by (simp add: of_char_eq_iff [symmetric])

lemma escape_char_plain:
  "of_char c \<notin> {34, 92 :: nat} \<Longrightarrow> 32 \<le> (of_char c :: nat) \<Longrightarrow> escape_char c = [c]"
  by (simp add: escape_char_def Let_def)

definition escape_tail :: "nat \<Rightarrow> string" where
  "escape_tail n =
     (if n = 34 then [CHR 0x22] else if n = 92 then [CHR 0x5C]
      else if n = 8 then [CHR ''b''] else if n = 9 then [CHR ''t''] else if n = 10 then [CHR ''n'']
      else if n = 12 then [CHR ''f''] else if n = 13 then [CHR ''r'']
      else [CHR ''u'', CHR ''0'', CHR ''0'', hex_digit (n div 16), hex_digit n])"

lemma escape_char_special:
  "of_char c \<in> {34, 92 :: nat} \<or> (of_char c :: nat) < 32 \<Longrightarrow>
   escape_char c = CHR 0x5C # escape_tail (of_char c)"
  by (auto simp: escape_char_def escape_tail_def Let_def)

lemma escape_tail_prefix:
  assumes "escape_tail m @ x = escape_tail n @ y"
    and "m \<in> {34, 92} \<or> m < 32" and "n \<in> {34, 92} \<or> n < 32"
  shows "m = n \<and> x = y"
proof -
  have "m = n" if "m < 32" "n < 32" "m div 16 mod 16 = n div 16 mod 16" "m mod 16 = n mod 16"
  proof -
    from that(1,2) have "m div 16 < 16" "n div 16 < 16" by simp_all
    with that show ?thesis by (metis div_mult_mod_eq mod_less)
  qed
  with assms show ?thesis
    by (auto simp: escape_tail_def hex_digit_eq_iff split: if_splits)
qed

lemma escape_char_prefix:
  assumes "escape_char a @ x = escape_char b @ y"
  shows "a = b \<and> x = y"
proof -
  let ?sp = "\<lambda>c. of_char c \<in> {34, 92 :: nat} \<or> (of_char c :: nat) < 32"
  have plain: "\<not> ?sp c \<Longrightarrow> escape_char c = [c] \<and> c \<noteq> CHR 0x5C" for c
    using escape_char_plain [of c] of_char_backslash [of c] by auto
  consider "?sp a" "?sp b" | "\<not> ?sp a" "\<not> ?sp b" | "?sp a" "\<not> ?sp b" | "\<not> ?sp a" "?sp b"
    by blast
  then show ?thesis
  proof cases
    case 1
    with assms have "escape_tail (of_char a) @ x = escape_tail (of_char b) @ y"
      by (simp add: escape_char_special)
    from escape_tail_prefix [OF this 1] show ?thesis by (simp add: of_char_eq_iff)
  next
    case 2
    with assms plain show ?thesis by auto
  next
    case 3
    with assms plain [of b] escape_char_special [of a] show ?thesis by auto
  next
    case 4
    with assms plain [of a] escape_char_special [of b] show ?thesis by auto
  qed
qed

lemma escape_prefix:
  "escape s @ CHR 0x22 # x = escape t @ CHR 0x22 # y \<Longrightarrow> s = t \<and> x = y"
proof (induction s arbitrary: t)
  case Nil
  show ?case
  proof (cases t)
    case (Cons c cs)
    with Nil have "hd (escape_char c) = CHR 0x22"
      by (cases "escape_char c") (auto simp: escape_char_not_Nil)
    with hd_escape_char show ?thesis by blast
  qed (use Nil in simp)
next
  case (Cons c cs)
  show ?case
  proof (cases t)
    case Nil
    with Cons.prems have "hd (escape_char c) = CHR 0x22"
      by (cases "escape_char c") (auto simp: escape_char_not_Nil)
    with hd_escape_char show ?thesis by blast
  next
    case (Cons d ds)
    with Cons.prems have "escape_char c @ escape cs @ CHR 0x22 # x = escape_char d @ escape ds @ CHR 0x22 # y"
      by simp
    then have "c = d" "escape cs @ CHR 0x22 # x = escape ds @ CHR 0x22 # y"
      using escape_char_prefix by blast+
    with Cons.IH Cons show ?thesis by blast
  qed
qed

lemma quote_prefix: "quote s @ x = quote t @ y \<Longrightarrow> s = t \<and> x = y"
  using escape_prefix [of s x t y] by (simp add: quote_def)

subsection \<open>Values\<close>

definition delim :: "string \<Rightarrow> bool" where
  "delim r = (r = [] \<or> hd r \<in> set '',]}'')"

lemma delim_simps [simp]:
  "delim []" "delim (CHR '']'' # r)" "delim (CHR ''}'' # r)" "delim (CHR '','' # r)"
  by (simp_all add: delim_def)

lemma num_prefix:
  assumes "wf_num m" "wf_num n" "delim x" "delim y" "m @ x = n @ y"
  shows "m = n \<and> x = y"
proof -
  have tw: "takeWhile num_char (k @ r) = k" if "wf_num k" "delim r" for k r
  proof -
    have "takeWhile num_char r = []"
      using that(2) by (cases r) (auto simp: delim_def num_char_def)
    with that(1) show ?thesis
      by (simp add: wf_num_def list_all_iff takeWhile_append)
  qed
  from assms tw have "m = n" by metis
  with assms show ?thesis by simp
qed

text \<open>Each kind of value starts with its own characters.\<close>

definition value_kind :: "json \<Rightarrow> nat" where
  "value_kind v = (case v of JNull \<Rightarrow> 0 | JBool b \<Rightarrow> (if b then 1 else 2) | JNum _ \<Rightarrow> 3
     | JStr _ \<Rightarrow> 4 | JArr _ \<Rightarrow> 5 | JObj _ \<Rightarrow> 6)"

definition start_kind :: "char \<Rightarrow> nat" where
  "start_kind c = (if c = CHR ''n'' then 0 else if c = CHR ''t'' then 1 else if c = CHR ''f'' then 2
     else if c \<in> set ''-0123456789'' then 3 else if c = CHR 0x22 then 4 else if c = CHR ''['' then 5
     else if c = CHR ''{'' then 6 else 7)"

lemma start_kind_stringify: "wf_json v \<Longrightarrow> start_kind (hd (stringify v)) = value_kind v \<and> stringify v \<noteq> []"
proof (cases v)
  case (JNum n)
  assume "wf_json v"
  with JNum have "hd n \<in> set ''-0123456789''" "n \<noteq> []" by (simp_all add: wf_num_def)
  with JNum show ?thesis by (auto simp: start_kind_def value_kind_def)
qed (simp_all add: start_kind_def value_kind_def quote_def)

lemma kind_eq:
  assumes "wf_json v" "wf_json w" "stringify v @ x = stringify w @ y"
  shows "value_kind v = value_kind w"
proof -
  have "hd (stringify v) = hd (stringify w)"
    using assms start_kind_stringify by (metis hd_append2)
  with assms start_kind_stringify show ?thesis by metis
qed

lemma start_not_close: "wf_json v \<Longrightarrow> stringify v @ x = c # y \<Longrightarrow> c \<notin> set '',]}''"
proof -
  assume a: "wf_json v" "stringify v @ x = c # y"
  then have "start_kind c = value_kind v"
    using start_kind_stringify [OF a(1)] by (cases "stringify v") auto
  then show ?thesis by (auto simp: start_kind_def value_kind_def split: json.splits if_splits)
qed

definition unambiguous :: "json \<Rightarrow> bool" where
  "unambiguous v = (\<forall>w x y. wf_json w \<longrightarrow> delim x \<longrightarrow> delim y \<longrightarrow>
      stringify v @ x = stringify w @ y \<longrightarrow> v = w \<and> x = y)"

lemma unambiguousD:
  "unambiguous v \<Longrightarrow> wf_json w \<Longrightarrow> delim x \<Longrightarrow> delim y \<Longrightarrow>
   stringify v @ x = stringify w @ y \<Longrightarrow> v = w \<and> x = y"
  by (auto simp: unambiguous_def)

lemma wf_items_iff: "wf_items xs \<longleftrightarrow> (\<forall>v \<in> set xs. wf_json v)"
  by (induction xs) auto

lemma wf_members_iff: "wf_members kvs \<longleftrightarrow> (\<forall>kv \<in> set kvs. wf_json (snd kv))"
  by (induction kvs) auto

definition items_tail :: "json list \<Rightarrow> string" where
  "items_tail xs = (if xs = [] then [] else CHR '','' # stringify_items xs)"

lemma stringify_items_Cons: "stringify_items (v # vs) = stringify v @ items_tail vs"
  by (cases vs) (simp_all add: items_tail_def)

definition members_tail :: "(string \<times> json) list \<Rightarrow> string" where
  "members_tail kvs = (if kvs = [] then [] else CHR '','' # stringify_members kvs)"

lemma stringify_members_Cons:
  "stringify_members ((k, v) # kvs) = quote k @ CHR '':'' # stringify v @ members_tail kvs"
  by (cases kvs) (auto simp: members_tail_def)

lemma delim_items_tail: "delim (items_tail vs @ CHR '']'' # x)"
  by (simp add: items_tail_def)

lemma delim_members_tail: "delim (members_tail kvs @ CHR ''}'' # x)"
  by (simp add: members_tail_def)

lemma items_tail_close:
  "items_tail vs @ CHR '']'' # x = items_tail ws @ CHR '']'' # y \<Longrightarrow>
   (vs = [] \<longleftrightarrow> ws = []) \<and> stringify_items vs @ CHR '']'' # x = stringify_items ws @ CHR '']'' # y"
  by (auto simp: items_tail_def split: if_splits)

lemma members_tail_close:
  "members_tail vs @ CHR ''}'' # x = members_tail ws @ CHR ''}'' # y \<Longrightarrow>
   (vs = [] \<longleftrightarrow> ws = []) \<and> stringify_members vs @ CHR ''}'' # x = stringify_members ws @ CHR ''}'' # y"
  by (auto simp: members_tail_def split: if_splits)

lemma items_prefix:
  assumes "\<And>v. v \<in> set vs \<Longrightarrow> unambiguous v" "wf_items vs" "wf_items ws"
    and "stringify_items vs @ CHR '']'' # x = stringify_items ws @ CHR '']'' # y"
  shows "vs = ws \<and> x = y"
  using assms
proof (induction vs arbitrary: ws)
  case Nil
  then show ?case
  proof (cases ws)
    case (Cons w ws')
    with Nil have "stringify w @ items_tail ws' @ CHR '']'' # y = CHR '']'' # x" "wf_json w"
      by (simp_all add: stringify_items_Cons)
    with start_not_close show ?thesis by fastforce
  qed simp
next
  case (Cons v vs')
  show ?case
  proof (cases ws)
    case Nil
    with Cons.prems have "stringify v @ items_tail vs' @ CHR '']'' # x = CHR '']'' # y" "wf_json v"
      by (simp_all add: stringify_items_Cons)
    with start_not_close show ?thesis by fastforce
  next
    case (Cons w ws')
    from Cons.prems(1) have "unambiguous v" by simp
    with Cons Cons.prems(3,4) have vw: "v = w \<and> items_tail vs' @ CHR '']'' # x = items_tail ws' @ CHR '']'' # y"
      by (intro unambiguousD delim_items_tail) (simp_all add: stringify_items_Cons)
    then have "stringify_items vs' @ CHR '']'' # x = stringify_items ws' @ CHR '']'' # y"
      using items_tail_close by blast
    with Cons.prems Cons have "vs' = ws' \<and> x = y" by (intro Cons.IH) simp_all
    with vw Cons show ?thesis by simp
  qed
qed

lemma members_prefix:
  assumes "\<And>kv. kv \<in> set vs \<Longrightarrow> unambiguous (snd kv)" "wf_members vs" "wf_members ws"
    and "stringify_members vs @ CHR ''}'' # x = stringify_members ws @ CHR ''}'' # y"
  shows "vs = ws \<and> x = y"
  using assms
proof (induction vs arbitrary: ws)
  case Nil
  then show ?case
    by (cases ws) (auto simp: stringify_members_Cons quote_def)
next
  case (Cons kv vs')
  obtain k v where kv: "kv = (k, v)" by (cases kv)
  show ?case
  proof (cases ws)
    case Nil
    with Cons.prems kv show ?thesis by (simp add: stringify_members_Cons quote_def)
  next
    case (Cons kw ws')
    obtain l w where kw: "kw = (l, w)" by (cases kw)
    from Cons.prems Cons kv kw
    have "quote k @ CHR '':'' # stringify v @ members_tail vs' @ CHR ''}'' # x =
          quote l @ CHR '':'' # stringify w @ members_tail ws' @ CHR ''}'' # y"
      by (simp add: stringify_members_Cons)
    from quote_prefix [OF this] have kl: "k = l"
      and eq: "stringify v @ members_tail vs' @ CHR ''}'' # x = stringify w @ members_tail ws' @ CHR ''}'' # y"
      by simp_all
    have "unambiguous v" using Cons.prems(1) [of "(k, v)"] kv by simp
    then have vw: "v = w \<and> members_tail vs' @ CHR ''}'' # x = members_tail ws' @ CHR ''}'' # y"
      using Cons.prems(3) Cons kw eq by (intro unambiguousD delim_members_tail) simp_all
    then have "stringify_members vs' @ CHR ''}'' # x = stringify_members ws' @ CHR ''}'' # y"
      using members_tail_close by blast
    with Cons.prems Cons kv kw have "vs' = ws' \<and> x = y" by (intro Cons.IH) simp_all
    with vw kv kw kl Cons show ?thesis by simp
  qed
qed

lemma unambiguous_json: "wf_json v \<Longrightarrow> unambiguous v"
proof (induction v)
  case (JNum n)
  show ?case unfolding unambiguous_def
  proof (intro allI impI)
    fix w x y
    assume a: "wf_json w" "delim x" "delim y" "stringify (JNum n) @ x = stringify w @ y"
    from kind_eq [OF JNum a(1) a(4)] obtain m where w: "w = JNum m"
      by (cases w) (auto simp: value_kind_def split: if_splits)
    with a JNum have "n = m \<and> x = y" by (intro num_prefix) simp_all
    with w show "JNum n = w \<and> x = y" by simp
  qed
next
  case (JStr s)
  show ?case unfolding unambiguous_def
  proof (intro allI impI)
    fix w x y
    assume a: "wf_json w" "delim x" "delim y" "stringify (JStr s) @ x = stringify w @ y"
    from kind_eq [OF JStr a(1) a(4)] obtain t where w: "w = JStr t"
      by (cases w) (auto simp: value_kind_def split: if_splits)
    with a have "s = t \<and> x = y" by (intro quote_prefix) simp_all
    with w show "JStr s = w \<and> x = y" by simp
  qed
next
  case (JArr vs)
  show ?case unfolding unambiguous_def
  proof (intro allI impI)
    fix w x y
    assume a: "wf_json w" "delim x" "delim y" "stringify (JArr vs) @ x = stringify w @ y"
    from kind_eq [OF JArr.prems a(1) a(4)] obtain ws where w: "w = JArr ws"
      by (cases w) (auto simp: value_kind_def split: if_splits)
    with a have "vs = ws \<and> x = y"
      using JArr by (intro items_prefix) (auto simp: wf_items_iff)
    with w show "JArr vs = w \<and> x = y" by simp
  qed
next
  case (JObj kvs)
  have un: "unambiguous (snd kv)" if "kv \<in> set kvs" for kv
    using JObj.IH [of kv "snd kv"] JObj.prems that by (cases kv) (auto simp: wf_members_iff)
  show ?case unfolding unambiguous_def
  proof (intro allI impI)
    fix w x y
    assume a: "wf_json w" "delim x" "delim y" "stringify (JObj kvs) @ x = stringify w @ y"
    from kind_eq [OF JObj.prems a(1) a(4)] obtain ws where w: "w = JObj ws"
      by (cases w) (auto simp: value_kind_def split: if_splits)
    with a have "kvs = ws \<and> x = y"
      using JObj.prems un by (intro members_prefix) auto
    with w show "JObj kvs = w \<and> x = y" by simp
  qed
next
  case JNull
  show ?case unfolding unambiguous_def
  proof (intro allI impI)
    fix w x y
    assume a: "wf_json w" "delim x" "delim y" "stringify JNull @ x = stringify w @ y"
    from kind_eq [OF JNull a(1) a(4)] have w: "w = JNull"
      by (cases w) (auto simp: value_kind_def split: if_splits)
    with a show "JNull = w \<and> x = y" by simp
  qed
next
  case (JBool b)
  show ?case unfolding unambiguous_def
  proof (intro allI impI)
    fix w x y
    assume a: "wf_json w" "delim x" "delim y" "stringify (JBool b) @ x = stringify w @ y"
    from kind_eq [OF JBool a(1) a(4)] have w: "w = JBool b"
      by (cases w) (auto simp: value_kind_def split: if_splits)
    with a show "JBool b = w \<and> x = y" by (simp split: if_splits)
  qed
qed

theorem stringify_inject:
  assumes "wf_json v" "wf_json w" "stringify v = stringify w"
  shows "v = w"
  using unambiguousD [OF unambiguous_json [OF assms(1)] assms(2), of "[]" "[]"] assms(3) by simp

end
