(* ===== verification/Contracts.thy ===== *)
theory Contracts
  imports Json
begin

text \<open>
  The data contracts of \<open>agent-core/src/contracts\<close>: identifiers, content blocks, messages,
  tool declarations and settled tool calls, with the projections the engine reads off a
  message. A branded identifier is its string.
\<close>

section \<open>Identifiers\<close>

type_synonym tool_use_id = string
type_synonym background_task_id = string

datatype id_error = EmptyId

text \<open>\<open>toolUseIdFrom\<close>: adopt a provider-assigned identifier; the empty string is rejected.\<close>

definition tool_use_id_from :: "string \<Rightarrow> id_error + tool_use_id" where
  "tool_use_id_from raw = (if raw = [] then Inl EmptyId else Inr raw)"

lemma tool_use_id_from_Inr [simp]: "tool_use_id_from raw = Inr i \<longleftrightarrow> raw \<noteq> [] \<and> i = raw"
  by (auto simp: tool_use_id_from_def)

section \<open>Messages\<close>

datatype content_block =
    TextBlock string
  | ToolUseBlock tool_use_id string json_object
  | ToolResultBlock tool_use_id string bool
  | ReasoningBlock string

datatype message_role = User | Assistant

record message =
  msg_role :: message_role
  msg_content :: "content_block list"

definition user_text :: "string \<Rightarrow> message" where
  "user_text t = \<lparr>msg_role = User, msg_content = [TextBlock t]\<rparr>"

record tool_spec =
  spec_name :: string
  spec_description :: string
  spec_input_schema :: json_object
  spec_output_schema :: "json_object option"

fun block_text :: "content_block \<Rightarrow> string" where
  "block_text (TextBlock t) = t"
| "block_text (ReasoningBlock t) = t"
| "block_text _ = []"

fun is_text :: "content_block \<Rightarrow> bool" where
  "is_text (TextBlock _) = True"
| "is_text _ = False"

fun is_reasoning :: "content_block \<Rightarrow> bool" where
  "is_reasoning (ReasoningBlock _) = True"
| "is_reasoning _ = False"

fun is_tool_use :: "content_block \<Rightarrow> bool" where
  "is_tool_use (ToolUseBlock _ _ _) = True"
| "is_tool_use _ = False"

fun is_tool_result :: "content_block \<Rightarrow> bool" where
  "is_tool_result (ToolResultBlock _ _ _) = True"
| "is_tool_result _ = False"

definition assistant_text :: "message \<Rightarrow> string" where
  "assistant_text m = concat (map block_text (filter is_text (msg_content m)))"

definition reasoning_text :: "message \<Rightarrow> string" where
  "reasoning_text m = concat (map block_text (filter is_reasoning (msg_content m)))"

text \<open>A \<open>tool_use\<close> block on its own: what the engine dispatches.\<close>

record tool_use =
  use_id :: tool_use_id
  use_name :: string
  use_input :: json_object

fun as_tool_use :: "content_block \<Rightarrow> tool_use option" where
  "as_tool_use (ToolUseBlock i n inp) = Some \<lparr>use_id = i, use_name = n, use_input = inp\<rparr>"
| "as_tool_use _ = None"

definition tool_uses :: "message \<Rightarrow> tool_use list" where
  "tool_uses m = List.map_filter as_tool_use (msg_content m)"

lemma tool_uses_Nil_iff: "tool_uses m = [] \<longleftrightarrow> (\<forall>b \<in> set (msg_content m). \<not> is_tool_use b)"
proof -
  have "as_tool_use b \<noteq> None \<longleftrightarrow> is_tool_use b" for b by (cases b) auto
  then show ?thesis by (auto simp: tool_uses_def List.map_filter_def filter_empty_conv)
qed

section \<open>Settled tool calls\<close>

text \<open>
  \<open>ToolCallResult\<close>: the times are epoch milliseconds; \<open>res_metadata\<close> is never shown to the
  model.
\<close>

record tool_call_result =
  res_id :: tool_use_id
  res_content :: json
  res_is_error :: bool
  res_is_terminal :: bool
  res_start :: nat
  res_end :: nat
  res_metadata :: "json_object option"

section \<open>Validation failures\<close>

text \<open>
  A zod issue: its path, a list of property names and array indices (\<open>path.map(String)\<close>
  renders both), and its message.
\<close>

datatype path_step = PathKey string | PathIndex nat

fun render_step :: "path_step \<Rightarrow> string" where
  "render_step (PathKey k) = k"
| "render_step (PathIndex n) = string_of_nat n"

record zod_issue =
  issue_path :: "path_step list"
  issue_message :: string

definition zod_issue_summary :: "zod_issue list \<Rightarrow> string" where
  "zod_issue_summary issues =
     join_with ''; ''
       (map (\<lambda>i. if issue_path i \<noteq> []
                 then join_with ''.'' (map render_step (issue_path i)) @ '': '' @ issue_message i
                 else issue_message i) issues)"

end
