(* ===== verification/LlmTypes.thy ===== *)
theory LlmTypes
  imports Complex_Main Contracts
begin

text \<open>
  The provider-neutral side of \<open>agents/llm-client\<close>: requests, usage, stream events
  (\<open>types.ts\<close>, \<open>events.ts\<close>), the retry configuration (\<open>config.ts\<close>) and the
  error taxonomy with its mapping (\<open>errors.ts\<close>).
  Token counts are integers. Delays are rationals: the configuration schema refuses
  non-finite numbers.
\<close>

section \<open>Requests and usage\<close>

datatype tool_choice = ChooseAuto | ChooseAny | ChooseTool string

datatype reasoning_effort = EffortMinimal | EffortLow | EffortMedium | EffortHigh | EffortMax

record usage_snapshot =
  input_tokens :: int
  output_tokens :: int
  cache_read_input_tokens :: "int option"
  cache_creation_input_tokens :: "int option"

definition zero_usage :: usage_snapshot where
  "zero_usage = \<lparr>input_tokens = 0, output_tokens = 0, cache_read_input_tokens = None,
     cache_creation_input_tokens = None\<rparr>"

record llm_request =
  req_model :: string
  req_messages :: "message list"
  req_system_prompt :: "string option"
  req_max_tokens :: nat
  req_tools :: "tool_spec list"
  req_tool_choice :: "tool_choice option"
  req_reasoning_effort :: "reasoning_effort option"

definition DEFAULT_MAX_TOKENS :: nat where
  "DEFAULT_MAX_TOKENS = 32768"

text \<open>\<open>buildLlmRequest\<close>: each field of the partial request overrides its default.\<close>

record llm_request_init =
  init_model :: string
  init_messages :: "message list option"
  init_system_prompt :: "string option"
  init_max_tokens :: "nat option"
  init_tools :: "tool_spec list option"
  init_tool_choice :: "tool_choice option"
  init_reasoning_effort :: "reasoning_effort option"

definition or_default :: "'a option \<Rightarrow> 'a \<Rightarrow> 'a" where
  "or_default x d = (case x of None \<Rightarrow> d | Some y \<Rightarrow> y)"

lemma or_default_simps [simp]: "or_default None d = d" "or_default (Some y) d = y"
  by (simp_all add: or_default_def)

definition build_llm_request :: "llm_request_init \<Rightarrow> llm_request" where
  "build_llm_request i = \<lparr>
     req_model = init_model i,
     req_messages = or_default (init_messages i) [],
     req_system_prompt = init_system_prompt i,
     req_max_tokens = or_default (init_max_tokens i) DEFAULT_MAX_TOKENS,
     req_tools = or_default (init_tools i) [],
     req_tool_choice = init_tool_choice i,
     req_reasoning_effort = init_reasoning_effort i\<rparr>"

section \<open>Stream events\<close>

type_synonym stop_reason = string

datatype llm_stream_event =
    AssistantTextDelta string
  | ReasoningDelta string
  | ToolUseDelta tool_use_id string json_object
  | AssistantMessageComplete message usage_snapshot "stop_reason option"

fun is_complete :: "llm_stream_event \<Rightarrow> bool" where
  "is_complete (AssistantMessageComplete _ _ _) = True"
| "is_complete _ = False"

section \<open>Provider errors\<close>

datatype provider_error_kind =
    Authentication | RateLimit | Server | RequestError | Transport | Decode

record provider_error =
  pe_kind :: provider_error_kind
  pe_message :: string
  pe_status_code :: "int option"
  pe_request_id :: "string option"
  pe_retry_after_s :: "rat option"
  pe_truncated :: bool

definition kind_of_status :: "int \<Rightarrow> provider_error_kind" where
  "kind_of_status status =
     (if status = 401 \<or> status = 403 then Authentication
      else if status = 429 then RateLimit
      else if status = 500 \<or> status = 502 \<or> status = 503 \<or> status = 529 then Server
      else RequestError)"

definition from_status :: "int \<Rightarrow> string \<Rightarrow> string option \<Rightarrow> rat option \<Rightarrow> provider_error" where
  "from_status status msg rid retry_after = \<lparr>
     pe_kind = kind_of_status status, pe_message = msg, pe_status_code = Some status,
     pe_request_id = rid, pe_retry_after_s = retry_after, pe_truncated = False\<rparr>"

definition transport_error :: "string \<Rightarrow> provider_error" where
  "transport_error msg = \<lparr>
     pe_kind = Transport, pe_message = msg, pe_status_code = None,
     pe_request_id = None, pe_retry_after_s = None, pe_truncated = False\<rparr>"

definition truncated_stream :: "string option \<Rightarrow> provider_error" where
  "truncated_stream rid = \<lparr>
     pe_kind = Decode, pe_message = ''stream ended without provider terminal event'',
     pe_status_code = None, pe_request_id = rid, pe_retry_after_s = None, pe_truncated = True\<rparr>"

definition plain_error :: "provider_error_kind \<Rightarrow> string \<Rightarrow> string option \<Rightarrow> provider_error" where
  "plain_error k msg rid = \<lparr>
     pe_kind = k, pe_message = msg, pe_status_code = None,
     pe_request_id = rid, pe_retry_after_s = None, pe_truncated = False\<rparr>"

text \<open>
  What reaches a \<open>catch\<close>: an owned provider error, one of the two sdk error classes, the
  abort error of the caller's signal, or anything else with its message
  (\<open>error.message\<close> or \<open>String(error)\<close>). Response headers are a lookup by name.
\<close>

type_synonym headers = "string \<Rightarrow> string option"

datatype thrown =
    ThrownProvider provider_error
  | ThrownSdkConnection string
  | ThrownSdkApi "int option" headers string
  | ThrownAbort
  | ThrownOther string

fun thrown_message :: "thrown \<Rightarrow> string" where
  "thrown_message (ThrownProvider e) = pe_message e"
| "thrown_message (ThrownSdkConnection m) = m"
| "thrown_message (ThrownSdkApi _ _ m) = m"
| "thrown_message ThrownAbort = ''This operation was aborted''"
| "thrown_message (ThrownOther m) = m"

definition or_else :: "'a option \<Rightarrow> 'a option \<Rightarrow> 'a option" where
  "or_else x y = (case x of None \<Rightarrow> y | Some a \<Rightarrow> Some a)"

lemma or_else_simps [simp]: "or_else None y = y" "or_else (Some a) y = Some a"
  by (simp_all add: or_else_def)

definition request_id_of :: "headers \<Rightarrow> string option" where
  "request_id_of h = or_else (h ''request-id'') (h ''x-request-id'')"

text \<open>
  \<open>retryAfterSeconds\<close>. The conversions \<open>Number(raw)\<close> (finite values only) and
  \<open>Date.parse(raw)\<close> (in milliseconds), and the current time, belong to the runtime.
\<close>

definition retry_after_seconds ::
    "(string \<Rightarrow> rat option) \<Rightarrow> (string \<Rightarrow> rat option) \<Rightarrow> rat \<Rightarrow> headers \<Rightarrow> rat option" where
  "retry_after_seconds number date_ms now_ms h =
     (case h ''retry-after'' of
        None \<Rightarrow> None
      | Some raw \<Rightarrow>
          (case number raw of
             Some s \<Rightarrow> (if s \<ge> 0 then Some s else None)
           | None \<Rightarrow>
               (case date_ms raw of
                  None \<Rightarrow> None
                | Some d \<Rightarrow> Some (max 0 ((d - now_ms) / 1000)))))"

datatype phase = OpenPhase | StreamPhase

fun to_provider_error ::
    "(headers \<Rightarrow> rat option) \<Rightarrow> thrown \<Rightarrow> phase \<Rightarrow> string option \<Rightarrow> provider_error" where
  "to_provider_error retry_after (ThrownProvider e) ph rid = e"
| "to_provider_error retry_after (ThrownSdkConnection msg) ph rid = plain_error Transport msg rid"
| "to_provider_error retry_after (ThrownSdkApi status h msg) ph rid =
     (let request_id = or_else (request_id_of h) rid in
      case status of
        Some st \<Rightarrow> from_status st msg request_id (retry_after h)
      | None \<Rightarrow> plain_error Decode msg request_id)"
| "to_provider_error retry_after other ph rid =
     plain_error (if ph = OpenPhase then RequestError else Decode) (thrown_message other) rid"

lemma retry_after_nonneg: "retry_after_seconds number date_ms now h = Some s \<Longrightarrow> 0 \<le> s"
  by (auto simp: retry_after_seconds_def split: option.splits if_splits)

section \<open>Retry configuration\<close>

record retry_config =
  max_retries :: nat
  base_delay_s :: rat
  max_delay_s :: rat
  status_codes :: "int list"

definition default_retry_config :: retry_config where
  "default_retry_config = \<lparr>max_retries = 3, base_delay_s = 1, max_delay_s = 30,
     status_codes = [429, 500, 502, 503, 529]\<rparr>"

text \<open>What the schema of the retry configuration lets through.\<close>

definition wf_retry_config :: "retry_config \<Rightarrow> bool" where
  "wf_retry_config cfg = (0 \<le> base_delay_s cfg \<and> 0 \<le> max_delay_s cfg)"

lemma wf_default_retry_config: "wf_retry_config default_retry_config"
  by (simp add: wf_retry_config_def default_retry_config_def)

end
