(* ===== verification/Wire.thy ===== *)
theory Wire
  imports LlmTypes
begin

text \<open>
  What the wires share (\<open>agents/llm-client/wires/wire.ts\<close>): the encode quirks that travel as
  data, the parsing of accumulated tool arguments, and how a prompt-cache breakpoint counts.
  \<open>JSON.parse\<close> is an argument, \<open>None\<close> standing for a thrown \<open>SyntaxError\<close>.
\<close>

datatype dialect = PublicDialect | CodexDialect

record wire_options =
  wo_system_prefix :: "string option"
  wo_dialect :: "dialect option"

definition parse_tool_args :: "(string \<Rightarrow> json option) \<Rightarrow> string \<Rightarrow> json_object" where
  "parse_tool_args parse raw =
     (if raw = [] then []
      else case parse raw of
             Some (JObj kvs) \<Rightarrow> kvs
           | _ \<Rightarrow> [])"

lemma parse_tool_args_simps [simp]:
  "parse_tool_args parse [] = []"
  "parse raw = Some (JObj kvs) \<Longrightarrow> raw \<noteq> [] \<Longrightarrow> parse_tool_args parse raw = kvs"
  by (simp_all add: parse_tool_args_def)

text \<open>
  What a provider streams for one block of a message: the block's kind, and its text or
  argument json cut into chunks anywhere.
\<close>

datatype source_block =
    SrcText "string list"
  | SrcThinking "string list"
  | SrcTool tool_use_id string "string list"

fun block_of :: "(string \<Rightarrow> json option) \<Rightarrow> source_block \<Rightarrow> content_block" where
  "block_of parse (SrcText cs) = TextBlock (concat cs)"
| "block_of parse (SrcThinking cs) = ReasoningBlock (concat cs)"
| "block_of parse (SrcTool i n cs) = ToolUseBlock i n (parse_tool_args parse (concat cs))"

fun deltas_of :: "(string \<Rightarrow> json option) \<Rightarrow> source_block \<Rightarrow> llm_stream_event list" where
  "deltas_of parse (SrcText cs) = map AssistantTextDelta cs"
| "deltas_of parse (SrcThinking cs) = map ReasoningDelta cs"
| "deltas_of parse (SrcTool i n cs) = [ToolUseDelta i n (parse_tool_args parse (concat cs))]"

fun src_ok :: "source_block \<Rightarrow> bool" where
  "src_ok (SrcTool i n cs) = (i \<noteq> [])"
| "src_ok _ = True"

end
