(* ===== verification/Retry.thy ===== *)
theory Retry
  imports LlmTypes
begin

text \<open>
  The visible-output retry gate of \<open>agents/llm-client/retry.ts\<close>. One attempt is what the
  gate observes of it: the events it yielded, how it ended, and what the caller's abort
  signal read at each check. The number of retries is bounded by the configuration, so the
  gate is a total function of the attempts.
\<close>

section \<open>The gate\<close>

fun is_visible :: "llm_stream_event \<Rightarrow> bool" where
  "is_visible (AssistantTextDelta _) = True"
| "is_visible (ReasoningDelta _) = True"
| "is_visible (ToolUseDelta _ _ _) = True"
| "is_visible (AssistantMessageComplete _ _ _) = False"

definition is_retryable :: "retry_config \<Rightarrow> provider_error \<Rightarrow> bool" where
  "is_retryable cfg e =
     (case pe_kind e of
        RateLimit \<Rightarrow> (case pe_status_code e of None \<Rightarrow> False | Some c \<Rightarrow> c \<in> set (status_codes cfg))
      | Server \<Rightarrow> (case pe_status_code e of None \<Rightarrow> False | Some c \<Rightarrow> c \<in> set (status_codes cfg))
      | Transport \<Rightarrow> True
      | Decode \<Rightarrow> pe_truncated e
      | Authentication \<Rightarrow> False
      | RequestError \<Rightarrow> False)"

definition backoff_delay_ms :: "retry_config \<Rightarrow> provider_error \<Rightarrow> nat \<Rightarrow> rat" where
  "backoff_delay_ms cfg e attempt =
     min (or_default (pe_retry_after_s e) (base_delay_s cfg * 2 ^ attempt)) (max_delay_s cfg) * 1000"

text \<open>The sleeps of one backoff: none for a non-positive delay.\<close>

definition backoff_sleeps :: "retry_config \<Rightarrow> provider_error \<Rightarrow> nat \<Rightarrow> rat list" where
  "backoff_sleeps cfg e attempt =
     (let d = backoff_delay_ms cfg e attempt in if d > 0 then [d] else [])"

datatype attempt_end = Ended | Threw thrown

text \<open>
  \<open>ob_pre_aborted\<close>, \<open>ob_aborted\<close> and \<open>ob_backoff_aborted\<close> are the signal's state before the
  attempt, in the \<open>catch\<close>, and after the backoff.
\<close>

record attempt_obs =
  ob_pre_aborted :: bool
  ob_events :: "llm_stream_event list"
  ob_end :: attempt_end
  ob_aborted :: bool
  ob_backoff_aborted :: bool

record retry_log =
  rl_output :: "llm_stream_event list"
  rl_attempts :: nat
  rl_sleeps :: "rat list"
  rl_end :: attempt_end

definition stop_log :: "llm_stream_event list \<Rightarrow> nat \<Rightarrow> rat list \<Rightarrow> attempt_end \<Rightarrow> retry_log" where
  "stop_log out n sleeps e = \<lparr>rl_output = out, rl_attempts = n, rl_sleeps = sleeps, rl_end = e\<rparr>"

definition after_attempt :: "llm_stream_event list \<Rightarrow> rat list \<Rightarrow> retry_log \<Rightarrow> retry_log" where
  "after_attempt out sleeps r =
     r\<lparr>rl_output := out @ rl_output r, rl_attempts := Suc (rl_attempts r), rl_sleeps := sleeps @ rl_sleeps r\<rparr>"

function retry_from :: "retry_config \<Rightarrow> (nat \<Rightarrow> attempt_obs) \<Rightarrow> nat \<Rightarrow> bool \<Rightarrow> retry_log" where
  "retry_from cfg obs k visible =
     (let a = obs k in
      if ob_pre_aborted a then stop_log [] 0 [] (Threw ThrownAbort)
      else
        let visible' = (visible \<or> list_ex is_visible (ob_events a)) in
        case ob_end a of
          Ended \<Rightarrow> stop_log (ob_events a) 1 [] Ended
        | Threw err \<Rightarrow>
            (if ob_aborted a then stop_log (ob_events a) 1 [] (Threw err)
             else case err of
               ThrownProvider pe \<Rightarrow>
                 (if visible' \<or> k \<ge> max_retries cfg \<or> \<not> is_retryable cfg pe
                  then stop_log (ob_events a) 1 [] (Threw err)
                  else if ob_backoff_aborted a
                  then stop_log (ob_events a) 1 (backoff_sleeps cfg pe k) (Threw ThrownAbort)
                  else after_attempt (ob_events a) (backoff_sleeps cfg pe k)
                         (retry_from cfg obs (Suc k) visible'))
             | _ \<Rightarrow> stop_log (ob_events a) 1 [] (Threw err)))"
  by pat_completeness auto
termination by (relation "measure (\<lambda>(cfg, obs, k, v). Suc (max_retries cfg) - k)") auto

declare retry_from.simps [simp del]

definition retry_stream :: "retry_config \<Rightarrow> (nat \<Rightarrow> attempt_obs) \<Rightarrow> retry_log" where
  "retry_stream cfg obs = retry_from cfg obs 0 False"

section \<open>What a retried attempt was\<close>

text \<open>An attempt after which another one is started.\<close>

definition retried :: "retry_config \<Rightarrow> attempt_obs \<Rightarrow> bool" where
  "retried cfg a =
     (\<not> ob_pre_aborted a \<and> \<not> ob_aborted a \<and> \<not> ob_backoff_aborted a \<and> list_all (\<lambda>e. \<not> is_visible e) (ob_events a) \<and>
      (\<exists>pe. ob_end a = Threw (ThrownProvider pe) \<and> is_retryable cfg pe))"

lemma stop_log_simps [simp]:
  "rl_output (stop_log out n sleeps e) = out" "rl_attempts (stop_log out n sleeps e) = n"
  "rl_sleeps (stop_log out n sleeps e) = sleeps" "rl_end (stop_log out n sleeps e) = e"
  by (simp_all add: stop_log_def)

lemma after_attempt_simps [simp]:
  "rl_output (after_attempt out sleeps r) = out @ rl_output r"
  "rl_attempts (after_attempt out sleeps r) = Suc (rl_attempts r)"
  "rl_sleeps (after_attempt out sleeps r) = sleeps @ rl_sleeps r"
  "rl_end (after_attempt out sleeps r) = rl_end r"
  by (simp_all add: after_attempt_def)

lemma not_list_ex: "\<not> list_ex P xs \<longleftrightarrow> list_all (\<lambda>x. \<not> P x) xs"
  by (induction xs) auto

text \<open>One unfolding: the gate stops here, or this attempt is retried.\<close>

lemma retry_cases:
  obtains (stop) n sleeps e where "retry_from cfg obs k visible = stop_log (if n = 0 then [] else ob_events (obs k)) n sleeps e"
      "n \<le> 1" "sleeps = [] \<or> (\<exists>pe. sleeps = backoff_sleeps cfg pe k)"
      "(n = 0 \<and> ob_pre_aborted (obs k) \<and> e = Threw ThrownAbort) \<or>
       (n = 1 \<and> (e = ob_end (obs k) \<or> ob_backoff_aborted (obs k) \<and> e = Threw ThrownAbort))"
    | (again) pe where "retried cfg (obs k)" "\<not> visible" "k < max_retries cfg"
      "retry_from cfg obs k visible = after_attempt (ob_events (obs k)) (backoff_sleeps cfg pe k) (retry_from cfg obs (Suc k) False)"
proof (cases "retried cfg (obs k) \<and> \<not> visible \<and> k < max_retries cfg")
  case True
  then obtain pe where "ob_end (obs k) = Threw (ThrownProvider pe)" "is_retryable cfg pe"
    by (auto simp: retried_def)
  with True have "retry_from cfg obs k visible =
      after_attempt (ob_events (obs k)) (backoff_sleeps cfg pe k) (retry_from cfg obs (Suc k) False)"
    by (subst retry_from.simps) (simp add: retried_def Let_def not_list_ex [symmetric])
  with True again show ?thesis by blast
next
  case False
  have "\<exists>n sleeps e. retry_from cfg obs k visible = stop_log (if n = 0 then [] else ob_events (obs k)) n sleeps e
      \<and> n \<le> 1 \<and> (sleeps = [] \<or> (\<exists>pe. sleeps = backoff_sleeps cfg pe k)) \<and>
      ((n = 0 \<and> ob_pre_aborted (obs k) \<and> e = Threw ThrownAbort) \<or>
       (n = 1 \<and> (e = ob_end (obs k) \<or> ob_backoff_aborted (obs k) \<and> e = Threw ThrownAbort)))"
  proof (cases "ob_pre_aborted (obs k)")
    case True
    then have "retry_from cfg obs k visible = stop_log [] 0 [] (Threw ThrownAbort)"
      by (subst retry_from.simps) simp
    with True show ?thesis by (intro exI [of _ 0] exI [of _ "[]"]) auto
  next
    case na: False
    have "\<exists>sleeps e. retry_from cfg obs k visible = stop_log (ob_events (obs k)) 1 sleeps e
        \<and> (sleeps = [] \<or> (\<exists>pe. sleeps = backoff_sleeps cfg pe k))
        \<and> (e = ob_end (obs k) \<or> ob_backoff_aborted (obs k) \<and> e = Threw ThrownAbort)"
      using False na
      by (subst retry_from.simps)
         (auto simp: retried_def Let_def not_list_ex [symmetric] split: attempt_end.splits thrown.splits)
    then show ?thesis by (metis le_refl one_neq_zero)
  qed
  with stop show ?thesis by blast
qed

lemma sleeps_bounded: "d \<in> set (backoff_sleeps cfg pe k) \<Longrightarrow> 0 < d \<and> d \<le> max_delay_s cfg * 1000"
  by (auto simp: backoff_sleeps_def backoff_delay_ms_def Let_def split: if_splits)

lemma retry_from_spec:
  "k \<le> max_retries cfg \<Longrightarrow>
   rl_attempts (retry_from cfg obs k visible) \<le> Suc (max_retries cfg) - k \<and>
   rl_output (retry_from cfg obs k visible) =
     concat (map (ob_events \<circ> obs) [k..<k + rl_attempts (retry_from cfg obs k visible)]) \<and>
   (\<forall>i. k \<le> i \<and> Suc i < k + rl_attempts (retry_from cfg obs k visible) \<longrightarrow> retried cfg (obs i)) \<and>
   (\<forall>d \<in> set (rl_sleeps (retry_from cfg obs k visible)). 0 < d \<and> d \<le> max_delay_s cfg * 1000)"
proof (induction "Suc (max_retries cfg) - k" arbitrary: k visible rule: less_induct)
  case less
  show ?case
  proof (cases rule: retry_cases [of cfg obs k visible])
    case (stop n sleeps e)
    then consider "n = 0" | "n = 1" by linarith
    then show ?thesis
    proof cases
      case 1
      with stop sleeps_bounded [of _ cfg _ k] show ?thesis unfolding stop(1) by auto
    next
      case 2
      with stop sleeps_bounded [of _ cfg _ k] less.prems show ?thesis unfolding stop(1) by (auto simp: upt_conv_Cons)
    qed
  next
    case (again pe)
    let ?r = "retry_from cfg obs (Suc k) False"
    have IH: "rl_attempts ?r \<le> Suc (max_retries cfg) - Suc k \<and>
       rl_output ?r = concat (map (ob_events \<circ> obs) [Suc k..<Suc k + rl_attempts ?r]) \<and>
       (\<forall>i. Suc k \<le> i \<and> Suc i < Suc k + rl_attempts ?r \<longrightarrow> retried cfg (obs i)) \<and>
       (\<forall>d \<in> set (rl_sleeps ?r). 0 < d \<and> d \<le> max_delay_s cfg * 1000)"
      using less.hyps [of "Suc k" False] again(3) less.prems by auto
    have "[k..<k + Suc (rl_attempts ?r)] = k # [Suc k..<Suc k + rl_attempts ?r]"
      by (simp add: upt_conv_Cons del: upt_Suc)
    moreover have "retried cfg (obs i)" if "k \<le> i" "Suc i < k + Suc (rl_attempts ?r)" for i
      using that IH again(1) by (cases "i = k") auto
    moreover have "\<forall>d \<in> set (backoff_sleeps cfg pe k). 0 < d \<and> d \<le> max_delay_s cfg * 1000"
      using sleeps_bounded by blast
    ultimately show ?thesis using IH again(3) less.prems unfolding again(4) after_attempt_simps by auto
  qed
qed

text \<open>
  C17: the retry gate always returns; it makes at most \<open>max_retries + 1\<close> attempts, forwards the
  events of its attempts in order, starts another attempt only after a retryable failure that
  had shown no visible output and with the signal not aborted (so no text or tool call is
  ever duplicated), and never sleeps longer than the configured cap.
\<close>

theorem retry_gate:
  "rl_attempts (retry_stream cfg obs) \<le> Suc (max_retries cfg) \<and>
   rl_output (retry_stream cfg obs) = concat (map (ob_events \<circ> obs) [0..<rl_attempts (retry_stream cfg obs)]) \<and>
   (\<forall>i. Suc i < rl_attempts (retry_stream cfg obs) \<longrightarrow> retried cfg (obs i)) \<and>
   (\<forall>d \<in> set (rl_sleeps (retry_stream cfg obs)). 0 < d \<and> d \<le> max_delay_s cfg * 1000)"
  using retry_from_spec [of 0 cfg obs False] by (simp add: retry_stream_def)

theorem retry_gate_witness:
  "let down = \<lparr>ob_pre_aborted = False, ob_events = [], ob_end = Threw (ThrownProvider (transport_error ''reset'')),
               ob_aborted = False, ob_backoff_aborted = False\<rparr>;
       up = \<lparr>ob_pre_aborted = False, ob_events = [AssistantTextDelta ''hi''], ob_end = Ended,
               ob_aborted = False, ob_backoff_aborted = False\<rparr>;
       r = retry_stream default_retry_config (\<lambda>k. if k < 2 then down else up)
   in rl_attempts r = 3 \<and> rl_output r = [AssistantTextDelta ''hi''] \<and> rl_sleeps r = [1000, 2000] \<and> retried default_retry_config down"
proof -
  define down where "down = \<lparr>ob_pre_aborted = False, ob_events = [], ob_end = Threw (ThrownProvider (transport_error ''reset'')),
               ob_aborted = False, ob_backoff_aborted = False\<rparr>"
  define up where "up = \<lparr>ob_pre_aborted = False, ob_events = [AssistantTextDelta ''hi''], ob_end = Ended,
               ob_aborted = False, ob_backoff_aborted = False\<rparr>"
  define obs where "obs = (\<lambda>k :: nat. if k < 2 then down else up)"
  note ev = obs_def down_def up_def is_retryable_def transport_error_def default_retry_config_def
    backoff_sleeps_def backoff_delay_ms_def
  have "retry_from default_retry_config obs 0 False = after_attempt [] [1000] (retry_from default_retry_config obs 1 False)"
    by (subst retry_from.simps) (simp add: ev)
  moreover have "retry_from default_retry_config obs 1 False = after_attempt [] [2000] (retry_from default_retry_config obs 2 False)"
    by (subst retry_from.simps) (simp add: ev numeral_2_eq_2)
  moreover have "retry_from default_retry_config obs 2 False = stop_log [AssistantTextDelta ''hi''] 1 [] Ended"
    by (subst retry_from.simps) (simp add: ev)
  ultimately have r: "retry_stream default_retry_config obs = stop_log [AssistantTextDelta ''hi''] 3 [1000, 2000] Ended"
    by (simp add: retry_stream_def after_attempt_def stop_log_def)
  have "Suc 0 < rl_attempts (retry_stream default_retry_config obs)" by (simp add: r)
  with retry_gate [of default_retry_config obs] have "retried default_retry_config (obs 0)" by blast
  then have "retried default_retry_config down" by (simp add: obs_def)
  with r show ?thesis
    unfolding Let_def down_def [symmetric] up_def [symmetric] obs_def [symmetric] by simp
qed

end
