(* ===== verification/StreamClient.thy ===== *)
theory StreamClient
  imports Retry
begin

text \<open>
  \<open>agents/llm-client/stream-client.ts\<close>: one wire attempt (open, idle watchdog, decode,
  terminal-event contract) and the client that retries attempts. The provider stream is what
  the watchdog reads from it: chunks, then possibly an idle timeout or a failure; an
  exhausted list is a clean end. \<open>stream_decoder\<close> is the interface of a wire's decoder; from
  its laws follows the contract \<open>LlmClient\<close> states for one leg.
\<close>

section \<open>Decoders\<close>

text \<open>
  \<open>handle\<close> is a generator: it yields events, and may throw after them; \<open>completed\<close> is set
  by the provider's terminal event.
\<close>

record ('e, 'd) wire_decoder =
  dec_init :: "string option \<Rightarrow> 'd"
  dec_handle :: "'e \<Rightarrow> 'd \<Rightarrow> llm_stream_event list \<times> thrown option \<times> 'd"
  dec_completed :: "'d \<Rightarrow> bool"

section \<open>One attempt\<close>

datatype 'e stream_read = Chunk 'e | IdleTimeout | ReadFails thrown

text \<open>The loop of \<open>runAttempt\<close> over \<open>withIdleGuard\<close>; \<open>idle\<close> renders the watchdog's window.\<close>

fun feed :: "('e, 'd) wire_decoder \<Rightarrow> string \<Rightarrow> 'e stream_read list \<Rightarrow> 'd \<Rightarrow>
    llm_stream_event list \<times> thrown option \<times> 'd" where
  "feed D idle [] d = ([], None, d)"
| "feed D idle (IdleTimeout # rs) d =
     ([], Some (ThrownProvider (transport_error (''provider stream idle for '' @ idle @ ''s''))), d)"
| "feed D idle (ReadFails e # rs) d = ([], Some e, d)"
| "feed D idle (Chunk c # rs) d =
     (case dec_handle D c d of
        (es, Some err, d1) \<Rightarrow> (es, Some err, d1)
      | (es, None, d1) \<Rightarrow>
          (if dec_completed D d1 then (es, None, d1)
           else case feed D idle rs d1 of (fs, r, d2) \<Rightarrow> (es @ fs, r, d2)))"

text \<open>Reading on after some events were yielded.\<close>

definition prefixed :: "llm_stream_event list \<Rightarrow> llm_stream_event list \<times> thrown option \<times> 'd \<Rightarrow>
    llm_stream_event list \<times> thrown option \<times> 'd" where
  "prefixed es q = (case q of (fs, r, d) \<Rightarrow> (es @ fs, r, d))"

lemma prefixed_simps [simp]:
  "prefixed [] q = q"
  "prefixed es (prefixed fs q) = prefixed (es @ fs) q"
  "prefixed es (fs, r, d) = (es @ fs, r, d)"
  by (simp_all add: prefixed_def split: prod.splits)

lemma feed_chunk:
  "dec_handle D c d = (es, None, d1) \<Longrightarrow> \<not> dec_completed D d1 \<Longrightarrow>
   feed D idle (Chunk c # rs) d = prefixed es (feed D idle rs d1)"
  by (simp add: prefixed_def)

lemma feed_last:
  "dec_handle D c d = (es, None, d1) \<Longrightarrow> dec_completed D d1 \<Longrightarrow> feed D idle (Chunk c # rs) d = (es, None, d1)"
  by simp

datatype open_result = OpenFails thrown | Opened "string option"

text \<open>
  What one attempt meets: the signal before it, \<open>wire.open\<close>, the reads, and the signal when
  the attempt stops, in the retry gate's \<open>catch\<close> (an abort stays) and after the backoff.
\<close>

record 'e attempt_world =
  aw_pre_aborted :: bool
  aw_open :: open_result
  aw_reads :: "'e stream_read list"
  aw_aborted :: bool
  aw_late_abort :: bool
  aw_backoff_aborted :: bool

definition run_attempt ::
    "('e, 'd) wire_decoder \<Rightarrow> (headers \<Rightarrow> rat option) \<Rightarrow> string \<Rightarrow> 'e attempt_world \<Rightarrow>
     llm_stream_event list \<times> attempt_end" where
  "run_attempt D retry_after idle w =
     (case aw_open w of
        OpenFails e \<Rightarrow>
          ([], Threw (if aw_aborted w then e else ThrownProvider (to_provider_error retry_after e OpenPhase None)))
      | Opened rid \<Rightarrow>
          (case feed D idle (aw_reads w) (dec_init D rid) of
             (es, Some e, d) \<Rightarrow>
               (es, Threw (if aw_aborted w then e else ThrownProvider (to_provider_error retry_after e StreamPhase rid)))
           | (es, None, d) \<Rightarrow>
               (es, if aw_aborted w then Threw ThrownAbort
                    else if \<not> dec_completed D d then Threw (ThrownProvider (truncated_stream rid))
                    else Ended)))"

definition observe_attempt ::
    "('e, 'd) wire_decoder \<Rightarrow> (headers \<Rightarrow> rat option) \<Rightarrow> string \<Rightarrow> 'e attempt_world \<Rightarrow> attempt_obs" where
  "observe_attempt D retry_after idle w =
     (let (es, r) = run_attempt D retry_after idle w
      in \<lparr>ob_pre_aborted = aw_pre_aborted w, ob_events = es, ob_end = r,
          ob_aborted = aw_aborted w \<or> aw_late_abort w, ob_backoff_aborted = aw_backoff_aborted w\<rparr>)"

text \<open>\<open>streamMessage\<close>: attempt \<open>k\<close> meets the world \<open>ws k\<close>.\<close>

definition stream_message ::
    "('e, 'd) wire_decoder \<Rightarrow> (headers \<Rightarrow> rat option) \<Rightarrow> retry_config \<Rightarrow> string \<Rightarrow>
     (nat \<Rightarrow> 'e attempt_world) \<Rightarrow> retry_log" where
  "stream_message D retry_after cfg idle ws = retry_stream cfg (observe_attempt D retry_after idle \<circ> ws)"

section \<open>The leg contract\<close>

definition complete_leg :: "llm_stream_event list \<Rightarrow> bool" where
  "complete_leg es =
     (\<exists>ds m u r. es = ds @ [AssistantMessageComplete m u r] \<and> list_all is_visible ds \<and> msg_role m = Assistant)"

text \<open>The signal was aborted during the last of \<open>n\<close> attempts, in the backoff after it, or then before the next one.\<close>

definition cut_short :: "(nat \<Rightarrow> 'e attempt_world) \<Rightarrow> nat \<Rightarrow> bool" where
  "cut_short ws n =
     (aw_pre_aborted (ws n) \<or> 0 < n \<and> (aw_aborted (ws (n - 1)) \<or> aw_backoff_aborted (ws (n - 1))))"

text \<open>The gate ends as its last attempt did, or with the abort it met before or after one.\<close>

lemma retry_end:
  "(rl_end (retry_from cfg obs k visible) = Threw ThrownAbort \<and>
      (ob_pre_aborted (obs (k + rl_attempts (retry_from cfg obs k visible))) \<or>
       (\<exists>n. rl_attempts (retry_from cfg obs k visible) = Suc n \<and> ob_backoff_aborted (obs (k + n))))) \<or>
   (\<exists>n. rl_attempts (retry_from cfg obs k visible) = Suc n \<and>
        ob_end (obs (k + n)) = rl_end (retry_from cfg obs k visible))"
proof (induction "Suc (max_retries cfg) - k" arbitrary: k visible rule: less_induct)
  case less
  show ?case
  proof (cases rule: retry_cases [of cfg obs k visible])
    case (stop n sleeps e)
    then show ?thesis unfolding stop(1) by auto
  next
    case (again pe)
    let ?r = "retry_from cfg obs (Suc k) False"
    have "(rl_end ?r = Threw ThrownAbort \<and> (ob_pre_aborted (obs (Suc k + rl_attempts ?r)) \<or>
        (\<exists>n. rl_attempts ?r = Suc n \<and> ob_backoff_aborted (obs (Suc k + n))))) \<or>
      (\<exists>n. rl_attempts ?r = Suc n \<and> ob_end (obs (Suc k + n)) = rl_end ?r)"
      using again(3) by (intro less.hyps) simp
    then show ?thesis unfolding again(4) by auto
  qed
qed

locale stream_decoder =
  fixes D :: "('e, 'd) wire_decoder"
  assumes starts_open: "\<not> dec_completed D (dec_init D rid)"
    and completes: "dec_handle D c d = (es, None, d') \<Longrightarrow> \<not> dec_completed D d \<Longrightarrow> dec_completed D d' \<Longrightarrow> complete_leg es"
    and continues: "dec_handle D c d = (es, err, d') \<Longrightarrow> \<not> dec_completed D d \<Longrightarrow>
      err \<noteq> None \<or> \<not> dec_completed D d' \<Longrightarrow> list_all is_visible es"
begin

lemma complete_leg_append: "list_all is_visible es \<Longrightarrow> complete_leg fs \<Longrightarrow> complete_leg (es @ fs)"
  unfolding complete_leg_def by (metis append_assoc list_all_append)

lemma feed_leg:
  "\<not> dec_completed D d \<Longrightarrow> feed D idle rs d = (es, r, d') \<Longrightarrow>
   (if r = None \<and> dec_completed D d' then complete_leg es else list_all is_visible es)"
proof (induction rs arbitrary: d es r d')
  case (Cons x rs)
  show ?case
  proof (cases x)
    case (Chunk c)
    obtain es1 err d1 where h: "dec_handle D c d = (es1, err, d1)" by (cases "dec_handle D c d")
    show ?thesis
    proof (cases "err = None \<and> \<not> dec_completed D d1")
      case True
      obtain fs r2 d2 where f: "feed D idle rs d1 = (fs, r2, d2)" by (cases "feed D idle rs d1")
      have "list_all is_visible es1" using continues [OF h] Cons.prems(1) True by blast
      with Cons.IH [OF _ f] True Cons.prems(2) Chunk h f complete_leg_append show ?thesis by auto
    next
      case False
      then show ?thesis
        using Cons.prems Chunk h completes [of c d es1 d1] continues [OF h] by (cases err) auto
    qed
  qed (use Cons.prems in auto)
qed simp

lemma run_attempt_leg:
  assumes "run_attempt D retry_after idle w = (es, r)"
  shows "(r = Ended \<longrightarrow> complete_leg es) \<and>
         (\<forall>e. r = Threw e \<longrightarrow> \<not> aw_aborted w \<longrightarrow> list_all is_visible es \<and> (\<exists>pe. e = ThrownProvider pe)) \<and>
         (\<forall>e. r = Threw e \<longrightarrow> list_all is_visible es \<or> e = ThrownAbort \<and> complete_leg es)"
proof (cases "aw_open w")
  case (Opened rid)
  obtain fs q d where f: "feed D idle (aw_reads w) (dec_init D rid) = (fs, q, d)"
    by (cases "feed D idle (aw_reads w) (dec_init D rid)")
  from feed_leg [OF starts_open f] assms Opened f show ?thesis
    by (auto simp: run_attempt_def split: option.splits if_splits)
qed (use assms in \<open>auto simp: run_attempt_def split: if_splits\<close>)

lemma retried_silent:
  assumes "retried cfg (observe_attempt D retry_after idle w)"
  shows "ob_events (observe_attempt D retry_after idle w) = []"
proof -
  obtain es r where ra: "run_attempt D retry_after idle w = (es, r)" by (cases "run_attempt D retry_after idle w")
  from assms ra have "list_all (\<lambda>e. \<not> is_visible e) es" "\<not> aw_aborted w" "\<exists>e. r = Threw e"
    by (auto simp: retried_def observe_attempt_def)
  with run_attempt_leg [OF ra] show ?thesis
    using ra by (cases es) (auto simp: observe_attempt_def)
qed

text \<open>Attempts before the last one forwarded nothing.\<close>

lemma last_attempt_speaks:
  assumes "rl_attempts (stream_message D retry_after cfg idle ws) = Suc n"
  shows "rl_output (stream_message D retry_after cfg idle ws) = ob_events (observe_attempt D retry_after idle (ws n))"
proof -
  let ?obs = "observe_attempt D retry_after idle \<circ> ws"
  let ?r = "retry_stream cfg ?obs"
  have n: "rl_attempts ?r = Suc n" using assms by (simp add: stream_message_def)
  have "ob_events (?obs i) = []" if "i < n" for i
  proof -
    have "retried cfg (?obs i)" using that n retry_from_spec [of 0 cfg ?obs False] by (simp add: retry_stream_def)
    with retried_silent [of cfg retry_after idle "ws i"] show ?thesis by simp
  qed
  then have "concat (map (ob_events \<circ> ?obs) [0..<n]) = []" by simp
  then show ?thesis
    using retry_from_spec [of 0 cfg ?obs False] n by (simp add: retry_stream_def stream_message_def)
qed

lemma stream_message_leg:
  assumes "rl_end (stream_message D retry_after cfg idle ws) = Ended"
  shows "complete_leg (rl_output (stream_message D retry_after cfg idle ws))"
proof -
  let ?obs = "observe_attempt D retry_after idle \<circ> ws"
  obtain n where n: "rl_attempts (stream_message D retry_after cfg idle ws) = Suc n" and e: "ob_end (?obs n) = Ended"
    using retry_end [of cfg ?obs 0 False] assms by (auto simp: stream_message_def retry_stream_def)
  obtain es q where ra: "run_attempt D retry_after idle (ws n) = (es, q)"
    by (cases "run_attempt D retry_after idle (ws n)")
  from run_attempt_leg [OF ra] e ra show ?thesis
    unfolding last_attempt_speaks [OF n] by (simp add: observe_attempt_def)
qed

lemma stream_message_failure:
  assumes "rl_end (stream_message D retry_after cfg idle ws) = Threw e"
  shows "if cut_short ws (rl_attempts (stream_message D retry_after cfg idle ws))
    then list_all is_visible (rl_output (stream_message D retry_after cfg idle ws)) \<or>
      e = ThrownAbort \<and> complete_leg (rl_output (stream_message D retry_after cfg idle ws))
    else (\<exists>pe. e = ThrownProvider pe) \<and> list_all is_visible (rl_output (stream_message D retry_after cfg idle ws))"
proof -
  let ?obs = "observe_attempt D retry_after idle \<circ> ws"
  let ?r = "stream_message D retry_after cfg idle ws"
  have obs: "ob_pre_aborted (?obs i) = aw_pre_aborted (ws i)" "ob_backoff_aborted (?obs i) = aw_backoff_aborted (ws i)" for i
    by (simp_all add: observe_attempt_def split: prod.splits)
  have ends: "e = ThrownAbort \<and> cut_short ws (rl_attempts ?r) \<or>
      (\<exists>n. rl_attempts ?r = Suc n \<and> ob_end (?obs n) = Threw e)"
    using retry_end [of cfg ?obs 0 False] assms obs by (auto simp: stream_message_def retry_stream_def cut_short_def)
  show ?thesis
  proof (cases "rl_attempts ?r")
    case 0
    have "rl_output ?r = []" using retry_from_spec [of 0 cfg ?obs False] 0 by (simp add: stream_message_def retry_stream_def)
    with 0 ends show ?thesis by auto
  next
    case (Suc n)
    obtain es q where ra: "run_attempt D retry_after idle (ws n) = (es, q)" by (cases "run_attempt D retry_after idle (ws n)")
    have o: "rl_output ?r = es" "ob_end (?obs n) = q"
      using last_attempt_speaks [OF Suc] ra by (simp_all add: observe_attempt_def)
    have ab: "aw_aborted (ws n) \<Longrightarrow> cut_short ws (rl_attempts ?r)" by (simp add: cut_short_def Suc)
    have "e = ThrownAbort \<and> cut_short ws (rl_attempts ?r) \<or> q = Threw e" using ends o(2) Suc by auto
    with run_attempt_leg [OF ra] ab show ?thesis unfolding o(1) by (cases q) auto
  qed
qed

end

end
