(* ===== verification/AnthropicDecoder.thy ===== *)
theory AnthropicDecoder
  imports Wire StreamClient
begin

text \<open>
  \<open>AnthropicDecoder\<close> of \<open>agents/llm-client/wires/anthropic-messages.ts\<close>: the state machine
  over the raw message-stream events. An event or block type the decoder ignores is
  \<open>AnOther\<close> or an \<open>OtherDelta\<close>; a usage field is \<open>None\<close> when it is absent or null.
\<close>

section \<open>Events and state\<close>

record an_usage =
  au_input :: "int option"
  au_output :: "int option"
  au_cache_read :: "int option"
  au_cache_creation :: "int option"

datatype an_delta = TextDelta string | ThinkingDelta string | InputJsonDelta string | OtherDelta

datatype an_event =
    MessageStart an_usage
  | ContentBlockStart int string "string option" "string option"
  | ContentBlockDelta int an_delta
  | ContentBlockStop int
  | MessageDelta "string option" an_usage
  | MessageStop
  | AnOther

record block_accum =
  ba_type :: string
  ba_id :: string
  ba_name :: string
  ba_text :: string
  ba_json :: string

record an_decoder =
  ad_completed :: bool
  ad_request_id :: "string option"
  ad_blocks :: "(int \<times> block_accum) list"
  ad_content :: "content_block list"
  ad_usage :: usage_snapshot
  ad_stop_reason :: "stop_reason option"

definition an_init :: "string option \<Rightarrow> an_decoder" where
  "an_init rid = \<lparr>ad_completed = False, ad_request_id = rid, ad_blocks = [], ad_content = [],
     ad_usage = zero_usage, ad_stop_reason = None\<rparr>"

definition merge_usage :: "an_usage \<Rightarrow> usage_snapshot \<Rightarrow> usage_snapshot" where
  "merge_usage u t = \<lparr>
     input_tokens = or_default (au_input u) (input_tokens t),
     output_tokens = or_default (au_output u) (output_tokens t),
     cache_read_input_tokens = or_else (au_cache_read u) (cache_read_input_tokens t),
     cache_creation_input_tokens = or_else (au_cache_creation u) (cache_creation_input_tokens t)\<rparr>"

section \<open>Handling an event\<close>

definition an_accumulate :: "int \<Rightarrow> (block_accum \<Rightarrow> block_accum) \<Rightarrow> an_decoder \<Rightarrow> an_decoder" where
  "an_accumulate i f d =
     (case map_of (ad_blocks d) i of
        None \<Rightarrow> d
      | Some b \<Rightarrow> d\<lparr>ad_blocks := AList.update i (f b) (ad_blocks d)\<rparr>)"

definition an_push :: "content_block \<Rightarrow> an_decoder \<Rightarrow> an_decoder" where
  "an_push b d = d\<lparr>ad_content := ad_content d @ [b]\<rparr>"

definition an_block_stop ::
    "(string \<Rightarrow> json option) \<Rightarrow> int \<Rightarrow> an_decoder \<Rightarrow> llm_stream_event list \<times> thrown option \<times> an_decoder" where
  "an_block_stop parse i d0 =
     (let d = d0\<lparr>ad_blocks := AList.delete i (ad_blocks d0)\<rparr> in
      case map_of (ad_blocks d0) i of
        None \<Rightarrow> ([], None, d)
      | Some b \<Rightarrow>
          (if ba_type b = ''text'' then ([], None, an_push (TextBlock (ba_text b)) d)
           else if ba_type b = ''thinking'' then ([], None, an_push (ReasoningBlock (ba_text b)) d)
           else if ba_type b = ''tool_use'' then
             (case tool_use_id_from (ba_id b) of
                Inl _ \<Rightarrow> ([], Some (ThrownProvider (plain_error Decode ''tool use block missing id'' (ad_request_id d))), d)
              | Inr tid \<Rightarrow>
                  (let inp = parse_tool_args parse (ba_json b)
                   in ([ToolUseDelta tid (ba_name b) inp], None, an_push (ToolUseBlock tid (ba_name b) inp) d)))
           else ([], None, d)))"

fun an_handle ::
    "(string \<Rightarrow> json option) \<Rightarrow> an_event \<Rightarrow> an_decoder \<Rightarrow> llm_stream_event list \<times> thrown option \<times> an_decoder" where
  "an_handle parse (MessageStart u) d = ([], None, d\<lparr>ad_usage := merge_usage u (ad_usage d)\<rparr>)"
| "an_handle parse (ContentBlockStart i ty bid bname) d =
     ([], None, d\<lparr>ad_blocks := AList.update i
        \<lparr>ba_type = ty, ba_id = or_default bid [], ba_name = or_default bname [], ba_text = [], ba_json = []\<rparr>
        (ad_blocks d)\<rparr>)"
| "an_handle parse (ContentBlockDelta i delta) d =
     (case delta of
        TextDelta t \<Rightarrow>
          ([AssistantTextDelta t], None, an_accumulate i (\<lambda>b. b\<lparr>ba_text := ba_text b @ t\<rparr>) d)
      | ThinkingDelta t \<Rightarrow>
          ([ReasoningDelta t], None, an_accumulate i (\<lambda>b. b\<lparr>ba_text := ba_text b @ t\<rparr>) d)
      | InputJsonDelta t \<Rightarrow>
          ([], None, an_accumulate i (\<lambda>b. b\<lparr>ba_json := ba_json b @ t\<rparr>) d)
      | OtherDelta \<Rightarrow> ([], None, d))"
| "an_handle parse (ContentBlockStop i) d = an_block_stop parse i d"
| "an_handle parse (MessageDelta reason u) d =
     (let d1 = (case reason of Some r \<Rightarrow> (if r \<noteq> [] then d\<lparr>ad_stop_reason := Some r\<rparr> else d) | None \<Rightarrow> d)
      in ([], None, d1\<lparr>ad_usage := merge_usage u (ad_usage d1)\<rparr>))"
| "an_handle parse MessageStop d =
     ([AssistantMessageComplete \<lparr>msg_role = Assistant, msg_content = ad_content d\<rparr> (ad_usage d) (ad_stop_reason d)],
      None, d\<lparr>ad_completed := True\<rparr>)"
| "an_handle parse AnOther d = ([], None, d)"

definition anthropic_decoder :: "(string \<Rightarrow> json option) \<Rightarrow> (an_event, an_decoder) wire_decoder" where
  "anthropic_decoder parse = \<lparr>dec_init = an_init, dec_handle = an_handle parse, dec_completed = ad_completed\<rparr>"

lemma an_push_simps [simp]:
  "ad_completed (an_push b d) = ad_completed d" "ad_blocks (an_push b d) = ad_blocks d"
  "ad_content (an_push b d) = ad_content d @ [b]" "ad_usage (an_push b d) = ad_usage d"
  "ad_stop_reason (an_push b d) = ad_stop_reason d" "ad_request_id (an_push b d) = ad_request_id d"
  by (simp_all add: an_push_def)

lemma an_accumulate_completed [simp]: "ad_completed (an_accumulate i f d) = ad_completed d"
  by (simp add: an_accumulate_def split: option.splits)

lemma an_handle_cases:
  assumes "an_handle parse c d = (es, err, d')"
  shows "(c = MessageStop \<and> err = None \<and> complete_leg es) \<or>
         (list_all is_visible es \<and> ad_completed d' = ad_completed d)"
  using assms
  by (cases c) (auto simp: complete_leg_def an_block_stop_def Let_def split: option.splits an_delta.splits if_splits sum.splits)

interpretation an: stream_decoder "anthropic_decoder parse" for parse
  using an_handle_cases [of parse]
  by unfold_locales (fastforce simp: anthropic_decoder_def an_init_def)+

section \<open>Reassembly\<close>

text \<open>The provider's stream for a list of blocks, each opened, streamed in chunks, and closed.\<close>

fun an_block_events :: "int \<Rightarrow> source_block \<Rightarrow> an_event list" where
  "an_block_events i (SrcText cs) =
     ContentBlockStart i ''text'' None None # map (ContentBlockDelta i \<circ> TextDelta) cs @ [ContentBlockStop i]"
| "an_block_events i (SrcThinking cs) =
     ContentBlockStart i ''thinking'' None None # map (ContentBlockDelta i \<circ> ThinkingDelta) cs @ [ContentBlockStop i]"
| "an_block_events i (SrcTool tid n cs) =
     ContentBlockStart i ''tool_use'' (Some tid) (Some n) # map (ContentBlockDelta i \<circ> InputJsonDelta) cs @ [ContentBlockStop i]"

fun an_stream :: "int \<Rightarrow> source_block list \<Rightarrow> an_event list" where
  "an_stream i [] = []"
| "an_stream i (b # bs) = an_block_events i b @ an_stream (i + 1) bs"

definition an_message :: "an_usage \<Rightarrow> source_block list \<Rightarrow> string \<Rightarrow> an_usage \<Rightarrow> an_event list" where
  "an_message u0 bs reason u1 = MessageStart u0 # an_stream 0 bs @ [MessageDelta (Some reason) u1, MessageStop]"

text \<open>Chunks of one open block accumulate.\<close>

definition with_block :: "int \<Rightarrow> block_accum \<Rightarrow> an_decoder \<Rightarrow> an_decoder" where
  "with_block i b d = d\<lparr>ad_blocks := [(i, b)]\<rparr>"

lemma with_block_simps [simp]:
  "ad_completed (with_block i b d) = ad_completed d"
  "an_accumulate i f (with_block i b d) = with_block i (f b) d"
  by (simp_all add: with_block_def an_accumulate_def)

lemma anthropic_decoder_simps [simp]:
  "dec_init (anthropic_decoder parse) = an_init"
  "dec_handle (anthropic_decoder parse) = an_handle parse"
  "dec_completed (anthropic_decoder parse) = ad_completed"
  by (simp_all add: anthropic_decoder_def)

lemma feed_text_chunks:
  "\<not> ad_completed d \<Longrightarrow>
   feed (anthropic_decoder parse) idle (map (Chunk \<circ> (ContentBlockDelta i \<circ> TextDelta)) cs @ rs) (with_block i b d) =
   prefixed (map AssistantTextDelta cs)
     (feed (anthropic_decoder parse) idle rs (with_block i (b\<lparr>ba_text := ba_text b @ concat cs\<rparr>) d))"
proof (induction cs arbitrary: b)
  case (Cons c cs)
  then show ?case by (simp add: prefixed_def split: prod.splits)
qed simp

lemma feed_thinking_chunks:
  "\<not> ad_completed d \<Longrightarrow>
   feed (anthropic_decoder parse) idle (map (Chunk \<circ> (ContentBlockDelta i \<circ> ThinkingDelta)) cs @ rs) (with_block i b d) =
   prefixed (map ReasoningDelta cs)
     (feed (anthropic_decoder parse) idle rs (with_block i (b\<lparr>ba_text := ba_text b @ concat cs\<rparr>) d))"
proof (induction cs arbitrary: b)
  case (Cons c cs)
  then show ?case by (simp add: prefixed_def split: prod.splits)
qed simp

lemma feed_json_chunks:
  "\<not> ad_completed d \<Longrightarrow>
   feed (anthropic_decoder parse) idle (map (Chunk \<circ> (ContentBlockDelta i \<circ> InputJsonDelta)) cs @ rs) (with_block i b d) =
     feed (anthropic_decoder parse) idle rs (with_block i (b\<lparr>ba_json := ba_json b @ concat cs\<rparr>) d)"
proof (induction cs arbitrary: b)
  case (Cons c cs)
  then show ?case by (simp split: prod.splits)
qed simp

definition fresh_accum :: "string \<Rightarrow> string option \<Rightarrow> string option \<Rightarrow> block_accum" where
  "fresh_accum ty bid bname =
     \<lparr>ba_type = ty, ba_id = or_default bid [], ba_name = or_default bname [], ba_text = [], ba_json = []\<rparr>"

lemma feed_block_start:
  "ad_blocks d = [] \<Longrightarrow> \<not> ad_completed d \<Longrightarrow>
   feed (anthropic_decoder parse) idle (Chunk (ContentBlockStart i ty bid bname) # rs) d =
   feed (anthropic_decoder parse) idle rs (with_block i (fresh_accum ty bid bname) d)"
  by (simp add: with_block_def fresh_accum_def split: prod.splits)

lemma block_stop_with_block:
  "ad_blocks d = [] \<Longrightarrow>
   an_block_stop parse i (with_block i b d) =
     (if ba_type b = ''text'' then ([], None, an_push (TextBlock (ba_text b)) d)
      else if ba_type b = ''thinking'' then ([], None, an_push (ReasoningBlock (ba_text b)) d)
      else if ba_type b = ''tool_use'' then
        (case tool_use_id_from (ba_id b) of
           Inl _ \<Rightarrow> ([], Some (ThrownProvider (plain_error Decode ''tool use block missing id'' (ad_request_id d))), d)
         | Inr tid \<Rightarrow>
             (let inp = parse_tool_args parse (ba_json b)
              in ([ToolUseDelta tid (ba_name b) inp], None, an_push (ToolUseBlock tid (ba_name b) inp) d)))
      else ([], None, d))"
proof -
  assume "ad_blocks d = []"
  then have "(with_block i b d)\<lparr>ad_blocks := []\<rparr> = d" by (simp add: with_block_def)
  then show ?thesis by (simp add: an_block_stop_def with_block_def Let_def)
qed

lemma feed_block:
  assumes "ad_blocks d = []" "\<not> ad_completed d" "src_ok b"
  shows "feed (anthropic_decoder parse) idle (map Chunk (an_block_events i b) @ rs) d =
         prefixed (deltas_of parse b) (feed (anthropic_decoder parse) idle rs (an_push (block_of parse b) d))"
proof (cases b)
  case (SrcText cs)
  with assms show ?thesis
    by (simp add: feed_block_start feed_text_chunks block_stop_with_block fresh_accum_def del: feed.simps)
       (simp add: feed_text_chunks [unfolded comp_def] block_stop_with_block feed_chunk comp_def del: feed.simps)
next
  case (SrcThinking cs)
  with assms show ?thesis
    by (simp add: feed_block_start fresh_accum_def del: feed.simps)
       (simp add: feed_thinking_chunks [unfolded comp_def] block_stop_with_block feed_chunk comp_def del: feed.simps)
next
  case (SrcTool tid n cs)
  with assms have "tid \<noteq> []" by simp
  with SrcTool assms show ?thesis
    by (simp add: feed_block_start fresh_accum_def del: feed.simps)
       (simp add: feed_json_chunks [unfolded comp_def] block_stop_with_block feed_chunk comp_def Let_def
         tool_use_id_from_def del: feed.simps)
qed

lemma feed_stream:
  assumes "ad_blocks d = []" "\<not> ad_completed d" "list_all src_ok bs"
  shows "feed (anthropic_decoder parse) idle (map Chunk (an_stream i bs) @ rs) d =
         prefixed (concat (map (deltas_of parse) bs))
           (feed (anthropic_decoder parse) idle rs (d\<lparr>ad_content := ad_content d @ map (block_of parse) bs\<rparr>))"
  using assms
proof (induction bs arbitrary: i d)
  case (Cons b bs)
  then have "feed (anthropic_decoder parse) idle (map Chunk (an_stream i (b # bs)) @ rs) d =
      prefixed (deltas_of parse b)
        (feed (anthropic_decoder parse) idle (map Chunk (an_stream (i + 1) bs) @ rs) (an_push (block_of parse b) d))"
    using feed_block [of d b parse idle i "map Chunk (an_stream (i + 1) bs) @ rs"] by simp
  also have "\<dots> = prefixed (deltas_of parse b) (prefixed (concat (map (deltas_of parse) bs))
        (feed (anthropic_decoder parse) idle rs ((an_push (block_of parse b) d)\<lparr>ad_content :=
            ad_content (an_push (block_of parse b) d) @ map (block_of parse) bs\<rparr>)))"
    using Cons.IH [of "an_push (block_of parse b) d" "i + 1"] Cons.prems by simp
  finally show ?case by (simp add: an_push_def)
qed simp

text \<open>
  C20: the Anthropic decoder reassembles a message exactly: however the provider cuts the
  text, the reasoning and the tool arguments of its blocks into chunks, the leg is the deltas
  in order and then one completion holding the blocks, with the arguments parsed once, the
  merged usage and the stop reason.
\<close>

theorem anthropic_reassembles:
  assumes "list_all src_ok bs" and "reason \<noteq> []"
  shows "\<exists>d. feed (anthropic_decoder parse) idle (map Chunk (an_message u0 bs reason u1)) (an_init rid) =
    (concat (map (deltas_of parse) bs) @
       [AssistantMessageComplete \<lparr>msg_role = Assistant, msg_content = map (block_of parse) bs\<rparr>
          (merge_usage u1 (merge_usage u0 zero_usage)) (Some reason)], None, d) \<and> ad_completed d"
proof -
  let ?D = "anthropic_decoder parse"
  let ?d0 = "(an_init rid)\<lparr>ad_usage := merge_usage u0 zero_usage\<rparr>"
  let ?d1 = "?d0\<lparr>ad_content := map (block_of parse) bs\<rparr>"
  have start: "feed ?D idle (Chunk (MessageStart u0) # rs) (an_init rid) = feed ?D idle rs ?d0" for rs
    by (simp add: an_init_def split: prod.splits)
  have "feed ?D idle (map Chunk (an_stream 0 bs) @ map Chunk [MessageDelta (Some reason) u1, MessageStop]) ?d0 =
      prefixed (concat (map (deltas_of parse) bs))
        (feed ?D idle (map Chunk [MessageDelta (Some reason) u1, MessageStop]) ?d1)"
    using feed_stream [of ?d0 bs parse idle 0] assms(1) by (simp add: an_init_def)
  with assms(2) show ?thesis
    by (simp add: an_message_def start an_init_def Let_def)
qed

theorem anthropic_reassembles_witness:
  "\<exists>d. feed (anthropic_decoder (\<lambda>raw. if raw = ''{x}'' then Some (JObj [(''k'', JNull)]) else None)) ''90''
     (map Chunk (an_message \<lparr>au_input = Some 10, au_output = None, au_cache_read = None, au_cache_creation = None\<rparr>
        [SrcText [''he'', ''llo''], SrcTool ''id1'' ''read'' [''{'', ''x}'']] ''tool_use''
        \<lparr>au_input = None, au_output = Some 5, au_cache_read = None, au_cache_creation = None\<rparr>)) (an_init None) =
    ([AssistantTextDelta ''he'', AssistantTextDelta ''llo'', ToolUseDelta ''id1'' ''read'' [(''k'', JNull)],
      AssistantMessageComplete \<lparr>msg_role = Assistant,
          msg_content = [TextBlock ''hello'', ToolUseBlock ''id1'' ''read'' [(''k'', JNull)]]\<rparr>
        \<lparr>input_tokens = 10, output_tokens = 5, cache_read_input_tokens = None, cache_creation_input_tokens = None\<rparr>
        (Some ''tool_use'')], None, d) \<and> ad_completed d"
  using anthropic_reassembles [of "[SrcText [''he'', ''llo''], SrcTool ''id1'' ''read'' [''{'', ''x}'']]" "''tool_use''"
      "\<lambda>raw. if raw = ''{x}'' then Some (JObj [(''k'', JNull)]) else None" "''90''"
      "\<lparr>au_input = Some 10, au_output = None, au_cache_read = None, au_cache_creation = None\<rparr>"
      "\<lparr>au_input = None, au_output = Some 5, au_cache_read = None, au_cache_creation = None\<rparr>" None]
  by (simp add: merge_usage_def zero_usage_def)

section \<open>The leg contract of the client\<close>

text \<open>
  C18: a streamed Anthropic message that ends normally is zero or more deltas followed by
  exactly one completed assistant message, across all retries: nothing of a failed attempt
  is ever forwarded before it.
\<close>

theorem anthropic_leg_contract:
  assumes "rl_end (stream_message (anthropic_decoder parse) retry_after cfg idle ws) = Ended"
  shows "complete_leg (rl_output (stream_message (anthropic_decoder parse) retry_after cfg idle ws))"
  by (rule an.stream_message_leg [OF assms])

theorem anthropic_leg_contract_witness:
  "\<exists>ws. rl_attempts (stream_message (anthropic_decoder (\<lambda>_. None)) (\<lambda>_. None) default_retry_config ''90'' ws) = 2
     \<and> rl_end (stream_message (anthropic_decoder (\<lambda>_. None)) (\<lambda>_. None) default_retry_config ''90'' ws) = Ended
     \<and> complete_leg (rl_output (stream_message (anthropic_decoder (\<lambda>_. None)) (\<lambda>_. None) default_retry_config ''90'' ws))"
proof -
  define down :: "an_event attempt_world" where "down = \<lparr>aw_pre_aborted = False, aw_open = OpenFails (ThrownSdkConnection ''reset''), aw_reads = [],
      aw_aborted = False, aw_late_abort = False, aw_backoff_aborted = False\<rparr>"
  define up where "up = \<lparr>aw_pre_aborted = False, aw_open = Opened None,
      aw_reads = map Chunk (an_block_events 0 (SrcText [''ok'']) @ [MessageStop]),
      aw_aborted = False, aw_late_abort = False, aw_backoff_aborted = False\<rparr>"
  define ws where "ws = (\<lambda>k :: nat. if k = 0 then down else up)"
  let ?obs = "observe_attempt (anthropic_decoder (\<lambda>_. None)) (\<lambda>_. None) ''90'' \<circ> ws"
  let ?r = "stream_message (anthropic_decoder (\<lambda>_. None)) (\<lambda>_. None) default_retry_config ''90'' ws"
  let ?out = "[AssistantTextDelta ''ok'', AssistantMessageComplete \<lparr>msg_role = Assistant, msg_content = [TextBlock ''ok'']\<rparr> zero_usage None]"
  have o0: "?obs 0 = \<lparr>ob_pre_aborted = False, ob_events = [], ob_end = Threw (ThrownProvider (plain_error Transport ''reset'' None)),
      ob_aborted = False, ob_backoff_aborted = False\<rparr>"
    by (simp add: ws_def down_def observe_attempt_def run_attempt_def)
  have o1: "?obs (Suc 0) = \<lparr>ob_pre_aborted = False, ob_events = ?out, ob_end = Ended, ob_aborted = False, ob_backoff_aborted = False\<rparr>"
    by (simp add: ws_def up_def observe_attempt_def run_attempt_def an_init_def an_block_stop_def an_accumulate_def an_push_def)
  have "retry_from default_retry_config ?obs 0 False = after_attempt [] [1000] (retry_from default_retry_config ?obs (Suc 0) False)"
    by (subst retry_from.simps, simp only: o0)
       (simp add: is_retryable_def plain_error_def default_retry_config_def backoff_sleeps_def backoff_delay_ms_def)
  moreover have "retry_from default_retry_config ?obs (Suc 0) False = stop_log ?out 1 [] Ended"
    by (subst retry_from.simps, simp only: o1) simp
  ultimately have r: "?r = after_attempt [] [1000] (stop_log ?out 1 [] Ended)"
    by (simp add: stream_message_def retry_stream_def)
  have "rl_end ?r = Ended" by (simp add: r)
  from anthropic_leg_contract [OF this] this show ?thesis by (intro exI [of _ ws]) (simp add: r)
qed

end
