(* ===== verification/OpenAiDecoder.thy ===== *)
theory OpenAiDecoder
  imports Wire StreamClient
begin

text \<open>
  \<open>OpenAiDecoder\<close> of \<open>agents/llm-client/wires/openai-responses.ts\<close>: the state machine over
  the responses-stream events. Function-call items assemble per item identifier; the
  completed (or incomplete) response snapshot is the terminus. \<open>OaOther\<close> is an event type
  the decoder ignores, and an added item that is no function call is \<open>None\<close>.
\<close>

section \<open>Events and state\<close>

record oa_usage =
  ou_input :: "int option"
  ou_output :: "int option"
  ou_cached :: "int option"

record oa_response =
  or_usage :: "oa_usage option"
  or_status :: "string option"
  or_incomplete_reason :: "string option"
  or_error_message :: "string option"

record fn_call =
  fc_call_id :: string
  fc_name :: string
  fc_args :: string

text \<open>\<open>OaItemAdded\<close> carries the item's identifier and, for a function call, its call id and name.\<close>

datatype oa_event =
    OaTextDelta string
  | OaReasoningDelta string
  | OaItemAdded "string option" "(string \<times> string) option"
  | OaArgsDelta string string
  | OaArgsDone string
  | OaCompleted oa_response
  | OaIncomplete oa_response
  | OaFailed oa_response
  | OaError string
  | OaOther

record oa_decoder =
  od_completed :: bool
  od_request_id :: "string option"
  od_items :: "(string \<times> fn_call) list"
  od_tools :: "content_block list"
  od_text :: string
  od_reasoning :: string

definition oa_init :: "string option \<Rightarrow> oa_decoder" where
  "oa_init rid = \<lparr>od_completed = False, od_request_id = rid, od_items = [], od_tools = [],
     od_text = [], od_reasoning = []\<rparr>"

section \<open>Handling an event\<close>

definition oa_derive_stop_reason :: "oa_decoder \<Rightarrow> oa_response \<Rightarrow> stop_reason option" where
  "oa_derive_stop_reason d r =
     (if od_tools d \<noteq> [] then Some ''tool_use''
      else if or_status r = Some ''incomplete'' then
        (if or_incomplete_reason r = Some ''max_output_tokens'' then Some ''max_tokens''
         else Some (or_default (or_incomplete_reason r) ''incomplete''))
      else if or_status r = Some ''completed'' then Some ''end_turn''
      else or_status r)"

definition oa_usage_of :: "oa_response \<Rightarrow> usage_snapshot" where
  "oa_usage_of r =
     (let reported = or_usage r;
          cached = (case reported of None \<Rightarrow> None | Some u \<Rightarrow> ou_cached u);
          inp = (case reported of None \<Rightarrow> None | Some u \<Rightarrow> ou_input u);
          outp = (case reported of None \<Rightarrow> None | Some u \<Rightarrow> ou_output u)
      in \<lparr>input_tokens = max 0 (or_default inp 0 - or_default cached 0),
          output_tokens = or_default outp 0,
          cache_read_input_tokens = cached,
          cache_creation_input_tokens = None\<rparr>)"

definition oa_complete :: "oa_decoder \<Rightarrow> oa_response \<Rightarrow> llm_stream_event" where
  "oa_complete d r =
     (let content = (if od_reasoning d \<noteq> [] then [ReasoningBlock (od_reasoning d)] else [])
                  @ (if od_text d \<noteq> [] then [TextBlock (od_text d)] else [])
                  @ od_tools d
      in AssistantMessageComplete \<lparr>msg_role = Assistant, msg_content = content\<rparr> (oa_usage_of r)
           (oa_derive_stop_reason d r))"

fun oa_handle ::
    "(string \<Rightarrow> json option) \<Rightarrow> oa_event \<Rightarrow> oa_decoder \<Rightarrow> llm_stream_event list \<times> thrown option \<times> oa_decoder" where
  "oa_handle parse (OaTextDelta t) d = ([AssistantTextDelta t], None, d\<lparr>od_text := od_text d @ t\<rparr>)"
| "oa_handle parse (OaReasoningDelta t) d = ([ReasoningDelta t], None, d\<lparr>od_reasoning := od_reasoning d @ t\<rparr>)"
| "oa_handle parse (OaItemAdded i call) d =
     (case call of
        None \<Rightarrow> ([], None, d)
      | Some (cid, name) \<Rightarrow>
          ([], None, d\<lparr>od_items := AList.update (or_default i [])
              \<lparr>fc_call_id = cid, fc_name = name, fc_args = []\<rparr> (od_items d)\<rparr>))"
| "oa_handle parse (OaArgsDelta i t) d =
     (case map_of (od_items d) i of
        None \<Rightarrow> ([], None, d)
      | Some c \<Rightarrow> ([], None, d\<lparr>od_items := AList.update i (c\<lparr>fc_args := fc_args c @ t\<rparr>) (od_items d)\<rparr>))"
| "oa_handle parse (OaArgsDone i) d0 =
     (let d = d0\<lparr>od_items := AList.delete i (od_items d0)\<rparr> in
      case map_of (od_items d0) i of
        None \<Rightarrow> ([], None, d)
      | Some c \<Rightarrow>
          (case tool_use_id_from (fc_call_id c) of
             Inl _ \<Rightarrow> ([], Some (ThrownProvider (plain_error Decode ''function call missing call id'' (od_request_id d))), d)
           | Inr tid \<Rightarrow>
               (let inp = parse_tool_args parse (fc_args c)
                in ([ToolUseDelta tid (fc_name c) inp], None,
                    d\<lparr>od_tools := od_tools d @ [ToolUseBlock tid (fc_name c) inp]\<rparr>))))"
| "oa_handle parse (OaCompleted r) d = ([oa_complete d r], None, d\<lparr>od_completed := True\<rparr>)"
| "oa_handle parse (OaIncomplete r) d = ([oa_complete d r], None, d\<lparr>od_completed := True\<rparr>)"
| "oa_handle parse (OaFailed r) d =
     ([], Some (ThrownProvider (plain_error Decode (or_default (or_error_message r) ''response failed'') (od_request_id d))), d)"
| "oa_handle parse (OaError msg) d = ([], Some (ThrownProvider (plain_error Decode msg (od_request_id d))), d)"
| "oa_handle parse OaOther d = ([], None, d)"

definition openai_decoder :: "(string \<Rightarrow> json option) \<Rightarrow> (oa_event, oa_decoder) wire_decoder" where
  "openai_decoder parse = \<lparr>dec_init = oa_init, dec_handle = oa_handle parse, dec_completed = od_completed\<rparr>"

lemma openai_decoder_simps [simp]:
  "dec_init (openai_decoder parse) = oa_init"
  "dec_handle (openai_decoder parse) = oa_handle parse"
  "dec_completed (openai_decoder parse) = od_completed"
  by (simp_all add: openai_decoder_def)

lemma oa_handle_cases:
  assumes "oa_handle parse c d = (es, err, d')"
  shows "(err = None \<and> complete_leg es) \<or> (list_all is_visible es \<and> od_completed d' = od_completed d)"
  using assms
  by (cases c) (auto simp: complete_leg_def oa_complete_def Let_def split: option.splits if_splits sum.splits)

lemma oa_handle_completes: "oa_handle parse c d = (es, err, d') \<Longrightarrow> od_completed d' \<noteq> od_completed d \<or> err = None \<and> complete_leg es \<Longrightarrow>
   od_completed d'"
  by (cases c) (auto simp: complete_leg_def Let_def split: option.splits if_splits sum.splits)

interpretation oa: stream_decoder "openai_decoder parse" for parse
proof
  fix rid show "\<not> dec_completed (openai_decoder parse) (dec_init (openai_decoder parse) rid)"
    by (simp add: oa_init_def)
next
  fix c d es d'
  assume "dec_handle (openai_decoder parse) c d = (es, None, d')" "\<not> dec_completed (openai_decoder parse) d"
    "dec_completed (openai_decoder parse) d'"
  with oa_handle_cases [of parse c d es None d'] show "complete_leg es" by auto
next
  fix c d es err d'
  assume h: "dec_handle (openai_decoder parse) c d = (es, err, d')" and "\<not> dec_completed (openai_decoder parse) d"
    and "err \<noteq> None \<or> \<not> dec_completed (openai_decoder parse) d'"
  with oa_handle_cases [of parse c d es err d'] oa_handle_completes [of parse c d es err d']
  show "list_all is_visible es" by auto
qed

text \<open>
  C19: how a streamed OpenAI message ends, whatever the provider, the timers and the signal do. One that
  ends normally is zero or more deltas followed by exactly one completed assistant message. One that
  fails fails with a provider error and has forwarded deltas only, unless the signal cut it short
  during its last attempt, in the backoff after it or before the next attempt; even then nothing but deltas was
  forwarded, or the message was complete when the abort was noticed.
\<close>

theorem openai_leg_contract:
  "case rl_end (stream_message (openai_decoder parse) retry_after cfg idle ws) of
      Ended \<Rightarrow> complete_leg (rl_output (stream_message (openai_decoder parse) retry_after cfg idle ws))
    | Threw e \<Rightarrow>
        if cut_short ws (rl_attempts (stream_message (openai_decoder parse) retry_after cfg idle ws))
        then list_all is_visible (rl_output (stream_message (openai_decoder parse) retry_after cfg idle ws)) \<or>
          e = ThrownAbort \<and> complete_leg (rl_output (stream_message (openai_decoder parse) retry_after cfg idle ws))
        else (\<exists>pe. e = ThrownProvider pe) \<and>
          list_all is_visible (rl_output (stream_message (openai_decoder parse) retry_after cfg idle ws))"
proof (cases "rl_end (stream_message (openai_decoder parse) retry_after cfg idle ws)")
  case Ended
  with oa.stream_message_leg [OF this] show ?thesis by simp
next
  case (Threw e)
  from oa.stream_message_failure [OF this] Threw show ?thesis by simp
qed

section \<open>Reassembly\<close>

text \<open>
  What a message decodes to when text, reasoning and function calls arrive in any
  interleaving: each stream of deltas is joined, the calls follow in closing order.
\<close>

fun oa_texts :: "oa_event list \<Rightarrow> string" where
  "oa_texts [] = []"
| "oa_texts (OaTextDelta t # es) = t @ oa_texts es"
| "oa_texts (_ # es) = oa_texts es"

fun oa_reasonings :: "oa_event list \<Rightarrow> string" where
  "oa_reasonings [] = []"
| "oa_reasonings (OaReasoningDelta t # es) = t @ oa_reasonings es"
| "oa_reasonings (_ # es) = oa_reasonings es"

fun call_block :: "llm_stream_event \<Rightarrow> content_block option" where
  "call_block (ToolUseDelta i n inp) = Some (ToolUseBlock i n inp)"
| "call_block _ = None"

definition call_blocks :: "llm_stream_event list \<Rightarrow> content_block list" where
  "call_blocks es = List.map_filter call_block es"

lemma oa_handle_accumulates:
  assumes "oa_handle parse e d = (fs, None, d')" "\<not> od_completed d'"
  shows "od_text d' = od_text d @ oa_texts [e] \<and> od_reasoning d' = od_reasoning d @ oa_reasonings [e] \<and>
         od_tools d' = od_tools d @ call_blocks fs"
  using assms
  by (cases e) (auto simp: call_blocks_def List.map_filter_def Let_def split: option.splits sum.splits prod.splits)

lemma oa_split:
  "oa_texts (e # es) = oa_texts [e] @ oa_texts es"
  "oa_reasonings (e # es) = oa_reasonings [e] @ oa_reasonings es"
  by (cases e; simp)+

lemma oa_feed_content:
  "\<not> od_completed d \<Longrightarrow>
   feed (openai_decoder parse) idle (map Chunk es) d = (fs, None, d') \<Longrightarrow> \<not> od_completed d' \<Longrightarrow>
   od_text d' = od_text d @ oa_texts es \<and> od_reasoning d' = od_reasoning d @ oa_reasonings es \<and>
   od_tools d' = od_tools d @ call_blocks fs \<and>
   (\<forall>rs. feed (openai_decoder parse) idle (map Chunk es @ rs) d = prefixed fs (feed (openai_decoder parse) idle rs d'))"
proof (induction es arbitrary: d fs)
  case Nil
  then show ?case by (simp add: call_blocks_def List.map_filter_def)
next
  case (Cons e es)
  obtain gs err d1 where h: "oa_handle parse e d = (gs, err, d1)" by (cases "oa_handle parse e d")
  from Cons.prems h have err: "err = None" by (cases err) auto
  show ?case
  proof (cases "od_completed d1")
    case True
    with Cons.prems h err show ?thesis by simp
  next
    case False
    obtain hs r d2 where f: "feed (openai_decoder parse) idle (map Chunk es) d1 = (hs, r, d2)"
      by (cases "feed (openai_decoder parse) idle (map Chunk es) d1")
    with Cons.prems h err False have eq: "fs = gs @ hs" "r = None" "d2 = d'" by simp_all
    from Cons.IH [OF False _ Cons.prems(3), of hs] f eq
    have IH: "od_text d' = od_text d1 @ oa_texts es" "od_reasoning d' = od_reasoning d1 @ oa_reasonings es"
      "od_tools d' = od_tools d1 @ call_blocks hs"
      "\<forall>rs. feed (openai_decoder parse) idle (map Chunk es @ rs) d1 = prefixed hs (feed (openai_decoder parse) idle rs d')"
      by simp_all
    from oa_handle_accumulates [of parse e d gs d1] h err False IH eq
    show ?thesis
      by (simp add: oa_split [of e es] call_blocks_def List.map_filter_def)
         (simp add: prefixed_def split: prod.splits)
  qed
qed

text \<open>
  The OpenAI decoder assembles the completed message from everything streamed before it:
  the joined reasoning and text when not empty, then one tool-use block per announced tool
  call, in order, and the stop reason says \<open>tool_use\<close> exactly when there is one.
\<close>

lemma openai_assembles:
  assumes "feed (openai_decoder parse) idle (map Chunk es) (oa_init rid) = (fs, None, d)" and "\<not> od_completed d"
  shows "\<exists>u reason. fst (feed (openai_decoder parse) idle (map Chunk (es @ [OaCompleted r])) (oa_init rid)) =
      fs @ [AssistantMessageComplete \<lparr>msg_role = Assistant, msg_content =
              (if oa_reasonings es \<noteq> [] then [ReasoningBlock (oa_reasonings es)] else []) @
              (if oa_texts es \<noteq> [] then [TextBlock (oa_texts es)] else []) @ call_blocks fs\<rparr> u reason]
    \<and> (or_status r = Some ''completed'' \<longrightarrow> reason = Some (if call_blocks fs = [] then ''end_turn'' else ''tool_use''))"
proof -
  have "\<not> od_completed (oa_init rid)" by (simp add: oa_init_def)
  from oa_feed_content [OF this assms] show ?thesis
    by (auto simp: oa_init_def oa_complete_def oa_derive_stop_reason_def Let_def)
qed

end
