(* ===== verification/AnthropicEncoder.thy ===== *)
theory AnthropicEncoder
  imports Wire
begin

text \<open>
  \<open>encodeAnthropicRequest\<close> of \<open>agents/llm-client/wires/anthropic-messages.ts\<close>: the
  projection of a neutral request onto the streaming parameters. The flag of a block, tool
  or system entry says that it carries an ephemeral \<open>cache_control\<close>.
\<close>

section \<open>Parameters\<close>

datatype an_param =
    AnText string bool
  | AnToolUse tool_use_id string json_object bool
  | AnToolResult tool_use_id string bool bool

record an_message =
  am_role :: message_role
  am_content :: "an_param list"

record an_tool =
  at_name :: string
  at_description :: string
  at_input_schema :: json_object
  at_cached :: bool

record an_system =
  as_text :: string
  as_cached :: bool

datatype an_tool_choice = AnAuto | AnAny | AnNamed string

datatype an_effort = AnLow | AnMedium | AnHigh | AnMax

record an_params =
  ap_model :: string
  ap_max_tokens :: nat
  ap_messages :: "an_message list"
  ap_stream :: bool
  ap_system :: "an_system list option"
  ap_tools :: "an_tool list option"
  ap_tool_choice :: "an_tool_choice option"
  ap_effort :: "an_effort option"

section \<open>Encoding\<close>

fun anthropic_effort :: "reasoning_effort \<Rightarrow> an_effort" where
  "anthropic_effort EffortMinimal = AnLow"
| "anthropic_effort EffortLow = AnLow"
| "anthropic_effort EffortMedium = AnMedium"
| "anthropic_effort EffortHigh = AnHigh"
| "anthropic_effort EffortMax = AnMax"

fun encode_content_block :: "content_block \<Rightarrow> an_param option" where
  "encode_content_block (TextBlock t) = Some (AnText t False)"
| "encode_content_block (ToolUseBlock i n inp) = Some (AnToolUse i n inp False)"
| "encode_content_block (ToolResultBlock i c e) = Some (AnToolResult i c e False)"
| "encode_content_block (ReasoningBlock _) = None"

definition encode_message :: "message \<Rightarrow> an_message" where
  "encode_message m = \<lparr>am_role = msg_role m, am_content = List.map_filter encode_content_block (msg_content m)\<rparr>"

definition an_encode_tool :: "tool_spec \<Rightarrow> an_tool" where
  "an_encode_tool s = \<lparr>at_name = spec_name s, at_description = spec_description s,
     at_input_schema = spec_input_schema s, at_cached = False\<rparr>"

fun an_encode_tool_choice :: "tool_choice \<Rightarrow> an_tool_choice" where
  "an_encode_tool_choice ChooseAuto = AnAuto"
| "an_encode_tool_choice ChooseAny = AnAny"
| "an_encode_tool_choice (ChooseTool n) = AnNamed n"

fun stamp_content_block :: "an_param \<Rightarrow> an_param" where
  "stamp_content_block (AnText t _) = AnText t True"
| "stamp_content_block (AnToolUse i n inp _) = AnToolUse i n inp True"
| "stamp_content_block (AnToolResult i c e _) = AnToolResult i c e True"

definition on_last :: "('a \<Rightarrow> 'a) \<Rightarrow> 'a list \<Rightarrow> 'a list" where
  "on_last f xs = (if xs = [] then [] else butlast xs @ [f (last xs)])"

text \<open>The loop of \<open>stampConversationTail\<close>, from the last message down.\<close>

fun stamp_reversed :: "an_message list \<Rightarrow> an_message list" where
  "stamp_reversed [] = []"
| "stamp_reversed (m # ms) =
     (if am_content m = [] then m # stamp_reversed ms
      else m\<lparr>am_content := on_last stamp_content_block (am_content m)\<rparr> # ms)"

definition stamp_conversation_tail :: "an_message list \<Rightarrow> an_message list" where
  "stamp_conversation_tail ms = rev (stamp_reversed (rev ms))"

definition encode_system :: "wire_options \<Rightarrow> llm_request \<Rightarrow> an_system list option" where
  "encode_system opts req =
     (let system = (case wo_system_prefix opts of None \<Rightarrow> [] | Some p \<Rightarrow> [\<lparr>as_text = p, as_cached = False\<rparr>])
                 @ (case req_system_prompt req of None \<Rightarrow> [] | Some p \<Rightarrow> [\<lparr>as_text = p, as_cached = False\<rparr>])
      in if system = [] then None else Some (on_last (\<lambda>s. s\<lparr>as_cached := True\<rparr>) system))"

definition encode_tools :: "llm_request \<Rightarrow> an_tool list option" where
  "encode_tools req =
     (if req_tools req = [] then None
      else Some (on_last (\<lambda>t. t\<lparr>at_cached := True\<rparr>) (map an_encode_tool (req_tools req))))"

definition encode_anthropic_request :: "wire_options \<Rightarrow> llm_request \<Rightarrow> an_params" where
  "encode_anthropic_request opts req = \<lparr>
     ap_model = req_model req,
     ap_max_tokens = req_max_tokens req,
     ap_messages = stamp_conversation_tail (map encode_message (req_messages req)),
     ap_stream = True,
     ap_system = encode_system opts req,
     ap_tools = encode_tools req,
     ap_tool_choice = map_option an_encode_tool_choice (req_tool_choice req),
     ap_effort = map_option anthropic_effort (req_reasoning_effort req)\<rparr>"

section \<open>Cache breakpoints\<close>

fun param_cached :: "an_param \<Rightarrow> bool" where
  "param_cached (AnText _ c) = c"
| "param_cached (AnToolUse _ _ _ c) = c"
| "param_cached (AnToolResult _ _ _ c) = c"

definition count_where :: "('a \<Rightarrow> bool) \<Rightarrow> 'a list \<Rightarrow> nat" where
  "count_where P xs = length (filter P xs)"

definition message_marks :: "an_message list \<Rightarrow> nat" where
  "message_marks ms = count_where param_cached (concat (map am_content ms))"

definition breakpoints :: "an_params \<Rightarrow> nat" where
  "breakpoints p = message_marks (ap_messages p)
     + (case ap_system p of None \<Rightarrow> 0 | Some ss \<Rightarrow> count_where as_cached ss)
     + (case ap_tools p of None \<Rightarrow> 0 | Some ts \<Rightarrow> count_where at_cached ts)"

lemma count_on_last:
  "list_all (\<lambda>x. \<not> P x) xs \<Longrightarrow> (\<And>x. P (f x)) \<Longrightarrow>
   count_where P (on_last f xs) = (if xs = [] then 0 else 1)"
  by (cases xs rule: rev_cases) (auto simp: on_last_def count_where_def list_all_iff)

lemma stamp_marks [simp]: "param_cached (stamp_content_block b)"
  by (cases b) auto

lemma encoded_plain: "list_all (\<lambda>b. \<not> param_cached b) (am_content (encode_message m))"
proof -
  have "\<not> param_cached p" if "encode_content_block b = Some p" for b p
    using that by (cases b) auto
  then show ?thesis by (auto simp: encode_message_def List.map_filter_def list_all_iff)
qed

lemma marks_Cons: "message_marks (m # ms) = count_where param_cached (am_content m) + message_marks ms"
  by (simp add: message_marks_def count_where_def)

lemma marks_rev: "message_marks (rev ms) = message_marks ms"
  by (induction ms) (simp_all add: message_marks_def count_where_def)

lemma plain_marks:
  "\<forall>m \<in> set ms. list_all (\<lambda>b. \<not> param_cached b) (am_content m) \<Longrightarrow> message_marks ms = 0"
  by (auto simp: message_marks_def count_where_def list_all_iff filter_empty_conv)

lemma stamp_reversed_marks:
  "\<forall>m \<in> set ms. list_all (\<lambda>b. \<not> param_cached b) (am_content m) \<Longrightarrow>
   message_marks (stamp_reversed ms) = (if \<forall>m \<in> set ms. am_content m = [] then 0 else 1)"
proof (induction ms)
  case (Cons m ms)
  show ?case
  proof (cases "am_content m = []")
    case True
    with Cons show ?thesis by (simp add: marks_Cons count_where_def)
  next
    case False
    with Cons.prems plain_marks [of ms] show ?thesis
      by (auto simp: marks_Cons count_on_last)
  qed
qed (simp add: message_marks_def count_where_def)

lemma tail_marks:
  "message_marks (stamp_conversation_tail (map encode_message ms)) \<le> 1"
  using stamp_reversed_marks [of "rev (map encode_message ms)"] encoded_plain
  by (auto simp: stamp_conversation_tail_def marks_rev)

lemma system_marks:
  "(case encode_system opts req of None \<Rightarrow> 0 | Some ss \<Rightarrow> count_where as_cached ss) \<le> 1"
  by (auto simp: encode_system_def on_last_def count_where_def Let_def split: option.splits)

lemma tools_marks:
  "(case encode_tools req of None \<Rightarrow> 0 | Some ts \<Rightarrow> count_where at_cached ts) \<le> 1"
proof -
  have "list_all (\<lambda>t. \<not> at_cached t) (map an_encode_tool ts)" for ts
    by (simp add: list_all_iff an_encode_tool_def)
  then show ?thesis by (simp add: encode_tools_def count_on_last)
qed

text \<open>
  Whatever the request, its encoding spends at most three of the provider's four cache
  breakpoints: one for the tools, one for the system blocks, one on the conversation.
\<close>

lemma anthropic_breakpoint_budget: "breakpoints (encode_anthropic_request opts req) \<le> 3"
  using tail_marks [of "req_messages req"] system_marks [of opts req] tools_marks [of req]
  by (simp add: breakpoints_def encode_anthropic_request_def)

section \<open>Nothing but breakpoints is added\<close>

fun plain_param :: "an_param \<Rightarrow> an_param" where
  "plain_param (AnText t _) = AnText t False"
| "plain_param (AnToolUse i n inp _) = AnToolUse i n inp False"
| "plain_param (AnToolResult i c e _) = AnToolResult i c e False"

definition plain_message :: "an_message \<Rightarrow> an_message" where
  "plain_message m = m\<lparr>am_content := map plain_param (am_content m)\<rparr>"

lemma plain_stamped [simp]: "plain_param (stamp_content_block b) = plain_param b"
  by (cases b) auto

lemma map_on_last: "(\<And>x. g (f x) = g x) \<Longrightarrow> map g (on_last f xs) = map g xs"
  by (cases xs rule: rev_cases) (auto simp: on_last_def)

lemma plain_stamp_reversed: "map plain_message (stamp_reversed ms) = map plain_message ms"
  by (induction ms) (auto simp: plain_message_def map_on_last)

lemma plain_encoded: "plain_message (encode_message m) = encode_message m"
proof -
  have "plain_param p = p" if "encode_content_block b = Some p" for b p
    using that by (cases b) auto
  then have "map plain_param (List.map_filter encode_content_block bs) = List.map_filter encode_content_block bs" for bs
    by (induction bs) (auto simp: List.map_filter_def)
  then show ?thesis by (simp add: plain_message_def encode_message_def)
qed

text \<open>
  But for the breakpoints, the encoded conversation is the projection of the history,
  message by message: roles, texts, tool uses and tool results in order, reasoning dropped;
  and the last block of the last message that has one is the block that is marked.
\<close>

lemma anthropic_encodes_history:
  "map plain_message (ap_messages (encode_anthropic_request opts req)) = map encode_message (req_messages req) \<and>
   (\<forall>ms m. req_messages req = ms @ [m] \<longrightarrow> am_content (encode_message m) \<noteq> [] \<longrightarrow>
      param_cached (last (am_content (last (ap_messages (encode_anthropic_request opts req))))))"
proof -
  have "map plain_message (stamp_conversation_tail ms) = map plain_message ms" for ms
    unfolding stamp_conversation_tail_def rev_map [symmetric] plain_stamp_reversed by (simp add: rev_map)
  then show ?thesis
    by (auto simp: encode_anthropic_request_def stamp_conversation_tail_def plain_encoded on_last_def)
qed

end
