(* ===== verification/OpenAiEncoder.thy ===== *)
theory OpenAiEncoder
  imports Wire
begin

text \<open>
  \<open>encodeOpenAiRequest\<close> of \<open>agents/llm-client/wires/openai-responses.ts\<close>: the projection
  of a neutral request onto the responses parameters. A text part carries its type
  (\<open>input_text\<close> or \<open>output_text\<close>), the arguments of a call are stringified json.
\<close>

section \<open>Parameters\<close>

datatype oa_text_type = InputText | OutputText

datatype oa_item =
    OaMessage message_role "(oa_text_type \<times> string) list"
  | OaFunctionCall tool_use_id string string
  | OaFunctionOutput tool_use_id string

record oa_tool =
  ot_name :: string
  ot_description :: string
  ot_parameters :: json_object
  ot_strict :: bool
  ot_output_schema :: "json_object option"

datatype oa_tool_choice = OaAuto | OaRequired | OaFunction string

datatype oa_effort = OaMinimal | OaLow | OaMedium | OaHigh

record oa_params =
  op_model :: string
  op_input :: "oa_item list"
  op_store :: bool
  op_stream :: bool
  op_max_output_tokens :: "nat option"
  op_instructions :: "string option"
  op_tools :: "oa_tool list option"
  op_tool_choice :: "oa_tool_choice option"
  op_effort :: "oa_effort option"

section \<open>Encoding\<close>

fun openai_effort :: "reasoning_effort \<Rightarrow> oa_effort" where
  "openai_effort EffortMinimal = OaMinimal"
| "openai_effort EffortLow = OaLow"
| "openai_effort EffortMedium = OaMedium"
| "openai_effort EffortHigh = OaHigh"
| "openai_effort EffortMax = OaHigh"

text \<open>The loop over the blocks: the items so far, and the text parts so far.\<close>

fun encode_blocks :: "oa_text_type \<Rightarrow> content_block list \<Rightarrow> oa_item list \<Rightarrow> (oa_text_type \<times> string) list \<Rightarrow>
    oa_item list \<times> (oa_text_type \<times> string) list" where
  "encode_blocks ty [] items parts = (items, parts)"
| "encode_blocks ty (TextBlock t # bs) items parts = encode_blocks ty bs items (parts @ [(ty, t)])"
| "encode_blocks ty (ToolUseBlock i n inp # bs) items parts =
     encode_blocks ty bs (items @ [OaFunctionCall i n (stringify (JObj inp))]) parts"
| "encode_blocks ty (ToolResultBlock i c e # bs) items parts =
     encode_blocks ty bs (items @ [OaFunctionOutput i c]) parts"
| "encode_blocks ty (ReasoningBlock t # bs) items parts = encode_blocks ty bs items parts"

definition encode_message_items :: "message \<Rightarrow> oa_item list" where
  "encode_message_items m =
     (let ty = (if msg_role m = User then InputText else OutputText);
          (items, parts) = encode_blocks ty (msg_content m) [] []
      in if parts \<noteq> [] then OaMessage (msg_role m) parts # items else items)"

definition oa_encode_tool :: "tool_spec \<Rightarrow> oa_tool" where
  "oa_encode_tool s = \<lparr>ot_name = spec_name s, ot_description = spec_description s,
     ot_parameters = spec_input_schema s, ot_strict = False, ot_output_schema = spec_output_schema s\<rparr>"

fun oa_encode_tool_choice :: "tool_choice \<Rightarrow> dialect option \<Rightarrow> oa_tool_choice" where
  "oa_encode_tool_choice ChooseAuto d = OaAuto"
| "oa_encode_tool_choice ChooseAny d = OaRequired"
| "oa_encode_tool_choice (ChooseTool n) d = (if d = Some CodexDialect then OaRequired else OaFunction n)"

definition encode_openai_request :: "wire_options \<Rightarrow> llm_request \<Rightarrow> oa_params" where
  "encode_openai_request opts req = \<lparr>
     op_model = req_model req,
     op_input = concat (map encode_message_items (req_messages req)),
     op_store = False,
     op_stream = True,
     op_max_output_tokens = (if wo_dialect opts \<noteq> Some CodexDialect then Some (req_max_tokens req) else None),
     op_instructions = req_system_prompt req,
     op_tools = (if req_tools req = [] then None else Some (map oa_encode_tool (req_tools req))),
     op_tool_choice = map_option (\<lambda>c. oa_encode_tool_choice c (wo_dialect opts)) (req_tool_choice req),
     op_effort = map_option openai_effort (req_reasoning_effort req)\<rparr>"

section \<open>What the encoding keeps\<close>

fun item_of_block :: "content_block \<Rightarrow> oa_item option" where
  "item_of_block (ToolUseBlock i n inp) = Some (OaFunctionCall i n (stringify (JObj inp)))"
| "item_of_block (ToolResultBlock i c e) = Some (OaFunctionOutput i c)"
| "item_of_block _ = None"

lemma encode_blocks_spec:
  "encode_blocks ty bs items parts =
     (items @ List.map_filter item_of_block bs,
      parts @ map (Pair ty \<circ> block_text) (filter is_text bs))"
  by (induction ty bs items parts rule: encode_blocks.induct) (simp_all add: List.map_filter_def)

fun is_oa_message :: "oa_item \<Rightarrow> bool" where
  "is_oa_message (OaMessage _ _) = True"
| "is_oa_message _ = False"

fun item_text :: "oa_item \<Rightarrow> string" where
  "item_text (OaMessage _ parts) = concat (map snd parts)"
| "item_text _ = []"

lemma map_filter_items: "filter (\<lambda>i. \<not> is_oa_message i) (List.map_filter item_of_block bs) = List.map_filter item_of_block bs"
proof -
  have "\<not> is_oa_message i" if "item_of_block b = Some i" for b i
    using that by (cases b) auto
  then show ?thesis by (induction bs) (auto simp: List.map_filter_def)
qed

lemma items_text: "concat (map item_text (List.map_filter item_of_block bs)) = []"
proof -
  have "item_text i = []" if "item_of_block b = Some i" for b i
    using that by (cases b) auto
  then show ?thesis by (induction bs) (auto simp: List.map_filter_def)
qed

lemma message_items_calls:
  "filter (\<lambda>i. \<not> is_oa_message i) (encode_message_items m) = List.map_filter item_of_block (msg_content m)"
  by (simp add: encode_message_items_def encode_blocks_spec map_filter_items)

lemma message_items_text: "concat (map item_text (encode_message_items m)) = assistant_text m"
  by (auto simp: encode_message_items_def encode_blocks_spec items_text assistant_text_def comp_def)

text \<open>
  The encoded input keeps every tool call and every tool result of the history in order,
  with the call's arguments stringified, keeps the visible text of every message, and drops
  the reasoning; the codex dialect never sends a completion cap nor forces a named tool.
\<close>

lemma openai_encodes_history:
  "filter (\<lambda>i. \<not> is_oa_message i) (op_input (encode_openai_request opts req)) =
     concat (map (\<lambda>m. List.map_filter item_of_block (msg_content m)) (req_messages req)) \<and>
   concat (map item_text (op_input (encode_openai_request opts req))) =
     concat (map assistant_text (req_messages req)) \<and>
   (if wo_dialect opts = Some CodexDialect
    then op_max_output_tokens (encode_openai_request opts req) = None \<and>
         (\<forall>n. op_tool_choice (encode_openai_request opts req) \<noteq> Some (OaFunction n))
    else op_max_output_tokens (encode_openai_request opts req) = Some (req_max_tokens req))"
proof -
  have 1: "filter (\<lambda>i. \<not> is_oa_message i) (concat (map encode_message_items ms)) =
      concat (map (\<lambda>m. List.map_filter item_of_block (msg_content m)) ms)" for ms
    by (induction ms) (simp_all add: message_items_calls)
  have 2: "concat (map item_text (concat (map encode_message_items ms))) = concat (map assistant_text ms)" for ms
    by (induction ms) (simp_all add: message_items_text)
  have 3: "oa_encode_tool_choice c (Some CodexDialect) \<noteq> OaFunction n" for c n
    by (cases c) auto
  show ?thesis
    unfolding encode_openai_request_def by (simp add: 1 2 3)
qed

end
