(* ===== verification/Events.thy ===== *)
theory Events
  imports LlmTypes
begin

text \<open>
  The vocabulary of a run: background-task facts (\<open>agents/background/background-task.ts\<close>),
  run outcomes and the run event union (\<open>agents/engine/run-handle.ts\<close>).
\<close>

section \<open>Background tasks\<close>

datatype task_status = TaskSuccess | TaskFailed | TaskCancelled

record task_outcome =
  to_status :: task_status
  to_outcome :: string

record task_tag =
  tag_type :: string
  tag_id :: string

record task_row =
  row_id :: background_task_id
  row_tag :: task_tag
  row_title :: string
  row_started :: nat

datatype task_event =
    TaskRegistered task_row
  | TaskSettled background_task_id task_tag string task_outcome "string option"

section \<open>Outcomes\<close>

datatype run_error_kind = MaxTurnsError | ProviderFailure | InternalFailure

record run_error =
  err_kind :: run_error_kind
  err_message :: string

datatype 'o run_status = Completed 'o | Failed run_error | Cancelled

record 'o agent_outcome =
  out_usage :: usage_snapshot
  out_turns :: nat
  out_status :: "'o run_status"

section \<open>Events\<close>

datatype 'o event_body =
    RunStarted string
  | TurnStarted nat
  | LlmEvent llm_stream_event
  | ToolExecutionStarted tool_use_id string json_object
  | ToolExecutionCompleted tool_call_result string string
  | TaskEvent task_event
  | RunFinished "'o agent_outcome"

text \<open>
  \<open>ToolExecutionCompleted r name output\<close> carries the settled result with the tool's name and
  the string projection of the content.
\<close>

record 'o agent_event =
  ae_body :: "'o event_body"
  ae_seq :: nat

fun is_run_finished :: "'o event_body \<Rightarrow> bool" where
  "is_run_finished (RunFinished _) = True"
| "is_run_finished _ = False"

end
