(* ===== verification/Conversation.thy ===== *)
theory Conversation
  imports Events
begin

text \<open>
  \<open>Conversation\<close> of \<open>agents/engine/conversation.ts\<close>: the provider history, and what the
  observer has been told. Every append writes both.
\<close>

datatype partial_reason = Interrupted | ProviderErrorPartial

datatype user_origin = OriginInitial | OriginSteer | OriginNotification

datatype conversation_entry =
    UserEntry user_origin message
  | AssistantEntry message
  | AssistantPartialEntry partial_reason message
  | ToolResultsEntry message

record conversation =
  cv_llm :: "message list"
  cv_observed :: "conversation_entry list"

definition append_user :: "message \<Rightarrow> user_origin \<Rightarrow> conversation \<Rightarrow> conversation" where
  "append_user m origin c =
     c\<lparr>cv_llm := cv_llm c @ [m], cv_observed := cv_observed c @ [UserEntry origin m]\<rparr>"

definition append_assistant :: "message \<Rightarrow> conversation \<Rightarrow> conversation" where
  "append_assistant m c =
     c\<lparr>cv_llm := cv_llm c @ [m], cv_observed := cv_observed c @ [AssistantEntry m]\<rparr>"

definition tool_results_message :: "content_block list \<Rightarrow> message" where
  "tool_results_message blocks = \<lparr>msg_role = User, msg_content = blocks\<rparr>"

definition append_tool_results :: "content_block list \<Rightarrow> conversation \<Rightarrow> conversation" where
  "append_tool_results blocks c =
     (let m = tool_results_message blocks
      in c\<lparr>cv_llm := cv_llm c @ [m], cv_observed := cv_observed c @ [ToolResultsEntry m]\<rparr>)"

definition append_partial_assistant :: "message \<Rightarrow> partial_reason \<Rightarrow> conversation \<Rightarrow> conversation" where
  "append_partial_assistant m reason c =
     c\<lparr>cv_observed := cv_observed c @ [AssistantPartialEntry reason m]\<rparr>"

text \<open>The constructor: seeds are appended in order.\<close>

definition conversation_init :: "message list \<Rightarrow> conversation" where
  "conversation_init initial =
     fold (\<lambda>m. append_user m OriginInitial) initial \<lparr>cv_llm = [], cv_observed = []\<rparr>"

lemmas conversation_defs =
  append_user_def append_assistant_def append_tool_results_def append_partial_assistant_def

lemma append_llm [frame_simps]:
  "cv_llm (append_user m origin c) = cv_llm c @ [m]"
  "cv_llm (append_assistant m c) = cv_llm c @ [m]"
  "cv_llm (append_tool_results bs c) = cv_llm c @ [tool_results_message bs]"
  "cv_llm (append_partial_assistant m r c) = cv_llm c"
  by (simp_all add: conversation_defs Let_def)

definition append_users :: "message list \<Rightarrow> user_origin \<Rightarrow> conversation \<Rightarrow> conversation" where
  "append_users ms origin c = fold (\<lambda>m. append_user m origin) ms c"

lemma append_users_llm [frame_simps]: "cv_llm (append_users ms origin c) = cv_llm c @ ms"
  by (induction ms arbitrary: c) (simp_all add: append_users_def append_llm)

lemma append_users_observed:
  "cv_observed (append_users ms origin c) = cv_observed c @ map (UserEntry origin) ms"
  by (induction ms arbitrary: c) (simp_all add: append_users_def append_user_def)

text \<open>
  The provider history is what the observer saw, partial output excepted: the observer can
  rebuild it.
\<close>

fun entry_message_opt :: "conversation_entry \<Rightarrow> message option" where
  "entry_message_opt (UserEntry _ m) = Some m"
| "entry_message_opt (AssistantEntry m) = Some m"
| "entry_message_opt (AssistantPartialEntry _ _) = None"
| "entry_message_opt (ToolResultsEntry m) = Some m"

definition observed_history :: "conversation \<Rightarrow> bool" where
  "observed_history c = (cv_llm c = List.map_filter entry_message_opt (cv_observed c))"

lemma map_filter_snoc: "List.map_filter f (xs @ [x]) = List.map_filter f xs @ (case f x of None \<Rightarrow> [] | Some y \<Rightarrow> [y])"
  by (auto simp: List.map_filter_def split: option.splits)

lemma observed_history_ops [inv_intros]:
  "observed_history c \<Longrightarrow> observed_history (append_user m origin c)"
  "observed_history c \<Longrightarrow> observed_history (append_assistant m c)"
  "observed_history c \<Longrightarrow> observed_history (append_tool_results bs c)"
  "observed_history c \<Longrightarrow> observed_history (append_partial_assistant m r c)"
  by (simp_all add: observed_history_def conversation_defs Let_def map_filter_snoc)

lemma observed_history_users [inv_intros]: "observed_history c \<Longrightarrow> observed_history (append_users ms origin c)"
  by (induction ms arbitrary: c) (simp_all add: append_users_def inv_intros)

lemma observed_history_init: "observed_history (conversation_init initial)"
proof -
  have "observed_history \<lparr>cv_llm = [], cv_observed = []\<rparr>"
    by (simp add: observed_history_def List.map_filter_def)
  then show ?thesis
    using observed_history_users [of _ initial OriginInitial]
    by (simp add: conversation_init_def append_users_def)
qed

lemma conversation_init_llm: "cv_llm (conversation_init initial) = initial"
  using append_users_llm [of initial OriginInitial "\<lparr>cv_llm = [], cv_observed = []\<rparr>"]
  by (simp add: conversation_init_def append_users_def)

end
