(* ===== verification/Hooks.thy ===== *)
theory Hooks
  imports Contracts
begin

text \<open>
  The hook engine (\<open>agents/tool/hooks.ts\<close>) and the authoring contracts it serves
  (\<open>agents/tool/contract.ts\<close>, the loop facts of \<open>agents/engine/agent-loop.ts\<close>). A hook is
  host code: a function of the facts it is given, whose throw is \<open>Inl\<close> of the message.
\<close>

section \<open>Facts and decisions\<close>

datatype tool_result = ToolOutput json "json_object option" | ToolError string

record turn_facts =
  tf_turn :: nat
  tf_max_turns :: nat
  tf_terminal_tool_name :: "string option"
  tf_tool_calls :: nat
  tf_background_task_count :: nat
  tf_has_pending_steers :: bool

datatype hook_decision = Passthrough | Deny string

record tool_call_facts =
  cf_tool_use_id :: tool_use_id
  cf_tool_name :: string
  cf_input :: json_object
  cf_background_task_count :: nat

text \<open>A boundary hook returns what it published (message and key) and whether it threw after that.\<close>

datatype hook_entry =
    PreToolUse "string option" "tool_call_facts \<Rightarrow> string + hook_decision"
  | PostToolUse "string option" "tool_call_facts \<Rightarrow> tool_result \<Rightarrow> string + hook_decision"
  | TurnBoundary "turn_facts \<Rightarrow> (string \<times> string option) list \<times> string option"

record hook_engine =
  he_pre :: "(string option \<times> (tool_call_facts \<Rightarrow> string + hook_decision)) list"
  he_post :: "(string option \<times> (tool_call_facts \<Rightarrow> tool_result \<Rightarrow> string + hook_decision)) list"
  he_boundary :: "(turn_facts \<Rightarrow> (string \<times> string option) list \<times> string option) list"

section \<open>Dispatch\<close>

fun as_pre where
  "as_pre (PreToolUse m f) = Some (m, f)"
| "as_pre _ = None"

fun as_post where
  "as_post (PostToolUse m f) = Some (m, f)"
| "as_post _ = None"

fun as_boundary where
  "as_boundary (TurnBoundary f) = Some f"
| "as_boundary _ = None"

text \<open>The constructor: one list per event, each in entry order.\<close>

definition make_hook_engine :: "hook_entry list \<Rightarrow> hook_engine" where
  "make_hook_engine entries = \<lparr>
     he_pre = List.map_filter as_pre entries,
     he_post = List.map_filter as_post entries,
     he_boundary = List.map_filter as_boundary entries\<rparr>"

definition hook_matches :: "string option \<Rightarrow> string \<Rightarrow> bool" where
  "hook_matches matcher name = (matcher = None \<or> matcher = Some name)"

text \<open>\<open>guarded\<close>: a throwing hook denies with the thrown message.\<close>

definition guarded :: "string + hook_decision \<Rightarrow> hook_decision" where
  "guarded r = (case r of Inl msg \<Rightarrow> Deny msg | Inr d \<Rightarrow> d)"

fun deny_reason :: "hook_decision \<Rightarrow> string option" where
  "deny_reason Passthrough = None"
| "deny_reason (Deny r) = Some r"

definition combine :: "hook_decision list \<Rightarrow> hook_decision" where
  "combine ds =
     (let reasons = List.map_filter deny_reason ds
      in if reasons \<noteq> [] then Deny (join_with ''; '' reasons) else Passthrough)"

definition pre_tool_use :: "hook_engine \<Rightarrow> tool_call_facts \<Rightarrow> hook_decision" where
  "pre_tool_use he call =
     combine (map (\<lambda>(m, f). guarded (f call)) (filter (\<lambda>(m, f). hook_matches m (cf_tool_name call)) (he_pre he)))"

definition post_tool_use :: "hook_engine \<Rightarrow> tool_call_facts \<Rightarrow> tool_result \<Rightarrow> hook_decision" where
  "post_tool_use he call r =
     combine (map (\<lambda>(m, f). guarded (f call r)) (filter (\<lambda>(m, f). hook_matches m (cf_tool_name call)) (he_post he)))"

text \<open>
  \<open>turnBoundary\<close>: the entries run one after the other; a throw is recorded as a warning and
  the next entry still runs. Returns the publishes in order and the warnings.
\<close>

fun run_boundary :: "(turn_facts \<Rightarrow> (string \<times> string option) list \<times> string option) list \<Rightarrow> turn_facts \<Rightarrow>
    (string \<times> string option) list \<times> string list" where
  "run_boundary [] facts = ([], [])"
| "run_boundary (f # fs) facts =
     (let (ps, err) = f facts; (qs, ws) = run_boundary fs facts
      in (ps @ qs, (case err of None \<Rightarrow> ws
                    | Some e \<Rightarrow> (''turnBoundary hook failed and was skipped: '' @ e) # ws)))"

definition turn_boundary :: "hook_engine \<Rightarrow> turn_facts \<Rightarrow> (string \<times> string option) list \<times> string list" where
  "turn_boundary he facts = run_boundary (he_boundary he) facts"

section \<open>Any deny wins\<close>

lemma combine_Passthrough: "combine ds = Passthrough \<longleftrightarrow> (\<forall>d \<in> set ds. d = Passthrough)"
proof -
  have "deny_reason d \<noteq> None \<longleftrightarrow> d \<noteq> Passthrough" for d by (cases d) auto
  then show ?thesis by (auto simp: combine_def Let_def List.map_filter_def filter_empty_conv)
qed

lemma guarded_Passthrough: "guarded r = Passthrough \<longleftrightarrow> r = Inr Passthrough"
  by (cases r) (auto simp: guarded_def)

text \<open>
  A tool call passes the pre hooks exactly when every registered entry that matches its
  name returned passthrough: a deny anywhere, or a hook that throws, denies (fail closed).
\<close>

lemma pre_hooks_pass:
  "pre_tool_use (make_hook_engine entries) call = Passthrough \<longleftrightarrow>
   (\<forall>m f. PreToolUse m f \<in> set entries \<and> hook_matches m (cf_tool_name call) \<longrightarrow> f call = Inr Passthrough)"
proof -
  have "(m, f) \<in> set (List.map_filter as_pre entries) \<longleftrightarrow> PreToolUse m f \<in> set entries" for m f
  proof -
    have "as_pre e = Some (m, f) \<longleftrightarrow> e = PreToolUse m f" for e by (cases e) auto
    then show ?thesis by (force simp: List.map_filter_def)
  qed
  then show ?thesis
    by (fastforce simp: pre_tool_use_def combine_Passthrough guarded_Passthrough make_hook_engine_def)
qed

end
