(* ===== verification/Turn.thy ===== *)
theory Turn
  imports Conversation Hooks
begin

text \<open>
  One assistant turn (\<open>agents/engine/turn.ts\<close>): the request, the sum of usages, and the
  salvage of what a turn that died had streamed.
\<close>

record turn_config =
  tc_model :: string
  tc_system_prompt :: "string option"
  tc_max_tokens :: nat
  tc_reasoning_effort :: "reasoning_effort option"

section \<open>Usage\<close>

definition positive :: "int \<Rightarrow> int option" where
  "positive n = (if n > 0 then Some n else None)"

definition add_usage :: "usage_snapshot \<Rightarrow> usage_snapshot \<Rightarrow> usage_snapshot" where
  "add_usage tot turn = \<lparr>
     input_tokens = input_tokens tot + input_tokens turn,
     output_tokens = output_tokens tot + output_tokens turn,
     cache_read_input_tokens = positive (or_default (cache_read_input_tokens tot) 0 + or_default (cache_read_input_tokens turn) 0),
     cache_creation_input_tokens =
       positive (or_default (cache_creation_input_tokens tot) 0 + or_default (cache_creation_input_tokens turn) 0)\<rparr>"

definition sum_usage :: "usage_snapshot list \<Rightarrow> usage_snapshot" where
  "sum_usage us = fold (\<lambda>u t. add_usage t u) us zero_usage"

definition usage_nonneg :: "usage_snapshot \<Rightarrow> bool" where
  "usage_nonneg u = (0 \<le> or_default (cache_read_input_tokens u) 0 \<and> 0 \<le> or_default (cache_creation_input_tokens u) 0)"

lemma or_default_positive: "0 \<le> n \<Longrightarrow> or_default (positive n) 0 = n"
  by (simp add: positive_def)

lemma fold_usage:
  "list_all usage_nonneg us \<Longrightarrow> usage_nonneg t \<Longrightarrow>
   input_tokens (fold (\<lambda>u t. add_usage t u) us t) = input_tokens t + sum_list (map input_tokens us) \<and>
   output_tokens (fold (\<lambda>u t. add_usage t u) us t) = output_tokens t + sum_list (map output_tokens us) \<and>
   or_default (cache_read_input_tokens (fold (\<lambda>u t. add_usage t u) us t)) 0 =
     or_default (cache_read_input_tokens t) 0 + sum_list (map (\<lambda>u. or_default (cache_read_input_tokens u) 0) us) \<and>
   or_default (cache_creation_input_tokens (fold (\<lambda>u t. add_usage t u) us t)) 0 =
     or_default (cache_creation_input_tokens t) 0 + sum_list (map (\<lambda>u. or_default (cache_creation_input_tokens u) 0) us)"
proof (induction us arbitrary: t)
  case (Cons u us)
  have "usage_nonneg (add_usage t u)"
    using Cons.prems by (auto simp: usage_nonneg_def add_usage_def or_default_positive)
  with Cons show ?case by (simp add: add_usage_def or_default_positive usage_nonneg_def)
qed simp

text \<open>
  The run total is the sum of its turns, field by field, when no turn reports a negative
  cache count; a cache field that no turn reported stays absent.
\<close>

lemma usage_is_summed:
  assumes "list_all usage_nonneg us"
  shows "input_tokens (sum_usage us) = sum_list (map input_tokens us) \<and>
         output_tokens (sum_usage us) = sum_list (map output_tokens us) \<and>
         or_default (cache_read_input_tokens (sum_usage us)) 0 = sum_list (map (\<lambda>u. or_default (cache_read_input_tokens u) 0) us) \<and>
         or_default (cache_creation_input_tokens (sum_usage us)) 0 =
           sum_list (map (\<lambda>u. or_default (cache_creation_input_tokens u) 0) us) \<and>
         ((\<forall>u \<in> set us. cache_read_input_tokens u = None) \<longrightarrow> cache_read_input_tokens (sum_usage us) = None)"
proof -
  have z: "usage_nonneg zero_usage" by (simp add: usage_nonneg_def zero_usage_def)
  have "cache_read_input_tokens (fold (\<lambda>u t. add_usage t u) us t) = None"
    if "\<forall>u \<in> set us. cache_read_input_tokens u = None" "cache_read_input_tokens t = None" for us t
    using that by (induction us arbitrary: t) (auto simp: add_usage_def positive_def)
  with fold_usage [OF assms z] show ?thesis by (auto simp: sum_usage_def zero_usage_def)
qed

section \<open>The request and the salvage\<close>

definition turn_request :: "turn_config \<Rightarrow> tool_spec list \<Rightarrow> conversation \<Rightarrow> llm_request" where
  "turn_request cfg specs conv = \<lparr>
     req_model = tc_model cfg,
     req_messages = cv_llm conv,
     req_system_prompt = tc_system_prompt cfg,
     req_max_tokens = tc_max_tokens cfg,
     req_tools = specs,
     req_tool_choice = None,
     req_reasoning_effort = tc_reasoning_effort cfg\<rparr>"

text \<open>What the turn accumulates of one stream event.\<close>

fun accumulate :: "llm_stream_event \<Rightarrow> string \<times> string \<Rightarrow> string \<times> string" where
  "accumulate (AssistantTextDelta t) (text, reasoning) = (text @ t, reasoning)"
| "accumulate (ReasoningDelta t) (text, reasoning) = (text, reasoning @ t)"
| "accumulate _ acc = acc"

fun is_provider_error :: "thrown \<Rightarrow> bool" where
  "is_provider_error (ThrownProvider _) = True"
| "is_provider_error _ = False"

definition partial_content :: "string \<times> string \<Rightarrow> content_block list" where
  "partial_content acc =
     (if snd acc \<noteq> [] then [ReasoningBlock (snd acc)] else []) @ (if fst acc \<noteq> [] then [TextBlock (fst acc)] else [])"

definition salvage :: "bool \<Rightarrow> thrown \<Rightarrow> string \<times> string \<Rightarrow> conversation \<Rightarrow> conversation" where
  "salvage aborted err acc conv =
     (let reason = (if aborted then Some Interrupted
                    else if is_provider_error err then Some ProviderErrorPartial else None);
          content = partial_content acc
      in case reason of
           Some r \<Rightarrow> (if content \<noteq> [] then append_partial_assistant \<lparr>msg_role = Assistant, msg_content = content\<rparr> r conv
                      else conv)
         | None \<Rightarrow> conv)"

lemma salvage_llm [simp]: "cv_llm (salvage aborted err acc conv) = cv_llm conv"
  by (simp add: salvage_def Let_def append_llm split: option.splits)

lemma salvage_no_calls: "tool_uses \<lparr>msg_role = Assistant, msg_content = partial_content acc\<rparr> = []"
  by (auto simp: tool_uses_Nil_iff partial_content_def)

end
