(* ===== verification/EventStream.thy ===== *)
theory EventStream
  imports PushStream
begin

text \<open>
  \<open>EventStream\<close> of \<open>agents/engine/run-handle.ts\<close>: an unbounded buffer, an array of
  wakers, and the closed, detached and consumed latches. \<open>es_ready\<close> lists the waiters
  whose waker was called and whose loop has not run again yet.
\<close>

record 'e event_stream =
  es_buffer :: "'e list"
  es_wakers :: "nat list"
  es_ready :: "nat list"
  es_closed :: bool
  es_detached :: bool
  es_consumed :: bool

definition es_init :: "'e event_stream" where
  "es_init = \<lparr>es_buffer = [], es_wakers = [], es_ready = [], es_closed = False,
     es_detached = False, es_consumed = False\<rparr>"

text \<open>\<open>#wake\<close>: swap the waker array out, then call each.\<close>

definition es_wake :: "'e event_stream \<Rightarrow> 'e event_stream" where
  "es_wake s = s\<lparr>es_wakers := [], es_ready := es_ready s @ es_wakers s\<rparr>"

definition es_push :: "'e \<Rightarrow> 'e event_stream \<Rightarrow> 'e event_stream" where
  "es_push e s =
     (if es_detached s \<or> es_closed s then s
      else es_wake (s\<lparr>es_buffer := es_buffer s @ [e]\<rparr>))"

definition es_close :: "'e event_stream \<Rightarrow> 'e event_stream" where
  "es_close s = es_wake (s\<lparr>es_closed := True\<rparr>)"

definition es_detach :: "'e event_stream \<Rightarrow> 'e event_stream" where
  "es_detach s = es_wake (s\<lparr>es_detached := True, es_buffer := []\<rparr>)"

text \<open>\<open>[Symbol.asyncIterator]\<close>: the second call throws.\<close>

datatype stream_error = SingleConsumer

definition es_iterate :: "'e event_stream \<Rightarrow> stream_error + 'e event_stream" where
  "es_iterate s = (if es_consumed s then Inl SingleConsumer else Inr (s\<lparr>es_consumed := True\<rparr>))"

text \<open>
  One run of the loop body of \<open>#next\<close> by the waiter \<open>w\<close>: it answers, or it registers its
  waker and suspends.
\<close>

definition es_next :: "nat \<Rightarrow> 'e event_stream \<Rightarrow> 'e pull \<times> 'e event_stream" where
  "es_next w s =
     (let s = s\<lparr>es_ready := remove1 w (es_ready s)\<rparr> in
      if es_detached s then (Finished, s)
      else case es_buffer s of
             e # es \<Rightarrow> (Item e, s\<lparr>es_buffer := es\<rparr>)
           | [] \<Rightarrow> (if es_closed s then (Finished, s)
                    else (Suspended, s\<lparr>es_wakers := es_wakers s @ [w]\<rparr>)))"

fun es_exec :: "'e stream_op \<Rightarrow> 'e event_stream \<Rightarrow> 'e event_stream \<times> 'e pull option" where
  "es_exec (Push e) s = (es_push e s, None)"
| "es_exec Close s = (es_close s, None)"
| "es_exec Detach s = (es_detach s, None)"
| "es_exec (Next w) s = (case es_next w s of (p, s') \<Rightarrow> (s', Some p))"

lemmas es_defs = es_wake_def es_push_def es_close_def es_detach_def es_next_def

interpretation es: push_stream es_exec es_buffer es_wakers es_ready es_closed es_detached
  by unfold_locales (auto simp: es_defs Let_def split: if_splits list.splits)

lemma es_push_simps [frame_simps]:
  "es_closed (es_push e s) = es_closed s"
  "es_detached (es_push e s) = es_detached s"
  "es_consumed (es_push e s) = es_consumed s"
  by (simp_all add: es_defs)

lemma es_push_buffer:
  "es_buffer (es_push e s) = (if es_detached s \<or> es_closed s then es_buffer s else es_buffer s @ [e])"
  by (simp add: es_defs)

lemma es_close_simps [frame_simps]:
  "es_closed (es_close s)"
  "es_detached (es_close s) = es_detached s"
  "es_buffer (es_close s) = es_buffer s"
  "es_consumed (es_close s) = es_consumed s"
  by (simp_all add: es_defs)

lemma es_iterate_once: "es_iterate s = Inr s' \<Longrightarrow> es_iterate s' = Inl SingleConsumer"
  by (auto simp: es_iterate_def split: if_splits)

section \<open>Delivery\<close>

text \<open>
  The event stream of a run delivers exactly what was pushed before it was closed or
  detached, in order and without loss: what the consumer has received is a prefix of it,
  and unless the consumer detached the rest is still buffered.
\<close>

lemma event_stream_fifo:
  assumes "run_ops es_exec xs es_init = (s, ps)"
  shows "\<exists>rest. items ps @ rest = accepted xs \<and> (Detach \<notin> set xs \<longrightarrow> rest = es_buffer s)"
  using es.run_delivers [of es_init xs s ps] assms by (simp add: es_init_def)

text \<open>
  No wakeup is lost: after any history, a consumer suspended in \<open>next()\<close> waits on an
  empty stream that is neither closed nor detached.
\<close>

lemma event_stream_no_lost_wakeup:
  assumes "run_ops es_exec xs es_init = (s, ps)" and "es_wakers s \<noteq> []"
  shows "es_buffer s = [] \<and> \<not> es_closed s \<and> \<not> es_detached s"
  using es.run_idle_waiters [of es_init xs s ps] assms by (simp add: es.idle_waiters_def es_init_def)

end
