(* ===== verification/WakeSource.thy ===== *)
theory WakeSource
  imports Prelude
begin

text \<open>
  Level-triggered waits. The inbox, the steer queue and the task registry each offer a wait
  that resolves at once when its condition already holds, and otherwise when an operation
  makes it hold, or on abort. \<open>wake_source\<close> is the contract the parked loop relies on: no
  waiter is forgotten, and none is left registered while its condition holds.
\<close>

locale wake_source =
  fixes step :: "'op \<Rightarrow> 's \<Rightarrow> 's"
    and waiters :: "'s \<Rightarrow> 'w list"
    and resolved :: "'s \<Rightarrow> 'w list"
    and due :: "'w \<Rightarrow> 's \<Rightarrow> bool"
  assumes keeps:
      "w \<in> set (waiters s) \<union> set (resolved s) \<Longrightarrow>
       w \<in> set (waiters (step x s)) \<union> set (resolved (step x s))"
    and wakes:
      "\<forall>w \<in> set (waiters s). \<not> due w s \<Longrightarrow> w \<in> set (waiters (step x s)) \<Longrightarrow> \<not> due w (step x s)"
begin

definition level :: "'s \<Rightarrow> bool" where
  "level s = (\<forall>w \<in> set (waiters s). \<not> due w s)"

lemma level_run: "level s \<Longrightarrow> level (fold step xs s)"
proof (induction xs arbitrary: s)
  case (Cons x xs)
  have "level (step x s)" using Cons.prems wakes [of s _ x] by (auto simp: level_def)
  with Cons.IH show ?case by simp
qed simp

lemma keeps_run:
  "w \<in> set (waiters s) \<union> set (resolved s) \<Longrightarrow>
   w \<in> set (waiters (fold step xs s)) \<union> set (resolved (fold step xs s))"
proof (induction xs arbitrary: s)
  case (Cons x xs)
  then show ?case using keeps [of w s x] by simp
qed simp

text \<open>A wait that began is resolved at every later moment at which its condition holds.\<close>

lemma due_resolved:
  assumes "level s" "w \<in> set (waiters s) \<union> set (resolved s)" "due w (fold step xs s)"
  shows "w \<in> set (resolved (fold step xs s))"
  using level_run [OF assms(1), of xs] keeps_run [OF assms(2), of xs] assms(3)
  by (auto simp: level_def)

end

end
