(* ===== verification/RunHandle.thy ===== *)
theory RunHandle
  imports Events EventStream WakeSource
begin

text \<open>
  \<open>RunHandle\<close> of \<open>agents/engine/run-handle.ts\<close>: the seq-stamping emitter, the abort
  flag of the run's controller, the steer queue with its waiters, the finishing latch and
  the single finish. \<open>rh_tapped\<close> is everything the internal tap has seen, that is every
  stamped event; \<open>rh_outcome\<close> is the value the outcome promise has been resolved with.
\<close>

record 'o run_handle =
  rh_stream :: "'o agent_event event_stream"
  rh_tapped :: "'o agent_event list"
  rh_aborted :: bool
  rh_seq :: nat
  rh_steers :: "message list"
  rh_steer_wakers :: "nat list"
  rh_steer_resolved :: "nat list"
  rh_finishing :: bool
  rh_finished :: bool
  rh_outcome :: "'o agent_outcome option"

definition handle_init :: "'o run_handle" where
  "handle_init = \<lparr>rh_stream = es_init, rh_tapped = [], rh_aborted = False, rh_seq = 0,
     rh_steers = [], rh_steer_wakers = [], rh_steer_resolved = [], rh_finishing = False,
     rh_finished = False, rh_outcome = None\<rparr>"

datatype steer_error = SteerNotUser

definition steer :: "message \<Rightarrow> 'o run_handle \<Rightarrow> steer_error + (bool \<times> 'o run_handle)" where
  "steer m h =
     (if msg_role m \<noteq> User then Inl SteerNotUser
      else if rh_finishing h \<or> rh_finished h then Inr (False, h)
      else Inr (True, h\<lparr>rh_steers := rh_steers h @ [m],
                        rh_steer_wakers := [],
                        rh_steer_resolved := rh_steer_resolved h @ rh_steer_wakers h\<rparr>))"

definition interrupt :: "'o run_handle \<Rightarrow> 'o run_handle" where
  "interrupt h = (if rh_finished h then h else h\<lparr>rh_aborted := True\<rparr>)"

definition emit :: "'o event_body \<Rightarrow> 'o run_handle \<Rightarrow> 'o run_handle" where
  "emit body h =
     (let event = \<lparr>ae_body = body, ae_seq = rh_seq h\<rparr>
      in h\<lparr>rh_seq := rh_seq h + 1, rh_tapped := rh_tapped h @ [event],
           rh_stream := es_push event (rh_stream h)\<rparr>)"

definition drain_steers :: "'o run_handle \<Rightarrow> message list \<times> 'o run_handle" where
  "drain_steers h = (rh_steers h, h\<lparr>rh_steers := []\<rparr>)"

definition has_pending_steers :: "'o run_handle \<Rightarrow> bool" where
  "has_pending_steers h = (rh_steers h \<noteq> [])"

definition wait_for_steer :: "nat \<Rightarrow> bool \<Rightarrow> 'o run_handle \<Rightarrow> 'o run_handle" where
  "wait_for_steer w aborted h =
     (if rh_steers h \<noteq> [] \<or> aborted then h\<lparr>rh_steer_resolved := rh_steer_resolved h @ [w]\<rparr>
      else h\<lparr>rh_steer_wakers := rh_steer_wakers h @ [w]\<rparr>)"

definition steer_abort_wait :: "nat \<Rightarrow> 'o run_handle \<Rightarrow> 'o run_handle" where
  "steer_abort_wait w h =
     (if w \<in> set (rh_steer_wakers h)
      then h\<lparr>rh_steer_wakers := removeAll w (rh_steer_wakers h),
             rh_steer_resolved := rh_steer_resolved h @ [w]\<rparr>
      else h)"

definition begin_finishing :: "'o run_handle \<Rightarrow> 'o run_handle" where
  "begin_finishing h = h\<lparr>rh_finishing := True\<rparr>"

definition cancel_finishing :: "'o run_handle \<Rightarrow> 'o run_handle" where
  "cancel_finishing h = (if \<not> rh_finished h then h\<lparr>rh_finishing := False\<rparr> else h)"

definition finish :: "'o agent_outcome \<Rightarrow> 'o run_handle \<Rightarrow> 'o run_handle" where
  "finish out h =
     (if rh_finished h then h
      else
        let h1 = h\<lparr>rh_finishing := True, rh_finished := True, rh_steers := []\<rparr>;
            h2 = emit (RunFinished out) h1
        in h2\<lparr>rh_stream := es_close (rh_stream h2), rh_outcome := Some out\<rparr>)"

lemmas handle_defs = steer_def interrupt_def emit_def drain_steers_def wait_for_steer_def
  steer_abort_wait_def begin_finishing_def cancel_finishing_def finish_def

section \<open>Histories\<close>

datatype 'o handle_op =
    Steer message | Interrupt | Emit "'o event_body" | DrainSteers
  | WaitForSteer nat bool | AbortSteerWait nat
  | BeginFinishing | CancelFinishing | Finish "'o agent_outcome"

datatype handle_out = SteerAnswer bool | SteersDrained "message list" | NoAnswer | SteerThrew

fun handle_exec :: "'o handle_op \<Rightarrow> 'o run_handle \<Rightarrow> handle_out \<times> 'o run_handle" where
  "handle_exec (Steer m) h =
     (case steer m h of Inl _ \<Rightarrow> (SteerThrew, h) | Inr (ok, h') \<Rightarrow> (SteerAnswer ok, h'))"
| "handle_exec Interrupt h = (NoAnswer, interrupt h)"
| "handle_exec (Emit b) h = (NoAnswer, emit b h)"
| "handle_exec DrainSteers h = (case drain_steers h of (ms, h') \<Rightarrow> (SteersDrained ms, h'))"
| "handle_exec (WaitForSteer w a) h = (NoAnswer, wait_for_steer w a h)"
| "handle_exec (AbortSteerWait w) h = (NoAnswer, steer_abort_wait w h)"
| "handle_exec BeginFinishing h = (NoAnswer, begin_finishing h)"
| "handle_exec CancelFinishing h = (NoAnswer, cancel_finishing h)"
| "handle_exec (Finish out) h = (NoAnswer, finish out h)"

definition handle_step :: "'o handle_op \<Rightarrow> 'o run_handle \<Rightarrow> 'o run_handle" where
  "handle_step x h = snd (handle_exec x h)"

text \<open>A history: the final handle and each operation with its answer.\<close>

fun handle_run :: "'o handle_op list \<Rightarrow> 'o run_handle \<Rightarrow> 'o run_handle \<times> ('o handle_op \<times> handle_out) list" where
  "handle_run [] h = (h, [])"
| "handle_run (x # xs) h =
     (case handle_exec x h of (out, h1) \<Rightarrow>
        (case handle_run xs h1 of (h2, tr) \<Rightarrow> (h2, (x, out) # tr)))"

interpretation steer_wait: wake_source handle_step rh_steer_wakers rh_steer_resolved
  "\<lambda>w h. rh_steers h \<noteq> []"
proof
  fix w :: nat and h :: "'o run_handle" and x
  show "w \<in> set (rh_steer_wakers h) \<union> set (rh_steer_resolved h) \<Longrightarrow>
        w \<in> set (rh_steer_wakers (handle_step x h)) \<union> set (rh_steer_resolved (handle_step x h))"
    by (cases x) (auto simp: handle_step_def handle_defs Let_def split: if_splits)
  show "\<forall>w\<in>set (rh_steer_wakers h). \<not> rh_steers h \<noteq> [] \<Longrightarrow>
        w \<in> set (rh_steer_wakers (handle_step x h)) \<Longrightarrow> \<not> rh_steers (handle_step x h) \<noteq> []"
    by (cases x) (auto simp: handle_step_def handle_defs Let_def split: if_splits)
qed

section \<open>One numbered event log, one finish\<close>

definition handle_inv :: "'o run_handle \<Rightarrow> bool" where
  "handle_inv h =
     (map ae_seq (rh_tapped h) = [0..<rh_seq h] \<and> \<not> es_detached (rh_stream h) \<and>
      es_closed (rh_stream h) = rh_finished h \<and>
      (if rh_finished h
       then rh_steers h = [] \<and> (\<exists>fin post out.
              rh_tapped h = es_buffer (rh_stream h) @ post \<and> es_buffer (rh_stream h) \<noteq> [] \<and>
              last (es_buffer (rh_stream h)) = fin \<and> ae_body fin = RunFinished out \<and>
              rh_outcome h = Some out \<and>
              filter (is_run_finished \<circ> ae_body) (rh_tapped h) = [fin])
       else es_buffer (rh_stream h) = rh_tapped h \<and> rh_outcome h = None \<and>
            filter (is_run_finished \<circ> ae_body) (rh_tapped h) = []))"

lemma handle_inv_init: "handle_inv handle_init"
  by (simp add: handle_inv_def handle_init_def es_init_def)

lemma emit_inv [inv_intros]: "handle_inv h \<Longrightarrow> \<not> is_run_finished b \<Longrightarrow> handle_inv (emit b h)"
  by (auto simp: handle_inv_def emit_def Let_def es_push_buffer frame_simps split: if_splits)

lemma finish_inv [inv_intros]: "handle_inv h \<Longrightarrow> handle_inv (finish out h)"
  by (auto simp: handle_inv_def finish_def emit_def Let_def es_push_buffer frame_simps split: if_splits)

text \<open>The other operations touch only the queue, the latch and the abort flag.\<close>

lemma handle_frame_inv:
  assumes "handle_inv h"
    and "rh_tapped h' = rh_tapped h" "rh_seq h' = rh_seq h" "rh_stream h' = rh_stream h"
    and "rh_finished h' = rh_finished h" "rh_outcome h' = rh_outcome h"
    and "rh_finished h \<Longrightarrow> rh_steers h' = []"
  shows "handle_inv h'"
  using assms by (auto simp: handle_inv_def)

lemma handle_exec_inv:
  assumes inv: "handle_inv h" and x: "\<forall>b. x = Emit b \<longrightarrow> \<not> is_run_finished b"
  shows "handle_inv (snd (handle_exec x h))"
proof (cases x)
  case (Emit b)
  with inv x show ?thesis by (simp add: inv_intros)
next
  case (Finish out)
  with inv show ?thesis by (simp add: inv_intros)
next
  case (Steer m)
  with inv show ?thesis
    by (auto simp: steer_def split: sum.splits intro: handle_frame_inv)
next
  case Interrupt
  from inv have "handle_inv (interrupt h)"
    by (rule handle_frame_inv) (use inv in \<open>auto simp: interrupt_def handle_inv_def\<close>)
  with Interrupt show ?thesis by simp
next
  case DrainSteers
  from inv have "handle_inv (snd (drain_steers h))"
    by (rule handle_frame_inv) (auto simp: drain_steers_def)
  with DrainSteers show ?thesis by (simp add: drain_steers_def)
next
  case (WaitForSteer w a)
  from inv have "handle_inv (wait_for_steer w a h)"
    by (rule handle_frame_inv) (use inv in \<open>auto simp: wait_for_steer_def handle_inv_def\<close>)
  with WaitForSteer show ?thesis by simp
next
  case (AbortSteerWait w)
  from inv have "handle_inv (steer_abort_wait w h)"
    by (rule handle_frame_inv) (use inv in \<open>auto simp: steer_abort_wait_def handle_inv_def\<close>)
  with AbortSteerWait show ?thesis by simp
next
  case BeginFinishing
  from inv have "handle_inv (begin_finishing h)"
    by (rule handle_frame_inv) (use inv in \<open>auto simp: begin_finishing_def handle_inv_def\<close>)
  with BeginFinishing show ?thesis by simp
next
  case CancelFinishing
  from inv have "handle_inv (cancel_finishing h)"
    by (rule handle_frame_inv) (use inv in \<open>auto simp: cancel_finishing_def handle_inv_def\<close>)
  with CancelFinishing show ?thesis by simp
qed

lemma handle_run_inv:
  "handle_inv h \<Longrightarrow> \<forall>b. Emit b \<in> set xs \<longrightarrow> \<not> is_run_finished b \<Longrightarrow> handle_run xs h = (h', tr) \<Longrightarrow> handle_inv h'"
proof (induction xs arbitrary: h tr)
  case (Cons x xs)
  have "handle_inv (snd (handle_exec x h))" using Cons.prems by (intro handle_exec_inv) auto
  with Cons show ?case by (auto split: prod.splits)
qed simp

text \<open>
  C11: whatever operations a run's handle receives (no component emits \<open>run_finished\<close> itself,
  only \<open>finish\<close> does), its events are numbered densely from 0; a finished run has exactly one
  \<open>run_finished\<close>, which is the last event its stream will ever deliver and carries the
  outcome the promise is resolved with; and a run that has not finished has none.
\<close>

theorem run_finished_once_and_last:
  assumes "handle_run xs handle_init = (h, tr)"
    and "\<forall>b. Emit b \<in> set xs \<longrightarrow> \<not> is_run_finished b"
  shows "map ae_seq (rh_tapped h) = [0..<rh_seq h] \<and>
         (if rh_finished h
          then \<exists>fin out. filter (is_run_finished \<circ> ae_body) (rh_tapped h) = [fin] \<and>
                 last (es_buffer (rh_stream h)) = fin \<and> es_closed (rh_stream h) \<and>
                 ae_body fin = RunFinished out \<and> rh_outcome h = Some out
          else filter (is_run_finished \<circ> ae_body) (rh_tapped h) = [] \<and> rh_outcome h = None)"
  using handle_run_inv [OF handle_inv_init assms(2) assms(1)] by (auto simp: handle_inv_def)

theorem run_finished_once_and_last_witness:
  "\<exists>h tr. handle_run [Emit (RunStarted ''a''), Finish \<lparr>out_usage = zero_usage, out_turns = 0, out_status = Cancelled\<rparr>,
                     Finish \<lparr>out_usage = zero_usage, out_turns = 9, out_status = Completed True\<rparr>,
                     Emit (TurnStarted 1)] handle_init = (h, tr)
     \<and> rh_finished h \<and> map ae_seq (rh_tapped h) = [0..<3]
     \<and> last (es_buffer (rh_stream h)) =
        \<lparr>ae_body = RunFinished \<lparr>out_usage = zero_usage, out_turns = 0, out_status = Cancelled\<rparr>, ae_seq = 1\<rparr>"
proof -
  let ?xs = "[Emit (RunStarted ''a''), Finish \<lparr>out_usage = zero_usage, out_turns = 0, out_status = Cancelled\<rparr>,
              Finish \<lparr>out_usage = zero_usage, out_turns = 9, out_status = Completed True\<rparr>, Emit (TurnStarted 1)]"
  obtain h tr where r: "handle_run ?xs handle_init = (h, tr)" by (cases "handle_run ?xs handle_init")
  have ok: "\<forall>b. Emit b \<in> set ?xs \<longrightarrow> \<not> is_run_finished b" by auto
  from r have "rh_seq h = 3" "rh_finished h"
    "last (es_buffer (rh_stream h)) =
       \<lparr>ae_body = RunFinished \<lparr>out_usage = zero_usage, out_turns = 0, out_status = Cancelled\<rparr>, ae_seq = 1\<rparr>"
    by (auto simp: handle_init_def handle_defs es_init_def es_defs Let_def)
  with r run_finished_once_and_last [OF r ok] show ?thesis by auto
qed

section \<open>Steers\<close>

fun accepted_steers :: "('o handle_op \<times> handle_out) list \<Rightarrow> message list" where
  "accepted_steers [] = []"
| "accepted_steers ((Steer m, SteerAnswer ok) # tr) = (if ok then m # accepted_steers tr else accepted_steers tr)"
| "accepted_steers (_ # tr) = accepted_steers tr"

fun drained_steers :: "('o handle_op \<times> handle_out) list \<Rightarrow> message list" where
  "drained_steers [] = []"
| "drained_steers ((_, SteersDrained ms) # tr) = ms @ drained_steers tr"
| "drained_steers (_ # tr) = drained_steers tr"

lemma steer_queue_step:
  assumes "handle_exec x h = (out, h1)" "\<not> rh_finished h1"
  shows "rh_steers h @ accepted_steers [(x, out)] = drained_steers [(x, out)] @ rh_steers h1"
  using assms by (cases x) (auto simp: handle_defs emit_def Let_def split: if_splits)

lemma steer_answers_Cons:
  "accepted_steers (p # tr) = accepted_steers [p] @ accepted_steers tr"
  "drained_steers (p # tr) = drained_steers [p] @ drained_steers tr"
proof -
  obtain x out where p: "p = (x, out)" by (cases p)
  show "accepted_steers (p # tr) = accepted_steers [p] @ accepted_steers tr"
    unfolding p by (cases x; cases out) auto
  show "drained_steers (p # tr) = drained_steers [p] @ drained_steers tr"
    unfolding p by (cases out) auto
qed

lemma finished_step: "rh_finished h \<Longrightarrow> rh_finished (snd (handle_exec x h))"
  by (cases x) (auto simp: handle_defs Let_def split: sum.splits if_splits)

lemma finished_run: "rh_finished h \<Longrightarrow> handle_run xs h = (h', tr) \<Longrightarrow> rh_finished h' \<and> accepted_steers tr = []"
proof (induction xs arbitrary: h tr)
  case (Cons x xs)
  obtain out h1 where ex: "handle_exec x h = (out, h1)" by (cases "handle_exec x h")
  obtain tr1 where r: "handle_run xs h1 = (h', tr1)" and tr: "tr = (x, out) # tr1"
    using Cons.prems(2) ex by (auto split: prod.splits)
  have "rh_finished h1" using finished_step [OF Cons.prems(1), of x] ex by simp
  moreover have "accepted_steers [(x, out)] = []"
    using ex Cons.prems(1) by (cases x) (auto simp: steer_def split: if_splits)
  ultimately show ?case using Cons.IH [OF _ r] by (simp add: tr steer_answers_Cons(1) [of _ tr1])
qed simp

lemma steer_conservation:
  "handle_inv h \<Longrightarrow> \<forall>b. Emit b \<in> set xs \<longrightarrow> \<not> is_run_finished b \<Longrightarrow> handle_run xs h = (h', tr) \<Longrightarrow>
   \<exists>rest. rh_steers h @ accepted_steers tr = drained_steers tr @ rest \<and>
          (\<not> rh_finished h' \<longrightarrow> rest = rh_steers h')"
proof (induction xs arbitrary: h tr)
  case (Cons x xs)
  obtain out h1 where ex: "handle_exec x h = (out, h1)" by (cases "handle_exec x h")
  obtain tr1 where r: "handle_run xs h1 = (h', tr1)" and tr: "tr = (x, out) # tr1"
    using Cons.prems(3) ex by (auto split: prod.splits)
  have inv1: "handle_inv h1" using handle_exec_inv [of h x] Cons.prems(1,2) ex by auto
  have ok: "\<forall>b. Emit b \<in> set xs \<longrightarrow> \<not> is_run_finished b" using Cons.prems(2) by auto
  obtain rest where rest: "rh_steers h1 @ accepted_steers tr1 = drained_steers tr1 @ rest"
      "\<not> rh_finished h' \<longrightarrow> rest = rh_steers h'"
    using Cons.IH [OF inv1 ok r] by auto
  show ?case
  proof (cases "rh_finished h1")
    case False
    from steer_queue_step [OF ex this] rest(1)
    have "rh_steers h @ accepted_steers tr = drained_steers tr @ rest"
      by (simp add: tr steer_answers_Cons(1) [of _ tr1] steer_answers_Cons(2) [of _ tr1])
         (metis append_assoc)
    with rest(2) show ?thesis by blast
  next
    case True
    then have fin': "rh_finished h'" using finished_run [OF _ r] by auto
    have "rh_steers h1 = []" "accepted_steers tr1 = []"
      using True inv1 finished_run [OF True r] by (auto simp: handle_inv_def)
    with rest have "drained_steers tr1 = []" by simp
    moreover have "\<exists>q. rh_steers h @ accepted_steers [(x, out)] = drained_steers [(x, out)] @ q"
      using ex by (cases x) (auto simp: handle_defs emit_def Let_def split: if_splits)
    ultimately show ?thesis using fin' \<open>accepted_steers tr1 = []\<close>
      by (simp add: tr steer_answers_Cons(1) [of _ tr1] steer_answers_Cons(2) [of _ tr1])
  qed
qed simp

text \<open>
  C14: a steer that \<open>steer\<close> accepted is delivered at a boundary drain in arrival order, or is
  still queued, for as long as the run has not finished; and a finished run, or one whose
  finishing latch is set, refuses every steer without changing anything.
\<close>

theorem steers_delivered_in_order:
  assumes "handle_run xs handle_init = (h, tr)"
    and "\<forall>b. Emit b \<in> set xs \<longrightarrow> \<not> is_run_finished b" and "\<not> rh_finished h"
  shows "accepted_steers tr = drained_steers tr @ rh_steers h \<and>
         (msg_role m = User \<and> rh_finishing h \<longrightarrow> steer m h = Inr (False, h))"
  using steer_conservation [OF handle_inv_init assms(2,1)] assms(3)
  by (auto simp: handle_init_def steer_def)

theorem steers_delivered_in_order_witness:
  "\<exists>h tr. handle_run [Steer (user_text ''a''), DrainSteers, Steer (user_text ''b''), BeginFinishing,
                     Steer (user_text ''c'')] (handle_init :: string run_handle) = (h, tr)
     \<and> accepted_steers tr = [user_text ''a''] @ [user_text ''b'']
     \<and> steer (user_text ''d'') h = Inr (False, h)"
proof -
  let ?xs = "[Steer (user_text ''a''), DrainSteers, Steer (user_text ''b''), BeginFinishing, Steer (user_text ''c'')]"
  obtain h tr where r: "handle_run ?xs (handle_init :: string run_handle) = (h, tr)"
    by (cases "handle_run ?xs (handle_init :: string run_handle)")
  have ok: "\<forall>b :: string event_body. Emit b \<in> set ?xs \<longrightarrow> \<not> is_run_finished b" by auto
  from r have f: "\<not> rh_finished h" "rh_finishing h" "rh_steers h = [user_text ''b'']"
    "drained_steers tr = [user_text ''a'']"
    by (auto simp: handle_init_def handle_defs user_text_def)
  from r f steers_delivered_in_order [OF r ok f(1), of "user_text ''d''"] show ?thesis
    by (auto simp: user_text_def)
qed

end
