(* ===== verification/Supervisor.thy ===== *)
theory Supervisor
  imports Events WakeSource
begin

text \<open>
  \<open>RunBackgroundTaskSupervisor\<close> of \<open>agents/background/background-task-supervisor.ts\<close>.
  An operation that awaits host code is split at the await: cancelling and disposing leave
  a task tearing down, completing leaves it handling, and the continuation is a later
  operation (\<open>TeardownDone\<close>, \<open>HandlerDone\<close>) that runs when the awaited promise settles;
  a rejected teardown is ignored and a throwing or timed-out handler is the error text
  \<open>HandlerDone\<close> carries. Minted task identifiers and the clock are arguments.
  Each operation returns its host-visible effects in order.
\<close>

section \<open>State\<close>

record task_entry =
  te_row :: task_row
  te_silent :: bool
  te_settling :: bool

datatype flight = TearingDown task_outcome | Handling task_outcome

record supervisor =
  sv_entries :: "(background_task_id \<times> task_entry) list"
  sv_flights :: "(background_task_id \<times> flight) list"
  sv_changes :: nat
  sv_disposed :: "string option"
  sv_wakers :: "(nat \<times> nat) list"
  sv_resolved :: "(nat \<times> nat) list"

definition supervisor_init :: supervisor where
  "supervisor_init = \<lparr>sv_entries = [], sv_flights = [], sv_changes = 0, sv_disposed = None,
     sv_wakers = [], sv_resolved = []\<rparr>"

datatype sup_effect =
    EmitTask task_event
  | CallCancel background_task_id "string option"
  | CallHandler background_task_id task_outcome

datatype register_error = TagActive task_tag

section \<open>Operations\<close>

definition find_active :: "task_tag \<Rightarrow> supervisor \<Rightarrow> task_entry option" where
  "find_active tag s = find (\<lambda>e. row_tag (te_row e) = tag) (map snd (sv_entries s))"

definition set_settling :: "background_task_id \<Rightarrow> supervisor \<Rightarrow> supervisor" where
  "set_settling i s =
     s\<lparr>sv_entries := map (\<lambda>(k, e). (k, if k = i then e\<lparr>te_settling := True\<rparr> else e)) (sv_entries s)\<rparr>"

text \<open>The end of \<open>#complete\<close>: remove, count the change, emit \<open>task_settled\<close>, wake.\<close>

definition complete_entry :: "task_entry \<Rightarrow> task_outcome \<Rightarrow> string option \<Rightarrow> supervisor \<Rightarrow> sup_effect list \<times> supervisor" where
  "complete_entry e out err s =
     (let i = row_id (te_row e) in
      ([EmitTask (TaskSettled i (row_tag (te_row e)) (row_title (te_row e)) out err)],
       s\<lparr>sv_entries := AList.delete i (sv_entries s),
         sv_flights := AList.delete i (sv_flights s),
         sv_changes := sv_changes s + 1,
         sv_wakers := [],
         sv_resolved := sv_resolved s @ sv_wakers s\<rparr>))"

text \<open>The start of \<open>#complete\<close>: a silent task ends at once, another awaits its handler.\<close>

definition begin_complete :: "task_entry \<Rightarrow> task_outcome \<Rightarrow> supervisor \<Rightarrow> sup_effect list \<times> supervisor" where
  "begin_complete e out s =
     (if te_silent e then complete_entry e out None s
      else ([CallHandler (row_id (te_row e)) out],
            s\<lparr>sv_flights := AList.update (row_id (te_row e)) (Handling out) (sv_flights s)\<rparr>))"

definition register ::
    "background_task_id \<Rightarrow> nat \<Rightarrow> task_tag \<Rightarrow> string \<Rightarrow> bool \<Rightarrow> supervisor \<Rightarrow>
     register_error + (background_task_id \<times> sup_effect list \<times> supervisor)" where
  "register i now tag title silent s =
     (case sv_disposed s of
        Some reason \<Rightarrow> Inr (i, [CallCancel i (Some reason)], s)
      | None \<Rightarrow>
          (if find_active tag s \<noteq> None then Inl (TagActive tag)
           else
             let row = \<lparr>row_id = i, row_tag = tag, row_title = title, row_started = now\<rparr>;
                 e = \<lparr>te_row = row, te_silent = silent, te_settling = False\<rparr>
             in Inr (i, [EmitTask (TaskRegistered row)],
                     s\<lparr>sv_entries := AList.update i e (sv_entries s)\<rparr>)))"

definition list_tasks :: "supervisor \<Rightarrow> task_row list" where
  "list_tasks s = map (te_row \<circ> snd) (sv_entries s)"

definition cancelled_with :: "string option \<Rightarrow> task_outcome" where
  "cancelled_with reason = \<lparr>to_status = TaskCancelled, to_outcome = or_default reason ''cancelled''\<rparr>"

definition cancel_task :: "task_tag \<Rightarrow> string option \<Rightarrow> supervisor \<Rightarrow> bool \<times> sup_effect list \<times> supervisor" where
  "cancel_task tag reason s =
     (case find_active tag s of
        None \<Rightarrow> (False, [], s)
      | Some e \<Rightarrow>
          (if te_settling e then (False, [], s)
           else
             let i = row_id (te_row e); s1 = set_settling i s
             in (True, [CallCancel i reason],
                 s1\<lparr>sv_flights := AList.update i (TearingDown (cancelled_with reason)) (sv_flights s1)\<rparr>)))"

definition is_empty_registry :: "supervisor \<Rightarrow> bool" where
  "is_empty_registry s = (sv_entries s = [])"

definition task_count :: "supervisor \<Rightarrow> nat" where
  "task_count s = length (sv_entries s)"

definition change_count :: "supervisor \<Rightarrow> nat" where
  "change_count s = sv_changes s"

definition wait_for_change :: "nat \<Rightarrow> nat \<Rightarrow> bool \<Rightarrow> supervisor \<Rightarrow> supervisor" where
  "wait_for_change w since aborted s =
     (if sv_changes s \<noteq> since \<or> aborted then s\<lparr>sv_resolved := sv_resolved s @ [(w, since)]\<rparr>
      else s\<lparr>sv_wakers := sv_wakers s @ [(w, since)]\<rparr>)"

definition change_abort_wait :: "nat \<times> nat \<Rightarrow> supervisor \<Rightarrow> supervisor" where
  "change_abort_wait w s =
     (if w \<in> set (sv_wakers s)
      then s\<lparr>sv_wakers := removeAll w (sv_wakers s), sv_resolved := sv_resolved s @ [w]\<rparr> else s)"

text \<open>\<open>#settle\<close>: a natural settle against a settling or removed task is dropped.\<close>

definition settle_task :: "background_task_id \<Rightarrow> task_outcome \<Rightarrow> supervisor \<Rightarrow> sup_effect list \<times> supervisor" where
  "settle_task i out s =
     (case map_of (sv_entries s) i of
        None \<Rightarrow> ([], s)
      | Some e \<Rightarrow> (if te_settling e then ([], s) else begin_complete (e\<lparr>te_settling := True\<rparr>) out (set_settling i s)))"

text \<open>The continuation of \<open>await #teardown\<close>.\<close>

definition teardown_done :: "background_task_id \<Rightarrow> supervisor \<Rightarrow> sup_effect list \<times> supervisor" where
  "teardown_done i s =
     (case (map_of (sv_flights s) i, map_of (sv_entries s) i) of
        (Some (TearingDown out), Some e) \<Rightarrow> begin_complete e out s
      | _ \<Rightarrow> ([], s))"

text \<open>The continuation of the bounded handler call.\<close>

definition handler_done :: "background_task_id \<Rightarrow> string option \<Rightarrow> supervisor \<Rightarrow> sup_effect list \<times> supervisor" where
  "handler_done i err s =
     (case (map_of (sv_flights s) i, map_of (sv_entries s) i) of
        (Some (Handling out), Some e) \<Rightarrow> complete_entry e out err s
      | _ \<Rightarrow> ([], s))"

definition dispose_all :: "string \<Rightarrow> supervisor \<Rightarrow> sup_effect list \<times> supervisor" where
  "dispose_all reason s =
     (let s1 = s\<lparr>sv_disposed := Some (or_default (sv_disposed s) reason)\<rparr>;
          open_ids = map fst (filter (\<lambda>(k, e). \<not> te_settling e) (sv_entries s1));
          s2 = s1\<lparr>sv_entries := map (\<lambda>(k, e). (k, e\<lparr>te_settling := True\<rparr>)) (sv_entries s1)\<rparr>
      in (map (\<lambda>i. CallCancel i (Some reason)) open_ids,
          s2\<lparr>sv_flights := fold (\<lambda>i. AList.update i (TearingDown \<lparr>to_status = TaskCancelled, to_outcome = reason\<rparr>))
                              open_ids (sv_flights s2)\<rparr>))"

datatype sup_op =
    Register background_task_id nat task_tag string bool
  | CancelTask task_tag "string option"
  | SettleTask background_task_id task_outcome
  | TeardownDone background_task_id
  | HandlerDone background_task_id "string option"
  | DisposeAll string
  | WaitForChange nat nat bool
  | AbortChangeWait nat nat

fun sup_exec :: "sup_op \<Rightarrow> supervisor \<Rightarrow> sup_effect list \<times> supervisor" where
  "sup_exec (Register i now tag title silent) s =
     (case register i now tag title silent s of Inl _ \<Rightarrow> ([], s) | Inr (_, es, s') \<Rightarrow> (es, s'))"
| "sup_exec (CancelTask tag reason) s = snd (cancel_task tag reason s)"
| "sup_exec (SettleTask i out) s = settle_task i out s"
| "sup_exec (TeardownDone i) s = teardown_done i s"
| "sup_exec (HandlerDone i err) s = handler_done i err s"
| "sup_exec (DisposeAll reason) s = dispose_all reason s"
| "sup_exec (WaitForChange w since a) s = ([], wait_for_change w since a s)"
| "sup_exec (AbortChangeWait w since) s = ([], change_abort_wait (w, since) s)"

fun sup_run :: "sup_op list \<Rightarrow> supervisor \<Rightarrow> sup_effect list \<times> supervisor" where
  "sup_run [] s = ([], s)"
| "sup_run (x # xs) s = (let (es, s1) = sup_exec x s; (fs, s2) = sup_run xs s1 in (es @ fs, s2))"

lemmas supervisor_defs = complete_entry_def begin_complete_def register_def cancel_task_def
  settle_task_def teardown_done_def handler_done_def dispose_all_def wait_for_change_def
  change_abort_wait_def set_settling_def

interpretation change_wait: wake_source "\<lambda>x s. snd (sup_exec x s)" sv_wakers sv_resolved
  "\<lambda>w s. sv_changes s \<noteq> snd w"
proof
  fix w :: "nat \<times> nat" and s x
  show "w \<in> set (sv_wakers s) \<union> set (sv_resolved s) \<Longrightarrow>
        w \<in> set (sv_wakers (snd (sup_exec x s))) \<union> set (sv_resolved (snd (sup_exec x s)))"
    by (cases x) (auto simp: supervisor_defs Let_def split: option.splits sum.splits flight.splits if_splits)
  show "\<forall>w\<in>set (sv_wakers s). \<not> sv_changes s \<noteq> snd w \<Longrightarrow> w \<in> set (sv_wakers (snd (sup_exec x s))) \<Longrightarrow>
        \<not> sv_changes (snd (sup_exec x s)) \<noteq> snd w"
    by ((cases x; auto simp: supervisor_defs Let_def split: option.splits sum.splits flight.splits if_splits),
        metis snd_conv)
qed

section \<open>The registry invariant\<close>

text \<open>
  \<open>inv_but i\<close> is the invariant with task \<open>i\<close> between the two halves of an operation: it is
  settling, and its continuation may not be recorded yet.
\<close>

definition sup_base :: "supervisor \<Rightarrow> bool" where
  "sup_base s =
     (distinct (map fst (sv_entries s)) \<and> distinct (map fst (sv_flights s)) \<and>
      (\<forall>i e. map_of (sv_entries s) i = Some e \<longrightarrow> row_id (te_row e) = i) \<and>
      distinct (map (row_tag \<circ> te_row \<circ> snd) (sv_entries s)) \<and>
      (\<forall>i e out. map_of (sv_entries s) i = Some e \<longrightarrow> te_silent e \<longrightarrow> map_of (sv_flights s) i \<noteq> Some (Handling out)) \<and>
      (sv_disposed s \<noteq> None \<longrightarrow> (\<forall>i e. map_of (sv_entries s) i = Some e \<longrightarrow> te_settling e)))"

definition in_flight :: "background_task_id \<Rightarrow> supervisor \<Rightarrow> bool" where
  "in_flight i s = (map_of (sv_flights s) i \<noteq> None)"

definition is_settling :: "background_task_id \<Rightarrow> supervisor \<Rightarrow> bool" where
  "is_settling i s = (\<exists>e. map_of (sv_entries s) i = Some e \<and> te_settling e)"

definition sup_inv :: "supervisor \<Rightarrow> bool" where
  "sup_inv s = (sup_base s \<and> (\<forall>i. in_flight i s \<longleftrightarrow> is_settling i s))"

definition inv_but :: "background_task_id \<Rightarrow> supervisor \<Rightarrow> bool" where
  "inv_but i s = (sup_base s \<and> is_settling i s \<and> (\<forall>j. j \<noteq> i \<longrightarrow> in_flight j s = is_settling j s))"

lemmas sup_inv_defs = sup_inv_def inv_but_def sup_base_def in_flight_def is_settling_def

declare map_of_eq_Some_iff [simp del]

lemma map_of_snoc_fresh: "map_of al i = None \<Longrightarrow> map_of (al @ [(i, e)]) = (map_of al)(i \<mapsto> e)"
  by (auto simp: map_add_def fun_eq_iff split: option.splits)

lemma map_of_map_values:
  "map_of (map (\<lambda>(k, e). (k, f k e)) al) i = map_option (f i) (map_of al i)"
  by (induction al) auto

lemma find_active_Some:
  assumes "sup_base s" "find_active tag s = Some e"
  shows "map_of (sv_entries s) (row_id (te_row e)) = Some e \<and> row_tag (te_row e) = tag"
proof -
  from assms(2) obtain k where k: "(k, e) \<in> set (sv_entries s)" "row_tag (te_row e) = tag"
    by (auto simp: find_active_def find_Some_iff) (metis nth_mem prod.collapse)
  then have m: "map_of (sv_entries s) k = Some e" using assms(1) by (simp add: sup_base_def map_of_eq_Some_iff)
  then have "row_id (te_row e) = k" using assms(1) by (simp add: sup_base_def)
  with m k show ?thesis by simp
qed

lemma find_active_None: "find_active tag s = None \<longleftrightarrow> tag \<notin> set (map (row_tag \<circ> te_row \<circ> snd) (sv_entries s))"
  by (force simp: find_active_def find_None_iff)

lemma set_settling_simps [simp]:
  "sv_flights (set_settling i s) = sv_flights s"
  "sv_disposed (set_settling i s) = sv_disposed s"
  "sv_changes (set_settling i s) = sv_changes s"
  "sv_wakers (set_settling i s) = sv_wakers s"
  "sv_resolved (set_settling i s) = sv_resolved s"
  "map fst (sv_entries (set_settling i s)) = map fst (sv_entries s)"
  "map (row_tag \<circ> te_row \<circ> snd) (sv_entries (set_settling i s)) = map (row_tag \<circ> te_row \<circ> snd) (sv_entries s)"
  "map_of (sv_entries (set_settling i s)) j =
     map_option (\<lambda>e. if j = i then e\<lparr>te_settling := True\<rparr> else e) (map_of (sv_entries s) j)"
  by (auto simp: set_settling_def map_of_map_values split: prod.splits)

lemma set_settling_base: "sup_base s \<Longrightarrow> sup_base (set_settling i s)"
  by (auto simp: sup_base_def split: if_splits)

lemma set_settling_but:
  assumes "sup_inv s" "map_of (sv_entries s) i = Some e"
  shows "inv_but i (set_settling i s)"
  using assms set_settling_base [of s i] by (auto simp: sup_inv_def inv_but_def in_flight_def is_settling_def)

text \<open>The two ways to leave the intermediate state.\<close>

lemma flight_inv:
  assumes "inv_but i s" "map_of (sv_entries s) i = Some e" "te_silent e \<longrightarrow> (\<forall>out. fl \<noteq> Handling out)"
  shows "sup_inv (s\<lparr>sv_flights := AList.update i fl (sv_flights s)\<rparr>)"
  using assms
  by (auto simp: sup_inv_defs AList.update_conv AList.distinct_update)

lemma complete_inv:
  assumes "inv_but (row_id (te_row e)) s"
  shows "sup_inv (snd (complete_entry e out err s))"
proof -
  let ?i = "row_id (te_row e)"
  have t: "distinct (map (row_tag \<circ> te_row \<circ> snd) (AList.delete ?i (sv_entries s)))"
    using assms by (auto simp: inv_but_def sup_base_def AList.delete_eq intro: distinct_map_filter)
  show ?thesis
    using assms t
    by (auto simp: sup_inv_defs complete_entry_def Let_def map_of_delete_iff distinct_keys_delete)
qed

lemma begin_complete_inv:
  assumes "inv_but i s" "map_of (sv_entries s) i = Some e"
  shows "sup_inv (snd (begin_complete e out s))"
proof -
  have "row_id (te_row e) = i" using assms by (auto simp: inv_but_def sup_base_def)
  with assms complete_inv [of e s out None] flight_inv [OF assms(1,2), of "Handling out"]
  show ?thesis by (auto simp: begin_complete_def)
qed

lemma flight_inv_but: "sup_inv s \<Longrightarrow> map_of (sv_flights s) i = Some fl \<Longrightarrow> inv_but i s"
  by (metis in_flight_def inv_but_def option.distinct(1) sup_inv_def)

lemma sup_inv_ids: "sup_inv s \<Longrightarrow> map_of (sv_entries s) i = Some e \<Longrightarrow> row_id (te_row e) = i"
  by (simp add: sup_inv_def sup_base_def)

lemma register_inv [inv_intros]:
  assumes "sup_inv s" "register i now tag title silent s = Inr (i', es, s')" "map_of (sv_entries s) i = None"
  shows "sup_inv s'"
proof (cases "sv_disposed s")
  case None
  with assms(2) have na: "find_active tag s = None"
    and s': "s' = s\<lparr>sv_entries := sv_entries s @ [(i, \<lparr>te_row = \<lparr>row_id = i, row_tag = tag, row_title = title,
        row_started = now\<rparr>, te_silent = silent, te_settling = False\<rparr>)]\<rparr>"
    using AList_update_new [of i "sv_entries s"] assms(3)
    by (auto simp: register_def Let_def map_of_eq_None_iff split: if_splits)
  have "map_of (sv_flights s) i = None"
    using assms(1,3) by (metis in_flight_def is_settling_def option.distinct(1) sup_inv_def)
  moreover have "i \<notin> fst ` set (sv_entries s)" using assms(3) by (simp add: map_of_eq_None_iff)
  ultimately show ?thesis
    using assms(1,3) na None
    by (auto simp: s' sup_inv_defs find_active_None map_of_snoc_fresh simp del: map_of_append)
qed (use assms in \<open>simp add: register_def\<close>)

lemma cancel_inv [inv_intros]:
  assumes "sup_inv s" "cancel_task tag reason s = (ok, es, s')"
  shows "sup_inv s'"
proof (cases "find_active tag s")
  case (Some e)
  let ?i = "row_id (te_row e)"
  have e: "map_of (sv_entries s) ?i = Some e"
    using find_active_Some [of s tag e] assms(1) Some by (simp add: sup_inv_def)
  from set_settling_but [OF assms(1) e]
  have "sup_inv ((set_settling ?i s)\<lparr>sv_flights := AList.update ?i (TearingDown (cancelled_with reason)) (sv_flights (set_settling ?i s))\<rparr>)"
    using e flight_inv [of ?i "set_settling ?i s" "e\<lparr>te_settling := True\<rparr>" "TearingDown (cancelled_with reason)"]
    by simp
  with assms Some show ?thesis by (auto simp: cancel_task_def Let_def split: if_splits)
qed (use assms in \<open>simp add: cancel_task_def\<close>)

lemma settle_inv [inv_intros]:
  assumes "sup_inv s" shows "sup_inv (snd (settle_task i out s))"
proof (cases "map_of (sv_entries s) i")
  case (Some e)
  from begin_complete_inv [of i "set_settling i s" "e\<lparr>te_settling := True\<rparr>" out] set_settling_but [OF assms Some]
  show ?thesis using assms Some by (auto simp: settle_task_def)
qed (use assms in \<open>simp add: settle_task_def\<close>)

lemma teardown_inv [inv_intros]:
  assumes "sup_inv s" shows "sup_inv (snd (teardown_done i s))"
proof -
  have "sup_inv (snd (begin_complete e out s))"
    if "map_of (sv_flights s) i = Some (TearingDown out)" "map_of (sv_entries s) i = Some e" for out e
    using begin_complete_inv flight_inv_but [OF assms] that by blast
  with assms show ?thesis by (auto simp: teardown_done_def split: option.splits flight.splits)
qed

lemma handler_inv [inv_intros]:
  assumes "sup_inv s" shows "sup_inv (snd (handler_done i err s))"
proof -
  have "sup_inv (snd (complete_entry e out err s))"
    if "map_of (sv_flights s) i = Some (Handling out)" "map_of (sv_entries s) i = Some e" for out e
  proof -
    have "row_id (te_row e) = i" using sup_inv_ids [OF assms that(2)] .
    with complete_inv flight_inv_but [OF assms that(1)] show ?thesis by blast
  qed
  with assms show ?thesis by (auto simp: handler_done_def split: option.splits flight.splits)
qed

lemma map_of_fold_update:
  "map_of (fold (\<lambda>i. AList.update i v) ids al) j = (if j \<in> set ids then Some v else map_of al j)"
  by (induction ids arbitrary: al) (auto simp: AList.update_conv)

lemma distinct_fold_update:
  "distinct (map fst al) \<Longrightarrow> distinct (map fst (fold (\<lambda>i. AList.update i v) ids al))"
  by (induction ids arbitrary: al) (auto simp: AList.distinct_update)

definition open_ids :: "supervisor \<Rightarrow> background_task_id list" where
  "open_ids s = map fst (filter (\<lambda>(k, e). \<not> te_settling e) (sv_entries s))"

lemma set_open_ids:
  assumes "distinct (map fst (sv_entries s))"
  shows "set (open_ids s) = {i. \<exists>e. map_of (sv_entries s) i = Some e \<and> \<not> te_settling e}"
  using assms by (force simp: open_ids_def map_of_eq_Some_iff)

definition settle_all :: "supervisor \<Rightarrow> supervisor" where
  "settle_all s = s\<lparr>sv_entries := map (\<lambda>(k, e). (k, e\<lparr>te_settling := True\<rparr>)) (sv_entries s)\<rparr>"

lemma settle_all_simps [simp]:
  "map fst (sv_entries (settle_all s)) = map fst (sv_entries s)"
  "map (row_tag \<circ> te_row \<circ> snd) (sv_entries (settle_all s)) = map (row_tag \<circ> te_row \<circ> snd) (sv_entries s)"
  "map_of (sv_entries (settle_all s)) i = map_option (te_settling_update (\<lambda>_. True)) (map_of (sv_entries s) i)"
  "sv_flights (settle_all s) = sv_flights s"
  "sv_disposed (settle_all s) = sv_disposed s"
  "sv_changes (settle_all s) = sv_changes s"
  by (auto simp: settle_all_def map_of_map_values split: prod.splits)

lemma dispose_all_eq:
  "dispose_all reason s =
     (map (\<lambda>i. CallCancel i (Some reason)) (open_ids s),
      (settle_all s)\<lparr>sv_disposed := Some (or_default (sv_disposed s) reason),
        sv_flights := fold (\<lambda>i. AList.update i (TearingDown \<lparr>to_status = TaskCancelled, to_outcome = reason\<rparr>))
                         (open_ids s) (sv_flights s)\<rparr>)"
  by (simp add: dispose_all_def open_ids_def settle_all_def Let_def)

lemma dispose_inv [inv_intros]:
  assumes "sup_inv s" shows "sup_inv (snd (dispose_all reason s))"
proof -
  have d: "distinct (map fst (sv_entries s))" using assms by (simp add: sup_inv_def sup_base_def)
  note o = set_open_ids [OF d]
  show ?thesis using assms
    by (auto simp: dispose_all_eq sup_inv_defs map_of_fold_update distinct_fold_update o split: if_splits)
qed

fun fresh_op :: "sup_op \<Rightarrow> supervisor \<Rightarrow> bool" where
  "fresh_op (Register i _ _ _ _) s = (map_of (sv_entries s) i = None)"
| "fresh_op _ s = True"

lemma sup_exec_inv:
  assumes "sup_inv s" "fresh_op x s"
  shows "sup_inv (snd (sup_exec x s))"
proof (cases x)
  case (Register i now tag title silent)
  with assms show ?thesis by (auto split: sum.splits prod.splits intro: register_inv)
next
  case (CancelTask tag reason)
  obtain ok es s' where c: "cancel_task tag reason s = (ok, es, s')" by (cases "cancel_task tag reason s")
  with CancelTask cancel_inv [OF assms(1) c] show ?thesis by simp
next
  case (WaitForChange w since a)
  with assms(1) show ?thesis by (auto simp: wait_for_change_def sup_inv_defs)
next
  case (AbortChangeWait w since)
  with assms(1) show ?thesis by (auto simp: change_abort_wait_def sup_inv_defs)
qed (simp_all add: assms(1) settle_inv teardown_inv handler_inv dispose_inv)

section \<open>What a history emits\<close>

fun registered_ids :: "sup_effect list \<Rightarrow> background_task_id list" where
  "registered_ids [] = []"
| "registered_ids (EmitTask (TaskRegistered r) # es) = row_id r # registered_ids es"
| "registered_ids (_ # es) = registered_ids es"

fun settled_ids :: "sup_effect list \<Rightarrow> background_task_id list" where
  "settled_ids [] = []"
| "settled_ids (EmitTask (TaskSettled i _ _ _ _) # es) = i # settled_ids es"
| "settled_ids (_ # es) = settled_ids es"

fun handled_ids :: "sup_effect list \<Rightarrow> background_task_id list" where
  "handled_ids [] = []"
| "handled_ids (CallHandler i _ # es) = i # handled_ids es"
| "handled_ids (_ # es) = handled_ids es"

fun registering :: "sup_op list \<Rightarrow> background_task_id list" where
  "registering [] = []"
| "registering (Register i _ _ _ _ # xs) = i # registering xs"
| "registering (_ # xs) = registering xs"

lemma effect_ids_append [simp]:
  "registered_ids (es @ fs) = registered_ids es @ registered_ids fs"
  "settled_ids (es @ fs) = settled_ids es @ settled_ids fs"
  "handled_ids (es @ fs) = handled_ids es @ handled_ids fs"
  subgoal by (induction es rule: registered_ids.induct) auto
  subgoal by (induction es rule: settled_ids.induct) auto
  subgoal by (induction es rule: handled_ids.induct) auto
  done

lemma cancel_effects [simp]:
  "registered_ids (map (\<lambda>i. CallCancel i r) xs) = []"
  "settled_ids (map (\<lambda>i. CallCancel i r) xs) = []"
  "handled_ids (map (\<lambda>i. CallCancel i r) xs) = []"
  by (induction xs) auto

definition task_ids :: "supervisor \<Rightarrow> background_task_id set" where
  "task_ids s = {i. map_of (sv_entries s) i \<noteq> None}"

definition silent_ids :: "supervisor \<Rightarrow> background_task_id set" where
  "silent_ids s = {i. map_option te_silent (map_of (sv_entries s) i) = Some True}"

definition handling_ids :: "supervisor \<Rightarrow> background_task_id set" where
  "handling_ids s = {i. \<exists>out. map_of (sv_flights s) i = Some (Handling out)}"

text \<open>Every operation does at most one of: register a task, start its handler, settle it.\<close>

datatype sup_summary = Quiet | Registers background_task_id bool | StartsHandler background_task_id
  | Settles background_task_id

fun summary_ok :: "sup_summary \<Rightarrow> sup_effect list \<Rightarrow> supervisor \<Rightarrow> supervisor \<Rightarrow> bool" where
  "summary_ok Quiet es s s' =
     (registered_ids es = [] \<and> settled_ids es = [] \<and> handled_ids es = [] \<and>
      task_ids s' = task_ids s \<and> silent_ids s' = silent_ids s \<and> handling_ids s' = handling_ids s)"
| "summary_ok (Registers i silent) es s s' =
     (registered_ids es = [i] \<and> settled_ids es = [] \<and> handled_ids es = [] \<and> i \<notin> task_ids s \<and>
      task_ids s' = insert i (task_ids s) \<and>
      silent_ids s' = (if silent then insert i (silent_ids s) else silent_ids s) \<and>
      handling_ids s' = handling_ids s)"
| "summary_ok (StartsHandler i) es s s' =
     (registered_ids es = [] \<and> settled_ids es = [] \<and> handled_ids es = [i] \<and>
      i \<in> task_ids s \<and> i \<notin> handling_ids s \<and>
      task_ids s' = task_ids s \<and> silent_ids s' = silent_ids s \<and> handling_ids s' = insert i (handling_ids s))"
| "summary_ok (Settles i) es s s' =
     (registered_ids es = [] \<and> settled_ids es = [i] \<and> handled_ids es = [] \<and>
      i \<in> task_ids s \<and> (i \<in> silent_ids s \<or> i \<in> handling_ids s) \<and>
      task_ids s' = task_ids s - {i} \<and> silent_ids s' = silent_ids s - {i} \<and>
      handling_ids s' = handling_ids s - {i})"

lemmas id_sets = task_ids_def silent_ids_def handling_ids_def

lemma set_settling_ids [simp]:
  "task_ids (set_settling i s) = task_ids s"
  "silent_ids (set_settling i s) = silent_ids s"
  "handling_ids (set_settling i s) = handling_ids s"
  by (auto simp: id_sets option.map_comp comp_def split: if_splits)

lemma complete_summary:
  assumes "map_of (sv_entries s) (row_id (te_row e)) = Some e"
    and "te_silent e \<or> row_id (te_row e) \<in> handling_ids s"
  shows "summary_ok (Settles (row_id (te_row e))) (fst (complete_entry e out err s)) s (snd (complete_entry e out err s))"
  using assms by (auto simp: complete_entry_def Let_def id_sets map_of_delete_iff)

lemma begin_complete_summary:
  assumes "map_of (sv_entries s) i = Some e" "row_id (te_row e) = i" "i \<notin> handling_ids s"
  shows "\<exists>q. summary_ok q (fst (begin_complete e out s)) s (snd (begin_complete e out s)) \<and> (\<forall>j b. q \<noteq> Registers j b)"
proof (cases "te_silent e")
  case True
  with assms complete_summary [of s e out None] show ?thesis
    by (intro exI [of _ "Settles i"]) (auto simp: begin_complete_def)
next
  case False
  with assms show ?thesis
    by (intro exI [of _ "StartsHandler i"]) (auto simp: begin_complete_def id_sets AList.update_conv)
qed

lemma flights_ids [simp]:
  "task_ids (s\<lparr>sv_flights := f\<rparr>) = task_ids s"
  "silent_ids (s\<lparr>sv_flights := f\<rparr>) = silent_ids s"
  by (simp_all add: id_sets)

lemma handling_tearing [simp]:
  "handling_ids (s\<lparr>sv_flights := AList.update i (TearingDown out) f\<rparr>) = handling_ids (s\<lparr>sv_flights := f\<rparr>) - {i}"
  by (auto simp: handling_ids_def AList.update_conv split: if_splits)

lemma quietI:
  "sv_flights s' = sv_flights s \<Longrightarrow> sv_entries s' = sv_entries s \<Longrightarrow>
   registered_ids es = [] \<Longrightarrow> settled_ids es = [] \<Longrightarrow> handled_ids es = [] \<Longrightarrow> summary_ok Quiet es s s'"
  by (simp add: id_sets)

lemma not_handling: "sup_inv s \<Longrightarrow> map_of (sv_entries s) i = Some e \<Longrightarrow> \<not> te_settling e \<Longrightarrow> i \<notin> handling_ids s"
  by (auto simp: sup_inv_def handling_ids_def in_flight_def is_settling_def) (metis option.inject)

lemma summary_set_settling: "summary_ok q es (set_settling i s) s' = summary_ok q es s s'"
  by (cases q) simp_all

lemma register_summary:
  assumes "register i now tag title silent s = Inr (j, es, s')" "map_of (sv_entries s) i = None"
  shows "summary_ok Quiet es s s' \<or> summary_ok (Registers i silent) es s s'"
  using assms
  by (auto simp: register_def Let_def id_sets AList.update_conv split: option.splits if_splits)

lemma cancel_summary:
  assumes inv: "sup_inv s" and c: "cancel_task tag reason s = (ok, es, s')"
  shows "summary_ok Quiet es s s'"
proof (cases "\<exists>e. find_active tag s = Some e \<and> \<not> te_settling e")
  case True
  then obtain e where f: "find_active tag s = Some e" "\<not> te_settling e" by auto
  from find_active_Some [of s tag e] inv f have "map_of (sv_entries s) (row_id (te_row e)) = Some e"
    by (simp add: sup_inv_def)
  moreover have "handling_ids ((set_settling i s)\<lparr>sv_flights := sv_flights s\<rparr>) = handling_ids s" for i
    by (simp add: handling_ids_def)
  ultimately have "summary_ok Quiet es (set_settling (row_id (te_row e)) s) s'"
    using not_handling [OF inv _ f(2)] c f by (auto simp: cancel_task_def Let_def)
  then show ?thesis by (simp only: summary_set_settling)
next
  case False
  with c show ?thesis by (auto simp: cancel_task_def intro: quietI split: option.splits)
qed

lemma settle_summary:
  assumes inv: "sup_inv s"
  shows "\<exists>q. summary_ok q (fst (settle_task i out s)) s (snd (settle_task i out s)) \<and> (\<forall>j b. q \<noteq> Registers j b)"
proof (cases "\<exists>e. map_of (sv_entries s) i = Some e \<and> \<not> te_settling e")
  case True
  then obtain e where e: "map_of (sv_entries s) i = Some e" "\<not> te_settling e" by auto
  have "\<exists>q. summary_ok q (fst (begin_complete (e\<lparr>te_settling := True\<rparr>) out (set_settling i s))) (set_settling i s)
              (snd (begin_complete (e\<lparr>te_settling := True\<rparr>) out (set_settling i s))) \<and> (\<forall>j b. q \<noteq> Registers j b)"
    using e sup_inv_ids [OF inv e(1)] not_handling [OF inv e]
    by (intro begin_complete_summary [where i = i]) simp_all
  with e show ?thesis by (simp add: settle_task_def summary_set_settling)
next
  case False
  then have "settle_task i out s = ([], s)" by (auto simp: settle_task_def split: option.splits)
  then show ?thesis by (intro exI [of _ Quiet]) simp
qed

lemma teardown_summary:
  assumes inv: "sup_inv s"
  shows "\<exists>q. summary_ok q (fst (teardown_done i s)) s (snd (teardown_done i s)) \<and> (\<forall>j b. q \<noteq> Registers j b)"
proof (cases "\<exists>out e. map_of (sv_flights s) i = Some (TearingDown out) \<and> map_of (sv_entries s) i = Some e")
  case True
  then obtain out e where f: "map_of (sv_flights s) i = Some (TearingDown out)" and e: "map_of (sv_entries s) i = Some e"
    by auto
  have "i \<notin> handling_ids s" using f by (simp add: handling_ids_def)
  from begin_complete_summary [OF e sup_inv_ids [OF inv e] this] f e show ?thesis
    by (simp add: teardown_done_def)
next
  case False
  then have "teardown_done i s = ([], s)" by (auto simp: teardown_done_def split: option.splits flight.splits)
  then show ?thesis by (intro exI [of _ Quiet]) simp
qed

lemma handler_summary:
  assumes inv: "sup_inv s"
  shows "\<exists>q. summary_ok q (fst (handler_done i err s)) s (snd (handler_done i err s)) \<and> (\<forall>j b. q \<noteq> Registers j b)"
proof (cases "\<exists>out e. map_of (sv_flights s) i = Some (Handling out) \<and> map_of (sv_entries s) i = Some e")
  case True
  then obtain out e where f: "map_of (sv_flights s) i = Some (Handling out)" and e: "map_of (sv_entries s) i = Some e"
    by auto
  note i = sup_inv_ids [OF inv e]
  from complete_summary [of s e out err] f e i show ?thesis
    by (intro exI [of _ "Settles i"]) (simp add: handler_done_def handling_ids_def)
next
  case False
  then have "handler_done i err s = ([], s)" by (auto simp: handler_done_def split: option.splits flight.splits)
  then show ?thesis by (intro exI [of _ Quiet]) simp
qed

lemma dispose_summary:
  assumes inv: "sup_inv s"
  shows "summary_ok Quiet (fst (dispose_all reason s)) s (snd (dispose_all reason s))"
proof -
  have d: "distinct (map fst (sv_entries s))" using inv by (simp add: sup_inv_def sup_base_def)
  have "i \<notin> handling_ids s" if "i \<in> set (open_ids s)" for i
    using that not_handling [OF inv] by (auto simp: set_open_ids [OF d])
  then show ?thesis
    by (auto simp: dispose_all_eq id_sets map_of_fold_update option.map_comp comp_def split: if_splits)
qed

lemma sup_exec_summary:
  assumes inv: "sup_inv s"
    and fresh: "fresh_op x s"
  shows "\<exists>q. summary_ok q (fst (sup_exec x s)) s (snd (sup_exec x s)) \<and>
             (\<forall>i b. q = Registers i b \<longrightarrow> (\<exists>now tag title. x = Register i now tag title b))"
proof (cases x)
  case (Register i now tag title silent)
  show ?thesis
  proof (cases "register i now tag title silent s")
    case (Inl err)
    with Register show ?thesis by (intro exI [of _ Quiet]) simp
  next
    case (Inr r)
    obtain j es s' where r: "r = (j, es, s')" by (cases r)
    with Inr register_summary [of i now tag title silent s j es s'] fresh Register
    consider "summary_ok Quiet es s s'" | "summary_ok (Registers i silent) es s s'" by auto
    then show ?thesis
    proof cases
      case 1
      with Register Inr r show ?thesis by (intro exI [of _ Quiet]) simp
    next
      case 2
      with Register Inr r show ?thesis by (intro exI [of _ "Registers i silent"]) simp
    qed
  qed
next
  case (CancelTask tag reason)
  obtain ok es s' where c: "cancel_task tag reason s = (ok, es, s')" by (cases "cancel_task tag reason s")
  with CancelTask cancel_summary [OF inv c] show ?thesis by (intro exI [of _ Quiet]) simp
next
  case (DisposeAll reason)
  with dispose_summary [OF inv, of reason] show ?thesis by (intro exI [of _ Quiet]) simp
next
  case (WaitForChange w since a)
  then show ?thesis by (intro exI [of _ Quiet]) (simp add: wait_for_change_def id_sets)
next
  case (AbortChangeWait w since)
  then show ?thesis by (intro exI [of _ Quiet]) (simp add: change_abort_wait_def id_sets)
next
  case (SettleTask i out)
  with settle_summary [OF inv, of i out] show ?thesis by auto
next
  case (TeardownDone i)
  with teardown_summary [OF inv, of i] show ?thesis by auto
next
  case (HandlerDone i err)
  with handler_summary [OF inv, of i err] show ?thesis by auto
qed

section \<open>Every task is settled at most once\<close>

definition silent_regs :: "sup_op list \<Rightarrow> background_task_id set" where
  "silent_regs xs = {i. \<exists>now tag title. Register i now tag title True \<in> set xs}"

definition hist_ok :: "sup_op list \<Rightarrow> sup_effect list \<Rightarrow> supervisor \<Rightarrow> bool" where
  "hist_ok xs es s =
     (sup_inv s \<and>
      distinct (registered_ids es) \<and> distinct (settled_ids es) \<and> distinct (handled_ids es) \<and>
      set (registered_ids es) = set (settled_ids es) \<union> task_ids s \<and>
      set (settled_ids es) \<inter> task_ids s = {} \<and>
      set (handled_ids es) \<subseteq> set (settled_ids es) \<union> handling_ids s \<and>
      handling_ids s \<subseteq> set (handled_ids es) \<and>
      set (registered_ids es) \<subseteq> set (registering xs) \<and>
      silent_ids s \<subseteq> silent_regs xs \<and>
      set (settled_ids es) \<subseteq> set (handled_ids es) \<union> silent_regs xs)"

lemma sup_run_snoc:
  "sup_run (xs @ [x]) s =
     (fst (sup_run xs s) @ fst (sup_exec x (snd (sup_run xs s))), snd (sup_exec x (snd (sup_run xs s))))"
  by (induction xs arbitrary: s) (auto simp: Let_def split: prod.splits)

lemma registering_append [simp]: "registering (xs @ ys) = registering xs @ registering ys"
  by (induction xs rule: registering.induct) auto

lemma set_registering: "i \<in> set (registering xs) \<longleftrightarrow> (\<exists>now tag title silent. Register i now tag title silent \<in> set xs)"
  by (induction xs rule: registering.induct) auto

lemma settle_sets:
  assumes "R = S \<union> T" "S \<inter> T = {}" "H \<subseteq> S \<union> G" "G \<subseteq> H" "i \<in> T" "i \<in> L \<or> i \<in> G" "L \<subseteq> Q" "S \<subseteq> H \<union> Q"
  shows "R = insert i S \<union> (T - {i}) \<and> insert i S \<inter> (T - {i}) = {} \<and> H \<subseteq> insert i S \<union> (G - {i}) \<and>
         G - {i} \<subseteq> H \<and> insert i S \<subseteq> H \<union> Q"
  using assms by blast

lemma hist_step:
  assumes h: "hist_ok xs es s" and ok: "summary_ok q fs s s'" and inv: "sup_inv s'"
    and reg: "\<forall>i b. q = Registers i b \<longrightarrow> i \<notin> set (registering xs) \<and> (\<exists>now tag title. x = Register i now tag title b)"
  shows "hist_ok (xs @ [x]) (es @ fs) s'"
proof -
  have mono: "silent_regs xs \<subseteq> silent_regs (xs @ [x])" by (auto simp: silent_regs_def)
  have sub: "set (registering xs) \<subseteq> set (registering (xs @ [x]))" by simp
  show ?thesis
  proof (cases q)
    case Quiet
    with h ok inv mono sub show ?thesis by (auto simp: hist_ok_def)
  next
    case (Registers i b)
    then obtain now tag title where x: "x = Register i now tag title b" and i: "i \<notin> set (registering xs)"
      using reg by auto
    have new: "b \<Longrightarrow> i \<in> silent_regs (xs @ [x])" using x by (auto simp: silent_regs_def)
    have "i \<in> set (registering (xs @ [x]))" using x by simp
    moreover have "i \<notin> set (registered_ids es)" "i \<notin> set (settled_ids es)" using h i by (auto simp: hist_ok_def)
    ultimately show ?thesis using h ok inv mono sub new Registers by (auto simp: hist_ok_def split: if_splits)
  next
    case (StartsHandler i)
    with h ok have "i \<notin> set (handled_ids es)" by (auto simp: hist_ok_def)
    with h ok inv mono sub StartsHandler show ?thesis by (auto simp: hist_ok_def)
  next
    case (Settles i)
    have eqs: "task_ids s' = task_ids s - {i}" "silent_ids s' = silent_ids s - {i}"
      "handling_ids s' = handling_ids s - {i}" "registered_ids fs = []" "settled_ids fs = [i]" "handled_ids fs = []"
      using ok Settles by simp_all
    have new: "i \<notin> set (settled_ids es)" using h ok Settles by (auto simp: hist_ok_def)
    have sets: "set (registered_ids es) = insert i (set (settled_ids es)) \<union> (task_ids s - {i}) \<and>
        insert i (set (settled_ids es)) \<inter> (task_ids s - {i}) = {} \<and>
        set (handled_ids es) \<subseteq> insert i (set (settled_ids es)) \<union> (handling_ids s - {i}) \<and>
        handling_ids s - {i} \<subseteq> set (handled_ids es) \<and>
        insert i (set (settled_ids es)) \<subseteq> set (handled_ids es) \<union> silent_regs xs"
      using h ok Settles by (intro settle_sets [where L = "silent_ids s"]) (simp_all add: hist_ok_def)
    have "insert i (set (settled_ids es)) \<subseteq> set (handled_ids es) \<union> silent_regs (xs @ [x])"
      "silent_ids s - {i} \<subseteq> silent_regs (xs @ [x])" "set (registered_ids es) \<subseteq> set (registering (xs @ [x]))"
      "distinct (registered_ids es)" "distinct (settled_ids es)" "distinct (handled_ids es)"
      using sets mono sub h by (auto simp: hist_ok_def)
    with eqs new sets inv show ?thesis
      unfolding hist_ok_def effect_ids_append eqs set_append distinct_append by simp
  qed
qed

lemma sup_inv_init: "sup_inv supervisor_init"
  by (simp add: sup_inv_defs supervisor_init_def)

lemma hist_run: "distinct (registering xs) \<Longrightarrow> hist_ok xs (fst (sup_run xs supervisor_init)) (snd (sup_run xs supervisor_init))"
proof (induction xs rule: rev_induct)
  case Nil
  show ?case using sup_inv_init by (simp add: hist_ok_def id_sets supervisor_init_def)
next
  case (snoc x xs)
  define s where "s = snd (sup_run xs supervisor_init)"
  have h: "hist_ok xs (fst (sup_run xs supervisor_init)) s" using snoc by (simp add: s_def)
  then have inv: "sup_inv s" by (simp add: hist_ok_def)
  have fr: "fresh_op x s"
  proof (cases x)
    case (Register i now tag title silent)
    then have "i \<notin> set (registering xs)" using snoc.prems by auto
    then have "i \<notin> task_ids s" using h by (auto simp: hist_ok_def)
    with Register show ?thesis by (simp add: task_ids_def)
  qed simp_all
  obtain q where q: "summary_ok q (fst (sup_exec x s)) s (snd (sup_exec x s))"
    and r: "\<forall>i b. q = Registers i b \<longrightarrow> (\<exists>now tag title. x = Register i now tag title b)"
    using sup_exec_summary [OF inv fr] by blast
  have r': "\<forall>i b. q = Registers i b \<longrightarrow> i \<notin> set (registering xs) \<and> (\<exists>now tag title. x = Register i now tag title b)"
    using r snoc.prems by fastforce
  from hist_step [OF h q sup_exec_inv [OF inv fr] r'] show ?case by (simp add: sup_run_snoc s_def)
qed

text \<open>
  C12: over any history of registrations, cancellations, natural settles, disposal and their
  continuations in any order (task identifiers being fresh), every registered task is either
  still in the registry or settled by exactly one \<open>task_settled\<close>, no task is settled or handed
  to its completion handler twice, and every settled task that was not declared silent has
  had its handler called.
\<close>

theorem tasks_settle_once:
  assumes "sup_run xs supervisor_init = (es, s)" and "distinct (registering xs)"
  shows "set (registered_ids es) = set (settled_ids es) \<union> set (map row_id (list_tasks s)) \<and>
         set (settled_ids es) \<inter> set (map row_id (list_tasks s)) = {} \<and>
         distinct (settled_ids es) \<and> distinct (handled_ids es) \<and>
         set (settled_ids es) \<subseteq> set (handled_ids es) \<union> silent_regs xs \<and>
         distinct (map row_tag (list_tasks s))"
proof -
  have h: "hist_ok xs es s" using hist_run [OF assms(2)] assms(1) by simp
  then have inv: "sup_inv s" by (simp add: hist_ok_def)
  then have d: "distinct (map fst (sv_entries s))" and t: "distinct (map (row_tag \<circ> te_row \<circ> snd) (sv_entries s))"
    by (simp_all add: sup_inv_def sup_base_def)
  have "row_id (te_row e) = i" if "(i, e) \<in> set (sv_entries s)" for i e
    using sup_inv_ids [OF inv, of i e] d that by (simp add: map_of_eq_Some_iff)
  then have "set (map row_id (list_tasks s)) = task_ids s"
    by (force simp: list_tasks_def task_ids_def map_of_eq_None_iff)
  with h t show ?thesis by (simp add: hist_ok_def list_tasks_def comp_assoc)
qed

theorem tasks_settle_once_witness:
  "let xs = [Register ''t1'' 5 \<lparr>tag_type = ''cmd'', tag_id = ''a''\<rparr> ''build'' False,
             CancelTask \<lparr>tag_type = ''cmd'', tag_id = ''a''\<rparr> None,
             SettleTask ''t1'' \<lparr>to_status = TaskSuccess, to_outcome = ''ok''\<rparr>,
             TeardownDone ''t1'', HandlerDone ''t1'' None]
   in \<exists>es s. sup_run xs supervisor_init = (es, s) \<and> settled_ids es = [''t1''] \<and> handled_ids es = [''t1'']
        \<and> set (registered_ids es) = {''t1''}"
proof -
  let ?xs = "[Register ''t1'' 5 \<lparr>tag_type = ''cmd'', tag_id = ''a''\<rparr> ''build'' False,
             CancelTask \<lparr>tag_type = ''cmd'', tag_id = ''a''\<rparr> None,
             SettleTask ''t1'' \<lparr>to_status = TaskSuccess, to_outcome = ''ok''\<rparr>,
             TeardownDone ''t1'', HandlerDone ''t1'' None]"
  obtain es s where r: "sup_run ?xs supervisor_init = (es, s)" by (cases "sup_run ?xs supervisor_init")
  then have f: "settled_ids es = [''t1'']" "handled_ids es = [''t1'']" "list_tasks s = []"
    by (auto simp: supervisor_init_def supervisor_defs find_active_def Let_def list_tasks_def)
  from tasks_settle_once [OF r] r f show ?thesis by (auto simp: Let_def)
qed

section \<open>Disposal\<close>

text \<open>The continuations of one settling task: its teardown, then its handler.\<close>

definition flush :: "(background_task_id \<Rightarrow> string option) \<Rightarrow> background_task_id \<Rightarrow> sup_op list" where
  "flush err i = [TeardownDone i, HandlerDone i (err i)]"

lemma complete_entries:
  "row_id (te_row e) = i \<Longrightarrow> sv_entries (snd (complete_entry e out err s)) = AList.delete i (sv_entries s) \<and>
     sv_disposed (snd (complete_entry e out err s)) = sv_disposed s \<and>
     map_of (sv_flights (snd (complete_entry e out err s))) i = None"
  by (simp add: complete_entry_def Let_def map_of_delete_iff)

lemma AList_delete_absent: "map_of al i = None \<Longrightarrow> AList.delete i al = al"
  by (induction al) (auto simp: AList.delete_eq split: if_splits)

lemma handler_done_absent: "map_of (sv_flights s) i = None \<Longrightarrow> handler_done i err s = ([], s)"
  by (simp add: handler_done_def)

lemma flush_one:
  assumes inv: "sup_inv s" and d: "sv_disposed s \<noteq> None"
  shows "sv_entries (snd (sup_run (flush err i) s)) = AList.delete i (sv_entries s) \<and>
         sv_disposed (snd (sup_run (flush err i) s)) = sv_disposed s"
proof -
  let ?s1 = "snd (teardown_done i s)"
  have run: "snd (sup_run (flush err i) s) = snd (handler_done i (err i) ?s1)"
    by (simp add: flush_def Let_def split: prod.splits)
  show ?thesis
  proof (cases "map_of (sv_entries s) i")
    case None
    then have "teardown_done i s = ([], s)" "handler_done i (err i) s = ([], s)"
      by (auto simp: teardown_done_def handler_done_def split: option.splits flight.splits)
    with run AList_delete_absent [OF None] show ?thesis by simp
  next
    case (Some e)
    note ri = sup_inv_ids [OF inv Some]
    have "is_settling i s" using inv d Some by (auto simp: sup_inv_def sup_base_def is_settling_def)
    then obtain fl where fl: "map_of (sv_flights s) i = Some fl"
      using inv by (auto simp: sup_inv_def in_flight_def)
    show ?thesis
    proof (cases fl)
      case (Handling out)
      with fl have "teardown_done i s = ([], s)" by (simp add: teardown_done_def)
      moreover have "handler_done i (err i) s = complete_entry e out (err i) s"
        using fl Handling Some by (simp add: handler_done_def)
      ultimately show ?thesis using complete_entries [OF ri] run by simp
    next
      case (TearingDown out)
      then have td: "teardown_done i s = begin_complete e out s" using fl Some by (simp add: teardown_done_def)
      show ?thesis
      proof (cases "te_silent e")
        case True
        then have "?s1 = snd (complete_entry e out None s)" using td by (simp add: begin_complete_def)
        then show ?thesis using complete_entries [OF ri, of out None s] run handler_done_absent by simp
      next
        case False
        then have s1: "?s1 = s\<lparr>sv_flights := AList.update i (Handling out) (sv_flights s)\<rparr>"
          using td ri by (simp add: begin_complete_def)
        then have "handler_done i (err i) ?s1 = complete_entry e out (err i) ?s1"
          using Some by (simp add: handler_done_def AList.update_conv)
        then show ?thesis using complete_entries [OF ri, of out "err i" ?s1] run s1 by simp
      qed
    qed
  qed
qed

lemma flush_inv: "sup_inv s \<Longrightarrow> sup_inv (snd (sup_run (flush err i) s))"
  by (auto simp: flush_def Let_def split: prod.splits)
     (metis handler_inv snd_conv teardown_inv)

lemma sup_run_append: "snd (sup_run (xs @ ys) s) = snd (sup_run ys (snd (sup_run xs s)))"
proof (induction xs arbitrary: s)
  case (Cons x xs)
  from Cons.IH [of "snd (sup_exec x s)"] show ?case by (simp add: Let_def split_beta)
qed simp

lemma flush_all:
  "sup_inv s \<Longrightarrow> sv_disposed s \<noteq> None \<Longrightarrow>
   sv_entries (snd (sup_run (concat (map (flush err) ids)) s)) = fold AList.delete ids (sv_entries s)"
proof (induction ids arbitrary: s)
  case (Cons i ids)
  with flush_one [of s err i] flush_inv [of s err i] show ?case by (simp add: sup_run_append)
qed simp

lemma fold_delete_keys: "set (map fst al) \<subseteq> set ids \<Longrightarrow> fold AList.delete ids al = []"
proof (induction ids arbitrary: al)
  case (Cons i ids)
  have "set (map fst (AList.delete i al)) \<subseteq> set ids"
    using Cons.prems by (auto simp: AList_keys_delete)
  with Cons.IH show ?case by simp
qed simp

text \<open>
  C13: run-end disposal: every task still in the registry is told to stop or is already
  ending; once the awaited teardowns and completion handlers return, in whatever way they do,
  the registry is empty; and a task registered afterwards is cancelled and leaves no trace.
\<close>

theorem disposal_drains_registry:
  assumes "sup_run xs supervisor_init = (es, s)" and "distinct (registering xs)"
    and "dispose_all reason s = (fs, s1)"
  shows "list_tasks (snd (sup_run (concat (map (flush err) (map row_id (list_tasks s1)))) s1)) = [] \<and>
         (\<exists>r. \<forall>i now tag title silent. register i now tag title silent s1 = Inr (i, [CallCancel i (Some r)], s1)) \<and>
         (\<forall>e \<in> set (map snd (sv_entries s1)). te_settling e)"
proof -
  have "sup_inv s" using hist_run [OF assms(2)] assms(1) by (simp add: hist_ok_def)
  then have inv: "sup_inv s1" using dispose_inv [of s reason] assms(3) by simp
  obtain r where d: "sv_disposed s1 = Some r" using assms(3) by (auto simp: dispose_all_eq)
  have dk: "distinct (map fst (sv_entries s1))" using inv by (simp add: sup_inv_def sup_base_def)
  have ids: "map row_id (list_tasks s1) = map fst (sv_entries s1)"
    using sup_inv_ids [OF inv] dk by (auto simp: list_tasks_def map_of_eq_Some_iff)
  have "sv_entries (snd (sup_run (concat (map (flush err) (map fst (sv_entries s1)))) s1)) = []"
    using flush_all [OF inv, of err "map fst (sv_entries s1)"] d
      fold_delete_keys [of "sv_entries s1" "map fst (sv_entries s1)"] by (simp del: map_map)
  moreover have "\<forall>e \<in> set (map snd (sv_entries s1)). te_settling e"
    using inv d dk by (auto simp: sup_inv_def sup_base_def map_of_eq_Some_iff)
  ultimately show ?thesis using d unfolding ids by (auto simp: list_tasks_def register_def)
qed

theorem disposal_drains_registry_witness:
  "let xs = [Register ''t1'' 5 \<lparr>tag_type = ''cmd'', tag_id = ''a''\<rparr> ''build'' False,
             Register ''t2'' 6 \<lparr>tag_type = ''cmd'', tag_id = ''b''\<rparr> ''watch'' True];
       s1 = snd (dispose_all ''run finished'' (snd (sup_run xs supervisor_init)))
   in map row_id (list_tasks s1) = [''t1'', ''t2''] \<and>
      list_tasks (snd (sup_run (concat (map (flush (\<lambda>_. Some ''boom'')) [''t1'', ''t2''])) s1)) = []"
proof -
  let ?xs = "[Register ''t1'' 5 \<lparr>tag_type = ''cmd'', tag_id = ''a''\<rparr> ''build'' False,
             Register ''t2'' 6 \<lparr>tag_type = ''cmd'', tag_id = ''b''\<rparr> ''watch'' True]"
  obtain es s where r: "sup_run ?xs supervisor_init = (es, s)" by (cases "sup_run ?xs supervisor_init")
  obtain fs s1 where d: "dispose_all ''run finished'' s = (fs, s1)" by (cases "dispose_all ''run finished'' s")
  from r d have l: "map row_id (list_tasks s1) = [''t1'', ''t2'']"
    by (auto simp: supervisor_init_def supervisor_defs find_active_def Let_def list_tasks_def)
  from disposal_drains_registry [OF r _ d, of "\<lambda>_. Some ''boom''"] r d l show ?thesis
    by (auto simp: Let_def)
qed

end
