(* ===== verification/Inbox.thy ===== *)
theory Inbox
  imports Contracts WakeSource
begin

text \<open>
  \<open>NotificationInbox\<close> and \<open>systemNotificationMessage\<close> of
  \<open>agents/notification/inbox.ts\<close>. A waiter is a number; \<open>ib_resolved\<close> lists those whose
  promise has been resolved.
\<close>

record inbox_entry =
  entry_message :: string
  entry_key :: "string option"

record inbox =
  ib_entries :: "inbox_entry list"
  ib_wakers :: "nat list"
  ib_resolved :: "nat list"

definition inbox_init :: inbox where
  "inbox_init = \<lparr>ib_entries = [], ib_wakers = [], ib_resolved = []\<rparr>"

text \<open>\<open>#wake\<close>: every waker unregisters itself and resolves.\<close>

definition inbox_wake :: "inbox \<Rightarrow> inbox" where
  "inbox_wake b = b\<lparr>ib_wakers := [], ib_resolved := ib_resolved b @ ib_wakers b\<rparr>"

text \<open>\<open>publish\<close>: a pending entry with the same key is replaced in place.\<close>

definition publish :: "string \<Rightarrow> string option \<Rightarrow> inbox \<Rightarrow> inbox" where
  "publish msg key b =
     (let entry = \<lparr>entry_message = msg, entry_key = key\<rparr>;
          pending = (case key of None \<Rightarrow> None
                     | Some k \<Rightarrow> find_index (\<lambda>c. entry_key c = Some k) (ib_entries b))
      in inbox_wake
           (case pending of
              Some i \<Rightarrow> b\<lparr>ib_entries := (ib_entries b)[i := entry]\<rparr>
            | None \<Rightarrow> b\<lparr>ib_entries := ib_entries b @ [entry]\<rparr>))"

definition inbox_drain :: "inbox \<Rightarrow> string list \<times> inbox" where
  "inbox_drain b =
     (if ib_entries b = [] then ([], b)
      else (map entry_message (ib_entries b), b\<lparr>ib_entries := []\<rparr>))"

definition inbox_is_empty :: "inbox \<Rightarrow> bool" where
  "inbox_is_empty b = (ib_entries b = [])"

definition inbox_count :: "inbox \<Rightarrow> nat" where
  "inbox_count b = length (ib_entries b)"

text \<open>\<open>waitForNext(signal)\<close> by waiter \<open>w\<close>, whose signal may already be aborted.\<close>

definition wait_for_next :: "nat \<Rightarrow> bool \<Rightarrow> inbox \<Rightarrow> inbox" where
  "wait_for_next w aborted b =
     (if ib_entries b \<noteq> [] \<or> aborted then b\<lparr>ib_resolved := ib_resolved b @ [w]\<rparr>
      else b\<lparr>ib_wakers := ib_wakers b @ [w]\<rparr>)"

text \<open>The waiter's signal aborts: its listener unregisters the waker and resolves.\<close>

definition inbox_abort_wait :: "nat \<Rightarrow> inbox \<Rightarrow> inbox" where
  "inbox_abort_wait w b =
     (if w \<in> set (ib_wakers b)
      then b\<lparr>ib_wakers := removeAll w (ib_wakers b), ib_resolved := ib_resolved b @ [w]\<rparr> else b)"

lemmas inbox_defs = inbox_wake_def publish_def inbox_drain_def wait_for_next_def inbox_abort_wait_def

datatype inbox_op = Publish string "string option" | DrainInbox | WaitForNext nat bool | AbortInboxWait nat

fun inbox_step :: "inbox_op \<Rightarrow> inbox \<Rightarrow> inbox" where
  "inbox_step (Publish m k) b = publish m k b"
| "inbox_step DrainInbox b = snd (inbox_drain b)"
| "inbox_step (WaitForNext w a) b = wait_for_next w a b"
| "inbox_step (AbortInboxWait w) b = inbox_abort_wait w b"

interpretation inbox_wait: wake_source inbox_step ib_wakers ib_resolved "\<lambda>w b. ib_entries b \<noteq> []"
proof
  fix w :: nat and b x
  show "w \<in> set (ib_wakers b) \<union> set (ib_resolved b) \<Longrightarrow>
        w \<in> set (ib_wakers (inbox_step x b)) \<union> set (ib_resolved (inbox_step x b))"
    by (cases x) (auto simp: inbox_defs Let_def split: option.splits)
  show "\<forall>w\<in>set (ib_wakers b). \<not> ib_entries b \<noteq> [] \<Longrightarrow> w \<in> set (ib_wakers (inbox_step x b)) \<Longrightarrow>
        \<not> ib_entries (inbox_step x b) \<noteq> []"
    by (cases x) (auto simp: inbox_defs Let_def split: option.splits if_splits)
qed

section \<open>Coalescing\<close>

text \<open>
  The reference: each keyed message stands where its key was first published and shows the
  text that was published last.
\<close>

definition first_uses :: "(string \<times> string option) list \<Rightarrow> (string \<times> string option) list" where
  "first_uses ps = map (nth ps)
     (filter (\<lambda>i. snd (ps ! i) = None \<or> snd (ps ! i) \<notin> set (map snd (take i ps))) [0..<length ps])"

definition latest :: "(string \<times> string option) list \<Rightarrow> string \<times> string option \<Rightarrow> string" where
  "latest ps p = (if snd p = None then fst p else fst (last (filter (\<lambda>q. snd q = snd p) ps)))"

definition coalesced :: "(string \<times> string option) list \<Rightarrow> string list" where
  "coalesced ps = map (latest ps) (first_uses ps)"

definition publish_all :: "(string \<times> string option) list \<Rightarrow> inbox \<Rightarrow> inbox" where
  "publish_all ps b = fold (\<lambda>p. publish (fst p) (snd p)) ps b"

lemma first_uses_snoc:
  "first_uses (ps @ [p]) =
   first_uses ps @ (if snd p = None \<or> snd p \<notin> set (map snd ps) then [p] else [])"
proof -
  have "filter (\<lambda>i. snd ((ps @ [p]) ! i) = None \<or> snd ((ps @ [p]) ! i) \<notin> set (map snd (take i (ps @ [p])))) [0..<length ps]
      = filter (\<lambda>i. snd (ps ! i) = None \<or> snd (ps ! i) \<notin> set (map snd (take i ps))) [0..<length ps]"
    by (rule filter_cong) (auto simp: nth_append)
  moreover have "map (nth (ps @ [p])) (filter P [0..<length ps]) = map (nth ps) (filter P [0..<length ps])" for P
    by (rule map_cong) (auto simp: nth_append)
  ultimately show ?thesis by (simp add: first_uses_def)
qed

lemma first_uses_keys: "k \<in> snd ` set (first_uses ps) \<longleftrightarrow> k \<in> snd ` set ps"
proof (induction ps rule: rev_induct)
  case (snoc p ps)
  then show ?case by (auto simp: first_uses_snoc)
qed (simp add: first_uses_def)

lemma first_uses_distinct:
  "i < length (first_uses ps) \<Longrightarrow> j < length (first_uses ps) \<Longrightarrow>
   snd (first_uses ps ! i) = Some k \<Longrightarrow> snd (first_uses ps ! j) = Some k \<Longrightarrow> i = j"
proof (induction ps rule: rev_induct)
  case (snoc p ps)
  have fresh: "snd p \<noteq> Some k" if "m < length (first_uses ps)" "snd (first_uses ps ! m) = Some k"
    "snd p = None \<or> snd p \<notin> set (map snd ps)" for m
  proof
    assume "snd p = Some k"
    moreover have "Some k \<in> snd ` set (first_uses ps)" using that nth_mem by force
    ultimately show False using that(3) first_uses_keys by auto
  qed
  show ?case
  proof (cases "snd p = None \<or> snd p \<notin> set (map snd ps)")
    case True
    with snoc fresh show ?thesis
      by (auto simp: first_uses_snoc nth_append less_Suc_eq split: if_splits)
  next
    case False
    then have "first_uses (ps @ [p]) = first_uses ps" by (auto simp: first_uses_snoc)
    with snoc show ?thesis by simp
  qed
qed (simp add: first_uses_def)

lemma latest_snoc:
  "latest (ps @ [p]) q = (if snd q \<noteq> None \<and> snd q = snd p then fst p else latest ps q)"
  by (auto simp: latest_def)

lemma latest_self: "snd p = None \<or> snd p \<notin> set (map snd ps) \<Longrightarrow> latest (ps @ [p]) p = fst p"
  by (auto simp: latest_def)

lemma publish_all_entries:
  "ib_entries (publish_all ps inbox_init) =
   map (\<lambda>q. \<lparr>entry_message = latest ps q, entry_key = snd q\<rparr>) (first_uses ps)"
proof (induction ps rule: rev_induct)
  case Nil
  then show ?case by (simp add: publish_all_def inbox_init_def first_uses_def)
next
  case (snoc p ps)
  define es where "es = ib_entries (publish_all ps inbox_init)"
  note IH = snoc.IH [folded es_def]
  have all: "publish_all (ps @ [p]) inbox_init = publish (fst p) (snd p) (publish_all ps inbox_init)"
    by (simp add: publish_all_def)
  show ?case
  proof (cases "snd p = None \<or> snd p \<notin> set (map snd ps)")
    case True
    have same: "latest (ps @ [p]) q = latest ps q" if "q \<in> set (first_uses ps)" for q
    proof -
      have "snd q \<in> set (map snd ps)" using that first_uses_keys [of "snd q" ps] by auto
      with True have "\<not> (snd q \<noteq> None \<and> snd q = snd p)" by metis
      then show ?thesis by (auto simp: latest_snoc)
    qed
    have "find_index (\<lambda>c. entry_key c = Some k) es = None" if "snd p = Some k" for k
      using True that first_uses_keys [of "Some k" ps] by (force simp: find_index_None IH)
    then have "ib_entries (publish_all (ps @ [p]) inbox_init) = es @ [\<lparr>entry_message = fst p, entry_key = snd p\<rparr>]"
      by (auto simp: all publish_def inbox_wake_def es_def Let_def split: option.splits)
    also have "\<dots> = map (\<lambda>q. \<lparr>entry_message = latest (ps @ [p]) q, entry_key = snd q\<rparr>) (first_uses (ps @ [p]))"
      using True same by (simp add: first_uses_snoc IH latest_self)
    finally show ?thesis .
  next
    case False
    then obtain k where k: "snd p = Some k" "Some k \<in> set (map snd ps)" by (cases "snd p") auto
    obtain i where i: "find_index (\<lambda>c. entry_key c = Some k) es = Some i"
      using k first_uses_keys [of "Some k" ps]
      by (cases "find_index (\<lambda>c. entry_key c = Some k) es") (auto simp: find_index_None IH)
    from find_index_Some [OF i] have ilt: "i < length (first_uses ps)" and ik: "snd (first_uses ps ! i) = Some k"
      by (auto simp: IH)
    have "ib_entries (publish_all (ps @ [p]) inbox_init) = es[i := \<lparr>entry_message = fst p, entry_key = snd p\<rparr>]"
      using i k by (simp add: all publish_def inbox_wake_def es_def Let_def)
    also have "\<dots> = map (\<lambda>q. \<lparr>entry_message = latest (ps @ [p]) q, entry_key = snd q\<rparr>) (first_uses ps)"
    proof (rule nth_equalityI)
      fix j assume "j < length (es[i := \<lparr>entry_message = fst p, entry_key = snd p\<rparr>])"
      then have j: "j < length (first_uses ps)" by (simp add: IH)
      have "latest (ps @ [p]) (first_uses ps ! j) = (if j = i then fst p else latest ps (first_uses ps ! j))"
      proof (cases "j = i")
        case True
        then show ?thesis using ik k(1) by (simp add: latest_snoc)
      next
        case False
        then have "snd (first_uses ps ! j) \<noteq> Some k" using first_uses_distinct [OF j ilt _ ik] by blast
        with False k(1) show ?thesis by (simp add: latest_snoc)
      qed
      with ik k j show "es[i := \<lparr>entry_message = fst p, entry_key = snd p\<rparr>] ! j =
          map (\<lambda>q. \<lparr>entry_message = latest (ps @ [p]) q, entry_key = snd q\<rparr>) (first_uses ps) ! j"
        by (simp add: IH nth_list_update)
    qed (simp add: IH)
    finally show ?thesis using False by (simp add: first_uses_snoc)
  qed
qed

text \<open>
  Draining after a burst of publishes returns the coalesced messages (each unkeyed
  message once; each key once, where it was first queued, with its latest text) and leaves
  the inbox empty.
\<close>

lemma inbox_drains_coalesced:
  "inbox_drain (publish_all ps inbox_init) = (ms, b) \<Longrightarrow>
   ms = coalesced ps \<and> inbox_is_empty b"
  using publish_all_entries [of ps]
  by (auto simp: inbox_drain_def coalesced_def inbox_is_empty_def split: if_splits)

section \<open>Waiting\<close>

text \<open>
  A wait on the inbox that began (registered or already resolved) is resolved at every
  later moment at which a message is pending, whatever operations ran in between.
\<close>

lemma inbox_wait_resolves:
  assumes "w \<in> set (ib_wakers (fold inbox_step xs inbox_init)) \<union> set (ib_resolved (fold inbox_step xs inbox_init))"
    and "\<not> inbox_is_empty (fold inbox_step ys (fold inbox_step xs inbox_init))"
  shows "w \<in> set (ib_resolved (fold inbox_step ys (fold inbox_step xs inbox_init)))"
proof -
  have "inbox_wait.level inbox_init" by (simp add: inbox_wait.level_def inbox_init_def)
  from inbox_wait.due_resolved [OF inbox_wait.level_run [OF this] assms(1)] assms(2)
  show ?thesis by (simp add: inbox_is_empty_def)
qed

section \<open>Rendering a notification\<close>

definition LT_ESCAPE :: string where
  "LT_ESCAPE = [CHR 0x5C] @ ''u003c''"

definition system_notification_message :: "json_object \<Rightarrow> message" where
  "system_notification_message payload =
     (let json = replace_all CHR ''<'' LT_ESCAPE (stringify (JObj payload))
      in \<lparr>msg_role = User,
          msg_content = [TextBlock (''<system_notification>'' @ json @ ''</system_notification>'')]\<rparr>)"

text \<open>What the loop appends for a drained note.\<close>

definition notification_payload :: "string \<Rightarrow> json_object" where
  "notification_payload note = [(''message'', JStr note)]"

lemma replace_all_append: "replace_all c r (s @ t) = replace_all c r s @ replace_all c r t"
  by (simp add: replace_all_def)

lemma escape_char_no_lt: "c \<noteq> CHR ''<'' \<Longrightarrow> CHR ''<'' \<notin> set (escape_char c)"
proof -
  have hd: "hex_digit n \<noteq> CHR ''<''" for n
  proof -
    have "hex_digit n \<in> set ''0123456789abcdef''"
      unfolding hex_digit_def by (rule nth_mem) simp
    then show ?thesis by auto
  qed
  note hd [symmetric]
  moreover assume "c \<noteq> CHR ''<''"
  ultimately show ?thesis by (auto simp: escape_char_def Let_def)
qed

definition lt_code :: "char \<Rightarrow> string" where
  "lt_code c = (if c = CHR ''<'' then LT_ESCAPE else escape_char c)"

lemma replace_all_escape: "replace_all CHR ''<'' LT_ESCAPE (escape s) = concat (map lt_code s)"
proof (induction s)
  case (Cons c s)
  have "replace_all CHR ''<'' LT_ESCAPE (escape_char c) = lt_code c"
  proof (cases "c = CHR ''<''")
    case True
    then show ?thesis by (simp add: lt_code_def escape_char_def replace_all_def)
  next
    case False
    with escape_char_no_lt show ?thesis by (simp add: lt_code_def replace_all_id)
  qed
  with Cons show ?case by (simp add: replace_all_append)
qed (simp add: replace_all_def)

lemma lt_escape_apart: "c \<noteq> CHR ''<'' \<Longrightarrow> LT_ESCAPE @ x \<noteq> escape_char c @ y"
proof
  assume c: "c \<noteq> CHR ''<''" and eq: "LT_ESCAPE @ x = escape_char c @ y"
  show False
  proof (cases "of_char c \<in> {34, 92 :: nat} \<or> (of_char c :: nat) < 32")
    case True
    have hd3: "hex_digit n \<noteq> CHR ''3''" if "n < 3" for n
    proof -
      from that have "n \<in> {0, 1, 2}" by auto
      then show ?thesis by (auto simp: hex_digit_def)
    qed
    have "(of_char c :: nat) div 16 < 3 \<or> of_char c \<in> {34, 92 :: nat}" using True by auto
    with True eq hd3 [of "of_char c div 16"] show False
      by (auto simp: escape_char_special LT_ESCAPE_def escape_tail_def split: if_splits)
  next
    case False
    then have "of_char c \<noteq> (92 :: nat)" by simp
    then have "c \<noteq> CHR 0x5C" using of_char_backslash by simp
    with False eq show False by (auto simp: escape_char_plain LT_ESCAPE_def)
  qed
qed

lemma lt_code_prefix: "lt_code a @ x = lt_code b @ y \<Longrightarrow> a = b \<and> x = y"
  using escape_char_prefix [of a x b y] lt_escape_apart [of a y x] lt_escape_apart [of b x y]
  by (auto simp: lt_code_def split: if_splits)

lemma lt_code_not_Nil: "lt_code c \<noteq> []"
  by (simp add: lt_code_def LT_ESCAPE_def escape_char_not_Nil)

lemma lt_codes_inject: "concat (map lt_code s) = concat (map lt_code t) \<Longrightarrow> s = t"
proof (induction s arbitrary: t)
  case Nil
  then show ?case using lt_code_not_Nil by (cases t) auto
next
  case (Cons c s)
  show ?case
  proof (cases t)
    case Nil
    with Cons.prems lt_code_not_Nil show ?thesis by simp
  next
    case (Cons d u)
    with Cons.prems lt_code_prefix [of c "concat (map lt_code s)" d "concat (map lt_code u)"]
    have "c = d" "concat (map lt_code s) = concat (map lt_code u)" by simp_all
    with Cons.IH Cons show ?thesis by simp
  qed
qed

lemma notification_text:
  "msg_content (system_notification_message (notification_payload note)) =
   [TextBlock (''<system_notification>{'' @ quote ''message'' @ '':'' @ [CHR 0x22] @
      concat (map lt_code note) @ [CHR 0x22] @ ''}</system_notification>'')]"
  by (simp add: system_notification_message_def notification_payload_def quote_def replace_all_append
      replace_all_escape [symmetric] escape_char_def)
     (simp add: replace_all_def)

text \<open>
  A rendered notification holds exactly one text between one pair of tags: nothing in
  the payload, whatever it contains, produces a \<open><\<close> that could close the tag early or open
  another one.
\<close>

lemma notification_never_spoofs_tag:
  "\<exists>json. msg_content (system_notification_message payload) =
      [TextBlock (''<system_notification>'' @ json @ ''</system_notification>'')]
    \<and> CHR ''<'' \<notin> set json"
  by (auto simp: system_notification_message_def Let_def LT_ESCAPE_def intro!: set_replace_all)

text \<open>
  Rendering loses nothing: two notes with the same rendered notification are the same
  text.
\<close>

lemma notification_injective:
  "system_notification_message (notification_payload m) =
   system_notification_message (notification_payload n) \<longleftrightarrow> m = n"
  using notification_text [of m] notification_text [of n] lt_codes_inject [of m n] by auto

end
