(* ===== verification/RunState.thy ===== *)
theory RunState
  imports Conversation RunHandle Supervisor Inbox
begin

text \<open>
  The live state of one run, assembled by \<open>startRun\<close> of \<open>agents/agent-runtime.ts\<close>: the
  handle, the inbox, the task registry, the conversation, the submission gate's flag and the
  terminal binding's accepted slot, with the wiring between them (the notifier that latches
  on finish, the registry that emits through the handle, the gate over all of them).
\<close>

record 'o run_state =
  rn_handle :: "'o run_handle"
  rn_inbox :: inbox
  rn_sup :: supervisor
  rn_conv :: conversation
  rn_submitting :: bool
  rn_accepted :: "'o option"

definition run_emit :: "'o event_body \<Rightarrow> 'o run_state \<Rightarrow> 'o run_state" where
  "run_emit body s = s\<lparr>rn_handle := emit body (rn_handle s)\<rparr>"

text \<open>The notifier: publishes after the run has finished are no-ops.\<close>

definition notify :: "string \<Rightarrow> string option \<Rightarrow> 'o run_state \<Rightarrow> 'o run_state" where
  "notify msg key s =
     (if rh_finished (rn_handle s) then s else s\<lparr>rn_inbox := publish msg key (rn_inbox s)\<rparr>)"

definition notify_all :: "(string \<times> string option) list \<Rightarrow> 'o run_state \<Rightarrow> 'o run_state" where
  "notify_all ps s = fold (\<lambda>p. notify (fst p) (snd p)) ps s"

text \<open>A registry operation: its lifecycle events go through the handle's emitter.\<close>

fun effect_event :: "sup_effect \<Rightarrow> task_event option" where
  "effect_event (EmitTask e) = Some e"
| "effect_event _ = None"

definition emit_effects :: "sup_effect list \<Rightarrow> 'o run_state \<Rightarrow> 'o run_state" where
  "emit_effects es s = fold (\<lambda>e. run_emit (TaskEvent e)) (List.map_filter effect_event es) s"

definition run_sup :: "sup_op \<Rightarrow> 'o run_state \<Rightarrow> 'o run_state" where
  "run_sup x s = (case sup_exec x (rn_sup s) of (es, reg) \<Rightarrow> emit_effects es (s\<lparr>rn_sup := reg\<rparr>))"

section \<open>The submission gate\<close>

definition gate_blockers :: "'o run_state \<Rightarrow> string list" where
  "gate_blockers s =
     (let tasks = task_count (rn_sup s); notes = inbox_count (rn_inbox s) in
      (if tasks > 0 then [string_of_nat tasks @ '' background task(s) still open''] else [])
      @ (if notes > 0 then [string_of_nat notes @ '' undrained notification(s)''] else [])
      @ (if has_pending_steers (rn_handle s) then [''a queued user message is pending''] else [])
      @ (if rn_submitting s then [''a submission was already accepted''] else []))"

definition gate_begin_finishing :: "'o run_state \<Rightarrow> 'o run_state" where
  "gate_begin_finishing s = s\<lparr>rn_submitting := True, rn_handle := begin_finishing (rn_handle s)\<rparr>"

definition gate_cancel_finishing :: "'o run_state \<Rightarrow> 'o run_state" where
  "gate_cancel_finishing s = s\<lparr>rn_submitting := False, rn_handle := cancel_finishing (rn_handle s)\<rparr>"

definition gate_open :: "'o run_state \<Rightarrow> bool" where
  "gate_open s =
     (is_empty_registry (rn_sup s) \<and> inbox_is_empty (rn_inbox s) \<and> \<not> has_pending_steers (rn_handle s))"

lemma gate_blockers_Nil: "gate_blockers s = [] \<longleftrightarrow> gate_open s \<and> \<not> rn_submitting s"
  by (auto simp: gate_blockers_def gate_open_def Let_def task_count_def inbox_count_def
      is_empty_registry_def inbox_is_empty_def)

section \<open>Frames\<close>

lemma run_emit_simps [simp]:
  "rn_inbox (run_emit b s) = rn_inbox s" "rn_sup (run_emit b s) = rn_sup s" "rn_conv (run_emit b s) = rn_conv s"
  "rn_submitting (run_emit b s) = rn_submitting s" "rn_accepted (run_emit b s) = rn_accepted s"
  "rn_handle (run_emit b s) = emit b (rn_handle s)"
  by (simp_all add: run_emit_def)

lemma emit_simps [simp]:
  "rh_aborted (emit b h) = rh_aborted h" "rh_steers (emit b h) = rh_steers h"
  "rh_finishing (emit b h) = rh_finishing h" "rh_finished (emit b h) = rh_finished h"
  "rh_outcome (emit b h) = rh_outcome h" "rh_steer_wakers (emit b h) = rh_steer_wakers h"
  "rh_steer_resolved (emit b h) = rh_steer_resolved h"
  by (simp_all add: emit_def Let_def)

lemma finishing_simps [simp]:
  "rh_aborted (cancel_finishing h) = rh_aborted h" "rh_aborted (begin_finishing h) = rh_aborted h"
  "rh_steers (cancel_finishing h) = rh_steers h" "rh_steers (begin_finishing h) = rh_steers h"
  "rh_finished (cancel_finishing h) = rh_finished h" "rh_finished (begin_finishing h) = rh_finished h"
  "rh_outcome (cancel_finishing h) = rh_outcome h" "rh_outcome (begin_finishing h) = rh_outcome h"
  by (simp_all add: cancel_finishing_def begin_finishing_def)

lemma emit_effects_simps [simp]:
  "rn_inbox (emit_effects es s) = rn_inbox s" "rn_sup (emit_effects es s) = rn_sup s"
  "rn_conv (emit_effects es s) = rn_conv s" "rn_submitting (emit_effects es s) = rn_submitting s"
  "rn_accepted (emit_effects es s) = rn_accepted s"
  "rh_aborted (rn_handle (emit_effects es s)) = rh_aborted (rn_handle s)"
  "rh_steers (rn_handle (emit_effects es s)) = rh_steers (rn_handle s)"
  "rh_finishing (rn_handle (emit_effects es s)) = rh_finishing (rn_handle s)"
  "rh_finished (rn_handle (emit_effects es s)) = rh_finished (rn_handle s)"
  "rh_outcome (rn_handle (emit_effects es s)) = rh_outcome (rn_handle s)"
  "rh_steer_wakers (rn_handle (emit_effects es s)) = rh_steer_wakers (rn_handle s)"
  "rh_steer_resolved (rn_handle (emit_effects es s)) = rh_steer_resolved (rn_handle s)"
proof -
  have "let s' = fold (\<lambda>e. run_emit (TaskEvent e)) xs s in
      rn_inbox s' = rn_inbox s \<and> rn_sup s' = rn_sup s \<and> rn_conv s' = rn_conv s \<and>
      rn_submitting s' = rn_submitting s \<and> rn_accepted s' = rn_accepted s \<and>
      rh_aborted (rn_handle s') = rh_aborted (rn_handle s) \<and> rh_steers (rn_handle s') = rh_steers (rn_handle s) \<and>
      rh_finishing (rn_handle s') = rh_finishing (rn_handle s) \<and> rh_finished (rn_handle s') = rh_finished (rn_handle s) \<and>
      rh_outcome (rn_handle s') = rh_outcome (rn_handle s) \<and> rh_steer_wakers (rn_handle s') = rh_steer_wakers (rn_handle s) \<and>
      rh_steer_resolved (rn_handle s') = rh_steer_resolved (rn_handle s)" for xs
    by (induction xs arbitrary: s) (simp_all add: Let_def)
  from this [of "List.map_filter effect_event es"]
  show "rn_inbox (emit_effects es s) = rn_inbox s" "rn_sup (emit_effects es s) = rn_sup s"
    "rn_conv (emit_effects es s) = rn_conv s" "rn_submitting (emit_effects es s) = rn_submitting s"
    "rn_accepted (emit_effects es s) = rn_accepted s"
    "rh_aborted (rn_handle (emit_effects es s)) = rh_aborted (rn_handle s)"
    "rh_steers (rn_handle (emit_effects es s)) = rh_steers (rn_handle s)"
    "rh_finishing (rn_handle (emit_effects es s)) = rh_finishing (rn_handle s)"
    "rh_finished (rn_handle (emit_effects es s)) = rh_finished (rn_handle s)"
    "rh_outcome (rn_handle (emit_effects es s)) = rh_outcome (rn_handle s)"
    "rh_steer_wakers (rn_handle (emit_effects es s)) = rh_steer_wakers (rn_handle s)"
    "rh_steer_resolved (rn_handle (emit_effects es s)) = rh_steer_resolved (rn_handle s)"
    by (simp_all add: emit_effects_def Let_def)
qed

lemma notify_all_frame [simp]:
  "rn_handle (notify_all ps s) = rn_handle s" "rn_sup (notify_all ps s) = rn_sup s"
  "rn_conv (notify_all ps s) = rn_conv s" "rn_submitting (notify_all ps s) = rn_submitting s"
  "rn_accepted (notify_all ps s) = rn_accepted s"
proof -
  have "let s' = fold (\<lambda>p. notify (fst p) (snd p)) ps s in
    rn_handle s' = rn_handle s \<and> rn_sup s' = rn_sup s \<and> rn_conv s' = rn_conv s \<and>
    rn_submitting s' = rn_submitting s \<and> rn_accepted s' = rn_accepted s"
    by (induction ps arbitrary: s) (simp_all add: Let_def notify_def)
  then show "rn_handle (notify_all ps s) = rn_handle s" "rn_sup (notify_all ps s) = rn_sup s"
    "rn_conv (notify_all ps s) = rn_conv s" "rn_submitting (notify_all ps s) = rn_submitting s"
    "rn_accepted (notify_all ps s) = rn_accepted s"
    by (simp_all add: notify_all_def Let_def)
qed

end
