(* ===== verification/Pipeline.thy ===== *)
theory Pipeline
  imports Hooks LlmTypes
begin

text \<open>
  The per-call pipeline of ordinary tools (\<open>agents/tool/pipeline.ts\<close>, \<open>define.ts\<close>). The
  tool's schema is its \<open>safeParse\<close>; its \<open>execute\<close> is host code whose answer, a result or a
  throw, is observed together with the clock. A call runs up to its first await when it is
  dispatched (\<open>prepare\<close>) and settles later (\<open>conclude\<close>).
\<close>

section \<open>Definitions\<close>

record tool_def =
  td_name :: string
  td_description :: string
  td_input_schema :: json_object
  td_parse :: "json_object \<Rightarrow> zod_issue list + json"

datatype define_error = EmptyToolName

definition define_tool :: "string \<Rightarrow> string \<Rightarrow> json_object \<Rightarrow> (json_object \<Rightarrow> zod_issue list + json) \<Rightarrow> define_error + tool_def" where
  "define_tool name desc schema parse =
     (let n = trim name in
      if n = [] then Inl EmptyToolName
      else Inr \<lparr>td_name = n, td_description = desc, td_input_schema = schema, td_parse = parse\<rparr>)"

definition tool_spec_of :: "tool_def \<Rightarrow> tool_spec" where
  "tool_spec_of d = \<lparr>spec_name = td_name d, spec_description = td_description d,
     spec_input_schema = td_input_schema d, spec_output_schema = None\<rparr>"

text \<open>Everything but the \<open>tool_use_id\<close> of a settled call.\<close>

record pipeline_result =
  pr_content :: json
  pr_is_error :: bool
  pr_is_terminal :: bool
  pr_start :: nat
  pr_end :: nat
  pr_metadata :: "json_object option"

definition with_id :: "tool_use_id \<Rightarrow> pipeline_result \<Rightarrow> tool_call_result" where
  "with_id i r = \<lparr>res_id = i, res_content = pr_content r, res_is_error = pr_is_error r,
     res_is_terminal = pr_is_terminal r, res_start = pr_start r, res_end = pr_end r,
     res_metadata = pr_metadata r\<rparr>"

definition call_facts :: "tool_use \<Rightarrow> string \<Rightarrow> nat \<Rightarrow> tool_call_facts" where
  "call_facts call name tasks = \<lparr>cf_tool_use_id = use_id call, cf_tool_name = name,
     cf_input = use_input call, cf_background_task_count = tasks\<rparr>"

definition error_at :: "string \<Rightarrow> nat \<Rightarrow> nat \<Rightarrow> pipeline_result" where
  "error_at content t0 t1 = \<lparr>pr_content = JStr content, pr_is_error = True, pr_is_terminal = False,
     pr_start = t0, pr_end = t1, pr_metadata = None\<rparr>"

definition rejected_result :: "string \<Rightarrow> nat \<Rightarrow> pipeline_result" where
  "rejected_result content t = error_at content t t"

definition stamp :: "tool_result \<Rightarrow> nat \<Rightarrow> nat \<Rightarrow> pipeline_result" where
  "stamp r t0 t1 =
     (case r of
        ToolError e \<Rightarrow> error_at e t0 t1
      | ToolOutput out meta \<Rightarrow> \<lparr>pr_content = out, pr_is_error = False, pr_is_terminal = False,
          pr_start = t0, pr_end = t1, pr_metadata = meta\<rparr>)"

section \<open>A call\<close>

datatype tool_prep = Rejected pipeline_result | Prepared tool_call_facts json

definition prepare :: "tool_def \<Rightarrow> bool \<Rightarrow> nat \<Rightarrow> nat \<Rightarrow> tool_use \<Rightarrow> tool_prep" where
  "prepare d aborted now tasks call =
     (if aborted then Rejected (rejected_result ''interrupted'' now)
      else case td_parse d (use_input call) of
             Inl issues \<Rightarrow>
               Rejected (rejected_result (''invalid input for '' @ td_name d @ '': '' @ zod_issue_summary issues) now)
           | Inr data \<Rightarrow> Prepared (call_facts call (td_name d) tasks) data)"

text \<open>What the host's \<open>execute\<close> did, and the clock at a rejection and around it.\<close>

record exec_obs =
  xo_result :: "string + tool_result"
  xo_reject_at :: nat
  xo_start :: nat
  xo_end :: nat

definition executed :: "string + tool_result \<Rightarrow> tool_result" where
  "executed r = (case r of Inl msg \<Rightarrow> ToolError msg | Inr t \<Rightarrow> t)"

definition conclude :: "hook_engine \<Rightarrow> tool_prep \<Rightarrow> exec_obs \<Rightarrow> pipeline_result" where
  "conclude he prep x =
     (case prep of
        Rejected r \<Rightarrow> r
      | Prepared facts data \<Rightarrow>
          (case pre_tool_use he facts of
             Deny reason \<Rightarrow> rejected_result reason (xo_reject_at x)
           | Passthrough \<Rightarrow>
               (let result = executed (xo_result x) in
                stamp (case post_tool_use he facts result of
                         Deny reason \<Rightarrow> ToolError reason
                       | Passthrough \<Rightarrow> result)
                  (xo_start x) (xo_end x))))"

lemma stamp_not_terminal [simp]: "\<not> pr_is_terminal (stamp r t0 t1)"
  by (simp add: stamp_def error_at_def split: tool_result.splits)

lemma rejected_not_terminal [simp]: "\<not> pr_is_terminal (rejected_result c t)" "pr_is_error (rejected_result c t)"
  by (simp_all add: rejected_result_def error_at_def)

lemma conclude_not_terminal:
  "(\<forall>r. prep = Rejected r \<longrightarrow> \<not> pr_is_terminal r) \<Longrightarrow> \<not> pr_is_terminal (conclude he prep x)"
  by (auto simp: conclude_def Let_def split: tool_prep.splits hook_decision.splits)

lemma prepare_not_terminal: "prepare d aborted now tasks call = Rejected r \<Longrightarrow> \<not> pr_is_terminal r"
  by (auto simp: prepare_def split: if_splits sum.splits)

text \<open>
  An ordinary tool call never ends the run, and succeeds only when it was not aborted,
  its input parsed, no pre hook denied, the tool returned an output without throwing, and no
  post hook denied; its content is then that output, and its times bracket the execution.
\<close>

lemma ordinary_call_outcome:
  "let r = conclude he (prepare d aborted now tasks call) x;
       facts = call_facts call (td_name d) tasks
   in \<not> pr_is_terminal r \<and>
      (\<not> pr_is_error r \<longleftrightarrow>
         \<not> aborted \<and> is_ok (td_parse d (use_input call)) \<and> pre_tool_use he facts = Passthrough \<and>
         (\<exists>out meta. xo_result x = Inr (ToolOutput out meta) \<and> post_tool_use he facts (ToolOutput out meta) = Passthrough \<and>
            pr_content r = out \<and> pr_metadata r = meta \<and> pr_start r = xo_start x \<and> pr_end r = xo_end x))"
  by (auto simp: Let_def conclude_def prepare_def executed_def stamp_def error_at_def is_ok_def
      split: sum.splits hook_decision.splits tool_result.splits)

end
