(* ===== verification/Terminal.thy ===== *)
theory Terminal
  imports RunState Pipeline
begin

text \<open>
  The terminal tool: the minted contract (\<open>agents/tool/outcome.ts\<close>) bound as a tool whose
  accepted submission ends the run (\<open>agents/tool/terminal.ts\<close>). A call passes three awaits
  (pre hooks, post hooks, \<open>onSubmit\<close>); what runs between two of them is one function on the
  run's live state.
\<close>

section \<open>The contract\<close>

record 'o outcome_fn =
  of_name :: string
  of_description :: string
  of_input_schema :: json_object
  of_parse :: "json_object \<Rightarrow> zod_issue list + 'o"

datatype outcome_error = EmptyOutcomeName

definition derive_description :: "string option \<Rightarrow> string" where
  "derive_description hint =
     (let base = ''Finish the run by submitting its terminal outcome as this tool's input. A successful call ends the run.''
      in case hint of None \<Rightarrow> base | Some h \<Rightarrow> base @ '' '' @ h)"

definition create_agent_outcome_fn ::
    "string \<Rightarrow> string option \<Rightarrow> string option \<Rightarrow> json_object \<Rightarrow> (json_object \<Rightarrow> zod_issue list + 'o) \<Rightarrow>
     outcome_error + 'o outcome_fn" where
  "create_agent_outcome_fn name desc hint schema parse =
     (let n = trim name in
      if n = [] then Inl EmptyOutcomeName
      else Inr \<lparr>of_name = n, of_description = or_default desc (derive_description hint),
                of_input_schema = schema, of_parse = parse\<rparr>)"

definition terminal_spec :: "'o outcome_fn \<Rightarrow> tool_spec" where
  "terminal_spec fn = \<lparr>spec_name = of_name fn, spec_description = of_description fn,
     spec_input_schema = of_input_schema fn, spec_output_schema = None\<rparr>"

section \<open>One call\<close>

datatype 'o verdict = Accept 'o | Reject string

text \<open>
  Where a call stands: before its pre hooks (or already rejected), awaiting its post hooks,
  or awaiting \<open>onSubmit\<close>.
\<close>

datatype 'o term_phase =
    TermRejected pipeline_result
  | TermPre tool_call_facts 'o
  | TermPost tool_call_facts 'o
  | TermSubmitting

definition terminal_prepare :: "'o outcome_fn \<Rightarrow> bool \<Rightarrow> nat \<Rightarrow> nat \<Rightarrow> tool_use \<Rightarrow> 'o term_phase" where
  "terminal_prepare fn aborted now tasks call =
     (if aborted then TermRejected (rejected_result ''interrupted'' now)
      else case of_parse fn (use_input call) of
             Inl issues \<Rightarrow>
               TermRejected (rejected_result (''invalid submission for '' @ of_name fn @ '': '' @ zod_issue_summary issues) now)
           | Inr data \<Rightarrow> TermPre (call_facts call (of_name fn) tasks) data)"

text \<open>The pre hooks have decided; the gate is read, and the post hooks are started.\<close>

definition terminal_gate :: "hook_engine \<Rightarrow> nat \<Rightarrow> tool_call_facts \<Rightarrow> 'o \<Rightarrow> 'o run_state \<Rightarrow> pipeline_result + 'o term_phase" where
  "terminal_gate he now facts data s =
     (case pre_tool_use he facts of
        Deny reason \<Rightarrow> Inl (rejected_result reason now)
      | Passthrough \<Rightarrow>
          (let blockers = gate_blockers s in
           if blockers \<noteq> [] then Inl (rejected_result (''submission denied: '' @ join_with ''; '' blockers) now)
           else Inr (TermPost facts data)))"

text \<open>The post hooks have decided on the provisional result; the latch is set and \<open>onSubmit\<close> called.\<close>

definition terminal_submit :: "hook_engine \<Rightarrow> nat \<Rightarrow> tool_call_facts \<Rightarrow> 'o run_state \<Rightarrow> pipeline_result + 'o run_state" where
  "terminal_submit he now facts s =
     (case post_tool_use he facts (ToolOutput (JObj (cf_input facts)) None) of
        Deny reason \<Rightarrow> Inl (rejected_result reason now)
      | Passthrough \<Rightarrow> Inr (gate_begin_finishing s))"

text \<open>\<open>onSubmit\<close> settled: it threw (\<open>Inl\<close>), rejected or accepted.\<close>

definition terminal_verdict :: "string + 'o verdict \<Rightarrow> nat \<Rightarrow> nat \<Rightarrow> 'o run_state \<Rightarrow> pipeline_result \<times> 'o run_state" where
  "terminal_verdict v t0 t1 s =
     (case v of
        Inl msg \<Rightarrow> (error_at (''onSubmit failed: '' @ msg) t0 t1, gate_cancel_finishing s)
      | Inr (Reject reason) \<Rightarrow> (error_at reason t0 t1, gate_cancel_finishing s)
      | Inr (Accept x) \<Rightarrow>
          (\<lparr>pr_content = JStr ''submission accepted'', pr_is_error = False, pr_is_terminal = True,
            pr_start = t0, pr_end = t1, pr_metadata = None\<rparr>,
           s\<lparr>rn_accepted := Some x\<rparr>))"

text \<open>\<open>takeAccepted\<close>: read once.\<close>

definition take_accepted :: "'o run_state \<Rightarrow> 'o option \<times> 'o run_state" where
  "take_accepted s = (rn_accepted s, s\<lparr>rn_accepted := None\<rparr>)"

lemma terminal_verdict_terminal:
  "terminal_verdict v t0 t1 s = (r, s') \<Longrightarrow>
   (pr_is_terminal r \<longleftrightarrow> (\<exists>x. v = Inr (Accept x) \<and> rn_accepted s' = Some x))"
  by (auto simp: terminal_verdict_def error_at_def split: sum.splits verdict.splits)

text \<open>
  The submission gate is evaluated on the run's live state: a submission that parsed and
  passed its pre hooks goes on to the host exactly when the task registry is empty, the inbox
  drained, no steer queued and no earlier submission accepted.
\<close>

lemma gate_exact:
  assumes "pre_tool_use he facts = Passthrough"
  shows "is_ok (terminal_gate he now facts data s) \<longleftrightarrow>
         is_empty_registry (rn_sup s) \<and> inbox_is_empty (rn_inbox s) \<and>
         \<not> has_pending_steers (rn_handle s) \<and> \<not> rn_submitting s"
  using assms gate_blockers_Nil [of s]
  by (auto simp: terminal_gate_def Let_def is_ok_def gate_open_def split: if_splits)

definition run_init :: "message list \<Rightarrow> 'o run_state" where
  "run_init msgs = \<lparr>rn_handle = handle_init, rn_inbox = inbox_init, rn_sup = supervisor_init,
     rn_conv = conversation_init msgs, rn_submitting = False, rn_accepted = None\<rparr>"

text \<open>
  While a submission is with the host no steer is accepted, and a rejected or throwing
  submission reopens the run exactly: every steer and submission that was possible before the
  latch is possible again.
\<close>

lemma submission_latch:
  assumes "\<not> rh_finished (rn_handle s)" and "\<not> rh_finishing (rn_handle s)" and "\<not> rn_submitting s"
    and "terminal_submit he now facts s = Inr s1" and "\<forall>x. v \<noteq> Inr (Accept x)"
  shows "(\<forall>m. msg_role m = User \<longrightarrow> steer m (rn_handle s1) = Inr (False, rn_handle s1)) \<and>
         gate_blockers s1 \<noteq> [] \<and> snd (terminal_verdict v t0 t1 s1) = s"
proof -
  have s1: "s1 = gate_begin_finishing s"
    using assms(4) by (auto simp: terminal_submit_def split: hook_decision.splits)
  have "snd (terminal_verdict v t0 t1 s1) = gate_cancel_finishing s1"
    using assms(5) by (auto simp: terminal_verdict_def split: sum.splits verdict.splits)
  moreover have "gate_cancel_finishing s1 = s"
    using assms(1-3) by (simp add: s1 gate_cancel_finishing_def gate_begin_finishing_def
        begin_finishing_def cancel_finishing_def)
  ultimately show ?thesis
    by (simp add: s1 gate_begin_finishing_def begin_finishing_def steer_def gate_blockers_def Let_def)
qed

end
