(* ===== verification/Executor.thy ===== *)
theory Executor
  imports Terminal "HOL-Library.List_Lexorder" "HOL-Library.Char_ord"
begin

text \<open>
  The batch executor (\<open>agents/tool/executor.ts\<close>) over the bound, name-sorted registry
  (\<open>agents/tool/toolset.ts\<close>). A batch is a transition system: its lanes and its terminal
  calls advance one await at a time, in any order the host settles them, over the run's live
  state. A lane that outlives an abort can only drop its result, so a finished batch keeps
  none.
\<close>

section \<open>The registry\<close>

datatype 'o bound_tool = BoundTool tool_def | BoundTerminal "'o outcome_fn"

fun bound_name :: "'o bound_tool \<Rightarrow> string" where
  "bound_name (BoundTool d) = td_name d"
| "bound_name (BoundTerminal f) = of_name f"

fun bound_spec :: "'o bound_tool \<Rightarrow> tool_spec" where
  "bound_spec (BoundTool d) = tool_spec_of d"
| "bound_spec (BoundTerminal f) = terminal_spec f"

record 'o executor =
  ex_tools :: "'o bound_tool list"
  ex_terminal_name :: "string option"
  ex_hooks :: hook_engine

definition sort_by_name :: "'o bound_tool list \<Rightarrow> 'o bound_tool list" where
  "sort_by_name ts = sort_key bound_name ts"

definition build_tool_executor :: "hook_engine \<Rightarrow> tool_def list \<Rightarrow> 'o outcome_fn option \<Rightarrow> 'o executor" where
  "build_tool_executor he tools outcome =
     (let bound = map BoundTool tools in
      case outcome of
        None \<Rightarrow> \<lparr>ex_tools = sort_by_name bound, ex_terminal_name = None, ex_hooks = he\<rparr>
      | Some f \<Rightarrow> \<lparr>ex_tools = sort_by_name (bound @ [BoundTerminal f]),
                   ex_terminal_name = Some (of_name f), ex_hooks = he\<rparr>)"

definition executor_specs :: "'o executor \<Rightarrow> tool_spec list" where
  "executor_specs ex = map bound_spec (ex_tools ex)"

definition find_tool :: "'o executor \<Rightarrow> string \<Rightarrow> 'o bound_tool option" where
  "find_tool ex n = map_of (fold (\<lambda>t. AList.update (bound_name t) t) (ex_tools ex) []) n"

section \<open>Batch state\<close>

text \<open>A dispatched call: unknown tool, ordinary call past its first await, or terminal call.\<close>

datatype 'o running =
    RunUnknown
  | RunOrdinary tool_prep
  | RunTerminal "'o term_phase"

datatype batch_phase = Lanes | Terminals | BatchDone

record 'o batch =
  bt_calls :: "tool_use list"
  bt_ordinary :: "nat list"
  bt_cursor :: nat
  bt_lanes :: "(nat \<times> 'o running) option list"
  bt_terminal :: "nat list"
  bt_active :: "(nat \<times> 'o running) option"
  bt_settled :: "tool_call_result option list"
  bt_phase :: batch_phase

definition MAX_TOOL_CONCURRENCY :: nat where
  "MAX_TOOL_CONCURRENCY = 8"

definition run_aborted :: "'o run_state \<Rightarrow> bool" where
  "run_aborted s = rh_aborted (rn_handle s)"

definition error_result :: "tool_use_id \<Rightarrow> string \<Rightarrow> nat \<Rightarrow> tool_call_result" where
  "error_result i content t = with_id i (rejected_result content t)"

definition project_content :: "json \<Rightarrow> string" where
  "project_content c = (case c of JStr s \<Rightarrow> s | _ \<Rightarrow> stringify c)"

definition the_call :: "'o batch \<Rightarrow> nat \<Rightarrow> tool_use" where
  "the_call b i = bt_calls b ! i"

section \<open>Dispatching and settling one call\<close>

text \<open>The synchronous start of \<open>dispatch\<close>: the started event, then the call up to its first await.\<close>

definition start_call :: "'o executor \<Rightarrow> nat \<Rightarrow> tool_use \<Rightarrow> 'o run_state \<Rightarrow> 'o running \<times> 'o run_state" where
  "start_call ex now call s =
     (let s1 = run_emit (ToolExecutionStarted (use_id call) (use_name call) (use_input call)) s;
          tasks = length (list_tasks (rn_sup s1))
      in (case find_tool ex (use_name call) of
            None \<Rightarrow> RunUnknown
          | Some (BoundTool d) \<Rightarrow> RunOrdinary (prepare d (run_aborted s1) now tasks call)
          | Some (BoundTerminal f) \<Rightarrow> RunTerminal (terminal_prepare f (run_aborted s1) now tasks call),
          s1))"

text \<open>What the host and the clock answer when a call advances.\<close>

record 'o call_obs =
  co_now :: nat
  co_exec :: exec_obs
  co_verdict :: "string + 'o verdict"

text \<open>One advance of a dispatched call: it settles with a result, or moves to its next await.\<close>

definition advance_call ::
    "'o executor \<Rightarrow> 'o call_obs \<Rightarrow> tool_use \<Rightarrow> 'o running \<Rightarrow> 'o run_state \<Rightarrow>
     (tool_call_result + 'o running) \<times> 'o run_state" where
  "advance_call ex obs call r s =
     (case r of
        RunUnknown \<Rightarrow> (Inl (error_result (use_id call) (''tool not found: '' @ use_name call) (co_now obs)), s)
      | RunOrdinary prep \<Rightarrow> (Inl (with_id (use_id call) (conclude (ex_hooks ex) prep (co_exec obs))), s)
      | RunTerminal (TermRejected p) \<Rightarrow> (Inl (with_id (use_id call) p), s)
      | RunTerminal (TermPre facts data) \<Rightarrow>
          (case terminal_gate (ex_hooks ex) (co_now obs) facts data s of
             Inl p \<Rightarrow> (Inl (with_id (use_id call) p), s)
           | Inr ph \<Rightarrow> (Inr (RunTerminal ph), s))
      | RunTerminal (TermPost facts data) \<Rightarrow>
          (case terminal_submit (ex_hooks ex) (co_now obs) facts s of
             Inl p \<Rightarrow> (Inl (with_id (use_id call) p), s)
           | Inr s1 \<Rightarrow> (Inr (RunTerminal TermSubmitting), s1))
      | RunTerminal TermSubmitting \<Rightarrow>
          (case terminal_verdict (co_verdict obs) (xo_start (co_exec obs)) (xo_end (co_exec obs)) s of
             (p, s1) \<Rightarrow> (Inl (with_id (use_id call) p), s1)))"

definition record_result :: "nat \<Rightarrow> tool_call_result \<Rightarrow> 'o batch \<times> 'o run_state \<Rightarrow> 'o batch \<times> 'o run_state" where
  "record_result i res bs =
     (case bs of (b, s) \<Rightarrow>
        (b\<lparr>bt_settled := (bt_settled b)[i := Some res]\<rparr>,
         run_emit (ToolExecutionCompleted res (use_name (the_call b i)) (project_content (res_content res))) s))"

section \<open>Lanes\<close>

text \<open>The head of a lane's loop: take the next ordinary call, or end.\<close>

definition lane_next :: "'o executor \<Rightarrow> nat \<Rightarrow> nat \<Rightarrow> 'o batch \<times> 'o run_state \<Rightarrow> 'o batch \<times> 'o run_state" where
  "lane_next ex now k bs =
     (case bs of (b, s) \<Rightarrow>
        if bt_cursor b < length (bt_ordinary b) \<and> \<not> run_aborted s then
          (let i = bt_ordinary b ! bt_cursor b;
               (r, s1) = start_call ex now (the_call b i) s
           in (b\<lparr>bt_cursor := bt_cursor b + 1, bt_lanes := (bt_lanes b)[k := Some (i, r)]\<rparr>, s1))
        else (b\<lparr>bt_lanes := (bt_lanes b)[k := None]\<rparr>, s))"

definition begin_batch :: "'o executor \<Rightarrow> nat \<Rightarrow> tool_use list \<Rightarrow> 'o run_state \<Rightarrow> 'o batch \<times> 'o run_state" where
  "begin_batch ex now calls s =
     (let terminal = indices_where (\<lambda>c. Some (use_name c) = ex_terminal_name ex) calls;
          ordinary = indices_where (\<lambda>c. Some (use_name c) \<noteq> ex_terminal_name ex) calls;
          n = min MAX_TOOL_CONCURRENCY (length ordinary);
          b = \<lparr>bt_calls = calls, bt_ordinary = ordinary, bt_cursor = 0, bt_lanes = replicate n None,
               bt_terminal = terminal, bt_active = None, bt_settled = replicate (length calls) None,
               bt_phase = Lanes\<rparr>
      in fold (lane_next ex now) [0..<n] (b, s))"

text \<open>Lane \<open>k\<close>'s call advances; a result that arrives after an abort is dropped and ends the lane.\<close>

definition lane_step :: "'o executor \<Rightarrow> nat \<Rightarrow> 'o call_obs \<Rightarrow> 'o batch \<Rightarrow> 'o run_state \<Rightarrow> ('o batch \<times> 'o run_state) option" where
  "lane_step ex k obs b s =
     (if bt_phase b = Lanes \<and> k < length (bt_lanes b) then
        (case bt_lanes b ! k of
           None \<Rightarrow> None
         | Some (i, r) \<Rightarrow>
             (case advance_call ex obs (the_call b i) r s of
                (Inr r1, s1) \<Rightarrow> Some (b\<lparr>bt_lanes := (bt_lanes b)[k := Some (i, r1)]\<rparr>, s1)
              | (Inl res, s1) \<Rightarrow>
                  Some (if run_aborted s1 then (b\<lparr>bt_lanes := (bt_lanes b)[k := None]\<rparr>, s1)
                        else lane_next ex (co_now obs) k (record_result i res (b, s1)))))
      else None)"

section \<open>Terminal calls\<close>

text \<open>The head of the terminal loop.\<close>

definition terminal_next :: "'o executor \<Rightarrow> nat \<Rightarrow> 'o batch \<times> 'o run_state \<Rightarrow> 'o batch \<times> 'o run_state" where
  "terminal_next ex now bs =
     (case bs of (b, s) \<Rightarrow>
        (case bt_terminal b of
           [] \<Rightarrow> (b\<lparr>bt_active := None, bt_phase := BatchDone\<rparr>, s)
         | i # is \<Rightarrow>
             if run_aborted s then (b\<lparr>bt_active := None, bt_phase := BatchDone\<rparr>, s)
             else (case start_call ex now (the_call b i) s of
                     (r, s1) \<Rightarrow> (b\<lparr>bt_terminal := is, bt_active := Some (i, r), bt_phase := Terminals\<rparr>, s1))))"

text \<open>\<open>settledOrAborted\<close> resolved: every lane has ended, or the signal aborted.\<close>

definition lanes_settled :: "'o executor \<Rightarrow> nat \<Rightarrow> 'o batch \<Rightarrow> 'o run_state \<Rightarrow> ('o batch \<times> 'o run_state) option" where
  "lanes_settled ex now b s =
     (if bt_phase b = Lanes \<and> (list_all (\<lambda>l. l = None) (bt_lanes b) \<or> run_aborted s)
      then Some (terminal_next ex now (b, s)) else None)"

definition terminal_step :: "'o executor \<Rightarrow> 'o call_obs \<Rightarrow> 'o batch \<Rightarrow> 'o run_state \<Rightarrow> ('o batch \<times> 'o run_state) option" where
  "terminal_step ex obs b s =
     (case (bt_phase b, bt_active b) of
        (Terminals, Some (i, r)) \<Rightarrow>
          (case advance_call ex obs (the_call b i) r s of
             (Inr r1, s1) \<Rightarrow> Some (b\<lparr>bt_active := Some (i, r1)\<rparr>, s1)
           | (Inl res, s1) \<Rightarrow>
               Some (if run_aborted s1 then (b\<lparr>bt_active := None, bt_phase := BatchDone\<rparr>, s1)
                     else terminal_next ex (co_now obs) (record_result i res (b, s1))))
      | _ \<Rightarrow> None)"

text \<open>What \<open>executeBatch\<close> returns.\<close>

definition batch_results :: "nat \<Rightarrow> 'o batch \<Rightarrow> tool_call_result list" where
  "batch_results now b =
     map (\<lambda>(call, r). case r of Some res \<Rightarrow> res | None \<Rightarrow> error_result (use_id call) ''interrupted'' now)
       (zip (bt_calls b) (bt_settled b))"

datatype 'o batch_label = LaneStep nat "'o call_obs" | LanesSettled nat | TerminalStep "'o call_obs"

fun batch_exec :: "'o executor \<Rightarrow> 'o batch_label \<Rightarrow> 'o batch \<Rightarrow> 'o run_state \<Rightarrow> ('o batch \<times> 'o run_state) option" where
  "batch_exec ex (LaneStep k obs) b s = lane_step ex k obs b s"
| "batch_exec ex (LanesSettled now) b s = lanes_settled ex now b s"
| "batch_exec ex (TerminalStep obs) b s = terminal_step ex obs b s"

section \<open>The batch invariant\<close>

fun running_ok :: "'o running \<Rightarrow> bool" where
  "running_ok (RunOrdinary (Rejected p)) = (\<not> pr_is_terminal p)"
| "running_ok (RunTerminal (TermRejected p)) = (\<not> pr_is_terminal p)"
| "running_ok _ = True"

text \<open>
  \<open>a\<close> says that the signal is aborted, \<open>acc\<close> that a submission has been accepted. The taken
  ordinary calls are those a lane has picked up.
\<close>

definition taken :: "'o batch \<Rightarrow> nat set" where
  "taken b = set (take (bt_cursor b) (bt_ordinary b))"

definition in_lanes :: "'o batch \<Rightarrow> nat set" where
  "in_lanes b = {i. \<exists>r. Some (i, r) \<in> set (bt_lanes b)}"

definition settled_at :: "'o batch \<Rightarrow> nat set" where
  "settled_at b = {i. i < length (bt_settled b) \<and> bt_settled b ! i \<noteq> None}"

definition batch_shape :: "bool \<Rightarrow> 'o batch \<Rightarrow> bool" where
  "batch_shape acc b =
     (length (bt_settled b) = length (bt_calls b) \<and> length (bt_lanes b) \<le> MAX_TOOL_CONCURRENCY \<and>
      set (bt_ordinary b) \<subseteq> {..<length (bt_calls b)} \<and> set (bt_terminal b) \<subseteq> {..<length (bt_calls b)} \<and>
      (\<forall>i r. Some (i, r) \<in> set (bt_lanes b) \<longrightarrow> i < length (bt_calls b) \<and> running_ok r) \<and>
      (\<forall>i r. bt_active b = Some (i, r) \<longrightarrow> i < length (bt_calls b) \<and> running_ok r) \<and>
      (bt_phase b = Terminals \<longleftrightarrow> bt_active b \<noteq> None) \<and>
      (\<forall>i res. i < length (bt_calls b) \<longrightarrow> bt_settled b ! i = Some res \<longrightarrow>
          res_id res = use_id (bt_calls b ! i) \<and> (res_is_terminal res \<longrightarrow> acc)))"

definition batch_progress :: "bool \<Rightarrow> 'o batch \<Rightarrow> bool" where
  "batch_progress a b =
     (a \<or>
      ((None \<in> set (bt_lanes b) \<or> bt_lanes b = [] \<longrightarrow> length (bt_ordinary b) \<le> bt_cursor b) \<and>
       taken b \<subseteq> settled_at b \<union> in_lanes b \<and>
       (bt_phase b \<noteq> Lanes \<longrightarrow> set (bt_ordinary b) \<subseteq> settled_at b \<and> length (bt_ordinary b) \<le> bt_cursor b) \<and>
       {..<length (bt_calls b)} \<subseteq> set (bt_ordinary b) \<union> set (bt_terminal b) \<union>
          (case bt_active b of None \<Rightarrow> {} | Some (i, r) \<Rightarrow> {i}) \<union> settled_at b \<and>
       (bt_phase b = BatchDone \<longrightarrow> bt_terminal b = [])))"

definition accepted_any :: "'o run_state \<Rightarrow> bool" where
  "accepted_any s = (rn_accepted s \<noteq> None)"

lemma emit_frame [simp]:
  "run_aborted (run_emit e s) = run_aborted s" "accepted_any (run_emit e s) = accepted_any s"
  by (simp_all add: run_aborted_def accepted_any_def)

lemma start_call_frame:
  "start_call ex now call s = (r, s1) \<Longrightarrow>
   running_ok r \<and> run_aborted s1 = run_aborted s \<and> accepted_any s1 = accepted_any s"
proof -
  have o: "running_ok (RunOrdinary (prepare d a t n c))" for d a t n c
    using prepare_not_terminal [of d a t n c] by (cases "prepare d a t n c") auto
  have t: "running_ok (RunTerminal (terminal_prepare f a t n c))" for f :: "'b outcome_fn" and a t n c
    by (auto simp: terminal_prepare_def split: sum.splits)
  assume "start_call ex now call s = (r, s1)"
  then show ?thesis
    using o t by (auto simp: start_call_def Let_def split: option.splits bound_tool.splits)
qed

lemma advance_frame:
  assumes "advance_call ex obs call r s = (x, s1)" "running_ok r"
  shows "run_aborted s1 = run_aborted s \<and> (accepted_any s \<longrightarrow> accepted_any s1) \<and>
         (\<forall>res. x = Inl res \<longrightarrow> res_id res = use_id call \<and> (res_is_terminal res \<longrightarrow> accepted_any s1)) \<and>
         (\<forall>r1. x = Inr r1 \<longrightarrow> running_ok r1)"
proof (cases r)
  case RunUnknown
  with assms show ?thesis by (auto simp: advance_call_def error_result_def with_id_def)
next
  case (RunOrdinary prep)
  have "\<not> pr_is_terminal (conclude (ex_hooks ex) prep (co_exec obs))"
    using RunOrdinary assms(2) by (intro conclude_not_terminal) auto
  with RunOrdinary assms show ?thesis by (auto simp: advance_call_def with_id_def)
next
  case (RunTerminal ph)
  have v: "run_aborted s1' = run_aborted s \<and> (accepted_any s \<longrightarrow> accepted_any s1') \<and> (pr_is_terminal p \<longrightarrow> accepted_any s1')"
    if "terminal_verdict v t0 t1 s = (p, s1')" for v t0 t1 p s1'
    using that by (auto simp: terminal_verdict_def run_aborted_def accepted_any_def error_at_def
        gate_cancel_finishing_def split: sum.splits verdict.splits)
  show ?thesis
  proof (cases ph)
    case (TermPre facts data)
    with RunTerminal assms show ?thesis
      by (auto simp: advance_call_def with_id_def terminal_gate_def Let_def split: sum.splits hook_decision.splits if_splits)
  next
    case (TermPost facts data)
    with RunTerminal assms show ?thesis
      by (auto simp: advance_call_def with_id_def terminal_submit_def gate_begin_finishing_def
          run_aborted_def accepted_any_def split: sum.splits hook_decision.splits)
  next
    case TermSubmitting
    obtain p s2 where p: "terminal_verdict (co_verdict obs) (xo_start (co_exec obs)) (xo_end (co_exec obs)) s = (p, s2)"
      by (cases "terminal_verdict (co_verdict obs) (xo_start (co_exec obs)) (xo_end (co_exec obs)) s")
    with v [OF p] TermSubmitting RunTerminal assms show ?thesis by (auto simp: advance_call_def with_id_def)
  qed (use RunTerminal assms in \<open>auto simp: advance_call_def with_id_def\<close>)
qed

definition batch_inv :: "'o batch \<Rightarrow> 'o run_state \<Rightarrow> bool" where
  "batch_inv b s = (batch_shape (accepted_any s) b \<and> batch_progress (run_aborted s) b)"

lemma shape_mono: "batch_shape acc b \<Longrightarrow> (acc \<longrightarrow> acc') \<Longrightarrow> batch_shape acc' b"
  by (auto simp: batch_shape_def)

lemma shape_active: "batch_shape acc b \<Longrightarrow> bt_phase b \<noteq> Terminals \<Longrightarrow> bt_active b = None"
  by (cases "bt_active b") (auto simp: batch_shape_def)

lemma progress_aborted [simp]: "batch_progress True b"
  by (simp add: batch_progress_def)

lemma progress_mono: "batch_progress a b \<Longrightarrow> (a \<longrightarrow> a') \<Longrightarrow> batch_progress a' b"
  by (auto simp: batch_progress_def)

lemma record_shape:
  assumes "batch_shape acc b" "i < length (bt_calls b)" "res_id res = use_id (bt_calls b ! i)" "res_is_terminal res \<longrightarrow> acc"
  shows "batch_shape acc (b\<lparr>bt_settled := (bt_settled b)[i := Some res]\<rparr>)"
proof -
  have "res_id r = use_id (bt_calls b ! j) \<and> (res_is_terminal r \<longrightarrow> acc)"
    if "j < length (bt_calls b)" "(bt_settled b)[i := Some res] ! j = Some r" for j r
  proof (cases "j = i")
    case True
    with that assms have "r = res" by (simp add: batch_shape_def)
    with True assms(3,4) show ?thesis by blast
  next
    case False
    with that(2) have "bt_settled b ! j = Some r" by simp
    with assms(1) that(1) show ?thesis unfolding batch_shape_def by blast
  qed
  with assms(1) show ?thesis unfolding batch_shape_def by simp
qed

lemma set_update_lane: "Some x \<in> set (xs[k := y]) \<Longrightarrow> y = Some x \<or> Some x \<in> set xs"
proof -
  assume "Some x \<in> set (xs[k := y])"
  with set_update_subset_insert [of xs k y] have "Some x \<in> insert y (set xs)" by (rule subsetD)
  then show ?thesis by auto
qed

lemma lane_shape:
  assumes "batch_shape acc b" "\<forall>i r. l = Some (i, r) \<longrightarrow> i < length (bt_calls b) \<and> running_ok r"
  shows "batch_shape acc (b\<lparr>bt_lanes := (bt_lanes b)[k := l]\<rparr>)"
proof -
  have "i < length (bt_calls b) \<and> running_ok r" if "Some (i, r) \<in> set ((bt_lanes b)[k := l])" for i r
    using set_update_lane [OF that] assms unfolding batch_shape_def by metis
  then show ?thesis using assms(1) by (simp add: batch_shape_def)
qed

lemma lane_next_shape:
  assumes "batch_shape (accepted_any s) b" "lane_next ex now k (b, s) = (b', s')"
  shows "batch_shape (accepted_any s') b' \<and> run_aborted s' = run_aborted s \<and> bt_calls b' = bt_calls b \<and>
         bt_settled b' = bt_settled b \<and> bt_phase b' = bt_phase b \<and> bt_terminal b' = bt_terminal b \<and>
         bt_ordinary b' = bt_ordinary b \<and> length (bt_lanes b') = length (bt_lanes b) \<and> bt_active b' = bt_active b"
proof (cases "bt_cursor b < length (bt_ordinary b) \<and> \<not> run_aborted s")
  case True
  let ?i = "bt_ordinary b ! bt_cursor b"
  obtain r s1 where st: "start_call ex now (the_call b ?i) s = (r, s1)" by (cases "start_call ex now (the_call b ?i) s")
  from start_call_frame [OF st] have r: "running_ok r" "run_aborted s1 = run_aborted s" "accepted_any s1 = accepted_any s"
    by simp_all
  have "?i \<in> set (bt_ordinary b)" using True by simp
  then have "?i < length (bt_calls b)" using assms(1) unfolding batch_shape_def by blast
  then have "batch_shape (accepted_any s) (b\<lparr>bt_lanes := (bt_lanes b)[k := Some (?i, r)]\<rparr>)"
    using assms(1) r(1) by (intro lane_shape) auto
  then have "batch_shape (accepted_any s) (b\<lparr>bt_cursor := bt_cursor b + 1, bt_lanes := (bt_lanes b)[k := Some (?i, r)]\<rparr>)"
    by (simp add: batch_shape_def)
  with st True assms(2) r show ?thesis by (auto simp: lane_next_def Let_def)
next
  case False
  with assms lane_shape [of "accepted_any s" b None k] show ?thesis by (auto simp: lane_next_def)
qed

definition other_lanes :: "nat \<Rightarrow> 'o batch \<Rightarrow> nat set" where
  "other_lanes k b = {i. \<exists>j r. j < length (bt_lanes b) \<and> j \<noteq> k \<and> bt_lanes b ! j = Some (i, r)}"

text \<open>The state in which lane \<open>k\<close> is at the head of its loop.\<close>

definition lane_free :: "nat \<Rightarrow> 'o batch \<Rightarrow> bool" where
  "lane_free k b =
     (k < length (bt_lanes b) \<and> bt_phase b = Lanes \<and> bt_active b = None \<and>
      (\<forall>j < length (bt_lanes b). j \<noteq> k \<longrightarrow> bt_lanes b ! j = None \<longrightarrow> length (bt_ordinary b) \<le> bt_cursor b) \<and>
      taken b \<subseteq> settled_at b \<union> other_lanes k b \<and>
      {..<length (bt_calls b)} \<subseteq> set (bt_ordinary b) \<union> set (bt_terminal b) \<union> settled_at b)"

lemma in_lanes_split:
  "k < length (bt_lanes b) \<Longrightarrow>
   in_lanes (b\<lparr>bt_lanes := (bt_lanes b)[k := l]\<rparr>) = other_lanes k b \<union> (case l of None \<Rightarrow> {} | Some (i, r) \<Rightarrow> {i})"
  by (auto simp: in_lanes_def other_lanes_def in_set_conv_nth nth_list_update split: option.splits if_splits)

lemma none_in_update:
  "None \<in> set (xs[k := Some y]) \<Longrightarrow> \<exists>j < length xs. j \<noteq> k \<and> xs ! j = None"
  by (auto simp: in_set_conv_nth) (metis nth_list_update_eq nth_list_update_neq option.distinct(1))

lemma lane_next_progress:
  assumes "\<not> run_aborted s" "lane_free k b" "lane_next ex now k (b, s) = (b', s')"
  shows "batch_progress False b'"
proof (cases "bt_cursor b < length (bt_ordinary b)")
  case True
  let ?i = "bt_ordinary b ! bt_cursor b"
  obtain r s1 where st: "start_call ex now (the_call b ?i) s = (r, s1)" by (cases "start_call ex now (the_call b ?i) s")
  let ?l = "Some (?i, r)"
  have b': "b' = b\<lparr>bt_cursor := bt_cursor b + 1, bt_lanes := (bt_lanes b)[k := ?l]\<rparr>"
    using assms True st by (auto simp: lane_next_def Let_def)
  have k: "k < length (bt_lanes b)" using assms(2) by (simp add: lane_free_def)
  have "in_lanes b' = other_lanes k b \<union> {?i}"
    using in_lanes_split [OF k, of ?l] by (simp add: b' in_lanes_def)
  moreover have "taken b' = insert ?i (taken b)"
    using True by (simp add: b' taken_def take_Suc_conv_app_nth)
  moreover have "None \<notin> set (bt_lanes b')"
    using assms(2) True none_in_update [of "bt_lanes b" k "(?i, r)"] by (force simp: b' lane_free_def)
  ultimately show ?thesis using assms(2) k
    by (auto simp: batch_progress_def lane_free_def b' settled_at_def)
next
  case False
  have b': "b' = b\<lparr>bt_lanes := (bt_lanes b)[k := None]\<rparr>"
    using assms False by (auto simp: lane_next_def)
  have k: "k < length (bt_lanes b)" using assms(2) by (simp add: lane_free_def)
  have "in_lanes b' = other_lanes k b" using in_lanes_split [OF k, of None] by (simp add: b')
  with False assms(2) show ?thesis
    by (auto simp: batch_progress_def lane_free_def b' settled_at_def taken_def)
qed

section \<open>Every batch step keeps the invariant\<close>

definition batch_start :: "'o executor \<Rightarrow> tool_use list \<Rightarrow> 'o batch" where
  "batch_start ex calls =
     (let ordinary = indices_where (\<lambda>c. Some (use_name c) \<noteq> ex_terminal_name ex) calls in
      \<lparr>bt_calls = calls, bt_ordinary = ordinary, bt_cursor = 0,
       bt_lanes = replicate (min MAX_TOOL_CONCURRENCY (length ordinary)) None,
       bt_terminal = indices_where (\<lambda>c. Some (use_name c) = ex_terminal_name ex) calls,
       bt_active = None, bt_settled = replicate (length calls) None, bt_phase = Lanes\<rparr>)"

lemma begin_batch_eq:
  "begin_batch ex now calls s = fold (lane_next ex now) [0..<length (bt_lanes (batch_start ex calls))] (batch_start ex calls, s)"
  by (simp add: begin_batch_def batch_start_def Let_def)

lemma batch_start_shape: "batch_shape acc (batch_start ex calls)"
  by (auto simp: batch_shape_def batch_start_def Let_def set_indices_where)

lemma begin_fold:
  assumes "m \<le> length (bt_lanes (batch_start ex calls))"
    and "fold (lane_next ex now) [0..<m] (batch_start ex calls, s) = (b, s')"
  shows "batch_shape (accepted_any s') b \<and> run_aborted s' = run_aborted s \<and>
    bt_calls b = calls \<and> bt_settled b = replicate (length calls) None \<and> bt_phase b = Lanes \<and>
    bt_terminal b = bt_terminal (batch_start ex calls) \<and> bt_ordinary b = bt_ordinary (batch_start ex calls) \<and>
    length (bt_lanes b) = length (bt_lanes (batch_start ex calls)) \<and> bt_active b = None \<and>
    (\<not> run_aborted s \<longrightarrow> bt_cursor b = m \<and> (\<forall>j < m. \<exists>r. bt_lanes b ! j = Some (bt_ordinary b ! j, r)))"
  using assms
proof (induction m arbitrary: b s')
  case 0
  then have "b = batch_start ex calls" "s' = s" by simp_all
  then show ?case using batch_start_shape [of "accepted_any s" ex calls] by (simp add: batch_start_def Let_def)
next
  case (Suc m)
  obtain b1 s1 where f: "fold (lane_next ex now) [0..<m] (batch_start ex calls, s) = (b1, s1)"
    by (cases "fold (lane_next ex now) [0..<m] (batch_start ex calls, s)")
  with Suc.prems have l: "lane_next ex now m (b1, s1) = (b, s')" by simp
  have IH: "batch_shape (accepted_any s1) b1" "run_aborted s1 = run_aborted s" "bt_calls b1 = calls"
    "bt_settled b1 = replicate (length calls) None" "bt_phase b1 = Lanes"
    "bt_terminal b1 = bt_terminal (batch_start ex calls)" "bt_ordinary b1 = bt_ordinary (batch_start ex calls)"
    "length (bt_lanes b1) = length (bt_lanes (batch_start ex calls))" "bt_active b1 = None"
    "\<not> run_aborted s \<longrightarrow> bt_cursor b1 = m \<and> (\<forall>j < m. \<exists>r. bt_lanes b1 ! j = Some (bt_ordinary b1 ! j, r))"
    using Suc.IH [OF Suc_leD [OF Suc.prems(1)] f] by blast+
  note fr = lane_next_shape [OF IH(1) l]
  have "bt_cursor b = Suc m \<and> (\<forall>j < Suc m. \<exists>r. bt_lanes b ! j = Some (bt_ordinary b ! j, r))" if na: "\<not> run_aborted s"
  proof -
    have m: "m < length (bt_ordinary b1)" "m < length (bt_lanes b1)"
      using Suc.prems(1) IH(7,8) by (simp_all add: batch_start_def Let_def)
    obtain r s2 where st: "start_call ex now (the_call b1 (bt_ordinary b1 ! m)) s1 = (r, s2)"
      by (cases "start_call ex now (the_call b1 (bt_ordinary b1 ! m)) s1")
    have "b = b1\<lparr>bt_cursor := Suc m, bt_lanes := (bt_lanes b1)[m := Some (bt_ordinary b1 ! m, r)]\<rparr>"
      using l m na IH(2,10) st by (simp add: lane_next_def Let_def)
    with IH(10) na m show ?thesis by (auto simp: nth_list_update less_Suc_eq)
  qed
  with fr IH show ?case by simp
qed

lemma begin_batch_inv: "begin_batch ex now calls s = (b, s') \<Longrightarrow> batch_inv b s'"
proof -
  assume "begin_batch ex now calls s = (b, s')"
  then have f: "fold (lane_next ex now) [0..<length (bt_lanes (batch_start ex calls))] (batch_start ex calls, s) = (b, s')"
    by (simp add: begin_batch_eq)
  note F = begin_fold [OF le_refl f]
  have "batch_progress False b" if na: "\<not> run_aborted s"
  proof -
    let ?n = "length (bt_lanes b)"
    have c: "bt_cursor b = ?n" and l: "\<forall>j < ?n. \<exists>r. bt_lanes b ! j = Some (bt_ordinary b ! j, r)"
      and n: "?n = min MAX_TOOL_CONCURRENCY (length (bt_ordinary b))"
      using F na by (auto simp: batch_start_def Let_def)
    have "None \<notin> set (bt_lanes b)" using l by (metis in_set_conv_nth option.distinct(1))
    moreover have "length (bt_ordinary b) = 0" if "bt_lanes b = []"
      using n that by (simp add: MAX_TOOL_CONCURRENCY_def min_def split: if_splits)
    moreover have "taken b \<subseteq> in_lanes b"
    proof
      fix i assume "i \<in> taken b"
      then obtain j where "j < ?n" "i = bt_ordinary b ! j" using c n by (auto simp: taken_def in_set_conv_nth)
      with l show "i \<in> in_lanes b" by (auto simp: in_lanes_def) (metis nth_mem)
    qed
    moreover have "{..<length calls} \<subseteq> set (bt_ordinary b) \<union> set (bt_terminal b)"
      using F by (auto simp: batch_start_def Let_def set_indices_where)
    ultimately show ?thesis using F by (auto simp: batch_progress_def)
  qed
  with F show ?thesis by (cases "run_aborted s") (auto simp: batch_inv_def)
qed

lemma record_result_eq:
  "record_result i res (b, s) =
     (b\<lparr>bt_settled := (bt_settled b)[i := Some res]\<rparr>,
      run_emit (ToolExecutionCompleted res (use_name (the_call b i)) (project_content (res_content res))) s)"
  by (simp add: record_result_def)

lemma settled_record:
  "i < length (bt_settled b) \<Longrightarrow> settled_at (b\<lparr>bt_settled := (bt_settled b)[i := Some res]\<rparr>) = insert i (settled_at b)"
  by (auto simp: settled_at_def nth_list_update)

lemma lane_step_inv:
  assumes inv: "batch_inv b s" and st: "lane_step ex k obs b s = Some (b', s')"
  shows "batch_inv b' s' \<and> bt_calls b' = bt_calls b"
proof -
  obtain i r where ph: "bt_phase b = Lanes" "k < length (bt_lanes b)" and l: "bt_lanes b ! k = Some (i, r)"
    using st by (auto simp: lane_step_def split: if_splits option.splits)
  obtain x s1 where ad: "advance_call ex obs (the_call b i) r s = (x, s1)" by (cases "advance_call ex obs (the_call b i) r s")
  have sh: "batch_shape (accepted_any s) b" and pr: "batch_progress (run_aborted s) b" using inv by (simp_all add: batch_inv_def)
  have "Some (i, r) \<in> set (bt_lanes b)" using l ph(2) nth_mem by metis
  then have i: "i < length (bt_calls b)" "running_ok r" using sh unfolding batch_shape_def by blast+
  note fr = advance_frame [OF ad i(2)]
  have sh1: "batch_shape (accepted_any s1) b" using shape_mono [OF sh] fr by blast
  have act: "bt_active b = None" using shape_active [OF sh] ph by simp
  have id: "(bt_lanes b)[k := Some (i, r)] = bt_lanes b" using l by (metis list_update_id)
  have tk: "in_lanes b = insert i (other_lanes k b)"
    using in_lanes_split [OF ph(2), of "Some (i, r)"] by (simp add: id)
  show ?thesis
  proof (cases x)
    case (Inr r1)
    have eq: "b' = b\<lparr>bt_lanes := (bt_lanes b)[k := Some (i, r1)]\<rparr>" "s' = s1"
      using st ph l ad Inr by (auto simp: lane_step_def)
    have "batch_shape (accepted_any s1) b'" using sh1 fr Inr i by (auto simp: eq intro: lane_shape)
    moreover have "batch_progress (run_aborted s) b'"
    proof (cases "run_aborted s")
      case False
      have "in_lanes b' = in_lanes b"
        using in_lanes_split [OF ph(2), of "Some (i, r1)"] tk by (simp add: eq)
      moreover have "None \<in> set (bt_lanes b)" if "None \<in> set (bt_lanes b')"
        using none_in_update [of "bt_lanes b" k "(i, r1)"] that nth_mem by (fastforce simp: eq)
      ultimately show ?thesis using pr False
        by (auto simp: batch_progress_def eq taken_def settled_at_def)
    qed simp
    ultimately show ?thesis using fr by (simp add: batch_inv_def eq)
  next
    case (Inl res)
    show ?thesis
    proof (cases "run_aborted s1")
      case True
      then have eq: "b' = b\<lparr>bt_lanes := (bt_lanes b)[k := None]\<rparr>" "s' = s1"
        using st ph l ad Inl by (auto simp: lane_step_def)
      show ?thesis using sh1 True by (auto simp: batch_inv_def eq intro: lane_shape)
    next
      case False
      define b1 where "b1 = b\<lparr>bt_settled := (bt_settled b)[i := Some res]\<rparr>"
      define s2 where "s2 = run_emit (ToolExecutionCompleted res (use_name (the_call b i)) (project_content (res_content res))) s1"
      have n: "lane_next ex (co_now obs) k (b1, s2) = (b', s')"
        using st ph l ad Inl False by (auto simp: lane_step_def record_result_eq b1_def s2_def)
      have sh2: "batch_shape (accepted_any s2) b1"
        unfolding b1_def s2_def using sh1 fr Inl i by (auto simp: the_call_def intro!: record_shape)
      note fr2 = lane_next_shape [OF sh2 n]
      have na: "\<not> run_aborted s" using fr False by simp
      have li: "i < length (bt_settled b)" using sh i by (simp add: batch_shape_def)
      have "length (bt_ordinary b) \<le> bt_cursor b" if "j < length (bt_lanes b)" "bt_lanes b ! j = None" for j
        using pr na nth_mem [OF that(1)] that(2) by (simp add: batch_progress_def)
      moreover have "settled_at b1 = insert i (settled_at b)" unfolding b1_def by (rule settled_record [OF li])
      moreover have "taken b1 = taken b" "other_lanes k b1 = other_lanes k b" by (simp_all add: b1_def taken_def other_lanes_def)
      ultimately have "lane_free k b1"
        using pr na ph act tk by (auto simp: lane_free_def batch_progress_def b1_def)
      then have "batch_progress False b'" using lane_next_progress [OF _ _ n] False by (simp add: s2_def)
      with fr2 show ?thesis using False by (simp add: batch_inv_def s2_def b1_def)
    qed
  qed
qed

lemma terminal_next_inv:
  assumes sh: "batch_shape (accepted_any s) b"
    and pr: "\<not> run_aborted s \<Longrightarrow> set (bt_ordinary b) \<subseteq> settled_at b \<and>
       {..<length (bt_calls b)} \<subseteq> set (bt_ordinary b) \<union> set (bt_terminal b) \<union> settled_at b \<and>
       length (bt_ordinary b) \<le> bt_cursor b"
    and n: "terminal_next ex now (b, s) = (b', s')"
  shows "batch_inv b' s' \<and> bt_calls b' = bt_calls b"
proof (cases "bt_terminal b = [] \<or> run_aborted s")
  case True
  then have eq: "b' = b\<lparr>bt_active := None, bt_phase := BatchDone\<rparr>" "s' = s"
    using n by (auto simp: terminal_next_def split: list.splits)
  show ?thesis using sh pr True
    by (auto simp: batch_inv_def eq batch_shape_def batch_progress_def taken_def settled_at_def dest: in_set_takeD)
next
  case False
  then obtain i js where t: "bt_terminal b = i # js" and na: "\<not> run_aborted s" by (cases "bt_terminal b") auto
  obtain r s1 where st: "start_call ex now (the_call b i) s = (r, s1)" by (cases "start_call ex now (the_call b i) s")
  have eq: "b' = b\<lparr>bt_terminal := js, bt_active := Some (i, r), bt_phase := Terminals\<rparr>" "s' = s1"
    using n t na st by (auto simp: terminal_next_def)
  note fr = start_call_frame [OF st]
  have "batch_shape (accepted_any s1) b'" using sh fr t by (auto simp: eq batch_shape_def)
  moreover have "batch_progress False b'"
    using pr na t by (auto simp: eq batch_progress_def taken_def settled_at_def dest: in_set_takeD)
  ultimately show ?thesis using fr na by (simp add: batch_inv_def eq)
qed

lemma lanes_settled_inv:
  assumes inv: "batch_inv b s" and st: "lanes_settled ex now b s = Some (b', s')"
  shows "batch_inv b' s' \<and> bt_calls b' = bt_calls b"
proof -
  have ph: "bt_phase b = Lanes" and all: "list_all (\<lambda>l. l = None) (bt_lanes b) \<or> run_aborted s"
    and n: "terminal_next ex now (b, s) = (b', s')"
    using st by (auto simp: lanes_settled_def split: if_splits)
  have sh: "batch_shape (accepted_any s) b" using inv by (simp add: batch_inv_def)
  have act: "bt_active b = None" using shape_active [OF sh] ph by simp
  show ?thesis
  proof (rule terminal_next_inv [OF sh _ n])
    assume na: "\<not> run_aborted s"
    then have pr: "batch_progress False b" and none: "\<forall>l \<in> set (bt_lanes b). l = None"
      using inv all by (simp_all add: batch_inv_def list_all_iff)
    have "None \<in> set (bt_lanes b) \<or> bt_lanes b = []" using none by (cases "bt_lanes b") auto
    with pr have len: "length (bt_ordinary b) \<le> bt_cursor b" by (simp add: batch_progress_def)
    moreover have "in_lanes b = {}" using none by (auto simp: in_lanes_def)
    ultimately show "set (bt_ordinary b) \<subseteq> settled_at b \<and>
       {..<length (bt_calls b)} \<subseteq> set (bt_ordinary b) \<union> set (bt_terminal b) \<union> settled_at b \<and>
       length (bt_ordinary b) \<le> bt_cursor b"
      using pr act by (auto simp: batch_progress_def taken_def)
  qed
qed

lemma terminal_step_inv:
  assumes inv: "batch_inv b s" and st: "terminal_step ex obs b s = Some (b', s')"
  shows "batch_inv b' s' \<and> bt_calls b' = bt_calls b"
proof -
  obtain i r where ph: "bt_phase b = Terminals" and act: "bt_active b = Some (i, r)"
    using st by (auto simp: terminal_step_def split: batch_phase.splits option.splits)
  obtain x s1 where ad: "advance_call ex obs (the_call b i) r s = (x, s1)" by (cases "advance_call ex obs (the_call b i) r s")
  have sh: "batch_shape (accepted_any s) b" and pr: "batch_progress (run_aborted s) b" using inv by (simp_all add: batch_inv_def)
  have i: "i < length (bt_calls b)" "running_ok r" using sh act unfolding batch_shape_def by blast+
  note fr = advance_frame [OF ad i(2)]
  have sh1: "batch_shape (accepted_any s1) b" using shape_mono [OF sh] fr by blast
  show ?thesis
  proof (cases x)
    case (Inr r1)
    have eq: "b' = b\<lparr>bt_active := Some (i, r1)\<rparr>" "s' = s1" using st ph act ad Inr by (auto simp: terminal_step_def)
    show ?thesis using sh1 pr fr Inr i ph act
      by (simp add: eq batch_inv_def batch_shape_def batch_progress_def taken_def settled_at_def in_lanes_def)
  next
    case (Inl res)
    show ?thesis
    proof (cases "run_aborted s1")
      case True
      have eq: "b' = b\<lparr>bt_active := None, bt_phase := BatchDone\<rparr>" "s' = s1"
        using st ph act ad Inl True by (auto simp: terminal_step_def)
      show ?thesis using sh1 True by (simp add: eq batch_inv_def batch_shape_def)
    next
      case False
      define b1 where "b1 = b\<lparr>bt_settled := (bt_settled b)[i := Some res]\<rparr>"
      define s2 where "s2 = run_emit (ToolExecutionCompleted res (use_name (the_call b i)) (project_content (res_content res))) s1"
      have n: "terminal_next ex (co_now obs) (b1, s2) = (b', s')"
        using st ph act ad Inl False by (auto simp: terminal_step_def record_result_eq b1_def s2_def)
      have sh2: "batch_shape (accepted_any s2) b1"
        unfolding b1_def s2_def using sh1 fr Inl i by (auto simp: the_call_def intro!: record_shape)
      have li: "i < length (bt_settled b)" using sh i by (simp add: batch_shape_def)
      have se: "settled_at b1 = insert i (settled_at b)" unfolding b1_def by (rule settled_record [OF li])
      have na: "\<not> run_aborted s" using fr False by simp
      have "batch_inv b' s' \<and> bt_calls b' = bt_calls b1"
      proof (rule terminal_next_inv [OF sh2 _ n])
        show "set (bt_ordinary b1) \<subseteq> settled_at b1 \<and>
          {..<length (bt_calls b1)} \<subseteq> set (bt_ordinary b1) \<union> set (bt_terminal b1) \<union> settled_at b1 \<and>
          length (bt_ordinary b1) \<le> bt_cursor b1"
          using pr na se ph act by (auto simp: batch_progress_def b1_def)
      qed
      then show ?thesis by (simp add: b1_def)
    qed
  qed
qed

lemma batch_exec_inv:
  "batch_inv b s \<Longrightarrow> batch_exec ex x b s = Some (b', s') \<Longrightarrow> batch_inv b' s' \<and> bt_calls b' = bt_calls b"
  using lane_step_inv lanes_settled_inv terminal_step_inv by (cases x) (simp_all, blast+)

section \<open>Batches under interference\<close>

text \<open>
  Between two steps of a batch anything else of the run may happen: it never clears the
  abort, and only the terminal binding writes the accepted slot.
\<close>

definition interferes :: "'o run_state \<Rightarrow> 'o run_state \<Rightarrow> bool" where
  "interferes s s' = ((run_aborted s \<longrightarrow> run_aborted s') \<and> rn_accepted s' = rn_accepted s)"

inductive batch_reach :: "'o executor \<Rightarrow> tool_use list \<Rightarrow> 'o batch \<Rightarrow> 'o run_state \<Rightarrow> bool"
  for ex calls where
  batch_begin: "begin_batch ex now calls s = (b, s') \<Longrightarrow> batch_reach ex calls b s'"
| batch_move: "batch_reach ex calls b s \<Longrightarrow> batch_exec ex x b s = Some (b', s') \<Longrightarrow> batch_reach ex calls b' s'"
| batch_interference: "batch_reach ex calls b s \<Longrightarrow> interferes s s' \<Longrightarrow> batch_reach ex calls b s'"

lemma begin_batch_calls: "begin_batch ex now calls s = (b, s') \<Longrightarrow> bt_calls b = calls"
  using begin_fold [OF le_refl, of ex now calls s b s'] by (simp add: begin_batch_eq)

lemma batch_reach_inv: "batch_reach ex calls b s \<Longrightarrow> batch_inv b s \<and> bt_calls b = calls"
proof (induction rule: batch_reach.induct)
  case (batch_begin now s b s')
  then show ?case using begin_batch_inv begin_batch_calls by blast
next
  case (batch_move b s x b' s')
  then show ?case using batch_exec_inv by metis
next
  case (batch_interference b s s')
  then show ?case
    using shape_mono [of "accepted_any s" b "accepted_any s'"] progress_mono [of "run_aborted s" b "run_aborted s'"]
    by (auto simp: batch_inv_def interferes_def accepted_any_def)
qed

lemma batch_results_length: "batch_reach ex calls b s \<Longrightarrow> length (batch_results now b) = length calls"
  using batch_reach_inv [of ex calls b s] by (auto simp: batch_results_def batch_inv_def batch_shape_def)

lemma batch_result_at:
  assumes "batch_reach ex calls b s" "i < length calls"
  shows "res_id (batch_results now b ! i) = use_id (calls ! i) \<and>
         (rn_accepted s = None \<longrightarrow> \<not> res_is_terminal (batch_results now b ! i))"
  using batch_reach_inv [OF assms(1)] assms(2)
  by (cases "bt_settled b ! i")
     (auto simp: batch_results_def error_result_def with_id_def batch_inv_def batch_shape_def accepted_any_def)

text \<open>
  C15: a finished batch answers every call of the model exactly once, in call order, whatever
  the interleaving; without an abort every answer is the call's own result and none is a
  filler; and an answer claims to be terminal only when a submission has been accepted.
\<close>

theorem batch_answers_every_call:
  assumes "batch_reach ex calls b s" and "bt_phase b = BatchDone"
  shows "map res_id (batch_results now b) = map use_id calls \<and>
         (run_aborted s \<or> list_all (\<lambda>r. r \<noteq> None) (bt_settled b)) \<and>
         (rn_accepted s = None \<longrightarrow> list_all (\<lambda>r. \<not> res_is_terminal r) (batch_results now b))"
proof -
  have inv: "batch_shape (accepted_any s) b" "batch_progress (run_aborted s) b" and c: "bt_calls b = calls"
    using batch_reach_inv [OF assms(1)] by (auto simp: batch_inv_def)
  have len: "length (bt_settled b) = length calls" using inv(1) c by (simp add: batch_shape_def)
  note res = batch_result_at [OF assms(1)] and lr = batch_results_length [OF assms(1)]
  have "map res_id (batch_results now b) = map use_id calls"
    by (rule nth_equalityI) (use res lr in auto)
  moreover have "list_all (\<lambda>r. r \<noteq> None) (bt_settled b)" if "\<not> run_aborted s"
  proof -
    have "bt_active b = None" using shape_active [OF inv(1)] assms(2) by simp
    then have "{..<length calls} \<subseteq> settled_at b"
      using inv(2) that assms(2) c by (auto simp: batch_progress_def)
    then show ?thesis using len by (auto simp: settled_at_def list_all_length)
  qed
  moreover have "list_all (\<lambda>r. \<not> res_is_terminal r) (batch_results now b)" if "rn_accepted s = None"
    using res that lr by (simp add: list_all_length)
  ultimately show ?thesis by blast
qed

text \<open>
  At most eight calls run at once; and while a terminal call runs and nothing was aborted,
  every ordinary sibling of its batch has already settled.
\<close>

lemma terminals_after_siblings:
  assumes "batch_reach ex calls b s"
  shows "length (bt_lanes b) \<le> 8 \<and>
         (bt_active b \<noteq> None \<and> \<not> run_aborted s \<longrightarrow> (\<forall>i \<in> set (bt_ordinary b). bt_settled b ! i \<noteq> None))"
proof -
  have inv: "batch_shape (accepted_any s) b" "batch_progress (run_aborted s) b"
    using batch_reach_inv [OF assms] by (auto simp: batch_inv_def)
  have "bt_phase b \<noteq> Lanes" if "bt_active b \<noteq> None" using shape_active [OF inv(1)] that by auto
  with inv show ?thesis
    by (auto simp: batch_shape_def MAX_TOOL_CONCURRENCY_def batch_progress_def settled_at_def)
qed

text \<open>
  A concrete batch: an unknown tool beside a submission that the host rejects. After two
  steps the submission is running, after five the batch is done.
\<close>

definition sample_executor :: "json executor" where
  "sample_executor = build_tool_executor (make_hook_engine []) []
     (Some \<lparr>of_name = ''submit'', of_description = [], of_input_schema = [], of_parse = \<lambda>i. Inr (JObj i)\<rparr>)"

definition sample_calls :: "tool_use list" where
  "sample_calls = [\<lparr>use_id = ''c1'', use_name = ''submit'', use_input = []\<rparr>, \<lparr>use_id = ''c2'', use_name = ''nope'', use_input = []\<rparr>]"

definition sample_obs :: "json call_obs" where
  "sample_obs = \<lparr>co_now = 7, co_exec = \<lparr>xo_result = Inl [], xo_reject_at = 7, xo_start = 7, xo_end = 8\<rparr>, co_verdict = Inr (Reject ''redo'')\<rparr>"

fun batch_execs :: "'o executor \<Rightarrow> 'o batch_label list \<Rightarrow> 'o batch \<times> 'o run_state \<Rightarrow> ('o batch \<times> 'o run_state) option" where
  "batch_execs ex [] bs = Some bs"
| "batch_execs ex (x # xs) bs = (case batch_exec ex x (fst bs) (snd bs) of None \<Rightarrow> None | Some bs' \<Rightarrow> batch_execs ex xs bs')"

lemma batch_execs_reach:
  "batch_reach ex calls (fst bs) (snd bs) \<Longrightarrow> batch_execs ex xs bs = Some bs' \<Longrightarrow> batch_reach ex calls (fst bs') (snd bs')"
proof (induction xs arbitrary: bs)
  case (Cons x xs)
  then obtain b1 s1 where "batch_exec ex x (fst bs) (snd bs) = Some (b1, s1)" "batch_execs ex xs (b1, s1) = Some bs'"
    by (auto split: option.splits)
  with Cons.IH [of "(b1, s1)"] batch_move [OF Cons.prems(1)] show ?case by simp
qed simp

lemmas sample_defs = sample_executor_def sample_calls_def sample_obs_def build_tool_executor_def sort_by_name_def
  make_hook_engine_def List.map_filter_def begin_batch_eq batch_start_def indices_where_def MAX_TOOL_CONCURRENCY_def
  lane_next_def start_call_def find_tool_def run_aborted_def run_init_def
  handle_init_def inbox_init_def supervisor_init_def the_call_def terminal_prepare_def list_tasks_def
  call_facts_def lane_step_def advance_call_def record_result_eq lanes_settled_def terminal_next_def terminal_step_def
  terminal_gate_def pre_tool_use_def combine_def gate_blockers_def task_count_def inbox_count_def has_pending_steers_def
  terminal_submit_def post_tool_use_def gate_begin_finishing_def begin_finishing_def terminal_verdict_def
  gate_cancel_finishing_def cancel_finishing_def error_result_def with_id_def rejected_result_def error_at_def

lemma sample_begin: "\<exists>b s. begin_batch sample_executor 0 sample_calls (run_init []) = (b, s) \<and> batch_reach sample_executor sample_calls b s"
  by (metis batch_begin prod.exhaust)

lemma sample_running:
  "\<exists>b s. batch_reach sample_executor sample_calls b s \<and> bt_active b \<noteq> None \<and> \<not> run_aborted s \<and> bt_ordinary b = [1]"
proof -
  obtain b s where b: "begin_batch sample_executor 0 sample_calls (run_init []) = (b, s)" "batch_reach sample_executor sample_calls b s"
    using sample_begin by blast
  have "\<exists>b' s'. batch_execs sample_executor [LaneStep 0 sample_obs, LanesSettled 0] (b, s) = Some (b', s') \<and>
      bt_active b' \<noteq> None \<and> \<not> run_aborted s' \<and> bt_ordinary b' = [1]"
    unfolding b(1) [symmetric] by (simp add: sample_defs)
  then show ?thesis using batch_execs_reach [of sample_executor sample_calls "(b, s)"] b(2) by fastforce
qed

lemma sample_done:
  "\<exists>b s. batch_reach sample_executor sample_calls b s \<and> bt_phase b = BatchDone \<and> \<not> run_aborted s \<and> rn_accepted s = None"
proof -
  obtain b s where b: "begin_batch sample_executor 0 sample_calls (run_init []) = (b, s)" "batch_reach sample_executor sample_calls b s"
    using sample_begin by blast
  have "\<exists>b' s'. batch_execs sample_executor [LaneStep 0 sample_obs, LanesSettled 0, TerminalStep sample_obs, TerminalStep sample_obs,
      TerminalStep sample_obs] (b, s) = Some (b', s') \<and> bt_phase b' = BatchDone \<and> \<not> run_aborted s' \<and> rn_accepted s' = None"
    unfolding b(1) [symmetric] by (simp add: sample_defs)
  then show ?thesis using batch_execs_reach [of sample_executor sample_calls "(b, s)"] b(2) by fastforce
qed

theorem batch_answers_every_call_witness:
  "\<exists>b s. batch_reach sample_executor sample_calls b s \<and> bt_phase b = BatchDone
     \<and> map res_id (batch_results 9 b) = [''c1'', ''c2''] \<and> list_all (\<lambda>r. \<not> res_is_terminal r) (batch_results 9 b)"
proof -
  obtain b s where r: "batch_reach sample_executor sample_calls b s" and p: "bt_phase b = BatchDone"
    and n: "rn_accepted s = None" using sample_done by blast
  from batch_answers_every_call [OF r p, of 9] r p n show ?thesis by (auto simp: sample_calls_def)
qed

section \<open>Batches make progress\<close>

fun running_cost :: "'o running \<Rightarrow> nat" where
  "running_cost (RunTerminal (TermPre _ _)) = 3"
| "running_cost (RunTerminal (TermPost _ _)) = 2"
| "running_cost _ = 1"

definition slot_cost :: "(nat \<times> 'o running) option \<Rightarrow> nat" where
  "slot_cost l = (case l of None \<Rightarrow> 0 | Some (i, r) \<Rightarrow> running_cost r)"

definition phase_cost :: "batch_phase \<Rightarrow> nat" where
  "phase_cost p = (case p of Lanes \<Rightarrow> 1 | _ \<Rightarrow> 0)"

text \<open>How many more answers a batch can take: a call to start costs at most three.\<close>

definition batch_cost :: "'o batch \<Rightarrow> nat" where
  "batch_cost b = 3 * (length (bt_ordinary b) - bt_cursor b) + sum_list (map slot_cost (bt_lanes b)) +
     3 * length (bt_terminal b) + slot_cost (bt_active b) + phase_cost (bt_phase b)"

lemma running_cost_bounds: "1 \<le> running_cost r" "running_cost r \<le> 3"
  by (cases r rule: running_cost.cases; simp)+

lemma advance_cost: "advance_call ex obs call r s = (Inr r1, s1) \<Longrightarrow> running_cost r1 < running_cost r"
  by (auto simp: advance_call_def terminal_gate_def terminal_submit_def Let_def
      split: running.splits term_phase.splits sum.splits hook_decision.splits if_splits prod.splits)

lemma sum_list_update_lane:
  "k < length xs \<Longrightarrow> sum_list (map slot_cost (xs[k := l])) + slot_cost (xs ! k) = sum_list (map slot_cost xs) + slot_cost l"
proof (induction xs arbitrary: k)
  case (Cons x xs)
  then show ?case by (cases k) (auto simp: algebra_simps)
qed simp

lemma lane_next_cost:
  assumes "k < length (bt_lanes b)" "lane_next ex now k (b, s) = (b', s')"
  shows "batch_cost b' + slot_cost (bt_lanes b ! k) \<le> batch_cost b"
proof (cases "bt_cursor b < length (bt_ordinary b) \<and> \<not> run_aborted s")
  case True
  let ?i = "bt_ordinary b ! bt_cursor b"
  obtain r s1 where st: "start_call ex now (the_call b ?i) s = (r, s1)" by (cases "start_call ex now (the_call b ?i) s")
  have "b' = b\<lparr>bt_cursor := bt_cursor b + 1, bt_lanes := (bt_lanes b)[k := Some (?i, r)]\<rparr>"
    using assms(2) True st by (simp add: lane_next_def Let_def)
  moreover have "3 * (length (bt_ordinary b) - Suc (bt_cursor b)) + running_cost r \<le> 3 * (length (bt_ordinary b) - bt_cursor b)"
    using running_cost_bounds(2) [of r] True by linarith
  ultimately show ?thesis
    using sum_list_update_lane [OF assms(1), of "Some (?i, r)"] by (simp add: batch_cost_def slot_cost_def)
next
  case False
  with assms sum_list_update_lane [OF assms(1), of None] show ?thesis
    by (auto simp: lane_next_def batch_cost_def slot_cost_def)
qed

lemma terminal_next_cost:
  assumes "terminal_next ex now (b, s) = (b', s')"
  shows "batch_cost b' + slot_cost (bt_active b) + phase_cost (bt_phase b) \<le> batch_cost b"
  using assms running_cost_bounds(2)
  by (auto simp: terminal_next_def batch_cost_def slot_cost_def phase_cost_def
      split: list.splits if_splits prod.splits option.splits)

lemma batch_enabled:
  assumes "batch_reach ex calls b s" "bt_phase b \<noteq> BatchDone"
  shows "\<exists>x. batch_exec ex x b s \<noteq> None"
proof -
  have sh: "batch_shape (accepted_any s) b" using batch_reach_inv [OF assms(1)] by (simp add: batch_inv_def)
  from assms(2) consider "bt_phase b = Lanes" | "bt_phase b = Terminals" by (cases "bt_phase b") auto
  then show "\<exists>x. batch_exec ex x b s \<noteq> None"
  proof cases
    case 1
    show ?thesis
    proof (cases "list_all (\<lambda>l. l = None) (bt_lanes b)")
      case True
      with 1 have "batch_exec ex (LanesSettled 0) b s \<noteq> None" by (simp add: lanes_settled_def)
      then show ?thesis ..
    next
      case False
      then obtain k i r where k: "k < length (bt_lanes b)" "bt_lanes b ! k = Some (i, r)"
        by (auto simp: list_all_length)
      with 1 have "batch_exec ex (LaneStep k undefined) b s \<noteq> None"
        by (auto simp: lane_step_def split: sum.splits prod.splits)
      then show ?thesis ..
    qed
  next
    case 2
    then obtain i r where "bt_active b = Some (i, r)" using sh by (cases "bt_active b") (auto simp: batch_shape_def)
    with 2 have "batch_exec ex (TerminalStep undefined) b s \<noteq> None"
      by (auto simp: terminal_step_def split: sum.splits prod.splits)
    then show ?thesis ..
  qed
qed

lemma lane_step_cost:
  assumes st: "batch_exec ex (LaneStep k obs) b s = Some (b', s')"
  shows "batch_cost b' < batch_cost b"
proof -
  obtain i r where ph: "bt_phase b = Lanes" "k < length (bt_lanes b)" and l: "bt_lanes b ! k = Some (i, r)"
    using st by (auto simp: lane_step_def split: if_splits option.splits)
  obtain y s1 where ad: "advance_call ex obs (the_call b i) r s = (y, s1)" by (cases "advance_call ex obs (the_call b i) r s")
  show ?thesis
  proof (cases y)
    case (Inr r1)
    with st ph l ad have "b' = b\<lparr>bt_lanes := (bt_lanes b)[k := Some (i, r1)]\<rparr>" by (auto simp: lane_step_def)
    moreover have "running_cost r1 < running_cost r" using advance_cost ad Inr by blast
    ultimately show ?thesis
      using sum_list_update_lane [OF ph(2), of "Some (i, r1)"] l by (simp add: batch_cost_def slot_cost_def)
  next
    case (Inl res)
    have c: "0 < slot_cost (bt_lanes b ! k)" using l running_cost_bounds(1) [of r] by (simp add: slot_cost_def)
    show ?thesis
    proof (cases "run_aborted s1")
      case True
      with st ph l ad Inl have "b' = b\<lparr>bt_lanes := (bt_lanes b)[k := None]\<rparr>" by (auto simp: lane_step_def)
      with sum_list_update_lane [OF ph(2), of None] c show ?thesis by (simp add: batch_cost_def slot_cost_def)
    next
      case False
      define b1 where "b1 = b\<lparr>bt_settled := (bt_settled b)[i := Some res]\<rparr>"
      obtain s2 where "lane_next ex (co_now obs) k (b1, s2) = (b', s')"
        using st ph l ad Inl False by (auto simp: lane_step_def record_result_eq b1_def)
      from lane_next_cost [OF _ this] ph c show ?thesis by (simp add: b1_def batch_cost_def)
    qed
  qed
qed

lemma terminal_step_cost:
  assumes st: "batch_exec ex (TerminalStep obs) b s = Some (b', s')"
  shows "batch_cost b' < batch_cost b"
proof -
  obtain i r where ph: "bt_phase b = Terminals" and act: "bt_active b = Some (i, r)"
    using st by (auto simp: terminal_step_def split: batch_phase.splits option.splits)
  obtain y s1 where ad: "advance_call ex obs (the_call b i) r s = (y, s1)" by (cases "advance_call ex obs (the_call b i) r s")
  have c: "0 < slot_cost (bt_active b)" using act running_cost_bounds(1) [of r] by (simp add: slot_cost_def)
  show ?thesis
  proof (cases y)
    case (Inr r1)
    with st ph act ad have "b' = b\<lparr>bt_active := Some (i, r1)\<rparr>" by (auto simp: terminal_step_def)
    moreover have "running_cost r1 < running_cost r" using advance_cost ad Inr by blast
    ultimately show ?thesis using act by (simp add: batch_cost_def slot_cost_def)
  next
    case (Inl res)
    show ?thesis
    proof (cases "run_aborted s1")
      case True
      with st ph act ad Inl have "b' = b\<lparr>bt_active := None, bt_phase := BatchDone\<rparr>" by (auto simp: terminal_step_def)
      with c ph show ?thesis by (simp add: batch_cost_def slot_cost_def phase_cost_def)
    next
      case False
      define b1 where "b1 = b\<lparr>bt_settled := (bt_settled b)[i := Some res]\<rparr>"
      obtain s2 where "terminal_next ex (co_now obs) (b1, s2) = (b', s')"
        using st ph act ad Inl False by (auto simp: terminal_step_def record_result_eq b1_def)
      from terminal_next_cost [OF this] c ph show ?thesis by (simp add: b1_def batch_cost_def)
    qed
  qed
qed

text \<open>
  C16: a batch never gets stuck and never runs forever: until it is done some step of it is
  enabled, and every step, whatever the host answered, lowers a natural-number cost.
\<close>

theorem batch_terminates:
  assumes "batch_reach ex calls b s"
  shows "(bt_phase b \<noteq> BatchDone \<longrightarrow> (\<exists>x. batch_exec ex x b s \<noteq> None)) \<and>
         (\<forall>x b' s'. batch_exec ex x b s = Some (b', s') \<longrightarrow> batch_cost b' < batch_cost b)"
proof (intro conjI allI impI)
  show "\<exists>x. batch_exec ex x b s \<noteq> None" if "bt_phase b \<noteq> BatchDone" by (rule batch_enabled [OF assms that])
next
  fix x b' s'
  assume st: "batch_exec ex x b s = Some (b', s')"
  show "batch_cost b' < batch_cost b"
  proof (cases x)
    case (LanesSettled now)
    with st have "terminal_next ex now (b, s) = (b', s')" "bt_phase b = Lanes"
      by (auto simp: lanes_settled_def split: if_splits)
    with terminal_next_cost [of ex now b s b' s'] show ?thesis by (simp add: phase_cost_def)
  qed (use st lane_step_cost terminal_step_cost in blast)+
qed

theorem batch_terminates_witness:
  "\<exists>b s x b' s'. batch_reach sample_executor sample_calls b s \<and> bt_phase b = Terminals
     \<and> batch_exec sample_executor x b s = Some (b', s') \<and> batch_cost b' < batch_cost b"
proof -
  obtain b s where r: "batch_reach sample_executor sample_calls b s" and p: "bt_active b \<noteq> None"
    using sample_running by blast
  have sh: "batch_shape (accepted_any s) b" using batch_reach_inv [OF r] by (simp add: batch_inv_def)
  then have ph: "bt_phase b = Terminals" using p by (simp add: batch_shape_def)
  with batch_terminates [OF r] obtain x b' s' where "batch_exec sample_executor x b s = Some (b', s')" by fastforce
  with batch_terminates [OF r] r ph show ?thesis by blast
qed

end
