(* ===== verification/AgentLoop.thy ===== *)
theory AgentLoop
  imports Turn Executor
begin

text \<open>
  The loop spine (\<open>agents/engine/agent-loop.ts\<close>) over the run's live state. What runs between
  two awaits is one function; the loop is a transition system whose labels are what resumes it
  (the provider's stream, the boundary hooks, the batch, a wake) and what the host does
  meanwhile (steers, interrupts, notices, background tasks). \<open>lp_requests\<close> and \<open>lp_accepted\<close>
  are history variables: the requests sent to the provider, and the steers answered \<open>true\<close>.
\<close>

section \<open>State\<close>

text \<open>In text mode the outcome type is the string type; \<open>TextMode\<close> carries the cast.\<close>

datatype 'o termination_mode = TextMode "string \<Rightarrow> 'o" | TerminalMode

record 'o loop_config =
  lc_tools :: "'o executor"
  lc_turn :: turn_config
  lc_max_turns :: nat
  lc_terminal_name :: "string option"
  lc_mode :: "'o termination_mode"

text \<open>
  Where the loop is suspended: parked as waiter \<open>w\<close> since a change count, woken from a park,
  in a provider stream with the text and reasoning accumulated, with a turn that failed or
  completed, in the boundary hooks, in a batch.
\<close>

datatype 'o loop_pc =
    Parked nat nat
  | Woken
  | Streaming "string \<times> string"
  | TurnFailed thrown
  | TurnDone message usage_snapshot
  | AtBoundary "tool_use list" turn_facts
  | InBatch "tool_use list" "'o batch"
  | LoopFinished

record 'o loop_state =
  lp_run :: "'o run_state"
  lp_pc :: "'o loop_pc"
  lp_turns :: nat
  lp_usage :: usage_snapshot
  lp_pending :: "message option"
  lp_at_rest :: bool
  lp_waits :: nat
  lp_requests :: "llm_request list"
  lp_accepted :: "message list"

definition RUN_FINISHED_DISPOSE_REASON :: string where
  "RUN_FINISHED_DISPOSE_REASON = ''run finished''"

section \<open>Ending\<close>

text \<open>The single finish and, in the same synchronous block, the disposal of the registry.\<close>

definition finish_run :: "'o run_status \<Rightarrow> 'o loop_state \<Rightarrow> 'o loop_state" where
  "finish_run status s =
     (let out = \<lparr>out_usage = lp_usage s, out_turns = lp_turns s, out_status = status\<rparr>;
          r = (lp_run s)\<lparr>rn_handle := finish out (rn_handle (lp_run s))\<rparr>
      in s\<lparr>lp_run := run_sup (DisposeAll RUN_FINISHED_DISPOSE_REASON) r, lp_pc := LoopFinished\<rparr>)"

definition classify_loop_error :: "bool \<Rightarrow> thrown \<Rightarrow> 'o run_status" where
  "classify_loop_error aborted err =
     (if aborted then Cancelled
      else Failed \<lparr>err_kind = (if is_provider_error err then ProviderFailure else InternalFailure),
                   err_message = thrown_message err\<rparr>)"

definition max_turns_error :: "nat \<Rightarrow> run_error" where
  "max_turns_error n =
     \<lparr>err_kind = MaxTurnsError,
      err_message = ''run spent its '' @ string_of_nat n @ ''-turn budget without completing''\<rparr>"

section \<open>The head of the loop\<close>

definition note_message :: "string \<Rightarrow> message" where
  "note_message note = system_notification_message (notification_payload note)"

text \<open>The boundary drains: steers first, then notices, both into the conversation.\<close>

definition drain_boundary :: "'o run_state \<Rightarrow> message list \<times> string list \<times> 'o run_state" where
  "drain_boundary r =
     (case drain_steers (rn_handle r) of (steers, h) \<Rightarrow>
      case inbox_drain (rn_inbox r) of (notes, b) \<Rightarrow>
        (steers, notes,
         r\<lparr>rn_handle := h, rn_inbox := b,
           rn_conv := append_users (map note_message notes) OriginNotification
                        (append_users steers OriginSteer (rn_conv r))\<rparr>))"

text \<open>\<open>waitForWake\<close>: one waiter registered with the three sources.\<close>

definition park :: "nat \<Rightarrow> 'o loop_state \<Rightarrow> 'o loop_state" where
  "park since s =
     (let w = lp_waits s; r = lp_run s; a = rh_aborted (rn_handle r)
      in s\<lparr>lp_waits := w + 1, lp_pc := Parked w since,
           lp_run := r\<lparr>rn_handle := wait_for_steer w a (rn_handle r),
                       rn_inbox := wait_for_next w a (rn_inbox r),
                       rn_sup := wait_for_change w since a (rn_sup r)\<rparr>\<rparr>)"

definition start_turn :: "'o loop_config \<Rightarrow> 'o loop_state \<Rightarrow> 'o loop_state" where
  "start_turn cfg s =
     (if lp_turns s \<ge> lc_max_turns cfg then finish_run (Failed (max_turns_error (lc_max_turns cfg))) s
      else s\<lparr>lp_at_rest := False, lp_pending := None,
             lp_run := run_emit (TurnStarted (lp_turns s + 1)) (lp_run s),
             lp_requests := lp_requests s @ [turn_request (lc_turn cfg) (executor_specs (lc_tools cfg)) (rn_conv (lp_run s))],
             lp_pc := Streaming ([], [])\<rparr>)"

definition loop_top :: "'o loop_config \<Rightarrow> 'o loop_state \<Rightarrow> 'o loop_state" where
  "loop_top cfg s =
     (if rh_aborted (rn_handle (lp_run s)) then finish_run Cancelled s
      else
        let since = change_count (rn_sup (lp_run s));
            (steers, notes, r) = drain_boundary (lp_run s);
            s1 = s\<lparr>lp_run := r\<rparr>
        in if lp_at_rest s \<and> steers = [] \<and> notes = [] then
             (if is_empty_registry (rn_sup r) then
                (case (lc_mode cfg, lp_pending s) of
                   (TextMode out, Some m) \<Rightarrow> finish_run (Completed (out (assistant_text m))) s1
                 | _ \<Rightarrow> start_turn cfg s1)
              else park since s1)
           else start_turn cfg s1)"

text \<open>\<open>startRun\<close>'s last steps: \<open>run_started\<close>, then the loop up to its first await.\<close>

definition loop_start :: "'o loop_config \<Rightarrow> string \<Rightarrow> message list \<Rightarrow> 'o loop_state" where
  "loop_start cfg name msgs =
     loop_top cfg \<lparr>lp_run = run_emit (RunStarted name) (run_init msgs), lp_pc = Woken, lp_turns = 0,
        lp_usage = zero_usage, lp_pending = None, lp_at_rest = False, lp_waits = 0, lp_requests = [],
        lp_accepted = []\<rparr>"

section \<open>The provider's turn\<close>

text \<open>One event of the stream, forwarded; the completion ends the turn.\<close>

definition provider_event :: "llm_stream_event \<Rightarrow> string \<times> string \<Rightarrow> 'o loop_state \<Rightarrow> 'o loop_state" where
  "provider_event e acc s =
     s\<lparr>lp_run := run_emit (LlmEvent e) (lp_run s),
       lp_pc := (case e of AssistantMessageComplete m u sr \<Rightarrow> TurnDone m u | _ \<Rightarrow> Streaming (accumulate e acc))\<rparr>"

definition provider_throws :: "thrown \<Rightarrow> string \<times> string \<Rightarrow> 'o loop_state \<Rightarrow> 'o loop_state" where
  "provider_throws err acc s =
     s\<lparr>lp_run := (lp_run s)\<lparr>rn_conv := salvage (rh_aborted (rn_handle (lp_run s))) err acc (rn_conv (lp_run s))\<rparr>,
       lp_pc := TurnFailed err\<rparr>"

definition stream_ended :: thrown where
  "stream_ended = ThrownOther ''provider stream ended without assistant completion''"

definition loop_facts :: "'o loop_config \<Rightarrow> tool_use list \<Rightarrow> 'o loop_state \<Rightarrow> turn_facts" where
  "loop_facts cfg calls s = \<lparr>
     tf_turn = lp_turns s,
     tf_max_turns = lc_max_turns cfg,
     tf_terminal_tool_name = lc_terminal_name cfg,
     tf_tool_calls = length calls,
     tf_background_task_count = task_count (rn_sup (lp_run s)),
     tf_has_pending_steers = has_pending_steers (rn_handle (lp_run s))\<rparr>"

text \<open>The turn is committed; a bare-text turn finishes the run when the gate is open.\<close>

definition commit_turn :: "'o loop_config \<Rightarrow> message \<Rightarrow> usage_snapshot \<Rightarrow> 'o loop_state \<Rightarrow> 'o loop_state" where
  "commit_turn cfg m u s =
     (let s1 = s\<lparr>lp_run := (lp_run s)\<lparr>rn_conv := append_assistant m (rn_conv (lp_run s))\<rparr>,
                 lp_turns := lp_turns s + 1, lp_usage := add_usage (lp_usage s) u\<rparr>;
          calls = tool_uses m; facts = loop_facts cfg calls s1
      in if calls = [] then
           (case lc_mode cfg of
              TextMode out \<Rightarrow>
                (if gate_open (lp_run s1) then finish_run (Completed (out (assistant_text m))) s1
                 else s1\<lparr>lp_pending := Some m, lp_at_rest := True, lp_pc := AtBoundary [] facts\<rparr>)
            | TerminalMode \<Rightarrow> s1\<lparr>lp_pending := None, lp_at_rest := True, lp_pc := AtBoundary [] facts\<rparr>)
         else s1\<lparr>lp_pc := AtBoundary calls facts\<rparr>)"

text \<open>
  The boundary hooks have run and published; the loop goes on to the batch or to its head.
\<close>

definition boundary_done :: "'o loop_config \<Rightarrow> nat \<Rightarrow> tool_use list \<Rightarrow> turn_facts \<Rightarrow> 'o loop_state \<Rightarrow> 'o loop_state" where
  "boundary_done cfg now calls facts s =
     (let s1 = s\<lparr>lp_run := notify_all (fst (turn_boundary (ex_hooks (lc_tools cfg)) facts)) (lp_run s)\<rparr>
      in if calls = [] then loop_top cfg s1
         else case begin_batch (lc_tools cfg) now calls (lp_run s1) of
                (b, r) \<Rightarrow> s1\<lparr>lp_run := r, lp_pc := InBatch calls b\<rparr>)"

section \<open>After the batch\<close>

text \<open>\<open>new Map(results.map(...))\<close>: the last result of an id wins.\<close>

definition normalize_batch :: "nat \<Rightarrow> tool_use list \<Rightarrow> tool_call_result list \<Rightarrow> tool_call_result list" where
  "normalize_batch now calls results =
     (let by_id = map_of (rev (map (\<lambda>r. (res_id r, r)) results))
      in map (\<lambda>c. case by_id (use_id c) of
                    Some r \<Rightarrow> r
                  | None \<Rightarrow> error_result (use_id c) ''interrupted'' now) calls)"

definition project_tool_result :: "tool_call_result \<Rightarrow> content_block" where
  "project_tool_result r = ToolResultBlock (res_id r) (project_content (res_content r)) (res_is_error r)"

definition unaccepted_terminal :: run_error where
  "unaccepted_terminal =
     \<lparr>err_kind = InternalFailure, err_message = ''terminal result without an accepted submission''\<rparr>"

definition batch_return :: "'o loop_config \<Rightarrow> nat \<Rightarrow> tool_use list \<Rightarrow> 'o batch \<Rightarrow> 'o loop_state \<Rightarrow> 'o loop_state" where
  "batch_return cfg now calls b s =
     (let results = normalize_batch now calls (batch_results now b);
          s1 = s\<lparr>lp_run := (lp_run s)\<lparr>rn_conv := append_tool_results (map project_tool_result results) (rn_conv (lp_run s))\<rparr>\<rparr>
      in if list_ex res_is_terminal results then
           (case lc_mode cfg of
              TextMode _ \<Rightarrow> finish_run (Failed unaccepted_terminal) s1
            | TerminalMode \<Rightarrow>
                (case take_accepted (lp_run s1) of
                   (Some x, r) \<Rightarrow> finish_run (Completed x) (s1\<lparr>lp_run := r\<rparr>)
                 | (None, r) \<Rightarrow> finish_run (Failed unaccepted_terminal) (s1\<lparr>lp_run := r\<rparr>)))
         else if rh_aborted (rn_handle (lp_run s1)) then finish_run Cancelled s1
         else loop_top cfg s1)"

section \<open>Waking\<close>

text \<open>The losers of the race are unhooked, or every source when the run is interrupted.\<close>

definition abort_waits :: "nat \<Rightarrow> nat \<Rightarrow> 'o run_state \<Rightarrow> 'o run_state" where
  "abort_waits w since r =
     r\<lparr>rn_handle := steer_abort_wait w (rn_handle r),
       rn_inbox := inbox_abort_wait w (rn_inbox r),
       rn_sup := change_abort_wait (w, since) (rn_sup r)\<rparr>"

definition race_settled :: "nat \<Rightarrow> nat \<Rightarrow> 'o run_state \<Rightarrow> bool" where
  "race_settled w since r =
     (w \<in> set (rh_steer_resolved (rn_handle r)) \<or> w \<in> set (ib_resolved (rn_inbox r)) \<or>
      (w, since) \<in> set (sv_resolved (rn_sup r)))"

section \<open>What the host does\<close>

datatype host_op =
    HostSteer message
  | HostInterrupt
  | HostPublish string "string option"
  | HostTask sup_op

text \<open>Registry operations within a tool's or a host's reach, and the settling of its promises.\<close>

fun host_task_op :: "sup_op \<Rightarrow> bool" where
  "host_task_op (DisposeAll _) = False"
| "host_task_op (WaitForChange _ _ _) = False"
| "host_task_op (AbortChangeWait _ _) = False"
| "host_task_op _ = True"

fun host_step :: "host_op \<Rightarrow> 'o loop_state \<Rightarrow> 'o loop_state option" where
  "host_step (HostSteer m) s =
     (case steer m (rn_handle (lp_run s)) of
        Inl _ \<Rightarrow> None
      | Inr (ok, h) \<Rightarrow> Some (s\<lparr>lp_run := (lp_run s)\<lparr>rn_handle := h\<rparr>,
                              lp_accepted := lp_accepted s @ (if ok then [m] else [])\<rparr>))"
| "host_step HostInterrupt s =
     (let r = (lp_run s)\<lparr>rn_handle := interrupt (rn_handle (lp_run s))\<rparr>
      in Some (s\<lparr>lp_run := (case lp_pc s of Parked w since \<Rightarrow> abort_waits w since r | _ \<Rightarrow> r)\<rparr>))"
| "host_step (HostPublish msg key) s = Some (s\<lparr>lp_run := notify msg key (lp_run s)\<rparr>)"
| "host_step (HostTask x) s =
     (if host_task_op x then Some (s\<lparr>lp_run := run_sup x (lp_run s)\<rparr>) else None)"

section \<open>The transition system\<close>

datatype 'o loop_label =
    ProviderEvent llm_stream_event
  | ProviderThrows thrown
  | ProviderEnds
  | CatchError
  | CommitTurn
  | BoundaryDone nat
  | BatchMove "'o batch_label"
  | BatchReturn nat
  | Wake
  | Resume
  | Host host_op

definition loop_exec :: "'o loop_config \<Rightarrow> 'o loop_label \<Rightarrow> 'o loop_state \<Rightarrow> 'o loop_state option" where
  "loop_exec cfg x s =
     (case x of
        Host op \<Rightarrow> host_step op s
      | ProviderEvent e \<Rightarrow> (case lp_pc s of Streaming acc \<Rightarrow> Some (provider_event e acc s) | _ \<Rightarrow> None)
      | ProviderThrows err \<Rightarrow> (case lp_pc s of Streaming acc \<Rightarrow> Some (provider_throws err acc s) | _ \<Rightarrow> None)
      | ProviderEnds \<Rightarrow> (case lp_pc s of Streaming acc \<Rightarrow> Some (provider_throws stream_ended acc s) | _ \<Rightarrow> None)
      | CatchError \<Rightarrow>
          (case lp_pc s of
             TurnFailed err \<Rightarrow> Some (finish_run (classify_loop_error (rh_aborted (rn_handle (lp_run s))) err) s)
           | _ \<Rightarrow> None)
      | CommitTurn \<Rightarrow> (case lp_pc s of TurnDone m u \<Rightarrow> Some (commit_turn cfg m u s) | _ \<Rightarrow> None)
      | BoundaryDone now \<Rightarrow>
          (case lp_pc s of AtBoundary calls facts \<Rightarrow> Some (boundary_done cfg now calls facts s) | _ \<Rightarrow> None)
      | BatchMove y \<Rightarrow>
          (case lp_pc s of
             InBatch calls b \<Rightarrow>
               (case batch_exec (lc_tools cfg) y b (lp_run s) of
                  Some (b', r) \<Rightarrow> Some (s\<lparr>lp_run := r, lp_pc := InBatch calls b'\<rparr>)
                | None \<Rightarrow> None)
           | _ \<Rightarrow> None)
      | BatchReturn now \<Rightarrow>
          (case lp_pc s of
             InBatch calls b \<Rightarrow> if bt_phase b = BatchDone then Some (batch_return cfg now calls b s) else None
           | _ \<Rightarrow> None)
      | Wake \<Rightarrow>
          (case lp_pc s of
             Parked w since \<Rightarrow>
               if race_settled w since (lp_run s)
               then Some (s\<lparr>lp_run := abort_waits w since (lp_run s), lp_pc := Woken\<rparr>) else None
           | _ \<Rightarrow> None)
      | Resume \<Rightarrow> (case lp_pc s of Woken \<Rightarrow> Some (loop_top cfg s) | _ \<Rightarrow> None))"

fun loop_execs :: "'o loop_config \<Rightarrow> 'o loop_label list \<Rightarrow> 'o loop_state \<Rightarrow> 'o loop_state option" where
  "loop_execs cfg [] s = Some s"
| "loop_execs cfg (x # xs) s = (case loop_exec cfg x s of None \<Rightarrow> None | Some s' \<Rightarrow> loop_execs cfg xs s')"

text \<open>Every state of a run started on \<open>msgs\<close>, with the labels that led to it.\<close>

inductive loop_reach :: "'o loop_config \<Rightarrow> string \<Rightarrow> message list \<Rightarrow> 'o loop_label list \<Rightarrow> 'o loop_state \<Rightarrow> bool"
  for cfg name msgs where
  reach_start: "loop_reach cfg name msgs [] (loop_start cfg name msgs)"
| reach_step: "loop_reach cfg name msgs tr s \<Longrightarrow> loop_exec cfg x s = Some s' \<Longrightarrow> loop_reach cfg name msgs (tr @ [x]) s'"

lemma loop_execs_reach:
  "loop_reach cfg name msgs tr s \<Longrightarrow> loop_execs cfg xs s = Some s' \<Longrightarrow> loop_reach cfg name msgs (tr @ xs) s'"
proof (induction xs arbitrary: tr s)
  case (Cons x xs)
  then obtain s1 where s1: "loop_exec cfg x s = Some s1" "loop_execs cfg xs s1 = Some s'" by (auto split: option.splits)
  from Cons.IH [OF reach_step [OF Cons.prems(1) s1(1)] s1(2)] show ?case by simp
qed simp

end
