(* ===== verification/LoopSafety.thy ===== *)
theory LoopSafety
  imports AgentLoop
begin

text \<open>
  What holds in every state of the agent loop, whatever the provider, the tools and the host
  do: one finish, the turn budget, answered tool calls in every request, the exit gates, and
  no lost wake-up.
\<close>

section \<open>How the run's live state evolves\<close>

text \<open>
  Between two looks at it, the handle, the inbox and the registry have each executed some of
  their own operations; none of them finishes the run.
\<close>

fun quiet :: "'o handle_op \<Rightarrow> bool" where
  "quiet (Finish _) = False"
| "quiet (Emit b) = (\<not> is_run_finished b)"
| "quiet _ = True"

definition sup_state_step :: "sup_op \<Rightarrow> supervisor \<Rightarrow> supervisor" where
  "sup_state_step x s = snd (sup_exec x s)"

definition evolves :: "'o run_state \<Rightarrow> 'o run_state \<Rightarrow> bool" where
  "evolves r r' =
     ((\<exists>hs. list_all quiet hs \<and> rn_handle r' = fold handle_step hs (rn_handle r)) \<and>
      (\<exists>xs. rn_inbox r' = fold inbox_step xs (rn_inbox r)) \<and>
      (\<exists>ts. rn_sup r' = fold sup_state_step ts (rn_sup r)))"

lemma evolves_refl [intro, simp]: "evolves r r"
  unfolding evolves_def by (intro conjI exI [of _ "[]"]) auto

lemma evolves_trans: "evolves r r1 \<Longrightarrow> evolves r1 r2 \<Longrightarrow> evolves r r2"
proof -
  assume a: "evolves r r1" and b: "evolves r1 r2"
  obtain hs xs ts where 1: "list_all quiet hs" "rn_handle r1 = fold handle_step hs (rn_handle r)"
    "rn_inbox r1 = fold inbox_step xs (rn_inbox r)" "rn_sup r1 = fold sup_state_step ts (rn_sup r)"
    using a by (auto simp: evolves_def)
  obtain hs' xs' ts' where 2: "list_all quiet hs'" "rn_handle r2 = fold handle_step hs' (rn_handle r1)"
    "rn_inbox r2 = fold inbox_step xs' (rn_inbox r1)" "rn_sup r2 = fold sup_state_step ts' (rn_sup r1)"
    using b by (auto simp: evolves_def)
  show ?thesis
    unfolding evolves_def using 1 2
    by (intro conjI exI [of _ "hs @ hs'"] exI [of _ "xs @ xs'"] exI [of _ "ts @ ts'"]) auto
qed

lemma evolves_handle:
  assumes "quiet x" "rn_handle r' = handle_step x (rn_handle r)" "rn_inbox r' = rn_inbox r" "rn_sup r' = rn_sup r"
  shows "evolves r r'"
  unfolding evolves_def using assms by (intro conjI exI [of _ "[x]"] exI [of _ "[]"]) auto

lemma evolves_inbox:
  assumes "rn_inbox r' = inbox_step x (rn_inbox r)" "rn_handle r' = rn_handle r" "rn_sup r' = rn_sup r"
  shows "evolves r r'"
proof -
  have "\<exists>hs. list_all quiet hs \<and> rn_handle r' = fold handle_step hs (rn_handle r)" using assms by (intro exI [of _ "[]"]) auto
  moreover have "\<exists>xs. rn_inbox r' = fold inbox_step xs (rn_inbox r)" using assms by (intro exI [of _ "[x]"]) auto
  moreover have "\<exists>ts. rn_sup r' = fold sup_state_step ts (rn_sup r)" using assms by (intro exI [of _ "[]"]) auto
  ultimately show ?thesis by (simp add: evolves_def)
qed

lemma evolves_sup:
  assumes "rn_sup r' = sup_state_step x (rn_sup r)" "rn_handle r' = rn_handle r" "rn_inbox r' = rn_inbox r"
  shows "evolves r r'"
proof -
  have "\<exists>hs. list_all quiet hs \<and> rn_handle r' = fold handle_step hs (rn_handle r)" using assms by (intro exI [of _ "[]"]) auto
  moreover have "\<exists>xs. rn_inbox r' = fold inbox_step xs (rn_inbox r)" using assms by (intro exI [of _ "[]"]) auto
  moreover have "\<exists>ts. rn_sup r' = fold sup_state_step ts (rn_sup r)" using assms by (intro exI [of _ "[x]"]) auto
  ultimately show ?thesis by (simp add: evolves_def)
qed

lemma evolves_same: "rn_handle r' = rn_handle r \<Longrightarrow> rn_inbox r' = rn_inbox r \<Longrightarrow> rn_sup r' = rn_sup r \<Longrightarrow> evolves r r'"
  unfolding evolves_def by (intro conjI exI [of _ "[]"]) auto

lemma evolves_emit: "\<not> is_run_finished b \<Longrightarrow> evolves r (run_emit b r)"
  by (rule evolves_handle [of "Emit b"]) (auto simp: handle_step_def)

lemma evolves_emits: "evolves r (fold (\<lambda>e. run_emit (TaskEvent e)) xs r)"
proof (induction xs arbitrary: r)
  case (Cons e xs)
  have "evolves r (run_emit (TaskEvent e) r)" by (rule evolves_emit) simp
  with Cons show ?case by (auto intro: evolves_trans)
qed simp

lemma evolves_run_sup: "evolves r (run_sup x r)"
proof -
  obtain es reg where x: "sup_exec x (rn_sup r) = (es, reg)" by (cases "sup_exec x (rn_sup r)")
  have "evolves r (r\<lparr>rn_sup := reg\<rparr>)" by (rule evolves_sup [of _ x]) (simp_all add: sup_state_step_def x)
  moreover have "evolves (r\<lparr>rn_sup := reg\<rparr>) (run_sup x r)"
    using evolves_emits by (simp add: run_sup_def x emit_effects_def)
  ultimately show ?thesis by (rule evolves_trans)
qed

lemma evolves_notify: "evolves r (notify msg key r)"
  by (cases "rh_finished (rn_handle r)") (auto simp: notify_def intro: evolves_inbox [of _ "Publish msg key"])

lemma evolves_notify_all: "evolves r (notify_all ps r)"
proof -
  have "evolves r (fold (\<lambda>p. notify (fst p) (snd p)) ps r)"
    by (induction ps arbitrary: r) (auto intro: evolves_trans [OF evolves_notify])
  then show ?thesis by (simp add: notify_all_def)
qed

text \<open>What an evolution keeps.\<close>

lemma quiet_step_inv: "handle_inv h \<Longrightarrow> quiet x \<Longrightarrow> handle_inv (handle_step x h)"
  by (cases x) (auto simp: handle_step_def intro!: handle_exec_inv simp del: handle_exec.simps)

lemma evolves_handle_inv: "handle_inv (rn_handle (r :: 'o run_state)) \<Longrightarrow> evolves r r' \<Longrightarrow> handle_inv (rn_handle r')"
proof -
  have "handle_inv (fold handle_step hs h)" if "handle_inv h" "list_all quiet hs" for hs and h :: "'o run_handle"
    using that by (induction hs arbitrary: h) (auto simp: quiet_step_inv)
  then show "handle_inv (rn_handle r) \<Longrightarrow> evolves r r' \<Longrightarrow> handle_inv (rn_handle r')" by (auto simp: evolves_def)
qed

lemma quiet_step_finished: "quiet x \<Longrightarrow> rh_finished (handle_step x h) = rh_finished h"
  by (cases x) (auto simp: handle_step_def handle_defs Let_def split: sum.splits if_splits)

lemma handle_resolved_mono: "set (rh_steer_resolved h) \<subseteq> set (rh_steer_resolved (handle_step x h))"
  by (cases x) (auto simp: handle_step_def handle_defs Let_def split: sum.splits if_splits)

definition level :: "'o run_state \<Rightarrow> bool" where
  "level r = (steer_wait.level (rn_handle r) \<and> inbox_wait.level (rn_inbox r) \<and> change_wait.level (rn_sup r))"

definition waiting :: "nat \<Rightarrow> nat \<Rightarrow> 'o run_state \<Rightarrow> bool" where
  "waiting w since r =
     (w \<in> set (rh_steer_wakers (rn_handle r)) \<union> set (rh_steer_resolved (rn_handle r)) \<and>
      w \<in> set (ib_wakers (rn_inbox r)) \<union> set (ib_resolved (rn_inbox r)) \<and>
      (w, since) \<in> set (sv_wakers (rn_sup r)) \<union> set (sv_resolved (rn_sup r)))"

lemma sup_state_step_eq: "sup_state_step = (\<lambda>x s. snd (sup_exec x s))"
  by (auto simp: sup_state_step_def fun_eq_iff)

lemma evolves_level: "level r \<Longrightarrow> evolves r r' \<Longrightarrow> level r'"
  by (auto simp: level_def evolves_def sup_state_step_eq intro: steer_wait.level_run inbox_wait.level_run change_wait.level_run)

lemma evolves_waiting: "waiting w since r \<Longrightarrow> evolves r r' \<Longrightarrow> waiting w since r'"
  unfolding waiting_def evolves_def sup_state_step_eq
  using steer_wait.keeps_run inbox_wait.keeps_run change_wait.keeps_run by metis

lemma evolves_finished: "evolves (r :: 'o run_state) r' \<Longrightarrow> rh_finished (rn_handle r') = rh_finished (rn_handle r)"
proof -
  have "rh_finished (fold handle_step hs h) = rh_finished h" if "list_all quiet hs" for hs and h :: "'o run_handle"
    using that by (induction hs arbitrary: h) (auto simp: quiet_step_finished)
  then show "evolves r r' \<Longrightarrow> rh_finished (rn_handle r') = rh_finished (rn_handle r)" by (auto simp: evolves_def)
qed

lemma fold_resolved: "set (rh_steer_resolved h) \<subseteq> set (rh_steer_resolved (fold handle_step hs h))"
proof (induction hs arbitrary: h)
  case (Cons x hs)
  from Cons [of "handle_step x h"] handle_resolved_mono [of h x] show ?case by auto
qed simp

lemma evolves_resolved:
  "evolves r r' \<Longrightarrow> set (rh_steer_resolved (rn_handle r)) \<subseteq> set (rh_steer_resolved (rn_handle r'))"
  unfolding evolves_def using fold_resolved by metis

section \<open>Batches\<close>

text \<open>
  A batch evolves the run without touching its conversation, its steers or its abort flag, and
  what it accepts comes from the host's verdicts.
\<close>

definition calm :: "'o set \<Rightarrow> 'o run_state \<Rightarrow> 'o run_state \<Rightarrow> bool" where
  "calm vs r r' =
     (evolves r r' \<and> rn_conv r' = rn_conv r \<and> rh_steers (rn_handle r') = rh_steers (rn_handle r) \<and>
      rh_aborted (rn_handle r') = rh_aborted (rn_handle r) \<and>
      (\<forall>v. rn_accepted r' = Some v \<longrightarrow> rn_accepted r = Some v \<or> v \<in> vs))"

lemma calm_refl [intro, simp]: "calm vs r r"
  by (simp add: calm_def)

lemma calm_trans: "calm vs r r1 \<Longrightarrow> calm vs r1 r2 \<Longrightarrow> calm vs r r2"
  unfolding calm_def using evolves_trans by metis

lemma calm_mono: "calm vs r r' \<Longrightarrow> vs \<subseteq> ws \<Longrightarrow> calm ws r r'"
  unfolding calm_def by blast

lemma calm_emit: "\<not> is_run_finished b \<Longrightarrow> calm vs r (run_emit b r)"
  by (simp add: calm_def evolves_emit)

lemma calm_start: "start_call ex now call r = (x, r') \<Longrightarrow> calm vs r r'"
  by (auto simp: start_call_def Let_def intro!: calm_emit split: option.splits bound_tool.splits)

lemma calm_record: "record_result i res (b, r) = (b', r') \<Longrightarrow> calm vs r r'"
  by (auto simp: record_result_def intro!: calm_emit)

lemma calm_gate: "calm vs r (gate_begin_finishing r)" "calm vs r (gate_cancel_finishing r)"
proof -
  have "evolves r (gate_begin_finishing r)"
    by (rule evolves_handle [of BeginFinishing]) (simp_all add: gate_begin_finishing_def handle_step_def)
  then show "calm vs r (gate_begin_finishing r)" by (simp add: calm_def gate_begin_finishing_def)
  have "evolves r (gate_cancel_finishing r)"
    by (rule evolves_handle [of CancelFinishing]) (simp_all add: gate_cancel_finishing_def handle_step_def)
  then show "calm vs r (gate_cancel_finishing r)" by (simp add: calm_def gate_cancel_finishing_def)
qed

lemma calm_accept: "v \<in> vs \<Longrightarrow> calm vs r (r\<lparr>rn_accepted := Some v\<rparr>)"
  by (auto simp: calm_def intro: evolves_same)

definition verdict_values :: "'o call_obs \<Rightarrow> 'o set" where
  "verdict_values obs = {v. co_verdict obs = Inr (Accept v)}"

lemma calm_advance: "advance_call ex obs call x r = (y, r') \<Longrightarrow> calm (verdict_values obs) r r'"
proof -
  have v: "calm (verdict_values obs) r r1" if "terminal_verdict (co_verdict obs) t0 t1 r = (p, r1)" for t0 t1 p r1
    using that by (auto simp: terminal_verdict_def verdict_values_def intro!: calm_gate calm_accept split: sum.splits verdict.splits)
  assume "advance_call ex obs call x r = (y, r')"
  then show ?thesis
    using v by (auto simp: advance_call_def terminal_submit_def terminal_gate_def Let_def calm_gate
        split: running.splits term_phase.splits sum.splits hook_decision.splits if_splits prod.splits)
qed

lemma calm_lane_next: "lane_next ex now k (b, r) = (b', r') \<Longrightarrow> calm vs r r'"
  by (auto simp: lane_next_def Let_def intro: calm_start split: if_splits prod.splits)

lemma calm_begin: "begin_batch ex now calls r = (b, r') \<Longrightarrow> calm vs r r'"
proof -
  have "fold (lane_next ex now) ks (b0, r) = (b, r') \<Longrightarrow> calm vs r r'" for ks b0
  proof (induction ks arbitrary: b0 r)
    case (Cons k ks)
    obtain b1 r1 where 1: "lane_next ex now k (b0, r) = (b1, r1)" by (cases "lane_next ex now k (b0, r)")
    with Cons.prems have "fold (lane_next ex now) ks (b1, r1) = (b, r')" by simp
    from calm_trans [OF calm_lane_next [OF 1] Cons.IH [OF this]] show ?case .
  qed simp
  then show "begin_batch ex now calls r = (b, r') \<Longrightarrow> calm vs r r'" by (simp add: begin_batch_eq)
qed

lemma calm_terminal_next: "terminal_next ex now (b, r) = (b', r') \<Longrightarrow> calm vs r r'"
  by (auto simp: terminal_next_def intro: calm_start split: list.splits if_splits prod.splits)

fun label_values :: "'o batch_label \<Rightarrow> 'o set" where
  "label_values (LaneStep k obs) = verdict_values obs"
| "label_values (LanesSettled now) = {}"
| "label_values (TerminalStep obs) = verdict_values obs"

lemma calm_batch_exec: "batch_exec ex x b r = Some (b', r') \<Longrightarrow> calm (label_values x) r r'"
proof (cases x)
  case (LanesSettled now)
  then show "batch_exec ex x b r = Some (b', r') \<Longrightarrow> ?thesis"
    by (auto simp: lanes_settled_def intro: calm_terminal_next split: if_splits)
next
  case (LaneStep k obs)
  assume st: "batch_exec ex x b r = Some (b', r')"
  then obtain i y where l: "bt_phase b = Lanes" "k < length (bt_lanes b)" "bt_lanes b ! k = Some (i, y)"
    using LaneStep by (auto simp: lane_step_def split: if_splits option.splits)
  obtain z r1 where ad: "advance_call ex obs (the_call b i) y r = (z, r1)" by (cases "advance_call ex obs (the_call b i) y r")
  note a = calm_advance [OF ad]
  have "r' = r1 \<or> (\<exists>res. lane_next ex (co_now obs) k (record_result i res (b, r1)) = (b', r'))"
    using st LaneStep l ad by (auto simp: lane_step_def split: sum.splits if_splits)
  then show ?thesis
  proof
    assume "\<exists>res. lane_next ex (co_now obs) k (record_result i res (b, r1)) = (b', r')"
    then obtain res b2 r2 where n: "record_result i res (b, r1) = (b2, r2)" "lane_next ex (co_now obs) k (b2, r2) = (b', r')"
      by (metis prod.exhaust)
    from calm_trans [OF a calm_trans [OF calm_record [OF n(1)] calm_lane_next [OF n(2)]]] LaneStep show ?thesis by simp
  qed (use a LaneStep in simp)
next
  case (TerminalStep obs)
  assume st: "batch_exec ex x b r = Some (b', r')"
  then obtain i y where l: "bt_phase b = Terminals" "bt_active b = Some (i, y)"
    using TerminalStep by (auto simp: terminal_step_def split: batch_phase.splits option.splits)
  obtain z r1 where ad: "advance_call ex obs (the_call b i) y r = (z, r1)" by (cases "advance_call ex obs (the_call b i) y r")
  note a = calm_advance [OF ad]
  have "r' = r1 \<or> (\<exists>res. terminal_next ex (co_now obs) (record_result i res (b, r1)) = (b', r'))"
    using st TerminalStep l ad by (auto simp: terminal_step_def split: sum.splits if_splits)
  then show ?thesis
  proof
    assume "\<exists>res. terminal_next ex (co_now obs) (record_result i res (b, r1)) = (b', r')"
    then obtain res b2 r2 where n: "record_result i res (b, r1) = (b2, r2)" "terminal_next ex (co_now obs) (b2, r2) = (b', r')"
      by (metis prod.exhaust)
    from calm_trans [OF a calm_trans [OF calm_record [OF n(1)] calm_terminal_next [OF n(2)]]] TerminalStep show ?thesis by simp
  qed (use a TerminalStep in simp)
qed

end
