(* ===== verification/LoopCore.thy ===== *)
theory LoopCore
  imports LoopSafety
begin

text \<open>
  The agent loop's core invariant: one numbered event log with one finish, nobody waiting on a
  condition that holds, and a parked loop registered with all three wake sources.
\<close>

section \<open>The transitions, one case each\<close>

lemma loop_exec_cases [consumes 1, case_names stream throws caught commit boundary batch returns wake resume host]:
  assumes "loop_exec cfg x s = Some s'"
  obtains (stream) acc e where "x = ProviderEvent e" "lp_pc s = Streaming acc" "s' = provider_event e acc s"
  | (throws) acc err where "x = ProviderThrows err \<or> x = ProviderEnds" "lp_pc s = Streaming acc" "s' = provider_throws err acc s"
  | (caught) err where "x = CatchError" "lp_pc s = TurnFailed err"
      "s' = finish_run (classify_loop_error (rh_aborted (rn_handle (lp_run s))) err) s"
  | (commit) m u where "x = CommitTurn" "lp_pc s = TurnDone m u" "s' = commit_turn cfg m u s"
  | (boundary) now calls facts where "x = BoundaryDone now" "lp_pc s = AtBoundary calls facts"
      "s' = boundary_done cfg now calls facts s"
  | (batch) y calls b b' r where "x = BatchMove y" "lp_pc s = InBatch calls b"
      "batch_exec (lc_tools cfg) y b (lp_run s) = Some (b', r)" "s' = s\<lparr>lp_run := r, lp_pc := InBatch calls b'\<rparr>"
  | (returns) now calls b where "x = BatchReturn now" "lp_pc s = InBatch calls b" "bt_phase b = BatchDone"
      "s' = batch_return cfg now calls b s"
  | (wake) w since where "x = Wake" "lp_pc s = Parked w since" "race_settled w since (lp_run s)"
      "s' = s\<lparr>lp_run := abort_waits w since (lp_run s), lp_pc := Woken\<rparr>"
  | (resume) "x = Resume" "lp_pc s = Woken" "s' = loop_top cfg s"
  | (host) op where "x = Host op" "host_step op s = Some s'"
  using assms unfolding loop_exec_def
  by (cases x) (auto split: loop_pc.splits option.splits prod.splits if_splits)

section \<open>Evolutions of the loop's own making\<close>

lemma evolves_steps:
  assumes "rn_handle r' = handle_step x (rn_handle r)" "quiet x" "rn_inbox r' = inbox_step y (rn_inbox r)" "rn_sup r' = rn_sup r"
  shows "evolves r r'"
proof -
  have "evolves r (r\<lparr>rn_handle := handle_step x (rn_handle r)\<rparr>)" by (rule evolves_handle [OF assms(2)]) simp_all
  moreover have "evolves (r\<lparr>rn_handle := handle_step x (rn_handle r)\<rparr>) r'" by (rule evolves_inbox) (use assms in simp_all)
  ultimately show ?thesis by (rule evolves_trans)
qed

lemma evolves_steps3:
  assumes "rn_handle r' = handle_step x (rn_handle r)" "quiet x" "rn_inbox r' = inbox_step y (rn_inbox r)"
    and "rn_sup r' = sup_state_step z (rn_sup r)"
  shows "evolves r r'"
proof -
  let ?m = "r\<lparr>rn_handle := handle_step x (rn_handle r), rn_inbox := inbox_step y (rn_inbox r)\<rparr>"
  have "evolves r ?m" by (rule evolves_steps [OF _ assms(2)]) simp_all
  moreover have "evolves ?m r'" by (rule evolves_sup) (use assms in simp_all)
  ultimately show ?thesis by (rule evolves_trans)
qed

lemma evolves_drain: "drain_boundary r = (st, ns, r') \<Longrightarrow> evolves r r'"
  by (rule evolves_steps [of r' DrainSteers r DrainInbox])
     (auto simp: drain_boundary_def handle_step_def drain_steers_def split: prod.splits)

lemma evolves_park: "evolves (lp_run s) (lp_run (park since s))"
  by (rule evolves_steps3 [of _ "WaitForSteer (lp_waits s) (rh_aborted (rn_handle (lp_run s)))" _
        "WaitForNext (lp_waits s) (rh_aborted (rn_handle (lp_run s)))"
        "WaitForChange (lp_waits s) since (rh_aborted (rn_handle (lp_run s)))"])
     (simp_all add: park_def Let_def handle_step_def sup_state_step_def)

lemma evolves_abort_waits: "evolves r (abort_waits w since r)"
  by (rule evolves_steps3 [of _ "AbortSteerWait w" _ "AbortInboxWait w" "AbortChangeWait w since"])
     (simp_all add: abort_waits_def handle_step_def sup_state_step_def)

lemma waiting_park: "waiting (lp_waits s) since (lp_run (park since s))"
  by (auto simp: waiting_def park_def Let_def wait_for_steer_def wait_for_next_def wait_for_change_def)

lemma abort_waits_resolved: "waiting w since r \<Longrightarrow> w \<in> set (rh_steer_resolved (rn_handle (abort_waits w since r)))"
  by (auto simp: waiting_def abort_waits_def steer_abort_wait_def)

lemma abort_waits_frame [simp]:
  "rh_aborted (rn_handle (abort_waits w since r)) = rh_aborted (rn_handle r)"
  "rh_steers (rn_handle (abort_waits w since r)) = rh_steers (rn_handle r)"
  "rn_conv (abort_waits w since r) = rn_conv r" "rn_accepted (abort_waits w since r) = rn_accepted r"
  by (simp_all add: abort_waits_def steer_abort_wait_def)

lemma run_sup_frame [simp]:
  "rn_conv (run_sup x r) = rn_conv r" "rn_accepted (run_sup x r) = rn_accepted r" "rn_inbox (run_sup x r) = rn_inbox r"
  "rh_aborted (rn_handle (run_sup x r)) = rh_aborted (rn_handle r)"
  "rh_steers (rn_handle (run_sup x r)) = rh_steers (rn_handle r)"
  "rh_outcome (rn_handle (run_sup x r)) = rh_outcome (rn_handle r)"
  "rh_finished (rn_handle (run_sup x r)) = rh_finished (rn_handle r)"
  by (simp_all add: run_sup_def split: prod.splits)

section \<open>The invariant\<close>

definition alive :: "'o run_state \<Rightarrow> bool" where
  "alive r = (handle_inv (rn_handle r) \<and> level r \<and> \<not> rh_finished (rn_handle r))"

definition core_inv :: "'o loop_state \<Rightarrow> bool" where
  "core_inv s =
     (handle_inv (rn_handle (lp_run s)) \<and> level (lp_run s) \<and>
      (rh_finished (rn_handle (lp_run s)) \<longleftrightarrow> lp_pc s = LoopFinished) \<and>
      (\<forall>w since. lp_pc s = Parked w since \<longrightarrow>
         waiting w since (lp_run s) \<and>
         (rh_aborted (rn_handle (lp_run s)) \<longrightarrow> w \<in> set (rh_steer_resolved (rn_handle (lp_run s))))))"

lemma alive_evolves: "alive r \<Longrightarrow> evolves r r' \<Longrightarrow> alive r'"
  by (auto simp: alive_def evolves_handle_inv evolves_level evolves_finished)

lemma core_alive: "core_inv s \<Longrightarrow> lp_pc s \<noteq> LoopFinished \<Longrightarrow> alive (lp_run s)"
  by (simp add: core_inv_def alive_def)

lemma alive_core: "alive (lp_run s) \<Longrightarrow> lp_pc s \<noteq> LoopFinished \<Longrightarrow> (\<forall>w since. lp_pc s \<noteq> Parked w since) \<Longrightarrow> core_inv s"
  by (simp add: core_inv_def alive_def)

lemma finish_level: "steer_wait.level h \<Longrightarrow> steer_wait.level (finish out h)"
  using steer_wait.wakes [of h _ "Finish out"] by (auto simp: steer_wait.level_def handle_step_def)

lemma core_finish: "alive (lp_run s) \<Longrightarrow> core_inv (finish_run st s)"
proof -
  assume a: "alive (lp_run s)"
  let ?out = "\<lparr>out_usage = lp_usage s, out_turns = lp_turns s, out_status = st\<rparr>"
  let ?r = "(lp_run s)\<lparr>rn_handle := finish ?out (rn_handle (lp_run s))\<rparr>"
  have "handle_inv (rn_handle ?r)" "level ?r"
    using a by (simp_all add: alive_def finish_inv level_def finish_level)
  moreover have "rh_finished (rn_handle ?r)" by (simp add: finish_def Let_def)
  moreover have e: "evolves ?r (run_sup (DisposeAll RUN_FINISHED_DISPOSE_REASON) ?r)" by (rule evolves_run_sup)
  ultimately show ?thesis
    using evolves_handle_inv [OF _ e] evolves_level [OF _ e]
    by (simp add: core_inv_def finish_run_def Let_def)
qed

lemma core_start_turn: "alive (lp_run s) \<Longrightarrow> core_inv (start_turn cfg s)"
  by (auto simp: start_turn_def core_finish intro!: alive_core alive_evolves [OF _ evolves_emit])

lemma core_park:
  assumes "alive (lp_run s)" "\<not> rh_aborted (rn_handle (lp_run s))"
  shows "core_inv (park since s)"
proof -
  have "alive (lp_run (park since s))" using assms(1) evolves_park by (rule alive_evolves)
  moreover have "\<not> rh_aborted (rn_handle (lp_run (park since s)))"
    using assms(2) by (simp add: park_def Let_def wait_for_steer_def)
  moreover have "lp_pc (park since s) = Parked (lp_waits s) since" by (simp add: park_def Let_def)
  ultimately show ?thesis using waiting_park [of s since] by (auto simp: core_inv_def alive_def)
qed

lemma drain_frame:
  "drain_boundary r = (st, ns, r') \<Longrightarrow>
   st = rh_steers (rn_handle r) \<and> ns = map entry_message (ib_entries (rn_inbox r)) \<and>
   rh_steers (rn_handle r') = [] \<and> ib_entries (rn_inbox r') = [] \<and> rn_sup r' = rn_sup r \<and>
   rh_aborted (rn_handle r') = rh_aborted (rn_handle r) \<and> rn_accepted r' = rn_accepted r \<and>
   rn_conv r' = append_users (map note_message ns) OriginNotification (append_users st OriginSteer (rn_conv r))"
  by (auto simp: drain_boundary_def drain_steers_def inbox_drain_def split: prod.splits if_splits)

lemma core_loop_top: "alive (lp_run s) \<Longrightarrow> core_inv (loop_top cfg s)"
proof -
  assume a: "alive (lp_run s)"
  obtain st ns r where d: "drain_boundary (lp_run s) = (st, ns, r)" by (cases "drain_boundary (lp_run s)")
  have "alive r" using alive_evolves [OF a evolves_drain [OF d]] .
  with a drain_frame [OF d] show ?thesis
    by (auto simp: loop_top_def d Let_def core_finish core_start_turn core_park
        split: termination_mode.splits option.splits)
qed

lemma core_commit: "alive (lp_run s) \<Longrightarrow> core_inv (commit_turn cfg m u s)"
proof -
  assume a: "alive (lp_run s)"
  have "alive ((lp_run s)\<lparr>rn_conv := c\<rparr>)" for c by (rule alive_evolves [OF a evolves_same]) simp_all
  then show ?thesis
    by (auto simp: commit_turn_def Let_def core_finish intro!: alive_core split: termination_mode.splits)
qed

lemma core_boundary: "alive (lp_run s) \<Longrightarrow> core_inv (boundary_done cfg now calls facts s)"
proof -
  assume a: "alive (lp_run s)"
  let ?r = "notify_all (fst (turn_boundary (ex_hooks (lc_tools cfg)) facts)) (lp_run s)"
  have n: "alive ?r" using a evolves_notify_all by (rule alive_evolves)
  obtain b r where b: "begin_batch (lc_tools cfg) now calls ?r = (b, r)" by (cases "begin_batch (lc_tools cfg) now calls ?r")
  have "alive r" using n calm_begin [OF b, of "{}"] by (auto simp: calm_def intro: alive_evolves)
  with n b show ?thesis
    by (auto simp: boundary_done_def Let_def intro!: core_loop_top alive_core)
qed

lemma core_return: "alive (lp_run s) \<Longrightarrow> core_inv (batch_return cfg now calls b s)"
proof -
  assume a: "alive (lp_run s)"
  have c: "alive ((lp_run s)\<lparr>rn_conv := c\<rparr>)" for c by (rule alive_evolves [OF a evolves_same]) simp_all
  have t: "alive r'" if "take_accepted ((lp_run s)\<lparr>rn_conv := c\<rparr>) = (y, r')" for c y r'
    by (rule alive_evolves [OF c evolves_same]) (use that in \<open>auto simp: take_accepted_def\<close>)
  from c t show ?thesis
    by (auto simp: batch_return_def Let_def intro!: core_finish core_loop_top
        split: termination_mode.splits option.splits prod.splits)
qed

lemma core_host:
  assumes inv: "core_inv s" and h: "host_step op s = Some s'"
  shows "core_inv s'"
proof -
  have keep: "core_inv s'"
    if e: "evolves (lp_run s) (lp_run s')" and p: "lp_pc s' = lp_pc s"
      and ab: "rh_aborted (rn_handle (lp_run s')) \<longrightarrow> rh_aborted (rn_handle (lp_run s)) \<or>
                 (\<forall>w since. lp_pc s = Parked w since \<longrightarrow> w \<in> set (rh_steer_resolved (rn_handle (lp_run s'))))"
    using inv e ab evolves_resolved [OF e]
    by (auto simp: core_inv_def p evolves_handle_inv evolves_level evolves_finished evolves_waiting [OF _ e])
  show ?thesis
  proof (cases op)
    case (HostSteer m)
    then obtain ok h1 where st: "steer m (rn_handle (lp_run s)) = Inr (ok, h1)"
      and s': "lp_run s' = (lp_run s)\<lparr>rn_handle := h1\<rparr>" "lp_pc s' = lp_pc s"
      using h by (auto split: sum.splits)
    have "evolves (lp_run s) (lp_run s')"
      by (rule evolves_handle [of "Steer m"]) (use st s' in \<open>simp_all add: handle_step_def\<close>)
    moreover have "rh_aborted h1 = rh_aborted (rn_handle (lp_run s))"
      using st by (auto simp: steer_def split: if_splits)
    ultimately show ?thesis using s' by (intro keep) auto
  next
    case HostInterrupt
    let ?r = "(lp_run s)\<lparr>rn_handle := interrupt (rn_handle (lp_run s))\<rparr>"
    have e: "evolves (lp_run s) ?r" by (rule evolves_handle [of Interrupt]) (simp_all add: handle_step_def)
    show ?thesis
    proof (cases "\<exists>w since. lp_pc s = Parked w since")
      case True
      then obtain w since where p: "lp_pc s = Parked w since" by blast
      then have s': "lp_run s' = abort_waits w since ?r" "lp_pc s' = lp_pc s" using h HostInterrupt by (auto simp: Let_def)
      have "waiting w since ?r" using inv p e by (auto simp: core_inv_def intro: evolves_waiting)
      with s' p evolves_trans [OF e evolves_abort_waits] show ?thesis
        by (intro keep) (auto dest: abort_waits_resolved)
    next
      case False
      then have "lp_run s' = ?r" "lp_pc s' = lp_pc s"
        using h HostInterrupt by (auto simp: Let_def split: loop_pc.splits)
      with e False show ?thesis by (intro keep) auto
    qed
  next
    case (HostPublish msg key)
    then have "lp_run s' = notify msg key (lp_run s)" "lp_pc s' = lp_pc s" using h by auto
    moreover have "rh_aborted (rn_handle (notify msg key (lp_run s))) = rh_aborted (rn_handle (lp_run s))"
      by (simp add: notify_def)
    ultimately show ?thesis by (intro keep) (simp_all add: evolves_notify)
  next
    case (HostTask t)
    then have "lp_run s' = run_sup t (lp_run s)" "lp_pc s' = lp_pc s" using h by (auto split: if_splits)
    then show ?thesis by (intro keep) (simp_all add: evolves_run_sup)
  qed
qed

lemma core_step: "core_inv s \<Longrightarrow> loop_exec cfg x s = Some s' \<Longrightarrow> core_inv s'"
proof -
  assume inv: "core_inv s" and st: "loop_exec cfg x s = Some s'"
  have al: "lp_pc s \<noteq> LoopFinished \<Longrightarrow> alive (lp_run s)" by (rule core_alive [OF inv])
  from st show ?thesis
  proof (cases rule: loop_exec_cases)
    case (stream acc e)
    with inv have "alive (lp_run s)" by (intro core_alive) auto
    then have "alive (run_emit (LlmEvent e) (lp_run s))" by (rule alive_evolves) (simp add: evolves_emit)
    with stream show ?thesis
      by (intro alive_core) (auto simp: provider_event_def split: llm_stream_event.splits)
  next
    case (throws acc err)
    with inv have "alive (lp_run s)" by (intro core_alive) auto
    from alive_evolves [OF this evolves_same] throws show ?thesis
      by (intro alive_core) (auto simp: provider_throws_def)
  next
    case (batch y calls b b' r)
    with inv have "alive (lp_run s)" by (intro core_alive) auto
    with batch calm_batch_exec [OF batch(3)] show ?thesis
      by (intro alive_core) (auto simp: calm_def intro: alive_evolves)
  next
    case (wake w since)
    with inv have "alive (lp_run s)" by (intro core_alive) auto
    with wake show ?thesis by (intro alive_core) (auto intro: alive_evolves evolves_abort_waits)
  next
    case (host op)
    with inv show ?thesis by (blast intro: core_host)
  qed (use al in \<open>simp_all add: core_finish core_commit core_boundary core_return core_loop_top\<close>)
qed

lemma alive_init: "alive (run_emit (RunStarted name) (run_init msgs))"
proof (rule alive_evolves [OF _ evolves_emit])
  show "alive (run_init msgs)"
    using handle_inv_init
    by (simp add: alive_def run_init_def level_def steer_wait.level_def inbox_wait.level_def
        change_wait.level_def handle_init_def inbox_init_def supervisor_init_def)
qed simp

lemma core_reach: "loop_reach cfg name msgs tr s \<Longrightarrow> core_inv s"
proof (induction rule: loop_reach.induct)
  case reach_start
  then show ?case unfolding loop_start_def by (rule core_loop_top) (simp add: alive_init)
qed (rule core_step)

end
