(* ===== verification/LoopProps.thy ===== *)
theory LoopProps
  imports LoopCore
begin

text \<open>
  The properties of the agent loop: what a finished run reports, the turn budget, the shape of
  every request, wake-ups, the two ways to complete, and two windows in which the code does
  not keep what its comments promise.
\<close>

section \<open>One finish, within the budget\<close>

definition budget_inv :: "'o loop_config \<Rightarrow> 'o loop_state \<Rightarrow> bool" where
  "budget_inv cfg s =
     (lp_turns s \<le> lc_max_turns cfg \<and> length (lp_requests s) \<le> lc_max_turns cfg \<and>
      (case lp_pc s of
         Streaming _ \<Rightarrow> length (lp_requests s) = Suc (lp_turns s)
       | TurnDone _ _ \<Rightarrow> length (lp_requests s) = Suc (lp_turns s)
       | TurnFailed _ \<Rightarrow> True
       | LoopFinished \<Rightarrow> True
       | _ \<Rightarrow> length (lp_requests s) = lp_turns s) \<and>
      (\<forall>out. rh_outcome (rn_handle (lp_run s)) = Some out \<longrightarrow> out_turns out \<le> lc_max_turns cfg))"

text \<open>What a finish leaves of the loop's state.\<close>

lemma finish_run_simps [simp]:
  "lp_turns (finish_run st s) = lp_turns s" "lp_requests (finish_run st s) = lp_requests s"
  "lp_pc (finish_run st s) = LoopFinished" "rn_conv (lp_run (finish_run st s)) = rn_conv (lp_run s)"
  "lp_accepted (finish_run st s) = lp_accepted s" "lp_pending (finish_run st s) = lp_pending s" "rn_accepted (lp_run (finish_run st s)) = rn_accepted (lp_run s)"
  "rh_steers (rn_handle (lp_run (finish_run st s))) =
     (if rh_finished (rn_handle (lp_run s)) then rh_steers (rn_handle (lp_run s)) else [])"
  "rh_outcome (rn_handle (lp_run (finish_run st s))) =
     (if rh_finished (rn_handle (lp_run s)) then rh_outcome (rn_handle (lp_run s))
      else Some \<lparr>out_usage = lp_usage s, out_turns = lp_turns s, out_status = st\<rparr>)"
  by (auto simp: finish_run_def Let_def finish_def)

lemma alive_outcome: "alive r \<Longrightarrow> rh_outcome (rn_handle r) = None"
  by (simp add: alive_def handle_inv_def)

lemma budget_finish:
  "alive (lp_run s) \<Longrightarrow> lp_turns s \<le> lc_max_turns cfg \<Longrightarrow> length (lp_requests s) \<le> lc_max_turns cfg \<Longrightarrow>
   budget_inv cfg (finish_run st s)"
  by (auto simp: budget_inv_def alive_def)

lemma budget_loop_top:
  assumes "alive (lp_run s)" "lp_turns s \<le> lc_max_turns cfg" "length (lp_requests s) = lp_turns s"
  shows "budget_inv cfg (loop_top cfg s)"
proof -
  obtain st ns r where d: "drain_boundary (lp_run s) = (st, ns, r)" by (cases "drain_boundary (lp_run s)")
  have a: "alive r" using alive_evolves [OF assms(1) evolves_drain [OF d]] .
  have t: "budget_inv cfg (start_turn cfg (s\<lparr>lp_run := r\<rparr>))"
    using a assms alive_outcome [OF a] by (auto simp: start_turn_def budget_finish) (simp add: budget_inv_def)
  have p: "budget_inv cfg (park since (s\<lparr>lp_run := r\<rparr>))" for since
    using assms alive_outcome [OF a] by (simp add: budget_inv_def park_def Let_def wait_for_steer_def)
  from assms a t p show ?thesis
    by (auto simp: loop_top_def d Let_def intro!: budget_finish split: termination_mode.splits option.splits)
qed

lemma budget_frame:
  assumes "budget_inv cfg s" "lp_turns s' = lp_turns s" "lp_requests s' = lp_requests s" "alive (lp_run s')"
    and "length (lp_requests s) = (case lp_pc s' of Streaming _ \<Rightarrow> Suc (lp_turns s) | TurnDone _ _ \<Rightarrow> Suc (lp_turns s) | _ \<Rightarrow> lp_turns s)
         \<or> (\<exists>e. lp_pc s' = TurnFailed e)"
  shows "budget_inv cfg s'"
  using assms alive_outcome [OF assms(4)] by (auto simp: budget_inv_def split: loop_pc.splits)

lemma host_frame:
  assumes "host_step op s = Some s'"
  shows "lp_pc s' = lp_pc s \<and> lp_turns s' = lp_turns s \<and> lp_requests s' = lp_requests s \<and> lp_usage s' = lp_usage s \<and>
         lp_pending s' = lp_pending s \<and> lp_at_rest s' = lp_at_rest s \<and>
         rn_conv (lp_run s') = rn_conv (lp_run s) \<and> rn_accepted (lp_run s') = rn_accepted (lp_run s) \<and>
         rh_outcome (rn_handle (lp_run s')) = rh_outcome (rn_handle (lp_run s)) \<and>
         (\<exists>ms. list_all (\<lambda>m. msg_role m = User) ms \<and> lp_accepted s' = lp_accepted s @ ms \<and>
               rh_steers (rn_handle (lp_run s')) = rh_steers (rn_handle (lp_run s)) @ ms)"
proof (cases op)
  case (HostSteer m)
  with assms show ?thesis by (auto simp: steer_def split: if_splits)
next
  case HostInterrupt
  with assms show ?thesis
    by (auto simp: Let_def interrupt_def abort_waits_def steer_abort_wait_def split: loop_pc.splits)
next
  case (HostPublish msg key)
  with assms show ?thesis by (auto simp: notify_def)
next
  case (HostTask t)
  with assms show ?thesis by (auto split: if_splits)
qed

lemma alive_conv: "alive r \<Longrightarrow> alive (r\<lparr>rn_conv := c\<rparr>)"
  by (erule alive_evolves) (rule evolves_same; simp)

lemma alive_notify: "alive r \<Longrightarrow> alive (notify_all ps r)"
  by (erule alive_evolves) (rule evolves_notify_all)

lemma alive_begin: "alive r \<Longrightarrow> begin_batch ex now calls r = (b, r') \<Longrightarrow> alive r'"
  using calm_begin [of ex now calls r b r' "{}"] by (auto simp: calm_def intro: alive_evolves)

lemma alive_take: "alive r \<Longrightarrow> take_accepted r = (x, r') \<Longrightarrow> alive r'"
  by (erule alive_evolves) (rule evolves_same; auto simp: take_accepted_def)

lemma budget_step:
  assumes inv: "core_inv s" and b: "budget_inv cfg s" and st: "loop_exec cfg x s = Some s'"
  shows "budget_inv cfg s'"
proof -
  have al: "lp_pc s \<noteq> LoopFinished \<Longrightarrow> alive (lp_run s)" by (rule core_alive [OF inv])
  have al': "lp_pc s' \<noteq> LoopFinished \<Longrightarrow> alive (lp_run s')" by (rule core_alive [OF core_step [OF inv st]])
  from st show ?thesis
  proof (cases rule: loop_exec_cases)
    case (stream acc e)
    show ?thesis
      by (rule budget_frame [OF b]) (use stream b al' in \<open>auto simp: provider_event_def budget_inv_def split: llm_stream_event.splits\<close>)
  next
    case (throws acc err)
    show ?thesis by (rule budget_frame [OF b]) (use throws b al' in \<open>auto simp: provider_throws_def\<close>)
  next
    case (caught err)
    with b al show ?thesis by (auto simp: budget_inv_def intro: budget_finish)
  next
    case (commit m u)
    with b have n: "length (lp_requests s) = Suc (lp_turns s)" "length (lp_requests s) \<le> lc_max_turns cfg" by (auto simp: budget_inv_def)
    have a: "alive ((lp_run s)\<lparr>rn_conv := c\<rparr>)" for c using al commit by (simp add: alive_conv)
    show ?thesis
      using commit n a alive_outcome [OF a]
      by (auto simp: commit_turn_def Let_def intro!: budget_finish split: termination_mode.splits) (auto simp: budget_inv_def)
  next
    case (boundary now calls facts)
    let ?r = "notify_all (fst (turn_boundary (ex_hooks (lc_tools cfg)) facts)) (lp_run s)"
    have a: "alive ?r" using al boundary by (simp add: alive_notify)
    have n: "length (lp_requests s) = lp_turns s" "lp_turns s \<le> lc_max_turns cfg" using b boundary by (auto simp: budget_inv_def)
    obtain bt r where bb: "begin_batch (lc_tools cfg) now calls ?r = (bt, r)" by (cases "begin_batch (lc_tools cfg) now calls ?r")
    show ?thesis
      using boundary a n bb alive_outcome [OF alive_begin [OF a bb]]
      by (auto simp: boundary_done_def Let_def intro!: budget_loop_top) (simp add: budget_inv_def)
  next
    case (batch y calls bt b' r)
    show ?thesis by (rule budget_frame [OF b]) (use batch b al' in \<open>auto simp: budget_inv_def\<close>)
  next
    case (returns now calls bt)
    have n: "length (lp_requests s) = lp_turns s" "lp_turns s \<le> lc_max_turns cfg" using b returns by (auto simp: budget_inv_def)
    have a: "alive ((lp_run s)\<lparr>rn_conv := c\<rparr>)" for c using al returns by (simp add: alive_conv)
    show ?thesis
      using returns n a alive_take [OF a]
      by (auto simp: batch_return_def Let_def intro!: budget_finish budget_loop_top
          split: termination_mode.splits option.splits prod.splits)
  next
    case (wake w since)
    show ?thesis by (rule budget_frame [OF b]) (use wake b al' in \<open>auto simp: budget_inv_def\<close>)
  next
    case resume
    then have "lp_turns s \<le> lc_max_turns cfg" "length (lp_requests s) = lp_turns s" using b by (auto simp: budget_inv_def)
    with resume al show ?thesis by (simp add: budget_loop_top)
  next
    case (host op)
    with b host_frame [OF host(2)] show ?thesis by (auto simp: budget_inv_def split: loop_pc.splits)
  qed
qed

lemma budget_reach: "loop_reach cfg name msgs tr s \<Longrightarrow> budget_inv cfg s"
proof (induction rule: loop_reach.induct)
  case reach_start
  then show ?case unfolding loop_start_def by (rule budget_loop_top) (simp_all add: alive_init)
next
  case (reach_step tr s x s')
  then show ?case by (blast intro: budget_step core_reach)
qed

text \<open>
  C1: every run finishes at most once and within its budget, whatever the provider, the tools,
  the hooks and the host do: it has finished exactly when its loop has ended; then its event log
  has one \<open>run_finished\<close> carrying the resolved outcome, which reports at most \<open>maxTurns\<close> turns;
  the provider is never asked more than \<open>maxTurns\<close> times.
\<close>

theorem loop_finishes_once:
  assumes "loop_reach cfg name msgs tr s"
  shows "(lp_pc s = LoopFinished \<longleftrightarrow> rh_outcome (rn_handle (lp_run s)) \<noteq> None) \<and>
         (lp_pc s = LoopFinished \<longrightarrow>
            (\<exists>fin out. filter (is_run_finished \<circ> ae_body) (rh_tapped (rn_handle (lp_run s))) = [fin] \<and>
               ae_body fin = RunFinished out \<and> rh_outcome (rn_handle (lp_run s)) = Some out \<and>
               out_turns out \<le> lc_max_turns cfg)) \<and>
         length (lp_requests s) \<le> lc_max_turns cfg"
  using core_reach [OF assms] budget_reach [OF assms]
  by (auto simp: core_inv_def handle_inv_def budget_inv_def)

section \<open>Every request is well formed\<close>

fun as_result_id :: "content_block \<Rightarrow> tool_use_id option" where
  "as_result_id (ToolResultBlock i _ _) = Some i"
| "as_result_id _ = None"

definition result_ids :: "message \<Rightarrow> tool_use_id list" where
  "result_ids m = List.map_filter as_result_id (msg_content m)"

text \<open>Providers reject a history in which a tool call is not answered by the next message.\<close>

fun answered :: "message list \<Rightarrow> bool" where
  "answered [] = True"
| "answered (m # ms) =
     ((msg_role m = Assistant \<and> tool_uses m \<noteq> [] \<longrightarrow>
         (case ms of [] \<Rightarrow> False | r # _ \<Rightarrow> msg_role r = User \<and> result_ids r = map use_id (tool_uses m))) \<and>
      answered ms)"

lemma answered_append: "answered xs \<Longrightarrow> answered ys \<Longrightarrow> answered (xs @ ys)"
proof (induction xs)
  case (Cons m xs)
  then have "answered (xs @ ys)" "msg_role m = Assistant \<and> tool_uses m \<noteq> [] \<longrightarrow> xs \<noteq> []" by (simp_all split: list.splits)
  with Cons.prems(1) show ?case by (cases xs) auto
qed simp

lemma answered_users: "list_all (\<lambda>m. msg_role m = User) ms \<Longrightarrow> answered ms"
  by (induction ms) auto

lemma normalize_ids: "map res_id (normalize_batch now calls results) = map use_id calls"
proof -
  let ?m = "map_of (rev (map (\<lambda>r. (res_id r, r)) results))"
  have "res_id (case ?m (use_id c) of Some r \<Rightarrow> r | None \<Rightarrow> error_result (use_id c) t now) = use_id c" for c :: tool_use and t
  proof (cases "?m (use_id c)")
    case None
    then show ?thesis by (simp add: error_result_def with_id_def)
  next
    case (Some r)
    then have "(use_id c, r) \<in> set (map (\<lambda>r. (res_id r, r)) results)" by (metis map_of_SomeD set_rev)
    with Some show ?thesis by auto
  qed
  then show ?thesis by (simp add: normalize_batch_def Let_def)
qed

lemma results_message_ids: "result_ids (tool_results_message (map project_tool_result rs)) = map res_id rs"
  by (simp add: result_ids_def tool_results_message_def List.map_filter_def project_tool_result_def comp_def)

fun open_calls :: "'o loop_pc \<Rightarrow> tool_use list" where
  "open_calls (AtBoundary calls _) = calls"
| "open_calls (InBatch calls _) = calls"
| "open_calls _ = []"

definition history_inv :: "'o loop_state \<Rightarrow> bool" where
  "history_inv s =
     (list_all (\<lambda>req. answered (req_messages req)) (lp_requests s) \<and>
      list_all (\<lambda>m. msg_role m = User) (rh_steers (rn_handle (lp_run s))) \<and>
      (case lp_pc s of InBatch calls _ \<Rightarrow> calls \<noteq> [] | _ \<Rightarrow> True) \<and>
      (\<exists>h m. cv_llm (rn_conv (lp_run s)) = (if open_calls (lp_pc s) = [] then h else h @ [m]) \<and> answered h \<and>
             (open_calls (lp_pc s) \<noteq> [] \<longrightarrow> tool_uses m = open_calls (lp_pc s))))"

lemma history_closed:
  "open_calls (lp_pc s) = [] \<Longrightarrow> (case lp_pc s of InBatch calls _ \<Rightarrow> False | _ \<Rightarrow> True) \<Longrightarrow>
   history_inv s \<longleftrightarrow> list_all (\<lambda>req. answered (req_messages req)) (lp_requests s) \<and>
     list_all (\<lambda>m. msg_role m = User) (rh_steers (rn_handle (lp_run s))) \<and> answered (cv_llm (rn_conv (lp_run s)))"
  by (cases "lp_pc s") (simp_all add: history_inv_def)

lemma history_finish:
  "list_all (\<lambda>req. answered (req_messages req)) (lp_requests s) \<Longrightarrow>
   list_all (\<lambda>m. msg_role m = User) (rh_steers (rn_handle (lp_run s))) \<Longrightarrow> answered (cv_llm (rn_conv (lp_run s))) \<Longrightarrow>
   history_inv (finish_run st s)"
  by (simp add: history_closed)

lemma history_loop_top:
  assumes reqs: "list_all (\<lambda>req. answered (req_messages req)) (lp_requests s)"
    and users: "list_all (\<lambda>m. msg_role m = User) (rh_steers (rn_handle (lp_run s)))"
    and ans: "answered (cv_llm (rn_conv (lp_run s)))"
  shows "history_inv (loop_top cfg s)"
proof -
  obtain st ns r where d: "drain_boundary (lp_run s) = (st, ns, r)" by (cases "drain_boundary (lp_run s)")
  note f = drain_frame [OF d]
  have note_users: "list_all (\<lambda>m. msg_role m = User) (map note_message ns)"
    by (simp add: note_message_def system_notification_message_def Let_def list_all_iff)
  have ans': "answered (cv_llm (rn_conv r))"
    using f ans answered_users [OF users] answered_users [OF note_users]
    by (simp add: append_users_llm answered_append del: map_map)
  have t: "history_inv (start_turn cfg (s\<lparr>lp_run := r\<rparr>))"
    using reqs ans' f by (simp add: start_turn_def history_finish history_closed turn_request_def)
  have p: "history_inv (park since (s\<lparr>lp_run := r\<rparr>))" for since
    using reqs ans' f by (simp add: history_closed park_def Let_def wait_for_steer_def)
  from assms ans' f t p show ?thesis
    by (auto simp: loop_top_def d Let_def intro!: history_finish split: termination_mode.splits option.splits)
qed

lemma history_commit: "history_inv s \<Longrightarrow> lp_pc s = TurnDone m u \<Longrightarrow> history_inv (commit_turn cfg m u s)"
proof -
  assume h: "history_inv s" and pc: "lp_pc s = TurnDone m u"
  have ans: "answered (cv_llm (rn_conv (lp_run s)))" using h pc by (simp add: history_inv_def)
  have a: "answered (cv_llm (rn_conv (lp_run s)) @ [m])" if "tool_uses m = []"
    using ans that by (intro answered_append) simp_all
  show ?thesis
    using h a pc by (auto simp: commit_turn_def Let_def history_closed append_llm history_inv_def
        intro!: history_finish split: termination_mode.splits)
qed

lemma history_return:
  assumes h: "history_inv s" and pc: "lp_pc s = InBatch calls b"
  shows "history_inv (batch_return cfg now calls b s)"
proof -
  let ?rs = "normalize_batch now calls (batch_results now b)"
  obtain h m where hm: "cv_llm (rn_conv (lp_run s)) = h @ [m]" "answered h" "tool_uses m = calls"
    using assms by (auto simp: history_inv_def)
  have "answered [m, tool_results_message (map project_tool_result ?rs)]"
    using hm(3) by (simp add: results_message_ids normalize_ids) (simp add: tool_results_message_def)
  from answered_append [OF hm(2) this] hm(1)
  have "answered (cv_llm (append_tool_results (map project_tool_result ?rs) (rn_conv (lp_run s))))" by (simp add: append_llm)
  moreover have "rn_handle r = rn_handle r' \<and> rn_conv r = rn_conv r'" if "take_accepted r' = (x, r)" for r r' :: "'a run_state" and x
    using that by (auto simp: take_accepted_def)
  ultimately show ?thesis
    using h by (auto simp: batch_return_def Let_def history_inv_def [of s] intro!: history_finish history_loop_top
        split: termination_mode.splits option.splits prod.splits)
qed

lemma history_step:
  assumes h: "history_inv s" and st: "loop_exec cfg x s = Some s'"
  shows "history_inv s'"
  using st
proof (cases rule: loop_exec_cases)
  case (stream acc e)
  with h show ?thesis by (auto simp: provider_event_def history_inv_def split: llm_stream_event.splits)
next
  case (throws acc err)
  with h show ?thesis by (simp add: provider_throws_def history_inv_def)
next
  case (caught err)
  with h show ?thesis by (auto simp: history_inv_def intro!: history_finish [unfolded history_inv_def])
next
  case (commit m u)
  with h show ?thesis by (simp add: history_commit)
next
  case (boundary now calls facts)
  let ?r = "notify_all (fst (turn_boundary (ex_hooks (lc_tools cfg)) facts)) (lp_run s)"
  obtain b r where b: "begin_batch (lc_tools cfg) now calls ?r = (b, r)" by (cases "begin_batch (lc_tools cfg) now calls ?r")
  have "calm {} ?r r" by (rule calm_begin [OF b])
  with boundary h b show ?thesis
    by (auto simp: boundary_done_def Let_def calm_def history_inv_def [of s] intro!: history_loop_top)
       (auto simp: history_inv_def)
next
  case (batch y calls b b' r)
  with calm_batch_exec [OF batch(3)] h show ?thesis by (auto simp: calm_def history_inv_def)
next
  case (returns now calls b)
  with h show ?thesis by (simp add: history_return)
next
  case (wake w since)
  with h show ?thesis by (simp add: history_inv_def)
next
  case resume
  with h show ?thesis by (auto simp: history_inv_def [of s] intro: history_loop_top)
next
  case (host op)
  with h host_frame [OF host(2)] show ?thesis by (auto simp: history_inv_def)
qed

lemma history_reach: "loop_reach cfg name msgs tr s \<Longrightarrow> answered msgs \<Longrightarrow> history_inv s"
proof (induction rule: loop_reach.induct)
  case reach_start
  then show ?case
    unfolding loop_start_def
    by (intro history_loop_top) (simp_all add: run_init_def conversation_init_llm handle_init_def)
qed (blast intro: history_step)

text \<open>
  C2: in every request the loop ever sends, each assistant message that calls tools is followed
  at once by one message with exactly the results of its calls, in call order; so it is in the
  history of a finished run. This holds under every interleaving of steers, notices and
  interrupts, and whatever the executor returned, when the start messages already have it.
\<close>

theorem requests_answer_every_call:
  assumes "loop_reach cfg name msgs tr s" and "answered msgs"
  shows "(\<forall>req \<in> set (lp_requests s). answered (req_messages req)) \<and>
         (lp_pc s = LoopFinished \<longrightarrow> answered (cv_llm (rn_conv (lp_run s))))"
  using history_reach [OF assms] by (auto simp: history_inv_def list_all_iff)

section \<open>A parked run wakes\<close>

text \<open>
  C3: a parked run is woken by every event it waits for: when a steer is queued, a notice is
  pending, a task has been removed since the boundary that parked it, or the run was
  interrupted, its race has settled, even if the event came first or while it registered.
\<close>

theorem parked_run_wakes:
  assumes "loop_reach cfg name msgs tr s" and "lp_pc s = Parked w since"
    and "rh_steers (rn_handle (lp_run s)) \<noteq> [] \<or> ib_entries (rn_inbox (lp_run s)) \<noteq> [] \<or>
         change_count (rn_sup (lp_run s)) \<noteq> since \<or> rh_aborted (rn_handle (lp_run s))"
  shows "\<exists>s'. loop_exec cfg Wake s = Some s'"
proof -
  have inv: "core_inv s" by (rule core_reach [OF assms(1)])
  have wt: "waiting w since (lp_run s)" and lv: "level (lp_run s)"
    and ab: "rh_aborted (rn_handle (lp_run s)) \<Longrightarrow> w \<in> set (rh_steer_resolved (rn_handle (lp_run s)))"
    using inv assms(2) by (auto simp: core_inv_def)
  have "race_settled w since (lp_run s)"
    using assms(3) wt lv ab
    by (auto simp: race_settled_def waiting_def level_def steer_wait.level_def inbox_wait.level_def change_wait.level_def
        change_count_def)
  then show ?thesis using assms(2) by (simp add: loop_exec_def)
qed

section \<open>How a run completes\<close>

fun steer_entry :: "conversation_entry \<Rightarrow> message option" where
  "steer_entry (UserEntry OriginSteer m) = Some m"
| "steer_entry _ = None"

text \<open>The steers that have reached the conversation.\<close>

definition delivered :: "conversation \<Rightarrow> message list" where
  "delivered c = List.map_filter steer_entry (cv_observed c)"

lemma delivered_ops [simp]:
  "delivered (append_users ms OriginSteer c) = delivered c @ ms"
  "delivered (append_users ns OriginNotification c) = delivered c"
  "delivered (append_assistant m c) = delivered c"
  "delivered (append_tool_results bs c) = delivered c"
  "delivered (append_partial_assistant m r c) = delivered c"
proof -
  show "delivered (append_users ms OriginSteer c) = delivered c @ ms"
    by (simp add: delivered_def append_users_observed List.map_filter_def comp_def)
  have "filter (\<lambda>e. steer_entry e \<noteq> None) (map (UserEntry OriginNotification) ns) = []" by (induction ns) simp_all
  then show "delivered (append_users ns OriginNotification c) = delivered c"
    by (simp add: delivered_def append_users_observed List.map_filter_def)
qed (simp_all add: delivered_def conversation_defs Let_def List.map_filter_def)

lemma delivered_salvage [simp]: "delivered (salvage a e acc c) = delivered c"
  by (simp add: salvage_def Let_def split: option.splits)

text \<open>The conversation ends with the assistant message \<open>m\<close>, which calls no tool.\<close>

definition rested :: "message \<Rightarrow> conversation \<Rightarrow> bool" where
  "rested m c = (tool_uses m = [] \<and> (\<exists>es ms. cv_observed c = es @ [AssistantEntry m] \<and> cv_llm c = ms @ [m]))"

lemma rested_append [simp]: "rested m (append_assistant m c) \<longleftrightarrow> tool_uses m = []"
  by (simp add: rested_def append_assistant_def)

text \<open>Where a loop can be with a message pending: nothing is appended there.\<close>

fun resting :: "'o loop_pc \<Rightarrow> bool" where
  "resting (Parked w since) = True"
| "resting Woken = True"
| "resting (AtBoundary calls facts) = (calls = [])"
| "resting _ = False"

definition text_done :: "'o loop_config \<Rightarrow> 'o loop_state \<Rightarrow> bool" where
  "text_done cfg s =
     (\<forall>f out v. lc_mode cfg = TextMode f \<longrightarrow> rh_outcome (rn_handle (lp_run s)) = Some out \<longrightarrow> out_status out = Completed v \<longrightarrow>
        delivered (rn_conv (lp_run s)) = lp_accepted s \<and> sv_entries (rn_sup (lp_run s)) = [] \<and>
        sv_disposed (rn_sup (lp_run s)) \<noteq> None \<and>
        (\<exists>m. rested m (rn_conv (lp_run s)) \<and> v = f (assistant_text m)))"

definition pending_ok :: "'o loop_state \<Rightarrow> bool" where
  "pending_ok s = (\<forall>m. lp_pending s = Some m \<longrightarrow> rested m (rn_conv (lp_run s)) \<and> resting (lp_pc s))"

definition deliver_inv :: "'o loop_config \<Rightarrow> 'o loop_state \<Rightarrow> bool" where
  "deliver_inv cfg s =
     (text_done cfg s \<and>
      (lp_pc s \<noteq> LoopFinished \<longrightarrow>
         lp_accepted s = delivered (rn_conv (lp_run s)) @ rh_steers (rn_handle (lp_run s)) \<and> pending_ok s))"

lemma text_done_alive: "alive (lp_run s) \<Longrightarrow> text_done cfg s"
  by (simp add: text_done_def alive_outcome)

lemma finish_sup:
  "sv_entries (rn_sup (lp_run (finish_run st s))) = [] \<longleftrightarrow> sv_entries (rn_sup (lp_run s)) = []"
  "sv_disposed (rn_sup (lp_run (finish_run st s))) \<noteq> None"
  by (simp_all add: finish_run_def Let_def run_sup_def dispose_all_def)

lemma deliver_completed:
  assumes "lc_mode cfg = TextMode f" "lp_accepted s = delivered (rn_conv (lp_run s)) @ rh_steers (rn_handle (lp_run s))"
    and "alive (lp_run s)" "rh_steers (rn_handle (lp_run s)) = []" "sv_entries (rn_sup (lp_run s)) = []"
    and "rested m (rn_conv (lp_run s))"
  shows "deliver_inv cfg (finish_run (Completed (f (assistant_text m))) s)"
  using assms by (auto simp: deliver_inv_def text_done_def alive_def finish_sup finish_sup(2) [simplified])

lemma deliver_finish:
  assumes "lc_mode cfg = TerminalMode \<or> (\<forall>v. st \<noteq> Completed v)" "alive (lp_run s)"
  shows "deliver_inv cfg (finish_run st s)"
  using assms by (auto simp: deliver_inv_def text_done_def alive_def)

lemma deliver_live:
  assumes "alive (lp_run s)" "pending_ok s" "lp_accepted s = delivered (rn_conv (lp_run s)) @ rh_steers (rn_handle (lp_run s))"
  shows "deliver_inv cfg s"
  using assms by (simp add: deliver_inv_def text_done_alive)

lemma append_no_users [simp]: "append_users [] origin c = c"
  by (simp add: append_users_def)

lemma deliver_loop_top:
  assumes al: "alive (lp_run s)" and pend: "\<And>m. lp_pending s = Some m \<Longrightarrow> rested m (rn_conv (lp_run s))"
    and acc: "lp_accepted s = delivered (rn_conv (lp_run s)) @ rh_steers (rn_handle (lp_run s))"
  shows "deliver_inv cfg (loop_top cfg s)"
proof -
  obtain st ns r where d: "drain_boundary (lp_run s) = (st, ns, r)" by (cases "drain_boundary (lp_run s)")
  note f = drain_frame [OF d]
  let ?s = "s\<lparr>lp_run := r\<rparr>"
  have a: "alive r" using alive_evolves [OF al evolves_drain [OF d]] .
  have acc': "lp_accepted s = delivered (rn_conv r)" using acc f by simp
  have t: "deliver_inv cfg (start_turn cfg ?s)"
  proof (cases "lp_turns ?s \<ge> lc_max_turns cfg")
    case True
    with a show ?thesis by (simp add: start_turn_def deliver_finish)
  next
    case False
    have "alive (run_emit (TurnStarted n) r)" for n by (rule alive_evolves [OF a evolves_emit]) simp
    with False acc' f show ?thesis by (intro deliver_live) (auto simp: start_turn_def pending_ok_def)
  qed
  have p: "deliver_inv cfg (park since ?s)" if "st = []" "ns = []" for since
  proof (rule deliver_live)
    show "alive (lp_run (park since ?s))" by (rule alive_evolves [OF _ evolves_park]) (simp add: a)
  qed (use acc' f pend that in \<open>auto simp: park_def Let_def wait_for_steer_def pending_ok_def\<close>)
  have c: "deliver_inv cfg (finish_run (Completed (g (assistant_text m))) ?s)"
    if "lc_mode cfg = TextMode g" "lp_pending s = Some m" "is_empty_registry (rn_sup r)" "st = []" "ns = []" for g m
    using that a acc' f pend by (intro deliver_completed) (auto simp: is_empty_registry_def)
  have x: "deliver_inv cfg (finish_run Cancelled s)" using al by (simp add: deliver_finish)
  from t p c x show ?thesis
    by (auto simp: loop_top_def d Let_def split: termination_mode.splits option.splits)
qed

lemma deliver_commit:
  assumes al: "alive (lp_run s)" and pend: "lp_pending s = None"
    and acc: "lp_accepted s = delivered (rn_conv (lp_run s)) @ rh_steers (rn_handle (lp_run s))"
  shows "deliver_inv cfg (commit_turn cfg m u s)"
proof -
  let ?r = "(lp_run s)\<lparr>rn_conv := append_assistant m (rn_conv (lp_run s))\<rparr>"
  let ?s = "s\<lparr>lp_run := ?r, lp_turns := lp_turns s + 1, lp_usage := add_usage (lp_usage s) u\<rparr>"
  have a: "alive ?r" using al by (rule alive_conv)
  have c: "deliver_inv cfg (finish_run (Completed (g (assistant_text m))) ?s)"
    if "lc_mode cfg = TextMode g" "gate_open ?r" "tool_uses m = []" for g
    using that a acc
    by (intro deliver_completed) (auto simp: gate_open_def is_empty_registry_def has_pending_steers_def)
  have l: "deliver_inv cfg (?s\<lparr>lp_pending := p, lp_at_rest := b, lp_pc := AtBoundary [] facts\<rparr>)"
    if "p = None \<or> p = Some m \<and> tool_uses m = []" for p b facts
    using that a acc by (intro deliver_live) (auto simp: pending_ok_def)
  have l': "deliver_inv cfg (?s\<lparr>lp_pc := pc\<rparr>)" for pc
    using a acc pend by (intro deliver_live) (auto simp: pending_ok_def)
  from c l l' show ?thesis
    by (auto simp: commit_turn_def Let_def split: termination_mode.splits)
qed

lemma deliver_return:
  assumes al: "alive (lp_run s)" and pend: "lp_pending s = None"
    and acc: "lp_accepted s = delivered (rn_conv (lp_run s)) @ rh_steers (rn_handle (lp_run s))"
  shows "deliver_inv cfg (batch_return cfg now calls b s)"
proof -
  let ?r = "(lp_run s)\<lparr>rn_conv := append_tool_results (map project_tool_result (normalize_batch now calls (batch_results now b))) (rn_conv (lp_run s))\<rparr>"
  let ?s = "s\<lparr>lp_run := ?r\<rparr>"
  have a: "alive ?r" using al by (rule alive_conv)
  have k: "deliver_inv cfg (finish_run st (?s\<lparr>lp_run := r'\<rparr>))"
    if "take_accepted ?r = (x, r')" "lc_mode cfg = TerminalMode" for st x r'
    using alive_take [OF a that(1)] that by (intro deliver_finish) auto
  have f: "deliver_inv cfg (finish_run st ?s)" if "\<forall>v. st \<noteq> Completed v" for st
    using that a by (intro deliver_finish) auto
  have t: "deliver_inv cfg (loop_top cfg ?s)" using a acc pend by (intro deliver_loop_top) simp_all
  from k f t show ?thesis
    by (auto simp: batch_return_def Let_def split: termination_mode.splits option.splits prod.splits)
qed

lemma disposed_empty:
  "sv_entries s = [] \<Longrightarrow> sv_disposed s \<noteq> None \<Longrightarrow>
   sv_entries (snd (sup_exec x s)) = [] \<and> sv_disposed (snd (sup_exec x s)) \<noteq> None"
  by (cases x) (auto simp: supervisor_defs find_active_def Let_def split: option.splits flight.splits)

lemma host_finished:
  assumes "host_step op s = Some s'" "rh_finished (rn_handle (lp_run s))" "sv_entries (rn_sup (lp_run s)) = []"
    and "sv_disposed (rn_sup (lp_run s)) \<noteq> None"
  shows "lp_accepted s' = lp_accepted s \<and> sv_entries (rn_sup (lp_run s')) = [] \<and> sv_disposed (rn_sup (lp_run s')) \<noteq> None"
proof (cases op)
  case (HostTask t)
  obtain es reg where t: "sup_exec t (rn_sup (lp_run s)) = (es, reg)" by (cases "sup_exec t (rn_sup (lp_run s))")
  with disposed_empty [OF assms(3,4), of t] HostTask assms(1) show ?thesis
    by (auto simp: run_sup_def split: if_splits)
qed (use assms in \<open>auto simp: steer_def notify_def interrupt_def Let_def abort_waits_def change_abort_wait_def
      split: sum.splits if_splits loop_pc.splits\<close>)

lemma deliver_step:
  assumes inv: "core_inv s" and dl: "deliver_inv cfg s" and st: "loop_exec cfg x s = Some s'"
  shows "deliver_inv cfg s'"
proof -
  have al: "lp_pc s \<noteq> LoopFinished \<Longrightarrow> alive (lp_run s)" by (rule core_alive [OF inv])
  have al': "lp_pc s' \<noteq> LoopFinished \<Longrightarrow> alive (lp_run s')" by (rule core_alive [OF core_step [OF inv st]])
  have acc: "lp_pc s \<noteq> LoopFinished \<Longrightarrow> lp_accepted s = delivered (rn_conv (lp_run s)) @ rh_steers (rn_handle (lp_run s))"
    and pend: "lp_pc s \<noteq> LoopFinished \<Longrightarrow> pending_ok s"
    using dl by (auto simp: deliver_inv_def)
  from st show ?thesis
  proof (cases rule: loop_exec_cases)
    case (stream acc' e)
    with al' acc pend show ?thesis
      by (intro deliver_live) (auto simp: provider_event_def pending_ok_def split: llm_stream_event.splits)
  next
    case (throws acc' err)
    with al' acc pend show ?thesis by (intro deliver_live) (auto simp: provider_throws_def pending_ok_def)
  next
    case (caught err)
    with al show ?thesis by (auto simp: classify_loop_error_def intro!: deliver_finish)
  next
    case (commit m u)
    with al acc pend show ?thesis by (simp add: deliver_commit pending_ok_def)
  next
    case (boundary now calls facts)
    let ?r = "notify_all (fst (turn_boundary (ex_hooks (lc_tools cfg)) facts)) (lp_run s)"
    obtain b r where b: "begin_batch (lc_tools cfg) now calls ?r = (b, r)" by (cases "begin_batch (lc_tools cfg) now calls ?r")
    have a: "alive ?r" using al boundary by (simp add: alive_notify)
    have "calm {} ?r r" by (rule calm_begin [OF b])
    then have "deliver_inv cfg (s\<lparr>lp_run := r, lp_pc := InBatch calls b\<rparr>)" if "calls \<noteq> []"
      using that alive_begin [OF a b] acc pend boundary by (intro deliver_live) (auto simp: calm_def pending_ok_def)
    moreover have "deliver_inv cfg (loop_top cfg (s\<lparr>lp_run := ?r\<rparr>))"
      using a acc pend boundary by (intro deliver_loop_top) (auto simp: pending_ok_def)
    ultimately show ?thesis using boundary b by (simp add: boundary_done_def Let_def)
  next
    case (batch y calls b b' r)
    with calm_batch_exec [OF batch(3)] al' acc pend show ?thesis
      by (intro deliver_live) (auto simp: calm_def pending_ok_def)
  next
    case (returns now calls b)
    with al acc pend show ?thesis by (simp add: deliver_return pending_ok_def)
  next
    case (wake w since)
    with al' acc pend show ?thesis by (intro deliver_live) (auto simp: pending_ok_def)
  next
    case resume
    with al acc pend show ?thesis by (simp add: deliver_loop_top pending_ok_def)
  next
    case (host op)
    note f = host_frame [OF host(2)]
    show ?thesis
    proof (cases "lp_pc s = LoopFinished")
      case False
      with f al' acc pend show ?thesis by (intro deliver_live) (auto simp: pending_ok_def)
    next
      case True
      then have fin: "rh_finished (rn_handle (lp_run s))" using inv by (simp add: core_inv_def)
      have "text_done cfg s'"
        unfolding text_done_def
      proof (intro allI impI)
        fix g out v
        assume m: "lc_mode cfg = TextMode g" "rh_outcome (rn_handle (lp_run s')) = Some out" "out_status out = Completed v"
        then have d: "delivered (rn_conv (lp_run s)) = lp_accepted s \<and> sv_entries (rn_sup (lp_run s)) = [] \<and>
            sv_disposed (rn_sup (lp_run s)) \<noteq> None \<and>
            (\<exists>m. rested m (rn_conv (lp_run s)) \<and> v = g (assistant_text m))"
          using dl f by (auto simp: deliver_inv_def text_done_def)
        with host_finished [OF host(2) fin] f
        show "delivered (rn_conv (lp_run s')) = lp_accepted s' \<and> sv_entries (rn_sup (lp_run s')) = [] \<and>
            sv_disposed (rn_sup (lp_run s')) \<noteq> None \<and>
            (\<exists>m. rested m (rn_conv (lp_run s')) \<and> v = g (assistant_text m))" by auto
      qed
      with f True show ?thesis by (simp add: deliver_inv_def)
    qed
  qed
qed

lemma run_init_frame [simp]:
  "rn_conv (run_init ms) = conversation_init ms" "rh_steers (rn_handle (run_init ms)) = []" "rn_accepted (run_init ms) = None"
  by (simp_all add: run_init_def handle_init_def)

lemma deliver_reach: "loop_reach cfg name msgs tr s \<Longrightarrow> deliver_inv cfg s"
proof (induction rule: loop_reach.induct)
  case reach_start
  have "cv_observed (conversation_init ms) = map (UserEntry OriginInitial) ms" for ms
    using append_users_observed [of ms OriginInitial "\<lparr>cv_llm = [], cv_observed = []\<rparr>"]
    by (simp add: conversation_init_def append_users_def)
  moreover have "filter (\<lambda>e. steer_entry e \<noteq> None) (map (UserEntry OriginInitial) ms) = []" for ms by (induction ms) simp_all
  ultimately have "delivered (conversation_init msgs) = []" by (simp add: delivered_def List.map_filter_def)
  then show ?case
    unfolding loop_start_def
    by (intro deliver_loop_top) (simp_all add: alive_init pending_ok_def)
qed (blast intro: deliver_step core_reach)

text \<open>
  C4: in text mode a run completes only at rest: its conversation, in the provider's history as in the
  observer's, ends with a message that the assistant committed and that called no tool, and the
  outcome is the text of that message; every steer it ever accepted has reached the conversation, in
  order; and no background task was left open.
\<close>

theorem text_completion:
  assumes "loop_reach cfg name msgs tr s" and "lc_mode cfg = TextMode f"
    and "rh_outcome (rn_handle (lp_run s)) = Some out" and "out_status out = Completed v"
  shows "delivered (rn_conv (lp_run s)) = lp_accepted s \<and> is_empty_registry (rn_sup (lp_run s)) \<and>
         (\<exists>m es ms. cv_observed (rn_conv (lp_run s)) = es @ [AssistantEntry m] \<and> cv_llm (rn_conv (lp_run s)) = ms @ [m] \<and>
            tool_uses m = [] \<and> v = f (assistant_text m))"
  using deliver_reach [OF assms(1)] assms(2-)
  by (fastforce simp: deliver_inv_def text_done_def is_empty_registry_def rested_def)

section \<open>Terminal mode\<close>

text \<open>The values the host has accepted, in the labels of a run.\<close>

fun accepted_by :: "'o loop_label \<Rightarrow> 'o set" where
  "accepted_by (BatchMove y) = label_values y"
| "accepted_by _ = {}"

definition terminal_inv :: "'o loop_config \<Rightarrow> 'o loop_label list \<Rightarrow> 'o loop_state \<Rightarrow> bool" where
  "terminal_inv cfg tr s =
     ((\<forall>v. rn_accepted (lp_run s) = Some v \<longrightarrow> (\<exists>x \<in> set tr. v \<in> accepted_by x)) \<and>
      (lc_mode cfg = TerminalMode \<longrightarrow>
         (\<forall>out v. rh_outcome (rn_handle (lp_run s)) = Some out \<longrightarrow> out_status out = Completed v \<longrightarrow>
            (\<exists>x \<in> set tr. v \<in> accepted_by x))) \<and>
      (\<forall>calls b. lp_pc s = InBatch calls b \<longrightarrow> batch_reach (lc_tools cfg) calls b (lp_run s)))"

lemma terminal_finish:
  assumes "alive (lp_run s)" "\<forall>v. rn_accepted (lp_run s) = Some v \<longrightarrow> (\<exists>x \<in> set tr. v \<in> accepted_by x)"
    and "\<forall>v. lc_mode cfg = TerminalMode \<longrightarrow> st = Completed v \<longrightarrow> (\<exists>x \<in> set tr. v \<in> accepted_by x)"
  shows "terminal_inv cfg tr (finish_run st s)"
  using assms by (auto simp: terminal_inv_def alive_def)

lemma terminal_live:
  assumes "alive (lp_run s)" "\<forall>v. rn_accepted (lp_run s) = Some v \<longrightarrow> (\<exists>x \<in> set tr. v \<in> accepted_by x)"
    and "\<And>calls b. lp_pc s = InBatch calls b \<Longrightarrow> batch_reach (lc_tools cfg) calls b (lp_run s)"
  shows "terminal_inv cfg tr s"
  using assms by (simp add: terminal_inv_def alive_outcome)

lemma loop_top_pc: "lp_pc (loop_top cfg s) \<noteq> InBatch calls b"
proof -
  obtain st ns r where d: "drain_boundary (lp_run s) = (st, ns, r)" by (cases "drain_boundary (lp_run s)")
  show ?thesis
    by (auto simp: loop_top_def d Let_def start_turn_def park_def split: termination_mode.splits option.splits)
qed

lemma loop_top_accepted [simp]: "rn_accepted (lp_run (loop_top cfg s)) = rn_accepted (lp_run s)"
proof -
  obtain st ns r where d: "drain_boundary (lp_run s) = (st, ns, r)" by (cases "drain_boundary (lp_run s)")
  with drain_frame [OF d] show ?thesis
    by (auto simp: loop_top_def Let_def start_turn_def park_def split: termination_mode.splits option.splits)
qed

text \<open>In terminal mode the head of the loop never completes the run.\<close>

lemma loop_top_outcome:
  assumes "alive (lp_run s)" "lc_mode cfg = TerminalMode" "rh_outcome (rn_handle (lp_run (loop_top cfg s))) = Some out"
  shows "\<forall>v. out_status out \<noteq> Completed v"
proof -
  obtain st ns r where d: "drain_boundary (lp_run s) = (st, ns, r)" by (cases "drain_boundary (lp_run s)")
  have a: "alive r" using alive_evolves [OF assms(1) evolves_drain [OF d]] .
  show ?thesis
    using assms a alive_outcome [OF a] alive_outcome [OF assms(1)]
    by (auto simp: loop_top_def d Let_def start_turn_def park_def wait_for_steer_def alive_def
        split: termination_mode.splits option.splits if_splits)
qed

lemma terminal_loop_top:
  assumes "alive (lp_run s)" "\<forall>v. rn_accepted (lp_run s) = Some v \<longrightarrow> (\<exists>x \<in> set tr. v \<in> accepted_by x)"
  shows "terminal_inv cfg tr (loop_top cfg s)"
  using assms loop_top_outcome [OF assms(1)] by (auto simp: terminal_inv_def loop_top_pc)

lemma host_interferes: "host_step op s = Some s' \<Longrightarrow> interferes (lp_run s) (lp_run s')"
proof -
  assume h: "host_step op s = Some s'"
  have "rh_aborted (rn_handle (lp_run s)) \<longrightarrow> rh_aborted (rn_handle (lp_run s'))"
    using h by (cases op) (auto simp: steer_def notify_def interrupt_def Let_def split: sum.splits if_splits loop_pc.splits)
  with host_frame [OF h] show ?thesis by (simp add: interferes_def run_aborted_def)
qed

lemma normalize_member:
  "r \<in> set (normalize_batch now calls rs) \<Longrightarrow> r \<in> set rs \<or> \<not> res_is_terminal r"
proof -
  assume "r \<in> set (normalize_batch now calls rs)"
  then obtain c :: tool_use where r: "r = (case map_of (rev (map (\<lambda>r. (res_id r, r)) rs)) (use_id c) of Some r \<Rightarrow> r
      | None \<Rightarrow> error_result (use_id c) ''interrupted'' now)"
    by (auto simp: normalize_batch_def Let_def)
  show ?thesis
  proof (cases "map_of (rev (map (\<lambda>r. (res_id r, r)) rs)) (use_id c)")
    case None
    with r show ?thesis by (simp add: error_result_def with_id_def rejected_result_def error_at_def)
  next
    case (Some r')
    then have "(use_id c, r') \<in> set (map (\<lambda>r. (res_id r, r)) rs)" by (metis map_of_SomeD set_rev)
    with Some r show ?thesis by auto
  qed
qed

lemma batch_terminal_accepted:
  assumes "batch_reach ex calls b s" "list_ex res_is_terminal (normalize_batch now cs (batch_results now b))"
  shows "rn_accepted s \<noteq> None"
proof -
  obtain r where "r \<in> set (batch_results now b)" "res_is_terminal r"
    using assms(2) normalize_member by (fastforce simp: list_ex_iff)
  then obtain i where "i < length calls" "res_is_terminal (batch_results now b ! i)"
    using batch_results_length [OF assms(1), of now] by (auto simp: in_set_conv_nth)
  with batch_result_at [OF assms(1)] show ?thesis by blast
qed

lemma terminal_return:
  assumes al: "alive (lp_run s)" and acc: "\<forall>v. rn_accepted (lp_run s) = Some v \<longrightarrow> (\<exists>x \<in> set tr. v \<in> accepted_by x)"
  shows "terminal_inv cfg tr (batch_return cfg now calls b s)"
proof -
  let ?r = "(lp_run s)\<lparr>rn_conv := append_tool_results (map project_tool_result (normalize_batch now calls (batch_results now b))) (rn_conv (lp_run s))\<rparr>"
  let ?s = "s\<lparr>lp_run := ?r\<rparr>"
  have a: "alive ?r" using al by (rule alive_conv)
  have f: "terminal_inv cfg tr (finish_run st ?s)" if "lc_mode cfg \<noteq> TerminalMode \<or> (\<forall>v. st \<noteq> Completed v)" for st
    using a acc that by (intro terminal_finish) auto
  have t: "terminal_inv cfg tr (loop_top cfg ?s)" using a acc by (intro terminal_loop_top) simp_all
  have k: "terminal_inv cfg tr (finish_run (case y of Some v \<Rightarrow> Completed v | None \<Rightarrow> Failed e) (?s\<lparr>lp_run := r'\<rparr>))"
    if "take_accepted ?r = (y, r')" for y r' e
    using alive_take [OF a that] that acc
    by (intro terminal_finish) (auto simp: take_accepted_def split: option.splits)
  show ?thesis
  proof (cases "take_accepted ?r")
    case (Pair y r')
    from k [OF Pair, of unaccepted_terminal] f t Pair show ?thesis
      by (cases y) (simp_all add: batch_return_def Let_def split: termination_mode.splits)
  qed
qed

lemma terminal_exec_inv:
  assumes inv: "core_inv s" and tm: "terminal_inv cfg tr s" and st: "loop_exec cfg x s = Some s'"
  shows "terminal_inv cfg (tr @ [x]) s'"
proof -
  have al: "lp_pc s \<noteq> LoopFinished \<Longrightarrow> alive (lp_run s)" by (rule core_alive [OF inv])
  have al': "lp_pc s' \<noteq> LoopFinished \<Longrightarrow> alive (lp_run s')" by (rule core_alive [OF core_step [OF inv st]])
  have acc: "\<forall>v. rn_accepted (lp_run s) = Some v \<longrightarrow> (\<exists>x \<in> set (tr @ [x]). v \<in> accepted_by x)"
    and bat: "\<And>calls b. lp_pc s = InBatch calls b \<Longrightarrow> batch_reach (lc_tools cfg) calls b (lp_run s)"
    using tm by (auto simp: terminal_inv_def)
  from st show ?thesis
  proof (cases rule: loop_exec_cases)
    case (stream acc' e)
    with al' acc show ?thesis
      by (intro terminal_live) (auto simp: provider_event_def split: llm_stream_event.splits)
  next
    case (throws acc' err)
    with al' acc show ?thesis by (intro terminal_live) (auto simp: provider_throws_def)
  next
    case (caught err)
    with al acc show ?thesis by (auto simp: classify_loop_error_def intro!: terminal_finish split: if_splits)
  next
    case (commit m u)
    have a: "alive ((lp_run s)\<lparr>rn_conv := c\<rparr>)" for c using al commit by (simp add: alive_conv)
    have f: "terminal_inv cfg (tr @ [x]) (finish_run st (s\<lparr>lp_run := (lp_run s)\<lparr>rn_conv := c\<rparr>, lp_turns := n, lp_usage := uu\<rparr>))"
      if "lc_mode cfg = TextMode g" for st c n uu g
      using a acc that by (intro terminal_finish) auto
    have l: "terminal_inv cfg (tr @ [x]) z" if "lp_pc z = AtBoundary cs fs" "lp_run z = (lp_run s)\<lparr>rn_conv := c\<rparr>" for z cs fs c
      using a acc that by (intro terminal_live) auto
    show ?thesis
      unfolding commit(3) commit_turn_def Let_def using f l
      by (auto split: termination_mode.splits)
  next
    case (boundary now calls facts)
    let ?r = "notify_all (fst (turn_boundary (ex_hooks (lc_tools cfg)) facts)) (lp_run s)"
    obtain b r where b: "begin_batch (lc_tools cfg) now calls ?r = (b, r)" by (cases "begin_batch (lc_tools cfg) now calls ?r")
    have a: "alive ?r" using al boundary by (simp add: alive_notify)
    have "calm {} ?r r" by (rule calm_begin [OF b])
    then have "terminal_inv cfg (tr @ [x]) (s\<lparr>lp_run := r, lp_pc := InBatch calls b\<rparr>)"
      using alive_begin [OF a b] acc batch_begin [OF b] by (intro terminal_live) (auto simp: calm_def)
    moreover have "terminal_inv cfg (tr @ [x]) (loop_top cfg (s\<lparr>lp_run := ?r\<rparr>))"
      using a acc by (intro terminal_loop_top) auto
    ultimately show ?thesis using boundary b by (simp add: boundary_done_def Let_def)
  next
    case (batch y calls b b' r)
    have "\<forall>v. rn_accepted r = Some v \<longrightarrow> (\<exists>x \<in> set (tr @ [x]). v \<in> accepted_by x)"
      using calm_batch_exec [OF batch(3)] acc batch(1) by (auto simp: calm_def)
    with batch al' batch_move [OF bat [OF batch(2)] batch(3)] show ?thesis by (intro terminal_live) auto
  next
    case (returns now calls b)
    with al acc show ?thesis by (simp add: terminal_return)
  next
    case (wake w since)
    with al' acc show ?thesis by (intro terminal_live) auto
  next
    case resume
    with al acc show ?thesis by (simp add: terminal_loop_top)
  next
    case (host op)
    note f = host_frame [OF host(2)]
    have "batch_reach (lc_tools cfg) calls b (lp_run s')" if "lp_pc s = InBatch calls b" for calls b
      by (rule batch_interference [OF bat [OF that] host_interferes [OF host(2)]])
    with f tm show ?thesis by (auto simp: terminal_inv_def)
  qed
qed

lemma terminal_reach: "loop_reach cfg name msgs tr s \<Longrightarrow> terminal_inv cfg tr s"
proof (induction rule: loop_reach.induct)
  case reach_start
  then show ?case unfolding loop_start_def by (rule terminal_loop_top) (simp_all add: alive_init)
qed (blast intro: terminal_exec_inv core_reach)

text \<open>
  C5: in terminal mode a run completes only with a value its host accepted in answer to a
  submission of that run, and a batch that holds a terminal result always has one to complete
  with: the internal failure the code keeps for that case is never reached.
\<close>

theorem terminal_completion:
  assumes "loop_reach cfg name msgs tr s" and "lc_mode cfg = TerminalMode"
  shows "(\<forall>out v. rh_outcome (rn_handle (lp_run s)) = Some out \<longrightarrow> out_status out = Completed v \<longrightarrow>
            (\<exists>x \<in> set tr. v \<in> accepted_by x)) \<and>
         (\<forall>calls b now. lp_pc s = InBatch calls b \<longrightarrow>
            list_ex res_is_terminal (normalize_batch now calls (batch_results now b)) \<longrightarrow>
            (\<exists>v. rh_outcome (rn_handle (lp_run (batch_return cfg now calls b s))) =
               Some \<lparr>out_usage = lp_usage s, out_turns = lp_turns s, out_status = Completed v\<rparr>))"
proof (intro conjI allI impI)
  show "\<exists>x \<in> set tr. v \<in> accepted_by x"
    if "rh_outcome (rn_handle (lp_run s)) = Some out" "out_status out = Completed v" for out v
    using terminal_reach [OF assms(1)] assms(2) that by (auto simp: terminal_inv_def)
next
  fix calls b now
  assume pc: "lp_pc s = InBatch calls b" and t: "list_ex res_is_terminal (normalize_batch now calls (batch_results now b))"
  have "batch_reach (lc_tools cfg) calls b (lp_run s)" using terminal_reach [OF assms(1)] pc by (simp add: terminal_inv_def)
  then obtain v where v: "rn_accepted (lp_run s) = Some v" using batch_terminal_accepted t by fastforce
  have "\<not> rh_finished (rn_handle (lp_run s))" using core_reach [OF assms(1)] pc by (simp add: core_inv_def)
  with t v assms(2) show "\<exists>v. rh_outcome (rn_handle (lp_run (batch_return cfg now calls b s))) =
      Some \<lparr>out_usage = lp_usage s, out_turns = lp_turns s, out_status = Completed v\<rparr>"
    by (simp add: batch_return_def Let_def take_accepted_def)
qed

end
