(* ===== verification/LoopExamples.thy ===== *)
theory LoopExamples
  imports LoopProps
begin

text \<open>
  Concrete runs: the witnesses of the loop's properties, and the two windows of the terminal
  submission in which the code does not keep what its comments promise.
\<close>

definition sample_turn :: turn_config where
  "sample_turn = \<lparr>tc_model = ''m'', tc_system_prompt = None, tc_max_tokens = 10, tc_reasoning_effort = None\<rparr>"

definition text_config :: "string loop_config" where
  "text_config = \<lparr>lc_tools = build_tool_executor (make_hook_engine []) [] None, lc_turn = sample_turn,
     lc_max_turns = 2, lc_terminal_name = None, lc_mode = TextMode id\<rparr>"

definition terminal_config :: "json loop_config" where
  "terminal_config = \<lparr>lc_tools = sample_executor, lc_turn = sample_turn,
     lc_max_turns = 2, lc_terminal_name = Some ''submit'', lc_mode = TerminalMode\<rparr>"

definition reply :: "content_block list \<Rightarrow> 'o loop_label" where
  "reply bs = ProviderEvent (AssistantMessageComplete \<lparr>msg_role = Assistant, msg_content = bs\<rparr> zero_usage None)"

definition sample_obs_at :: "json verdict \<Rightarrow> json call_obs" where
  "sample_obs_at v = \<lparr>co_now = 7, co_exec = \<lparr>xo_result = Inl [], xo_reject_at = 7, xo_start = 7, xo_end = 8\<rparr>, co_verdict = Inr v\<rparr>"

definition start_messages :: "message list" where
  "start_messages = [user_text ''hi'']"

definition text_start :: "string loop_state" where
  "text_start = loop_start text_config ''agent'' start_messages"

definition terminal_start :: "json loop_state" where
  "terminal_start = loop_start terminal_config ''agent'' start_messages"

text \<open>A run that parks on an open task, is woken by a steer, and completes after its second turn.\<close>

definition parking_run :: "string loop_label list" where
  "parking_run =
     [Host (HostTask (Register ''t1'' 0 \<lparr>tag_type = ''job'', tag_id = ''1''\<rparr> ''a job'' True)),
      reply [TextBlock ''working''], CommitTurn, BoundaryDone 1, Host (HostSteer (user_text ''and?''))]"

definition text_run :: "string loop_label list" where
  "text_run = parking_run @
     [Wake, Resume, Host (HostTask (SettleTask ''t1'' \<lparr>to_status = TaskSuccess, to_outcome = ''ok''\<rparr>)),
      reply [TextBlock ''done''], CommitTurn]"

text \<open>A submission up to the post hooks, and the rest of it.\<close>

definition submission :: "json loop_label list" where
  "submission =
     [reply [ToolUseBlock ''c1'' ''submit'' []], CommitTurn, BoundaryDone 1, BatchMove (LanesSettled 2),
      BatchMove (TerminalStep (sample_obs_at (Reject [])))]"

definition acceptance :: "json loop_label list" where
  "acceptance = [BatchMove (TerminalStep (sample_obs_at (Accept (JStr ''v'')))), BatchReturn 9]"

definition latched :: "json loop_label" where
  "latched = BatchMove (TerminalStep (sample_obs_at (Reject [])))"

definition summary :: "'o loop_state \<Rightarrow> 'o run_status option \<times> message list \<times> message list" where
  "summary s =
     (map_option out_status (rh_outcome (rn_handle (lp_run s))), lp_accepted s, delivered (rn_conv (lp_run s)))"

fun parked_as :: "'o loop_pc \<Rightarrow> (nat \<times> nat) option" where
  "parked_as (Parked w since) = Some (w, since)"
| "parked_as _ = None"

lemma parked_as_Some: "parked_as pc = Some (w, since) \<longleftrightarrow> pc = Parked w since"
  by (cases pc) auto

lemma parking_run_parks:
  "\<exists>s. loop_execs text_config parking_run text_start = Some s \<and> lp_pc s = Parked 0 0 \<and> rh_steers (rn_handle (lp_run s)) = [user_text ''and?'']"
proof -
  have "map_option (\<lambda>s. (parked_as (lp_pc s), rh_steers (rn_handle (lp_run s))))
      (loop_execs text_config parking_run text_start) = Some (Some (0, 0), [user_text ''and?''])"
    by code_simp
  then show ?thesis by (auto simp: parked_as_Some)
qed

lemma text_run_completes:
  "\<exists>s. loop_execs text_config text_run text_start = Some s \<and> summary s = (Some (Completed ''done''), [user_text ''and?''], [user_text ''and?''])"
proof -
  have "map_option summary (loop_execs text_config text_run text_start) =
      Some (Some (Completed ''done''), [user_text ''and?''], [user_text ''and?''])"
    by code_simp
  then show ?thesis by auto
qed

lemma terminal_run_completes:
  "\<exists>s. loop_execs terminal_config (submission @ [latched] @ acceptance) terminal_start = Some s \<and>
       summary s = (Some (Completed (JStr ''v'')), [], [])"
proof -
  have "map_option summary (loop_execs terminal_config (submission @ [latched] @ acceptance) terminal_start) =
      Some (Some (Completed (JStr ''v'')), [], [])"
    by code_simp
  then show ?thesis by auto
qed

lemma text_reach: "loop_execs text_config xs text_start = Some s \<Longrightarrow> loop_reach text_config ''agent'' start_messages xs s"
  using loop_execs_reach [OF reach_start, of text_config xs "''agent''" start_messages s] by (simp add: text_start_def)

lemma terminal_reached:
  "loop_execs terminal_config xs terminal_start = Some s \<Longrightarrow> loop_reach terminal_config ''agent'' start_messages xs s"
  using loop_execs_reach [OF reach_start, of terminal_config xs "''agent''" start_messages s] by (simp add: terminal_start_def)

section \<open>Witnesses\<close>

theorem loop_finishes_once_witness:
  "\<exists>s. loop_reach text_config ''agent'' start_messages text_run s \<and> rh_outcome (rn_handle (lp_run s)) \<noteq> None
     \<and> lp_pc s = LoopFinished \<and> length (lp_requests s) \<le> 2"
proof -
  obtain s where e: "loop_execs text_config text_run text_start = Some s" and o: "rh_outcome (rn_handle (lp_run s)) \<noteq> None"
    using text_run_completes by (auto simp: summary_def)
  from loop_finishes_once [OF text_reach [OF e]] o text_reach [OF e] show ?thesis by (auto simp: text_config_def)
qed

theorem requests_answer_every_call_witness:
  "\<exists>s. loop_reach terminal_config ''agent'' start_messages (submission @ [latched] @ acceptance) s
     \<and> answered (cv_llm (rn_conv (lp_run s)))"
proof -
  let ?xs = "submission @ [latched] @ acceptance"
  obtain s where e: "loop_execs terminal_config ?xs terminal_start = Some s"
    and o: "rh_outcome (rn_handle (lp_run s)) \<noteq> None"
    using terminal_run_completes by (auto simp: summary_def)
  have st: "answered start_messages" by (simp add: start_messages_def user_text_def)
  have "lp_pc s = LoopFinished"
    using core_reach [OF terminal_reached [OF e]] o by (auto simp: core_inv_def handle_inv_def split: if_splits)
  with requests_answer_every_call [OF terminal_reached [OF e] st] terminal_reached [OF e] show ?thesis by blast
qed

theorem parked_run_wakes_witness:
  "\<exists>s s'. loop_reach text_config ''agent'' start_messages parking_run s \<and> lp_pc s = Parked 0 0
     \<and> loop_exec text_config Wake s = Some s'"
proof -
  obtain s where e: "loop_execs text_config parking_run text_start = Some s" and p: "lp_pc s = Parked 0 0"
    and q: "rh_steers (rn_handle (lp_run s)) = [user_text ''and?'']"
    using parking_run_parks by blast
  from parked_run_wakes [OF text_reach [OF e] p] q p text_reach [OF e] show ?thesis by auto
qed

theorem text_completion_witness:
  "\<exists>s. loop_reach text_config ''agent'' start_messages text_run s \<and> lp_accepted s = [user_text ''and?'']
     \<and> delivered (rn_conv (lp_run s)) = lp_accepted s \<and> is_empty_registry (rn_sup (lp_run s))
     \<and> (\<exists>m es. cv_observed (rn_conv (lp_run s)) = es @ [AssistantEntry m] \<and> assistant_text m = ''done'')"
proof -
  obtain s out where e: "loop_execs text_config text_run text_start = Some s"
    and o: "rh_outcome (rn_handle (lp_run s)) = Some out" "out_status out = Completed ''done''"
    and acc: "lp_accepted s = [user_text ''and?'']"
    using text_run_completes by (auto simp: summary_def)
  have "lc_mode text_config = TextMode id" by (simp add: text_config_def)
  from text_completion [OF text_reach [OF e] this o] acc text_reach [OF e] show ?thesis by auto
qed

theorem terminal_completion_witness:
  "\<exists>s out. loop_reach terminal_config ''agent'' start_messages (submission @ [latched] @ acceptance) s
     \<and> rh_outcome (rn_handle (lp_run s)) = Some out \<and> out_status out = Completed (JStr ''v'')
     \<and> (\<exists>x \<in> set (submission @ [latched] @ acceptance). JStr ''v'' \<in> accepted_by x)"
proof -
  let ?xs = "submission @ [latched] @ acceptance"
  obtain s out where e: "loop_execs terminal_config ?xs terminal_start = Some s"
    and o: "rh_outcome (rn_handle (lp_run s)) = Some out" "out_status out = Completed (JStr ''v'')"
    using terminal_run_completes by (auto simp: summary_def)
  have m: "lc_mode terminal_config = TerminalMode" by (simp add: terminal_config_def)
  from terminal_completion [OF terminal_reached [OF e] m] o terminal_reached [OF e] show ?thesis by blast
qed

section \<open>Two windows\<close>

text \<open>
  The gate is read before the post hooks are awaited, the latch that refuses steers is set
  after them. A steer that arrives in between is answered \<open>true\<close>, and when the host then accepts
  the submission the run completes without that steer ever reaching the conversation: accepted
  but dropped.
\<close>

lemma commit_window_drops_steer:
  "\<exists>s. loop_reach terminal_config ''agent'' start_messages
         (submission @ [Host (HostSteer (user_text ''wait!'')), latched] @ acceptance) s \<and>
       summary s = (Some (Completed (JStr ''v'')), [user_text ''wait!''], []) \<and> rh_steers (rn_handle (lp_run s)) = []"
proof -
  let ?xs = "submission @ [Host (HostSteer (user_text ''wait!'')), latched] @ acceptance"
  have "map_option (\<lambda>s. (summary s, rh_steers (rn_handle (lp_run s)))) (loop_execs terminal_config ?xs terminal_start) =
      Some ((Some (Completed (JStr ''v'')), [user_text ''wait!''], []), [])"
    by code_simp
  then obtain s where "loop_execs terminal_config ?xs terminal_start = Some s"
    "summary s = (Some (Completed (JStr ''v'')), [user_text ''wait!''], [])" "rh_steers (rn_handle (lp_run s)) = []" by auto
  with terminal_reached show ?thesis by blast
qed

text \<open>
  An interrupt while the host decides on a submission does stop the finish: the host has
  accepted the value and committed to it, the executor drops the late result, and the run
  ends cancelled with the accepted value left unread.
\<close>

lemma interrupt_discards_acceptance:
  "\<exists>s. loop_reach terminal_config ''agent'' start_messages
         (submission @ [latched, Host HostInterrupt] @ acceptance) s \<and>
       summary s = (Some Cancelled, [], []) \<and> rn_accepted (lp_run s) = Some (JStr ''v'')"
proof -
  let ?xs = "submission @ [latched, Host HostInterrupt] @ acceptance"
  have "map_option (\<lambda>s. (summary s, rn_accepted (lp_run s))) (loop_execs terminal_config ?xs terminal_start) =
      Some ((Some Cancelled, [], []), Some (JStr ''v''))"
    by code_simp
  then obtain s where "loop_execs terminal_config ?xs terminal_start = Some s"
    "summary s = (Some Cancelled, [], [])" "rn_accepted (lp_run s) = Some (JStr ''v'')" by auto
  with terminal_reached show ?thesis by blast
qed

end
