(* ===== verification/Access.thy ===== *)
theory Access
  imports Wire LlmTypes Json "HOL-Library.List_Lexorder" "HOL-Library.Char_ord"
begin

text \<open>
  Connections and credentials: the access schemes (\<open>llm-client/access/*.ts\<close>), the resolution of
  a provider profile (\<open>profiles.ts\<close>, \<open>factory.ts\<close>) and the registry of named models
  (\<open>registry.ts\<close>). \<open>decode\<close> stands for JSON.parse of the base64url-decoded token payload.
\<close>

section \<open>Secrets\<close>

text \<open>\<open>SecretString\<close>: every rendering of the wrapper is the same constant.\<close>

datatype secret = Secret (expose: string)

definition render_secret :: "secret \<Rightarrow> string" where
  "render_secret _ = ''[redacted]''"

section \<open>Access schemes\<close>

datatype credential_kind = ApiKeyCredential | BearerCredential

record access =
  ac_base_url :: string
  ac_kind :: credential_kind
  ac_secret :: secret
  ac_headers :: "(string \<times> string) list"

definition api_key_access :: "string \<Rightarrow> secret \<Rightarrow> access" where
  "api_key_access url key = \<lparr>ac_base_url = url, ac_kind = ApiKeyCredential, ac_secret = key, ac_headers = []\<rparr>"

definition CLAUDE_CODING_PLAN_HEADERS :: "(string \<times> string) list" where
  "CLAUDE_CODING_PLAN_HEADERS =
     [(''anthropic-beta'', ''claude-code-20250219,oauth-2025-04-20''),
      (''anthropic-dangerous-direct-browser-access'', ''true''),
      (''user-agent'', ''claude-cli/2.1.75''),
      (''x-app'', ''cli'')]"

definition claude_coding_plan_access :: "string \<Rightarrow> secret \<Rightarrow> access" where
  "claude_coding_plan_access url token =
     \<lparr>ac_base_url = url, ac_kind = BearerCredential, ac_secret = token, ac_headers = CLAUDE_CODING_PLAN_HEADERS\<rparr>"

section \<open>The claims of a Codex token\<close>

definition OPENAI_AUTH_CLAIM :: string where
  "OPENAI_AUTH_CLAIM = ''https://api.openai.com/auth''"

record auth_claim =
  cl_account :: "string option"
  cl_fedramp :: bool

definition base64url_char :: "char \<Rightarrow> bool" where
  "base64url_char c =
     (let n = of_char c :: nat in
      65 \<le> n \<and> n \<le> 90 \<or> 97 \<le> n \<and> n \<le> 122 \<or> 48 \<le> n \<and> n \<le> 57 \<or> c = CHR ''_'' \<or> c = CHR ''-'')"

text \<open>A claim object: the optional account id is a string, the flag a boolean or absent.\<close>

definition parse_auth_claim :: "json \<Rightarrow> auth_claim option" where
  "parse_auth_claim v =
     (case v of
        JObj kvs \<Rightarrow>
          (case (map_of kvs ''chatgpt_account_id'', map_of kvs ''chatgpt_account_is_fedramp'') of
             (None, None) \<Rightarrow> Some \<lparr>cl_account = None, cl_fedramp = False\<rparr>
           | (None, Some (JBool b)) \<Rightarrow> Some \<lparr>cl_account = None, cl_fedramp = b\<rparr>
           | (Some (JStr a), None) \<Rightarrow> Some \<lparr>cl_account = Some a, cl_fedramp = False\<rparr>
           | (Some (JStr a), Some (JBool b)) \<Rightarrow> Some \<lparr>cl_account = Some a, cl_fedramp = b\<rparr>
           | _ \<Rightarrow> None)
      | _ \<Rightarrow> None)"

text \<open>\<open>CodexAccessClaimsSchema\<close>: an object whose auth claim is absent or well formed.\<close>

definition parse_claims :: "json \<Rightarrow> auth_claim option option" where
  "parse_claims v =
     (case v of
        JObj kvs \<Rightarrow>
          (case map_of kvs OPENAI_AUTH_CLAIM of
             None \<Rightarrow> Some None
           | Some c \<Rightarrow> map_option Some (parse_auth_claim c))
      | _ \<Rightarrow> None)"

definition request_error :: "string \<Rightarrow> provider_error" where
  "request_error msg = plain_error RequestError msg None"

definition codex_access_claims :: "(string \<Rightarrow> json option) \<Rightarrow> string \<Rightarrow> provider_error + (string \<times> bool)" where
  "codex_access_claims decode token =
     (case split_on CHR ''.'' token of
        _ # payload # _ \<Rightarrow>
          (if payload = [] then Inl (request_error ''codex access token is not a jwt'')
           else if \<not> list_all base64url_char payload
           then Inl (request_error ''codex access token payload is not base64url'')
           else case (case decode payload of None \<Rightarrow> None | Some v \<Rightarrow> parse_claims v) of
                  None \<Rightarrow> Inl (request_error ''codex access token payload is not json'')
                | Some None \<Rightarrow> Inl (request_error (''codex access token missing '' @ OPENAI_AUTH_CLAIM @ '' claim''))
                | Some (Some auth) \<Rightarrow>
                    (case cl_account auth of
                       None \<Rightarrow> Inl (request_error ''codex access token missing chatgpt_account_id claim'')
                     | Some a \<Rightarrow>
                         (if trim a = [] then Inl (request_error ''codex access token missing chatgpt_account_id claim'')
                          else Inr (a, cl_fedramp auth))))
      | _ \<Rightarrow> Inl (request_error ''codex access token is not a jwt''))"

definition codex_coding_plan_access :: "(string \<Rightarrow> json option) \<Rightarrow> string \<Rightarrow> secret \<Rightarrow> provider_error + access" where
  "codex_coding_plan_access decode url token =
     (case codex_access_claims decode (expose token) of
        Inl e \<Rightarrow> Inl e
      | Inr (account, fedramp) \<Rightarrow>
          Inr \<lparr>ac_base_url = url, ac_kind = BearerCredential, ac_secret = token,
               ac_headers = (''chatgpt-account-id'', account) #
                 (if fedramp then [(''x-openai-fedramp'', ''true'')] else [])\<rparr>)"

section \<open>Profiles\<close>

datatype provider = AnthropicApi | OpenAiApi | ClaudeCodingPlan | CodexCodingPlan

record connection =
  cn_provider :: provider
  cn_base_url :: "string option"
  cn_secret :: secret

fun default_base_url :: "provider \<Rightarrow> string" where
  "default_base_url AnthropicApi = ''https://api.anthropic.com''"
| "default_base_url OpenAiApi = ''https://api.openai.com/v1''"
| "default_base_url ClaudeCodingPlan = ''https://api.anthropic.com''"
| "default_base_url CodexCodingPlan = ''https://chatgpt.com/backend-api/codex''"

datatype wire_kind = AnthropicMessages | OpenAiResponses

record resolved_profile =
  rp_wire :: wire_kind
  rp_options :: wire_options
  rp_access :: access

definition CLAUDE_CODE_SYSTEM_PREFIX :: string where
  "CLAUDE_CODE_SYSTEM_PREFIX = ''You are Claude Code, Anthropic'' @ [CHR 0x27] @ ''s official CLI for Claude.''"

definition resolve_profile :: "(string \<Rightarrow> json option) \<Rightarrow> connection \<Rightarrow> provider_error + resolved_profile" where
  "resolve_profile decode c =
     (let url = or_default (cn_base_url c) (default_base_url (cn_provider c)) in
      case cn_provider c of
        AnthropicApi \<Rightarrow>
          Inr \<lparr>rp_wire = AnthropicMessages, rp_options = \<lparr>wo_system_prefix = None, wo_dialect = None\<rparr>,
               rp_access = api_key_access url (cn_secret c)\<rparr>
      | OpenAiApi \<Rightarrow>
          Inr \<lparr>rp_wire = OpenAiResponses, rp_options = \<lparr>wo_system_prefix = None, wo_dialect = Some PublicDialect\<rparr>,
               rp_access = api_key_access url (cn_secret c)\<rparr>
      | ClaudeCodingPlan \<Rightarrow>
          Inr \<lparr>rp_wire = AnthropicMessages,
               rp_options = \<lparr>wo_system_prefix = Some CLAUDE_CODE_SYSTEM_PREFIX, wo_dialect = None\<rparr>,
               rp_access = claude_coding_plan_access url (cn_secret c)\<rparr>
      | CodexCodingPlan \<Rightarrow>
          and_then (codex_coding_plan_access decode url (cn_secret c))
            (\<lambda>a. Inr \<lparr>rp_wire = OpenAiResponses,
                      rp_options = \<lparr>wo_system_prefix = None, wo_dialect = Some CodexDialect\<rparr>, rp_access = a\<rparr>))"

section \<open>The registry of named models\<close>

text \<open>A client is one built from a connection, or one that the host injected.\<close>

datatype 'c client = Connected resolved_profile | Injected 'c

definition create_llm_client :: "(string \<Rightarrow> json option) \<Rightarrow> connection \<Rightarrow> provider_error + 'c client" where
  "create_llm_client decode c = and_then (resolve_profile decode c) (\<lambda>p. Inr (Connected p))"

datatype 'c profile_source = ViaConnection connection | ViaClient 'c

record 'c llm_profile =
  pf_model :: string
  pf_effort :: "reasoning_effort option"
  pf_max_tokens :: "nat option"
  pf_source :: "'c profile_source"

record 'c resolved_llm =
  rl_client :: "'c client"
  rl_model :: string
  rl_max_tokens :: nat
  rl_effort :: "reasoning_effort option"

definition resolve_llm :: "(string \<Rightarrow> json option) \<Rightarrow> 'c llm_profile \<Rightarrow> provider_error + 'c resolved_llm" where
  "resolve_llm decode p =
     and_then (case pf_source p of ViaClient c \<Rightarrow> Inr (Injected c) | ViaConnection cn \<Rightarrow> create_llm_client decode cn)
       (\<lambda>c. Inr \<lparr>rl_client = c, rl_model = pf_model p,
                 rl_max_tokens = or_default (pf_max_tokens p) DEFAULT_MAX_TOKENS, rl_effort = pf_effort p\<rparr>)"

text \<open>\<open>Object.entries\<close> order; the keys of a record are distinct. The first bad profile throws.\<close>

fun build_llm_registry :: "(string \<Rightarrow> json option) \<Rightarrow> (string \<times> 'c llm_profile) list \<Rightarrow>
    provider_error + (string \<times> 'c resolved_llm) list" where
  "build_llm_registry decode [] = Inr []"
| "build_llm_registry decode ((ref, p) # ps) =
     and_then (resolve_llm decode p)
       (\<lambda>r. and_then (build_llm_registry decode ps) (\<lambda>rs. Inr ((ref, r) # rs)))"

definition require_llm :: "(string \<times> 'c resolved_llm) list \<Rightarrow> string \<Rightarrow> string + 'c resolved_llm" where
  "require_llm reg ref =
     (case map_of reg ref of
        Some r \<Rightarrow> Inr r
      | None \<Rightarrow>
          (let known = join_with '', '' (map fst reg) in
           Inl (''unknown llm ref \"'' @ ref @ ''\" (configured: '' @ (if known = [] then ''none'' else known) @ '')'')))"

lemma registry_keys: "build_llm_registry decode ps = Inr reg \<Longrightarrow> map fst reg = map fst ps"
  by (induction ps arbitrary: reg) (auto simp: and_then_Inr_iff)

lemma registry_resolves:
  "build_llm_registry decode ps = Inr reg \<Longrightarrow> map_of ps ref = Some p \<Longrightarrow> \<exists>r. map_of reg ref = Some r \<and> resolve_llm decode p = Inr r"
  by (induction ps arbitrary: reg) (auto simp: and_then_Inr_iff split: if_splits)

end
