(* ===== verification/AgentRuntime.thy ===== *)
theory AgentRuntime
  imports Access AgentLoop
begin

text \<open>
  The construction of agents and runs (\<open>agents/agent-runtime.ts\<close>): the process-level
  configuration, the validation of an agent template, and the assembly of a run. The run's
  live state and wiring are in \<open>RunState\<close>, its loop in \<open>AgentLoop\<close>.
\<close>

definition DEFAULT_MAX_TURNS :: nat where
  "DEFAULT_MAX_TURNS = 32"

definition DEFAULT_TASK_COMPLETION_TIMEOUT_MS :: nat where
  "DEFAULT_TASK_COMPLETION_TIMEOUT_MS = 30000"

record 'c agent_runtime_config =
  rc_llm_clients :: "(string \<times> 'c llm_profile) list"
  rc_hooks :: "hook_entry list"
  rc_task_timeout :: "nat option"

record 'c agent_runtime =
  ar_registry :: "(string \<times> 'c resolved_llm) list"
  ar_hooks :: "hook_entry list"
  ar_task_timeout :: nat

definition create_agent_runtime :: "(string \<Rightarrow> json option) \<Rightarrow> 'c agent_runtime_config \<Rightarrow> provider_error + 'c agent_runtime" where
  "create_agent_runtime decode cfg =
     and_then (build_llm_registry decode (rc_llm_clients cfg))
       (\<lambda>reg. Inr \<lparr>ar_registry = reg, ar_hooks = rc_hooks cfg,
                   ar_task_timeout = or_default (rc_task_timeout cfg) DEFAULT_TASK_COMPLETION_TIMEOUT_MS\<rparr>)"

section \<open>Agents\<close>

record 'o agent_spec =
  as_name :: string
  as_llm :: string
  as_system_prompt :: string
  as_tools :: "tool_def list"
  as_outcome :: "'o outcome_fn option"
  as_max_turns :: "nat option"
  as_hooks :: "hook_entry list"

text \<open>\<open>validateToolNames\<close>: the names seen so far and those seen twice, in insertion order.\<close>

definition see_name :: "string \<Rightarrow> string list \<times> string list \<Rightarrow> string list \<times> string list" where
  "see_name n sd =
     (case sd of (seen, dup) \<Rightarrow>
        (List.insert n seen, if n \<in> set seen then List.insert n dup else dup))"

definition duplicated_names :: "string list \<Rightarrow> string option \<Rightarrow> string list" where
  "duplicated_names names terminal =
     (case fold see_name names ([], []) of (seen, dup) \<Rightarrow>
        (case terminal of
           Some t \<Rightarrow> if t \<in> set seen then List.insert t dup else dup
         | None \<Rightarrow> dup))"

definition validate_tool_names :: "tool_def list \<Rightarrow> string option \<Rightarrow> string + unit" where
  "validate_tool_names tools terminal =
     (let dup = duplicated_names (map td_name tools) terminal in
      if dup \<noteq> [] then Inl (''duplicate tool name(s): '' @ join_with '', '' (sort dup)) else Inr ())"

record ('o, 'c) agent =
  ag_spec :: "'o agent_spec"
  ag_llm :: "'c resolved_llm"
  ag_hooks :: hook_engine

definition create_agent :: "'c agent_runtime \<Rightarrow> 'o agent_spec \<Rightarrow> string + ('o, 'c) agent" where
  "create_agent rt spec =
     and_then (require_llm (ar_registry rt) (as_llm spec))
       (\<lambda>llm. and_then (validate_tool_names (as_tools spec) (map_option of_name (as_outcome spec)))
          (\<lambda>_. Inr \<lparr>ag_spec = spec, ag_llm = llm, ag_hooks = make_hook_engine (ar_hooks rt @ as_hooks spec)\<rparr>))"

section \<open>Runs\<close>

datatype start_error = NoMessages

definition agent_tools :: "('o, 'c) agent \<Rightarrow> 'o executor" where
  "agent_tools a = build_tool_executor (ag_hooks a) (as_tools (ag_spec a)) (as_outcome (ag_spec a))"

text \<open>The loop's configuration; \<open>cast\<close> is the text mode's cast of a string to the outcome type.\<close>

definition run_config :: "(string \<Rightarrow> 'o) \<Rightarrow> ('o, 'c) agent \<Rightarrow> 'o loop_config" where
  "run_config cast a = \<lparr>
     lc_tools = agent_tools a,
     lc_turn = \<lparr>tc_model = rl_model (ag_llm a), tc_system_prompt = Some (as_system_prompt (ag_spec a)),
                tc_max_tokens = rl_max_tokens (ag_llm a), tc_reasoning_effort = rl_effort (ag_llm a)\<rparr>,
     lc_max_turns = or_default (as_max_turns (ag_spec a)) DEFAULT_MAX_TURNS,
     lc_terminal_name = map_option of_name (as_outcome (ag_spec a)),
     lc_mode = (case as_outcome (ag_spec a) of None \<Rightarrow> TextMode cast | Some _ \<Rightarrow> TerminalMode)\<rparr>"

definition start_run :: "(string \<Rightarrow> 'o) \<Rightarrow> ('o, 'c) agent \<Rightarrow> message list \<Rightarrow> start_error + 'o loop_state" where
  "start_run cast a msgs =
     (if msgs = [] then Inl NoMessages
      else Inr (loop_start (run_config cast a) (as_name (ag_spec a)) msgs))"

section \<open>No tool is shadowed\<close>

lemma see_names:
  "fold see_name names (seen, dup) = (seen', dup') \<Longrightarrow>
   set seen' = set seen \<union> set names \<and>
   (dup' = [] \<longleftrightarrow> dup = [] \<and> distinct names \<and> set names \<inter> set seen = {})"
proof (induction names arbitrary: seen dup)
  case (Cons n names)
  then have "fold see_name names (List.insert n seen, if n \<in> set seen then List.insert n dup else dup) = (seen', dup')"
    by (simp add: see_name_def [of n "(seen, dup)"])
  from Cons.IH [OF this] show ?case by (auto simp: List.insert_def split: if_splits)
qed simp

lemma duplicated_names_Nil:
  "duplicated_names names terminal = [] \<longleftrightarrow>
   distinct names \<and> (\<forall>t. terminal = Some t \<longrightarrow> t \<notin> set names)"
proof -
  obtain seen dup where f: "fold see_name names ([], []) = (seen, dup)" by (cases "fold see_name names ([], [])")
  from see_names [OF f] show ?thesis
    by (auto simp: duplicated_names_def f List.insert_def split: option.splits)
qed

text \<open>The registry a spec builds, before it is sorted.\<close>

definition bound_tools :: "'o agent_spec \<Rightarrow> 'o bound_tool list" where
  "bound_tools spec = map BoundTool (as_tools spec) @ (case as_outcome spec of None \<Rightarrow> [] | Some f \<Rightarrow> [BoundTerminal f])"

lemma build_tools: "ex_tools (build_tool_executor he (as_tools spec) (as_outcome spec)) = sort_by_name (bound_tools spec)"
  by (simp add: build_tool_executor_def bound_tools_def Let_def split: option.splits)

lemma bound_names: "map bound_name (bound_tools spec) = map td_name (as_tools spec) @ (case as_outcome spec of None \<Rightarrow> [] | Some f \<Rightarrow> [of_name f])"
  by (simp add: bound_tools_def comp_def split: option.splits)

lemma creatable:
  "is_ok (create_agent rt spec) \<longleftrightarrow> map_of (ar_registry rt) (as_llm spec) \<noteq> None \<and> distinct (map bound_name (bound_tools spec))"
proof -
  have v: "validate_tool_names (as_tools spec) (map_option of_name (as_outcome spec)) = Inr u \<longleftrightarrow>
      distinct (map bound_name (bound_tools spec))" for u
    using duplicated_names_Nil [of "map td_name (as_tools spec)" "map_option of_name (as_outcome spec)"]
    by (auto simp: validate_tool_names_def Let_def bound_names split: option.splits)
  have r: "(\<exists>l. require_llm reg ref = Inr l) \<longleftrightarrow> map_of reg ref \<noteq> None" for reg :: "(string \<times> 'c resolved_llm) list" and ref
    by (auto simp: require_llm_def Let_def split: option.splits)
  have ok: "is_ok x \<longleftrightarrow> (\<exists>y. x = Inr y)" for x :: "'x + 'y" by (cases x) auto
  show ?thesis unfolding ok create_agent_def and_then_Inr_iff r [symmetric] v by auto
qed

text \<open>
  C10: an agent can be created exactly when its model reference is configured and no two of its
  tools, the terminal tool included, share a name; then every one of its tools is found under
  its own name at dispatch, so none is shadowed, and the specs the provider sees are sorted by
  name.
\<close>

theorem agent_creation:
  "(is_ok (create_agent rt spec) \<longleftrightarrow>
      map_of (ar_registry rt) (as_llm spec) \<noteq> None \<and> distinct (map bound_name (bound_tools spec))) \<and>
   (\<forall>a. create_agent rt spec = Inr a \<longrightarrow>
      (\<forall>t \<in> set (bound_tools spec). find_tool (agent_tools a) (bound_name t) = Some t) \<and>
      sorted (map bound_name (ex_tools (agent_tools a))))"
proof -
  have 2: "(\<forall>t \<in> set (bound_tools spec). find_tool (agent_tools a) (bound_name t) = Some t) \<and>
           sorted (map bound_name (ex_tools (agent_tools a)))"
    if "create_agent rt spec = Inr a" for a
  proof -
    have a: "ag_spec a = spec" and d: "distinct (map bound_name (bound_tools spec))"
      using that creatable [of rt spec] by (auto simp: create_agent_def and_then_Inr_iff)
    have "distinct (map bound_name (sort_by_name (bound_tools spec)))"
      using d by (metis distinct_map distinct_sort set_sort sort_by_name_def)
    from fold_update_distinct [OF this] show ?thesis
      by (auto simp: find_tool_def agent_tools_def a build_tools sort_by_name_def)
  qed
  show ?thesis using creatable [of rt spec] 2 by blast
qed

definition sample_spec :: "json agent_spec" where
  "sample_spec = \<lparr>as_name = ''a'', as_llm = ''big'', as_system_prompt = [],
     as_tools = [\<lparr>td_name = ''zip'', td_description = [], td_input_schema = [], td_parse = \<lambda>i. Inr (JObj i)\<rparr>],
     as_outcome = Some \<lparr>of_name = ''submit'', of_description = [], of_input_schema = [], of_parse = \<lambda>i. Inr (JObj i)\<rparr>,
     as_max_turns = None, as_hooks = []\<rparr>"

definition sample_runtime :: "unit agent_runtime" where
  "sample_runtime = \<lparr>ar_registry = [(''big'', \<lparr>rl_client = Injected (), rl_model = ''m'', rl_max_tokens = 10, rl_effort = None\<rparr>)],
     ar_hooks = [], ar_task_timeout = 1\<rparr>"

theorem agent_creation_witness:
  "\<exists>a. create_agent sample_runtime sample_spec = Inr a
     \<and> (\<forall>t \<in> set (bound_tools sample_spec). find_tool (agent_tools a) (bound_name t) = Some t)"
proof -
  have "is_ok (create_agent sample_runtime sample_spec)"
    using agent_creation [of sample_runtime sample_spec]
    by (simp add: sample_runtime_def bound_tools_def sample_spec_def)
  then obtain a where "create_agent sample_runtime sample_spec = Inr a" by (cases "create_agent sample_runtime sample_spec") auto
  with agent_creation [of sample_runtime sample_spec] show ?thesis by blast
qed

end
