(* ===== verification/WorkflowTypes.thy ===== *)
theory WorkflowTypes
  imports Contracts
begin

text \<open>
  The vocabulary of workflows and nodes: \<open>nodes/node-*.ts\<close> and
  \<open>agentic-workflows/workflow-implementation.ts\<close>, \<open>workflow-definition.ts\<close>, \<open>workflow-run.ts\<close>.
  A workflow implementation is host code: its callbacks are the fields of a record that the
  runtime is parametric in. \<open>'x\<close> is what its state holds beside the fields the runtime reads.
\<close>

section \<open>Nodes\<close>

datatype node_kind = AgentKind | WorkflowKind

record node_def =
  nd_kind :: node_kind
  nd_name :: string
  nd_description :: "string option"

text \<open>The payload schema is its parse function.\<close>

record outcome_contract =
  oc_name :: string
  oc_description :: string
  oc_parse :: "json \<Rightarrow> zod_issue list + json"

datatype node_input =
    AgentInput "message list" "json_object option"
  | WorkflowInput json_object "json_object option"

record start_spec =
  ss_node :: node_def
  ss_input :: node_input
  ss_outcome :: outcome_contract

record dispatch =
  dp_start :: start_spec
  dp_metadata :: "json_object option"

record node_outcome =
  no_name :: string
  no_payload :: json

datatype node_settlement =
    NodeCompleted node_outcome
  | NodeRejected string
  | NodeFailed string
  | NodeCancelled "string option"

datatype wf_settlement =
    SettledCompleted node_def "json_object option" node_outcome
  | SettledRejected node_def "json_object option" string
  | SettledFailed node_def "json_object option" string
  | SettledCancelled node_def "json_object option" "string option"

datatype node_status = RunningNode | CompletedNode | RejectedNode | CancelledNode | FailedNode

record node_run_snapshot =
  sn_name :: string
  sn_metadata :: "json_object option"
  sn_status :: node_status
  sn_started :: string
  sn_completed :: "string option"

section \<open>Workflow implementations\<close>

record wf_definition =
  wd_description :: "string option"
  wd_nodes :: "node_def list option"
  wd_args :: "json_object option"
  wd_metadata :: "json_object option"

datatype wf_status = WfRunning | WfSuccess | WfFailure | WfDeadlock

fun status_text :: "wf_status \<Rightarrow> string" where
  "status_text WfRunning = ''running''"
| "status_text WfSuccess = ''success''"
| "status_text WfFailure = ''failure''"
| "status_text WfDeadlock = ''deadlocked''"

record 'x wf_state =
  ws_version :: int
  ws_done :: bool
  ws_status :: wf_status
  ws_last_transition :: "json_object option"
  ws_data :: 'x

record timeline_entry =
  tl_type :: string
  tl_time :: string

record state_snapshot =
  sp_version :: int
  sp_recorded :: string
  sp_state :: json_object

record runtime_snapshot =
  rt_running :: "node_run_snapshot list"
  rt_finished :: "node_run_snapshot list"
  rt_timeline :: "timeline_entry list"

record 'x transition_result =
  tr_state :: "'x wf_state"
  tr_transition :: "json_object option"

record deadlock_report =
  dr_reason :: string
  dr_details :: "json_object option"

datatype wf_outcome =
    OutcomeSuccess "json option"
  | OutcomeFailure "string option" "json option"
  | OutcomeDeadlocked string "json_object option"
  | OutcomeCancelled string

text \<open>
  \<open>wi_to_json\<close> is JSON.parse(JSON.stringify(state)); \<open>wi_validate\<close> returns the rejection's
  reason, if any.
\<close>

record 'x wf_impl =
  wi_initial :: "wf_definition \<Rightarrow> json_object \<Rightarrow> 'x wf_state"
  wi_dispatch :: "wf_definition \<Rightarrow> 'x wf_state \<Rightarrow> runtime_snapshot \<Rightarrow> dispatch list"
  wi_validate :: "'x wf_state \<Rightarrow> wf_settlement \<Rightarrow> runtime_snapshot \<Rightarrow> string option"
  wi_apply :: "'x wf_state \<Rightarrow> wf_settlement \<Rightarrow> runtime_snapshot \<Rightarrow> 'x transition_result"
  wi_evaluate :: "'x wf_state \<Rightarrow> runtime_snapshot \<Rightarrow> 'x transition_result"
  wi_deadlock :: "'x wf_state \<Rightarrow> runtime_snapshot \<Rightarrow> dispatch list \<Rightarrow> deadlock_report option"
  wi_outcome :: "'x wf_state \<Rightarrow> wf_outcome option"
  wi_to_json :: "'x wf_state \<Rightarrow> json_object"

section \<open>Run events\<close>

datatype wf_event =
    WorkflowStarted "json_object option"
  | SnapshotRecorded int
  | WorkflowDispatched "(node_kind \<times> string \<times> json_object option) list"
  | NodeOutcomeReceived string
  | TransitionApplied json_object int
  | WorkflowDeadlocked deadlock_report
  | WorkflowFinished wf_outcome

fun wf_event_type :: "wf_event \<Rightarrow> string" where
  "wf_event_type (WorkflowStarted _) = ''workflow_started''"
| "wf_event_type (SnapshotRecorded _) = ''workflow_snapshot_recorded''"
| "wf_event_type (WorkflowDispatched _) = ''workflow_dispatched''"
| "wf_event_type (NodeOutcomeReceived _) = ''workflow_node_outcome_received''"
| "wf_event_type (TransitionApplied _ _) = ''workflow_transition_applied''"
| "wf_event_type (WorkflowDeadlocked _) = ''workflow_deadlocked''"
| "wf_event_type (WorkflowFinished _) = ''workflow_finished''"

fun is_wf_finished :: "wf_event \<Rightarrow> bool" where
  "is_wf_finished (WorkflowFinished _) = True"
| "is_wf_finished _ = False"


section \<open>The host's view of a run\<close>

datatype steer_result = SteerAccepted | SteerRefused string

record wf_snapshot =
  wn_metadata :: "json_object option"
  wn_state :: json_object
  wn_running :: "node_run_snapshot list"
  wn_finished :: "node_run_snapshot list"
  wn_snapshots :: "state_snapshot list"
  wn_timeline :: "timeline_entry list"

end
