(* ===== verification/Workflow.thy ===== *)
theory Workflow
  imports WorkflowTypes NodeEvents
begin

text \<open>
  \<open>WorkflowRunInstance\<close> of \<open>agentic-workflows/workflow-runtime.ts\<close>. Node submissions, node
  settlements and interrupts run one at a time through a queue; the launches of the initial
  dispatch run beside it. Every await of the code is a suspension of the model: a thread is
  the node being launched and, innermost first, what its dispatch loops have left. Host code
  (the implementation's callbacks, the node runner) is a parameter or a label; the callbacks
  are taken not to throw.
\<close>

section \<open>State\<close>

record wf_entry =
  en_start :: start_spec
  en_metadata :: "json_object option"
  en_status :: node_status
  en_started :: string
  en_completed :: "string option"
  en_accepted :: "node_outcome option"
  en_handle :: bool

text \<open>A suspended launch: the entry's index, and the remaining dispatches of each enclosing loop.\<close>

type_synonym wf_thread = "nat \<times> dispatch list list"

datatype wf_op =
    OpSubmit nat json
  | OpSettle nat node_settlement
  | OpInterrupt string

datatype wf_active =
    InSubmit nat node_outcome wf_thread
  | InSettle wf_thread
  | InInterrupt string "nat list"

text \<open>What a submission's promise settles with.\<close>

datatype submission_result = SubmissionAccepted node_outcome | SubmissionRejected string | SubmissionThrew string

record 'x wf_run =
  wr_state :: "'x wf_state"
  wr_nodes :: "wf_entry list"
  wr_snapshots :: "state_snapshot list"
  wr_timeline :: "timeline_entry list"
  wr_events :: "wf_event run_event_stream"
  wr_finished :: bool
  wr_outcome :: "wf_outcome option"
  wr_aborted :: "string option"
  wr_last_dispatches :: "dispatch list"
  wr_ticks :: nat
  wr_starting :: "wf_thread option"
  wr_queue :: "wf_op list"
  wr_active :: "wf_active option"
  wr_answers :: "(nat \<times> submission_result) list"

text \<open>The clock's readings, by call.\<close>

record 'x wf_config =
  wc_impl :: "'x wf_impl"
  wc_definition :: wf_definition
  wc_args :: json_object
  wc_clock :: "nat \<Rightarrow> string"

section \<open>Emitting, recording, finishing\<close>

definition clock_now :: "'x wf_config \<Rightarrow> 'x wf_run \<Rightarrow> string \<times> 'x wf_run" where
  "clock_now cfg r = (wc_clock cfg (wr_ticks r), r\<lparr>wr_ticks := wr_ticks r + 1\<rparr>)"

definition wf_emit :: "'x wf_config \<Rightarrow> wf_event \<Rightarrow> 'x wf_run \<Rightarrow> 'x wf_run" where
  "wf_emit cfg body r =
     (let (t, r1) = clock_now cfg r; (e, evs) = rs_emit t body (wr_events r1)
      in r1\<lparr>wr_events := evs,
            wr_timeline := wr_timeline r1 @ [\<lparr>tl_type = wf_event_type (ev_body e), tl_time = ev_time e\<rparr>]\<rparr>)"

definition record_snapshot :: "'x wf_config \<Rightarrow> 'x wf_run \<Rightarrow> 'x wf_run" where
  "record_snapshot cfg r =
     (let (t, r1) = clock_now cfg r;
          snap = \<lparr>sp_version = ws_version (wr_state r), sp_recorded = t, sp_state = wi_to_json (wc_impl cfg) (wr_state r)\<rparr>
      in wf_emit cfg (SnapshotRecorded (ws_version (wr_state r))) (r1\<lparr>wr_snapshots := wr_snapshots r1 @ [snap]\<rparr>))"

definition wf_finish :: "'x wf_config \<Rightarrow> wf_outcome \<Rightarrow> 'x wf_run \<Rightarrow> 'x wf_run" where
  "wf_finish cfg out r =
     (if wr_finished r then r
      else
        let r1 = wf_emit cfg (WorkflowFinished out) (r\<lparr>wr_finished := True\<rparr>)
        in r1\<lparr>wr_events := rs_close (wr_events r1), wr_outcome := Some out\<rparr>)"

definition finish_if_done :: "'x wf_config \<Rightarrow> 'x wf_run \<Rightarrow> bool \<times> 'x wf_run" where
  "finish_if_done cfg r =
     (let s = wr_state r in
      if \<not> ws_done s then (False, r)
      else (True, wf_finish cfg
              (case wi_outcome (wc_impl cfg) s of
                 Some out \<Rightarrow> out
               | None \<Rightarrow> (if ws_status s = WfDeadlock then OutcomeDeadlocked (status_text (ws_status s)) None
                          else OutcomeFailure (Some (status_text (ws_status s))) None)) r))"

section \<open>Snapshots of the nodes\<close>

definition node_snapshot :: "wf_entry \<Rightarrow> node_run_snapshot" where
  "node_snapshot e = \<lparr>sn_name = nd_name (ss_node (en_start e)), sn_metadata = en_metadata e,
     sn_status = en_status e, sn_started = en_started e, sn_completed = en_completed e\<rparr>"

definition running_nodes :: "'x wf_run \<Rightarrow> node_run_snapshot list" where
  "running_nodes r = map node_snapshot (filter (\<lambda>e. en_status e = RunningNode) (wr_nodes r))"

definition finished_nodes :: "'x wf_run \<Rightarrow> node_run_snapshot list" where
  "finished_nodes r = map node_snapshot (filter (\<lambda>e. en_status e \<noteq> RunningNode) (wr_nodes r))"

definition runtime_view :: "'x wf_run \<Rightarrow> runtime_snapshot" where
  "runtime_view r = \<lparr>rt_running = running_nodes r, rt_finished = finished_nodes r, rt_timeline = wr_timeline r\<rparr>"

definition workflow_snapshot :: "'x wf_config \<Rightarrow> 'x wf_run \<Rightarrow> wf_snapshot" where
  "workflow_snapshot cfg r = \<lparr>wn_metadata = wd_metadata (wc_definition cfg), wn_state = wi_to_json (wc_impl cfg) (wr_state r),
     wn_running = running_nodes r, wn_finished = finished_nodes r, wn_snapshots = wr_snapshots r, wn_timeline = wr_timeline r\<rparr>"

text \<open>A workflow cannot be steered.\<close>

definition workflow_steer :: steer_result where
  "workflow_steer = SteerRefused ''unsupported''"

section \<open>Transitions and dispatch\<close>

definition apply_transition :: "'x wf_config \<Rightarrow> 'x transition_result \<Rightarrow> 'x wf_run \<Rightarrow> 'x wf_run" where
  "apply_transition cfg res r =
     (let r1 = r\<lparr>wr_state := tr_state res\<rparr> in
      case tr_transition res of
        None \<Rightarrow> r1
      | Some t \<Rightarrow> wf_emit cfg (TransitionApplied t (ws_version (tr_state res))) r1)"

definition announce :: "'x wf_config \<Rightarrow> json_object \<Rightarrow> 'x wf_run \<Rightarrow> 'x wf_run" where
  "announce cfg t r = wf_emit cfg (TransitionApplied t (ws_version (wr_state r))) r"

definition deadlock_transition :: "deadlock_report \<Rightarrow> json_object" where
  "deadlock_transition rep =
     [(''type'', JStr ''workflow_deadlocked''), (''reason'', JStr (dr_reason rep))] @
     (case dr_details rep of None \<Rightarrow> [] | Some d \<Rightarrow> [(''details'', JObj d)])"

definition deadlocked_state :: "deadlock_report \<Rightarrow> 'x wf_state \<Rightarrow> 'x wf_state" where
  "deadlocked_state rep s =
     s\<lparr>ws_done := True, ws_status := WfDeadlock, ws_last_transition := Some (deadlock_transition rep)\<rparr>"

definition deadlock_if_idle :: "'x wf_config \<Rightarrow> 'x wf_run \<Rightarrow> 'x wf_run" where
  "deadlock_if_idle cfg r =
     (let s = wr_state r in
      if ws_done s \<or> running_nodes r \<noteq> [] then r
      else if wr_last_dispatches r \<noteq> [] then r
      else case wi_deadlock (wc_impl cfg) s (runtime_view r) (wr_last_dispatches r) of
             None \<Rightarrow> r
           | Some rep \<Rightarrow>
               wf_finish cfg (OutcomeDeadlocked (dr_reason rep) (dr_details rep))
                 (record_snapshot cfg
                   (announce cfg (deadlock_transition rep)
                     (wf_emit cfg (WorkflowDeadlocked rep) (r\<lparr>wr_state := deadlocked_state rep s\<rparr>)))))"

definition dispatch_info :: "dispatch \<Rightarrow> node_kind \<times> string \<times> json_object option" where
  "dispatch_info d = (nd_kind (ss_node (dp_start d)), nd_name (ss_node (dp_start d)), dp_metadata d)"

text \<open>\<open>#dispatch\<close> up to its launches: the dispatches to launch, none when the state is done.\<close>

definition wf_dispatch :: "'x wf_config \<Rightarrow> 'x wf_run \<Rightarrow> dispatch list \<times> 'x wf_run" where
  "wf_dispatch cfg r =
     (if ws_done (wr_state r) then ([], r)
      else
        let ds = wi_dispatch (wc_impl cfg) (wc_definition cfg) (wr_state r) (runtime_view r);
            r1 = r\<lparr>wr_last_dispatches := ds\<rparr>;
            r2 = (if ds \<noteq> [] then wf_emit cfg (WorkflowDispatched (map dispatch_info ds)) r1 else r1)
        in (ds, if ds = [] then deadlock_if_idle cfg r2 else r2))"

definition apply_validated :: "'x wf_config \<Rightarrow> wf_settlement \<Rightarrow> 'x wf_run \<Rightarrow> dispatch list \<times> 'x wf_run" where
  "apply_validated cfg st r =
     (let r1 = apply_transition cfg (wi_apply (wc_impl cfg) (wr_state r) st (runtime_view r)) r;
          r2 = apply_transition cfg (wi_evaluate (wc_impl cfg) (wr_state r1) (runtime_view r1)) r1;
          (fin, r3) = finish_if_done cfg (record_snapshot cfg r2)
      in if fin then ([], r3) else wf_dispatch cfg r3)"

section \<open>Launching\<close>

definition claim_dispatch :: "'x wf_config \<Rightarrow> dispatch \<Rightarrow> 'x wf_run \<Rightarrow> nat \<times> 'x wf_run" where
  "claim_dispatch cfg d r =
     (let (t, r1) = clock_now cfg r;
          e = \<lparr>en_start = dp_start d, en_metadata = dp_metadata d, en_status = RunningNode, en_started = t,
               en_completed = None, en_accepted = None, en_handle = False\<rparr>
      in (length (wr_nodes r1), r1\<lparr>wr_nodes := wr_nodes r1 @ [e]\<rparr>))"

text \<open>Go on with the innermost loop that has a dispatch left.\<close>

fun next_launch :: "'x wf_config \<Rightarrow> dispatch list list \<Rightarrow> 'x wf_run \<Rightarrow> wf_thread option \<times> 'x wf_run" where
  "next_launch cfg [] r = (None, r)"
| "next_launch cfg ([] # fs) r = next_launch cfg fs r"
| "next_launch cfg ((d # ds) # fs) r = (case claim_dispatch cfg d r of (i, r1) \<Rightarrow> (Some (i, ds # fs), r1))"

definition settle_entry :: "'x wf_config \<Rightarrow> nat \<Rightarrow> node_status \<Rightarrow> node_outcome option \<Rightarrow> 'x wf_run \<Rightarrow> 'x wf_run" where
  "settle_entry cfg i st acc r =
     (let (t, r1) = clock_now cfg r
      in r1\<lparr>wr_nodes := (wr_nodes r1)[i := (wr_nodes r1 ! i)\<lparr>en_status := st, en_completed := Some t, en_accepted := acc\<rparr>]\<rparr>)"

fun settlement_status :: "wf_settlement \<Rightarrow> node_status" where
  "settlement_status (SettledCompleted _ _ _) = CompletedNode"
| "settlement_status (SettledRejected _ _ _) = RejectedNode"
| "settlement_status (SettledFailed _ _ _) = FailedNode"
| "settlement_status (SettledCancelled _ _ _) = CancelledNode"

text \<open>\<open>#settleNodeRun\<close>: it throws when the entry is settled or the implementation refuses.\<close>

definition settle_node_run :: "'x wf_config \<Rightarrow> nat \<Rightarrow> wf_settlement \<Rightarrow> 'x wf_run \<Rightarrow> string + (dispatch list \<times> 'x wf_run)" where
  "settle_node_run cfg i st r =
     (if settlement_status st = CompletedNode then Inr ([], r)
      else if en_status (wr_nodes r ! i) \<noteq> RunningNode then Inl ''node run is already finished''
      else case wi_validate (wc_impl cfg) (wr_state r) st (runtime_view r) of
             Some reason \<Rightarrow> Inl reason
           | None \<Rightarrow> Inr (apply_validated cfg st (settle_entry cfg i (settlement_status st) None r)))"

text \<open>The launch of a thread's node has settled; a throw of the settlement ends the thread.\<close>

definition launched :: "'x wf_config \<Rightarrow> string option \<Rightarrow> wf_thread \<Rightarrow> 'x wf_run \<Rightarrow> string + (wf_thread option \<times> 'x wf_run)" where
  "launched cfg failure th r =
     (case th of (i, fs) \<Rightarrow>
        (case failure of
           None \<Rightarrow> Inr (next_launch cfg fs (r\<lparr>wr_nodes := (wr_nodes r)[i := (wr_nodes r ! i)\<lparr>en_handle := True\<rparr>]\<rparr>))
         | Some reason \<Rightarrow>
             (let e = wr_nodes r ! i in
              case settle_node_run cfg i (SettledFailed (ss_node (en_start e)) (en_metadata e) reason) r of
                Inl err \<Rightarrow> Inl err
              | Inr (ds, r1) \<Rightarrow> Inr (next_launch cfg (ds # fs) r1))))"

section \<open>Starting\<close>

definition wf_start :: "'x wf_config \<Rightarrow> 'x wf_run" where
  "wf_start cfg =
     (let r0 = \<lparr>wr_state = wi_initial (wc_impl cfg) (wc_definition cfg) (wc_args cfg), wr_nodes = [], wr_snapshots = [],
                wr_timeline = [], wr_events = create_run_event_stream, wr_finished = False, wr_outcome = None,
                wr_aborted = None, wr_last_dispatches = [], wr_ticks = 0, wr_starting = None, wr_queue = [],
                wr_active = None, wr_answers = []\<rparr>;
          r1 = record_snapshot cfg (wf_emit cfg (WorkflowStarted (wd_metadata (wc_definition cfg))) r0);
          (fin, r2) = finish_if_done cfg r1
      in if fin then r2
         else (let (ds, r3) = wf_dispatch cfg r2; (th, r4) = next_launch cfg [ds] r3 in r4\<lparr>wr_starting := th\<rparr>))"

section \<open>The queue\<close>

definition answer :: "nat \<Rightarrow> submission_result \<Rightarrow> 'x wf_run \<Rightarrow> 'x wf_run" where
  "answer i a r = r\<lparr>wr_answers := wr_answers r @ [(i, a)]\<rparr>"

definition submit_node_completion :: "'x wf_config \<Rightarrow> nat \<Rightarrow> json \<Rightarrow> 'x wf_run \<Rightarrow> 'x wf_run" where
  "submit_node_completion cfg i payload r =
     (let e = wr_nodes r ! i; contract = ss_outcome (en_start e); node = ss_node (en_start e) in
      if en_status e \<noteq> RunningNode then answer i (SubmissionRejected ''node run is already finished'') r
      else case oc_parse contract payload of
             Inl issues \<Rightarrow> answer i (SubmissionRejected (''invalid '' @ oc_name contract @ '': '' @ zod_issue_summary issues)) r
           | Inr parsed \<Rightarrow>
               (let out = \<lparr>no_name = oc_name contract, no_payload = parsed\<rparr>;
                    st = SettledCompleted node (en_metadata e) out;
                    r1 = wf_emit cfg (NodeOutcomeReceived (nd_name node)) r
                in case wi_validate (wc_impl cfg) (wr_state r1) st (runtime_view r1) of
                     Some reason \<Rightarrow> answer i (SubmissionRejected reason) r1
                   | None \<Rightarrow>
                       (let (ds, r2) = apply_validated cfg st (settle_entry cfg i CompletedNode (Some out) r1)
                        in case next_launch cfg [ds] r2 of
                             (None, r3) \<Rightarrow> answer i (SubmissionAccepted out) r3
                           | (Some th, r3) \<Rightarrow> r3\<lparr>wr_active := Some (InSubmit i out th)\<rparr>)))"

fun node_completed :: "node_settlement \<Rightarrow> bool" where
  "node_completed (NodeCompleted _) = True"
| "node_completed _ = False"

fun with_node :: "node_def \<Rightarrow> json_object option \<Rightarrow> node_settlement \<Rightarrow> wf_settlement" where
  "with_node n m (NodeCompleted out) = SettledCompleted n m out"
| "with_node n m (NodeRejected why) = SettledRejected n m why"
| "with_node n m (NodeFailed why) = SettledFailed n m why"
| "with_node n m (NodeCancelled why) = SettledCancelled n m why"

text \<open>A settlement from the monitor; its throw is swallowed.\<close>

definition settle_from_monitor :: "'x wf_config \<Rightarrow> nat \<Rightarrow> node_settlement \<Rightarrow> 'x wf_run \<Rightarrow> 'x wf_run" where
  "settle_from_monitor cfg i ns r =
     (let e = wr_nodes r ! i in
      case settle_node_run cfg i (with_node (ss_node (en_start e)) (en_metadata e) ns) r of
        Inl _ \<Rightarrow> r
      | Inr (ds, r1) \<Rightarrow>
          (case next_launch cfg [ds] r1 of
             (None, r2) \<Rightarrow> r2
           | (Some th, r2) \<Rightarrow> r2\<lparr>wr_active := Some (InSettle th)\<rparr>))"

definition begin_interrupt :: "string \<Rightarrow> 'x wf_run \<Rightarrow> 'x wf_run" where
  "begin_interrupt reason r =
     (if wr_finished r then r
      else r\<lparr>wr_aborted := Some (case wr_aborted r of Some old \<Rightarrow> old | None \<Rightarrow> reason),
             wr_active := Some (InInterrupt reason (indices_where (\<lambda>e. en_status e = RunningNode) (wr_nodes r)))\<rparr>)"

definition interrupt_transition :: "string \<Rightarrow> json_object" where
  "interrupt_transition reason = [(''type'', JStr ''workflow_interrupted''), (''reason'', JStr reason)]"

primrec cancel_entries :: "string \<Rightarrow> nat list \<Rightarrow> wf_entry list \<Rightarrow> wf_entry list" where
  "cancel_entries now [] ns = ns"
| "cancel_entries now (i # rest) ns =
     cancel_entries now rest (ns[i := (ns ! i)\<lparr>en_status := CancelledNode, en_completed := Some now\<rparr>])"

definition interrupted_state :: "string \<Rightarrow> 'x wf_state \<Rightarrow> 'x wf_state" where
  "interrupted_state reason s =
     s\<lparr>ws_done := True, ws_status := WfFailure, ws_last_transition := Some (interrupt_transition reason)\<rparr>"

definition cancel_running :: "'x wf_config \<Rightarrow> nat list \<Rightarrow> 'x wf_run \<Rightarrow> 'x wf_run" where
  "cancel_running cfg running r =
     (case clock_now cfg r of (now, r1) \<Rightarrow> r1\<lparr>wr_nodes := cancel_entries now running (wr_nodes r1)\<rparr>)"

text \<open>The rest of \<open>#interrupt\<close>, once the node handles have been interrupted.\<close>

definition set_interrupted :: "string \<Rightarrow> 'x wf_run \<Rightarrow> 'x wf_run" where
  "set_interrupted reason r = r\<lparr>wr_state := interrupted_state reason (wr_state r)\<rparr>"

definition end_interrupt :: "'x wf_config \<Rightarrow> string \<Rightarrow> nat list \<Rightarrow> 'x wf_run \<Rightarrow> 'x wf_run" where
  "end_interrupt cfg reason running r =
     wf_finish cfg (OutcomeCancelled reason)
       (record_snapshot cfg
         (announce cfg (interrupt_transition reason) (set_interrupted reason (cancel_running cfg running r))))"

section \<open>The transition system\<close>

datatype wf_label =
    Submit nat json
  | NodeSettles nat node_settlement
  | HostInterrupts string
  | Dequeue
  | LaunchSettles "string option"
  | StartLaunchSettles "string option"
  | HandlesInterrupted
  | HandlesRefused

definition resume_active :: "wf_active \<Rightarrow> string + (wf_thread option \<times> 'x wf_run) \<Rightarrow> 'x wf_run \<Rightarrow> 'x wf_run" where
  "resume_active act res r =
     (case act of
        InSubmit i out _ \<Rightarrow>
          (case res of
             Inl err \<Rightarrow> answer i (SubmissionThrew err) (r\<lparr>wr_active := None\<rparr>)
           | Inr (None, r1) \<Rightarrow> answer i (SubmissionAccepted out) (r1\<lparr>wr_active := None\<rparr>)
           | Inr (Some th, r1) \<Rightarrow> r1\<lparr>wr_active := Some (InSubmit i out th)\<rparr>)
      | InSettle _ \<Rightarrow>
          (case res of
             Inl err \<Rightarrow> r\<lparr>wr_active := None\<rparr>
           | Inr (th, r1) \<Rightarrow> r1\<lparr>wr_active := map_option InSettle th\<rparr>)
      | InInterrupt _ _ \<Rightarrow> r)"

fun active_thread :: "wf_active \<Rightarrow> wf_thread option" where
  "active_thread (InSubmit _ _ th) = Some th"
| "active_thread (InSettle th) = Some th"
| "active_thread (InInterrupt _ _) = None"

definition run_op :: "'x wf_config \<Rightarrow> wf_op \<Rightarrow> 'x wf_run \<Rightarrow> 'x wf_run" where
  "run_op cfg x r =
     (case x of
        OpSubmit i payload \<Rightarrow> submit_node_completion cfg i payload r
      | OpSettle i ns \<Rightarrow> settle_from_monitor cfg i ns r
      | OpInterrupt reason \<Rightarrow> begin_interrupt reason r)"

text \<open>
  A node can submit from the moment its launch has begun; its handle, and so its monitor, exists
  once the launch has returned; the host holds the run's handle once the initial dispatch has
  been launched. \<open>HandlesRefused\<close>: some node handle's interrupt rejected, which ends the operation.
\<close>

definition wf_exec :: "'x wf_config \<Rightarrow> wf_label \<Rightarrow> 'x wf_run \<Rightarrow> 'x wf_run option" where
  "wf_exec cfg x r =
     (case x of
        Submit i payload \<Rightarrow>
          (if i < length (wr_nodes r) then Some (r\<lparr>wr_queue := wr_queue r @ [OpSubmit i payload]\<rparr>) else None)
      | NodeSettles i ns \<Rightarrow>
          (if i < length (wr_nodes r) \<and> en_handle (wr_nodes r ! i) then
             Some (if node_completed ns \<or> en_status (wr_nodes r ! i) \<noteq> RunningNode then r
                   else r\<lparr>wr_queue := wr_queue r @ [OpSettle i ns]\<rparr>)
           else None)
      | HostInterrupts reason \<Rightarrow>
          (if wr_starting r = None then Some (r\<lparr>wr_queue := wr_queue r @ [OpInterrupt reason]\<rparr>) else None)
      | Dequeue \<Rightarrow>
          (case (wr_active r, wr_queue r) of
             (None, y # ys) \<Rightarrow> Some (run_op cfg y (r\<lparr>wr_queue := ys\<rparr>))
           | _ \<Rightarrow> None)
      | LaunchSettles failure \<Rightarrow>
          (case wr_active r of
             None \<Rightarrow> None
           | Some act \<Rightarrow>
               (case active_thread act of
                  None \<Rightarrow> None
                | Some th \<Rightarrow> Some (resume_active act (launched cfg failure th r) r)))
      | StartLaunchSettles failure \<Rightarrow>
          (case wr_starting r of
             None \<Rightarrow> None
           | Some th \<Rightarrow>
               (case launched cfg failure th r of
                  Inl err \<Rightarrow> Some (r\<lparr>wr_starting := None\<rparr>)
                | Inr (th', r1) \<Rightarrow> Some (r1\<lparr>wr_starting := th'\<rparr>)))
      | HandlesInterrupted \<Rightarrow>
          (case wr_active r of
             Some (InInterrupt reason running) \<Rightarrow> Some ((end_interrupt cfg reason running r)\<lparr>wr_active := None\<rparr>)
           | _ \<Rightarrow> None)
      | HandlesRefused \<Rightarrow>
          (case wr_active r of
             Some (InInterrupt _ _) \<Rightarrow> Some (r\<lparr>wr_active := None\<rparr>)
           | _ \<Rightarrow> None))"

fun wf_execs :: "'x wf_config \<Rightarrow> wf_label list \<Rightarrow> 'x wf_run \<Rightarrow> 'x wf_run option" where
  "wf_execs cfg [] r = Some r"
| "wf_execs cfg (x # xs) r = (case wf_exec cfg x r of None \<Rightarrow> None | Some r' \<Rightarrow> wf_execs cfg xs r')"

inductive wf_reach :: "'x wf_config \<Rightarrow> 'x wf_run \<Rightarrow> bool" for cfg where
  wf_started: "wf_reach cfg (wf_start cfg)"
| wf_step: "wf_reach cfg r \<Longrightarrow> wf_exec cfg x r = Some r' \<Longrightarrow> wf_reach cfg r'"

lemma wf_execs_reach: "wf_reach cfg r \<Longrightarrow> wf_execs cfg xs r = Some r' \<Longrightarrow> wf_reach cfg r'"
proof (induction xs arbitrary: r)
  case (Cons x xs)
  then obtain r1 where "wf_exec cfg x r = Some r1" "wf_execs cfg xs r1 = Some r'" by (auto split: option.splits)
  with Cons.IH [of r1] wf_step [OF Cons.prems(1)] show ?case by blast
qed simp

end
