(* ===== verification/WorkflowProps.thy ===== *)
theory WorkflowProps
  imports Workflow
begin

text \<open>
  The properties of a workflow run: one outcome, each node settles once, accepted submissions
  are recorded, an interrupt leaves nothing running; and what still happens after the end.
\<close>

section \<open>What the run's own operations leave alone\<close>

definition same_nodes :: "'x wf_run \<Rightarrow> 'x wf_run \<Rightarrow> bool" where
  "same_nodes r r' =
     (wr_nodes r' = wr_nodes r \<and> wr_queue r' = wr_queue r \<and> wr_active r' = wr_active r \<and>
      wr_answers r' = wr_answers r \<and> wr_starting r' = wr_starting r \<and> (wr_finished r \<longrightarrow> wr_finished r'))"

lemma same_nodes_refl [simp]: "same_nodes r r"
  by (simp add: same_nodes_def)

lemma same_nodes_trans: "same_nodes r r1 \<Longrightarrow> same_nodes r1 r2 \<Longrightarrow> same_nodes r r2"
  by (simp add: same_nodes_def)

text \<open>The event stream: numbered from 0, closed exactly when finished, its finish the last event.\<close>

definition stream_inv :: "'x wf_run \<Rightarrow> bool" where
  "stream_inv r =
     (let live = rs_live (wr_events r); es = ls_buffer live in
      \<not> ls_detached live \<and> ls_closed live = wr_finished r \<and> map ev_seq es = [0..<length es] \<and>
      (if wr_finished r
       then \<exists>pre e out. es = pre @ [e] \<and> ev_body e = WorkflowFinished out \<and> wr_outcome r = Some out \<and>
              list_all (\<lambda>e. \<not> is_wf_finished (ev_body e)) pre
       else wr_outcome r = None \<and> rs_seq (wr_events r) = length es \<and>
            list_all (\<lambda>e. \<not> is_wf_finished (ev_body e)) es))"

text \<open>\<open>keeps r r'\<close>: the nodes stay, and the stream invariant is carried over.\<close>

text \<open>Once finished, the outcome and the events stay as they are.\<close>

definition sealed :: "'x wf_run \<Rightarrow> 'x wf_run \<Rightarrow> bool" where
  "sealed r r' =
     (stream_inv r \<longrightarrow> stream_inv r' \<and>
        (wr_finished r \<longrightarrow> wr_finished r' \<and> wr_outcome r' = wr_outcome r \<and>
           ls_buffer (rs_live (wr_events r')) = ls_buffer (rs_live (wr_events r))))"

definition keeps :: "'x wf_run \<Rightarrow> 'x wf_run \<Rightarrow> bool" where
  "keeps r r' = (same_nodes r r' \<and> sealed r r')"

lemma sealed_refl [simp]: "sealed r r"
  by (simp add: sealed_def)

lemma sealed_trans: "sealed r r1 \<Longrightarrow> sealed r1 r2 \<Longrightarrow> sealed r r2"
  by (auto simp: sealed_def)

lemma keeps_refl [simp]: "keeps r r"
  by (simp add: keeps_def)

lemma keeps_trans: "keeps r r1 \<Longrightarrow> keeps r1 r2 \<Longrightarrow> keeps r r2"
  unfolding keeps_def using same_nodes_trans sealed_trans by blast

lemma keeps_same:
  "wr_nodes r' = wr_nodes r \<Longrightarrow> wr_queue r' = wr_queue r \<Longrightarrow> wr_active r' = wr_active r \<Longrightarrow> wr_answers r' = wr_answers r \<Longrightarrow>
   wr_starting r' = wr_starting r \<Longrightarrow> wr_finished r' = wr_finished r \<Longrightarrow> wr_events r' = wr_events r \<Longrightarrow>
   wr_outcome r' = wr_outcome r \<Longrightarrow> keeps r r'"
  by (simp add: keeps_def sealed_def same_nodes_def stream_inv_def)

lemma emit_keeps: "\<not> is_wf_finished b \<Longrightarrow> keeps r (wf_emit cfg b r)"
  by (auto simp: keeps_def sealed_def same_nodes_def wf_emit_def clock_now_def rs_emit_def Let_def stream_inv_def ls_defs)

lemma announce_keeps: "keeps r (announce cfg t r)"
  by (simp add: announce_def emit_keeps)

lemma snapshot_keeps: "keeps r (record_snapshot cfg r)"
proof -
  obtain t r1 where c: "clock_now cfg r = (t, r1)" by (cases "clock_now cfg r")
  let ?r = "r1\<lparr>wr_snapshots := wr_snapshots r1 @ [\<lparr>sp_version = ws_version (wr_state r), sp_recorded = t,
      sp_state = wi_to_json (wc_impl cfg) (wr_state r)\<rparr>]\<rparr>"
  have "keeps r ?r" using c by (intro keeps_same) (auto simp: clock_now_def)
  moreover have "keeps ?r (record_snapshot cfg r)" by (simp add: record_snapshot_def c emit_keeps)
  ultimately show ?thesis by (rule keeps_trans)
qed

lemma finish_keeps: "keeps r (wf_finish cfg out r)"
  by (auto simp: keeps_def sealed_def same_nodes_def wf_finish_def wf_emit_def clock_now_def rs_emit_def rs_close_def Let_def
      stream_inv_def ls_defs)

lemma finish_finished [simp]: "wr_finished (wf_finish cfg out r)"
  by (simp add: wf_finish_def wf_emit_def clock_now_def rs_emit_def Let_def)

lemma finish_if_done_keeps: "finish_if_done cfg r = (fin, r') \<Longrightarrow> keeps r r' \<and> (fin \<longrightarrow> wr_finished r')"
  by (auto simp: finish_if_done_def Let_def finish_keeps split: if_splits)

lemma transition_keeps: "keeps r (apply_transition cfg res r)"
proof -
  have s: "keeps r (r\<lparr>wr_state := tr_state res\<rparr>)" by (rule keeps_same) simp_all
  show ?thesis
  proof (cases "tr_transition res")
    case None
    then show ?thesis by (simp add: apply_transition_def s)
  next
    case (Some t)
    have "keeps r (wf_emit cfg (TransitionApplied t (ws_version (tr_state res))) (r\<lparr>wr_state := tr_state res\<rparr>))"
      by (rule keeps_trans [OF s emit_keeps]) simp
    with Some show ?thesis by (simp add: apply_transition_def)
  qed
qed

lemma deadlock_keeps: "keeps r (deadlock_if_idle cfg r)"
proof -
  have "keeps r (wf_finish cfg out (record_snapshot cfg (announce cfg t (wf_emit cfg b1 (r\<lparr>wr_state := s\<rparr>)))))"
    if "\<not> is_wf_finished b1" for out b1 t s
  proof -
    have "keeps r (r\<lparr>wr_state := s\<rparr>)" by (rule keeps_same) simp_all
    from keeps_trans [OF keeps_trans [OF keeps_trans [OF keeps_trans [OF this emit_keeps [OF that]] announce_keeps] snapshot_keeps] finish_keeps]
    show ?thesis .
  qed
  then show ?thesis by (auto simp: deadlock_if_idle_def Let_def split: option.splits)
qed

lemma dispatch_keeps: "wf_dispatch cfg r = (ds, r') \<Longrightarrow> keeps r r'"
proof -
  assume d: "wf_dispatch cfg r = (ds, r')"
  have s: "keeps r (r\<lparr>wr_last_dispatches := l\<rparr>)" for l by (rule keeps_same) simp_all
  have "keeps r (wf_emit cfg (WorkflowDispatched z) (r\<lparr>wr_last_dispatches := l\<rparr>))" for l z
    by (rule keeps_trans [OF s emit_keeps]) simp
  moreover have "keeps r (deadlock_if_idle cfg (r\<lparr>wr_last_dispatches := l\<rparr>))" for l
    by (rule keeps_trans [OF s deadlock_keeps])
  ultimately show ?thesis using d by (auto simp: wf_dispatch_def Let_def split: if_splits)
qed

lemma apply_keeps: "apply_validated cfg st r = (ds, r') \<Longrightarrow> keeps r r'"
proof -
  assume a: "apply_validated cfg st r = (ds, r')"
  define r1 where "r1 = apply_transition cfg (wi_apply (wc_impl cfg) (wr_state r) st (runtime_view r)) r"
  define r2 where "r2 = apply_transition cfg (wi_evaluate (wc_impl cfg) (wr_state r1) (runtime_view r1)) r1"
  obtain fin r3 where f: "finish_if_done cfg (record_snapshot cfg r2) = (fin, r3)"
    by (cases "finish_if_done cfg (record_snapshot cfg r2)")
  have "keeps r r2" using transition_keeps r1_def r2_def by (metis keeps_trans)
  with finish_if_done_keeps [OF f] have "keeps r r3" by (blast intro: keeps_trans snapshot_keeps)
  with a f show ?thesis
    by (auto simp: apply_validated_def Let_def r1_def [symmetric] r2_def [symmetric] intro: keeps_trans dispatch_keeps split: if_splits)
qed

section \<open>How the nodes grow\<close>

text \<open>Entries are only added; a settled entry never changes again but for its handle.\<close>

definition frozen :: "wf_entry \<Rightarrow> wf_entry \<Rightarrow> bool" where
  "frozen e e' = (en_start e' = en_start e \<and> en_metadata e' = en_metadata e \<and> en_started e' = en_started e \<and>
     (en_status e \<noteq> RunningNode \<longrightarrow> en_status e' = en_status e \<and> en_completed e' = en_completed e \<and> en_accepted e' = en_accepted e))"

definition grows :: "wf_entry list \<Rightarrow> wf_entry list \<Rightarrow> bool" where
  "grows ns ns' = (length ns \<le> length ns' \<and> (\<forall>i < length ns. frozen (ns ! i) (ns' ! i)))"

lemma frozen_refl [simp]: "frozen e e"
  by (simp add: frozen_def)

lemma grows_refl [simp]: "grows ns ns"
  by (simp add: grows_def)

lemma frozen_trans: "frozen a b \<Longrightarrow> frozen b c \<Longrightarrow> frozen a c"
  by (auto simp: frozen_def)

lemma grows_trans: "grows a b \<Longrightarrow> grows b c \<Longrightarrow> grows a c"
  unfolding grows_def using frozen_trans by (metis less_le_trans order_trans)

lemma grows_append [simp]: "grows ns (ns @ xs)"
  by (simp add: grows_def nth_append frozen_def)

lemma grows_update: "frozen (ns ! i) e \<Longrightarrow> grows ns (ns[i := e])"
  unfolding grows_def by (metis frozen_refl length_list_update nth_list_update_eq nth_list_update_neq order_refl)

lemma frozen_running: "en_status e = RunningNode \<Longrightarrow> frozen e (e\<lparr>en_status := st, en_completed := t, en_accepted := acc\<rparr>)"
  by (simp add: frozen_def)

lemma frozen_handle [simp]: "frozen e (e\<lparr>en_handle := b\<rparr>)"
  by (simp add: frozen_def)

text \<open>Every entry is coherent: completed time exactly when settled, a payload exactly when completed.\<close>

definition entry_ok :: "wf_entry \<Rightarrow> bool" where
  "entry_ok e = ((en_status e = RunningNode \<longleftrightarrow> en_completed e = None) \<and>
                 (en_status e = CompletedNode \<longleftrightarrow> en_accepted e \<noteq> None))"

lemma list_all_update: "list_all P xs \<Longrightarrow> (i < length xs \<Longrightarrow> P x) \<Longrightarrow> list_all P (xs[i := x])"
  by (cases "i < length xs") (auto simp: list_all_length nth_list_update)

section \<open>The launches and settlements of the run\<close>

text \<open>What every operation does to the run: its own bookkeeping (queue, threads, answers) stays.\<close>

definition advances :: "'x wf_run \<Rightarrow> 'x wf_run \<Rightarrow> bool" where
  "advances r r' =
     (grows (wr_nodes r) (wr_nodes r') \<and> (list_all entry_ok (wr_nodes r) \<longrightarrow> list_all entry_ok (wr_nodes r')) \<and>
      wr_queue r' = wr_queue r \<and> wr_active r' = wr_active r \<and> wr_answers r' = wr_answers r \<and>
      wr_starting r' = wr_starting r \<and> sealed r r')"

lemma advances_refl [simp]: "advances r r"
  by (simp add: advances_def)

lemma advances_trans: "advances r r1 \<Longrightarrow> advances r1 r2 \<Longrightarrow> advances r r2"
  unfolding advances_def using grows_trans sealed_trans by (metis (no_types, lifting))

lemma keeps_advances: "keeps r r' \<Longrightarrow> advances r r'"
  by (simp add: keeps_def same_nodes_def advances_def)

lemma nodes_advance:
  "grows (wr_nodes r) ns \<Longrightarrow> (list_all entry_ok (wr_nodes r) \<Longrightarrow> list_all entry_ok ns) \<Longrightarrow>
   advances r (r\<lparr>wr_ticks := n, wr_nodes := ns\<rparr>)"
  by (simp add: advances_def sealed_def stream_inv_def)

lemma settle_entry_advances:
  assumes "en_status (wr_nodes r ! i) = RunningNode" "st \<noteq> RunningNode" "st = CompletedNode \<longleftrightarrow> acc \<noteq> None"
  shows "advances r (settle_entry cfg i st acc r)"
  unfolding settle_entry_def clock_now_def Let_def using assms
  by (auto simp: entry_ok_def intro!: nodes_advance grows_update frozen_running list_all_update)

lemma claim_advances: "claim_dispatch cfg d r = (i, r') \<Longrightarrow> advances r r' \<and> i < length (wr_nodes r')"
  unfolding claim_dispatch_def clock_now_def Let_def
  by (auto simp: entry_ok_def intro!: nodes_advance)

lemma next_launch_advances:
  "next_launch cfg fs r = (th, r') \<Longrightarrow> advances r r' \<and> (\<forall>k gs. th = Some (k, gs) \<longrightarrow> k < length (wr_nodes r'))"
proof (induction cfg fs r rule: next_launch.induct)
  case (3 cfg d ds fs r)
  obtain i r1 where c: "claim_dispatch cfg d r = (i, r1)" by (cases "claim_dispatch cfg d r")
  with 3 claim_advances [OF c] show ?case by auto
qed auto

lemma settle_run_advances:
  assumes "settle_node_run cfg i st r = Inr (ds, r')"
  shows "advances r r'"
proof (cases "settlement_status st = CompletedNode")
  case True
  with assms show ?thesis by (simp add: settle_node_run_def)
next
  case False
  let ?r = "settle_entry cfg i (settlement_status st) None r"
  from False assms have running: "en_status (wr_nodes r ! i) = RunningNode" and a: "apply_validated cfg st ?r = (ds, r')"
    by (auto simp: settle_node_run_def split: if_splits option.splits)
  have "advances r ?r" by (rule settle_entry_advances [OF running]) (use False in \<open>cases st; simp\<close>)+
  with keeps_advances [OF apply_keeps [OF a]] show ?thesis by (blast intro: advances_trans)
qed

lemma launched_advances:
  assumes l: "launched cfg failure (i, fs) r = Inr (th, r')"
  shows "advances r r' \<and> (\<forall>k gs. th = Some (k, gs) \<longrightarrow> k < length (wr_nodes r'))"
proof (cases failure)
  case None
  let ?r = "r\<lparr>wr_ticks := wr_ticks r, wr_nodes := (wr_nodes r)[i := (wr_nodes r ! i)\<lparr>en_handle := True\<rparr>]\<rparr>"
  have "entry_ok ((wr_nodes r ! i)\<lparr>en_handle := True\<rparr>)" if "list_all entry_ok (wr_nodes r)" "i < length (wr_nodes r)"
    using that by (simp add: list_all_length entry_ok_def)
  then have "advances r ?r" by (intro nodes_advance grows_update list_all_update) simp_all
  moreover have "next_launch cfg fs ?r = (th, r')" using l None by (simp add: launched_def)
  ultimately show ?thesis using next_launch_advances advances_trans by blast
next
  case (Some reason)
  let ?e = "wr_nodes r ! i"
  from Some l obtain ds r1
    where s: "settle_node_run cfg i (SettledFailed (ss_node (en_start ?e)) (en_metadata ?e) reason) r = Inr (ds, r1)"
      and n: "next_launch cfg (ds # fs) r1 = (th, r')"
    by (auto simp: launched_def Let_def split: sum.splits)
  from settle_run_advances [OF s] next_launch_advances [OF n] show ?thesis using advances_trans by blast
qed

section \<open>The invariant\<close>

fun queued_ok :: "nat \<Rightarrow> bool \<Rightarrow> wf_op \<Rightarrow> bool" where
  "queued_ok n idle (OpSubmit i _) = (i < n)"
| "queued_ok n idle (OpSettle i _) = (i < n)"
| "queued_ok n idle (OpInterrupt _) = idle"

definition accepted_at :: "wf_entry list \<Rightarrow> nat \<Rightarrow> node_outcome \<Rightarrow> bool" where
  "accepted_at ns i out = (i < length ns \<and> en_status (ns ! i) = CompletedNode \<and> en_accepted (ns ! i) = Some out)"

fun active_ok :: "wf_entry list \<Rightarrow> bool \<Rightarrow> bool \<Rightarrow> wf_active \<Rightarrow> bool" where
  "active_ok ns idle fin (InSubmit i out (k, fs)) = (accepted_at ns i out \<and> k < length ns)"
| "active_ok ns idle fin (InSettle (k, fs)) = (k < length ns)"
| "active_ok ns idle fin (InInterrupt reason running) =
     (idle \<and> \<not> fin \<and> running = indices_where (\<lambda>e. en_status e = RunningNode) ns)"

fun is_accepted :: "submission_result \<Rightarrow> bool" where
  "is_accepted (SubmissionAccepted _) = True"
| "is_accepted _ = False"

fun submitting :: "wf_active option \<Rightarrow> nat list" where
  "submitting (Some (InSubmit i _ _)) = [i]"
| "submitting _ = []"

definition accepted_nodes :: "'x wf_run \<Rightarrow> nat list" where
  "accepted_nodes r = map fst (filter (\<lambda>p. is_accepted (snd p)) (wr_answers r))"

text \<open>The part of the invariant that every operation carries over.\<close>

definition core_ok :: "'x wf_run \<Rightarrow> bool" where
  "core_ok r =
     (stream_inv r \<and> list_all entry_ok (wr_nodes r) \<and>
      (\<forall>i out. (i, SubmissionAccepted out) \<in> set (wr_answers r) \<longrightarrow> accepted_at (wr_nodes r) i out) \<and>
      (\<forall>k fs. wr_starting r = Some (k, fs) \<longrightarrow> k < length (wr_nodes r)) \<and>
      list_all (queued_ok (length (wr_nodes r)) (wr_starting r = None)) (wr_queue r))"

definition wf_inv :: "'x wf_run \<Rightarrow> bool" where
  "wf_inv r =
     (core_ok r \<and> distinct (accepted_nodes r @ submitting (wr_active r)) \<and>
      (\<forall>act. wr_active r = Some act \<longrightarrow> active_ok (wr_nodes r) (wr_starting r = None) (wr_finished r) act))"

lemma accepted_grows: "accepted_at ns i out \<Longrightarrow> grows ns ns' \<Longrightarrow> accepted_at ns' i out"
  by (auto simp: accepted_at_def grows_def frozen_def)

lemma queued_mono: "queued_ok n idle x \<Longrightarrow> n \<le> n' \<Longrightarrow> (idle \<longrightarrow> idle') \<Longrightarrow> queued_ok n' idle' x"
  by (cases x) auto

lemma core_advances: "core_ok r \<Longrightarrow> advances r r' \<Longrightarrow> core_ok r'"
proof -
  assume c: "core_ok r" and a: "advances r r'"
  have n: "length (wr_nodes r) \<le> length (wr_nodes r')" using a by (simp add: advances_def grows_def)
  have "list_all (queued_ok (length (wr_nodes r')) (wr_starting r' = None)) (wr_queue r')"
    using c a queued_mono [OF _ n] by (auto simp: core_ok_def advances_def list_all_iff)
  with c a n show "core_ok r'"
    by (auto simp: core_ok_def advances_def sealed_def intro: accepted_grows less_le_trans)
qed

lemma stream_inv_updates [simp]:
  "stream_inv (r\<lparr>wr_active := a\<rparr>) = stream_inv r" "stream_inv (r\<lparr>wr_aborted := b\<rparr>) = stream_inv r"
  "stream_inv (r\<lparr>wr_starting := th\<rparr>) = stream_inv r" "stream_inv (r\<lparr>wr_queue := q\<rparr>) = stream_inv r"
  "stream_inv (r\<lparr>wr_answers := w\<rparr>) = stream_inv r" "stream_inv (r\<lparr>wr_nodes := ns\<rparr>) = stream_inv r"
  by (simp_all add: stream_inv_def)

lemma core_same:
  "core_ok r \<Longrightarrow> core_ok (r\<lparr>wr_active := a\<rparr>)"
  "core_ok r \<Longrightarrow> core_ok (r\<lparr>wr_aborted := b\<rparr>)"
  by (simp_all add: core_ok_def)

lemma core_started: "core_ok r \<Longrightarrow> (\<forall>k fs. th = Some (k, fs) \<longrightarrow> k < length (wr_nodes r)) \<Longrightarrow>
    wr_starting r \<noteq> None \<or> th = None \<Longrightarrow> core_ok (r\<lparr>wr_starting := th\<rparr>)"
  by (auto simp: core_ok_def list_all_iff intro: queued_mono)

lemma core_enqueued: "core_ok r \<Longrightarrow> queued_ok (length (wr_nodes r)) (wr_starting r = None) x \<Longrightarrow>
    core_ok (r\<lparr>wr_queue := wr_queue r @ [x]\<rparr>)"
  by (simp add: core_ok_def)

lemma core_answered: "core_ok r \<Longrightarrow> (\<forall>out. a = SubmissionAccepted out \<longrightarrow> accepted_at (wr_nodes r) i out) \<Longrightarrow> core_ok (answer i a r)"
  by (auto simp: core_ok_def answer_def)

lemma answer_simps [simp]:
  "wr_nodes (answer i a r) = wr_nodes r" "wr_active (answer i a r) = wr_active r" "wr_starting (answer i a r) = wr_starting r"
  "accepted_nodes (answer i a r) = accepted_nodes r @ (if is_accepted a then [i] else [])"
  by (simp_all add: answer_def accepted_nodes_def)

lemma accepted_nodes_advances: "advances r r' \<Longrightarrow> accepted_nodes r' = accepted_nodes r"
  by (simp add: advances_def accepted_nodes_def)

lemma accepted_not_running:
  "core_ok r \<Longrightarrow> en_status (wr_nodes r ! i) = RunningNode \<Longrightarrow> i \<notin> set (accepted_nodes r)"
  by (auto simp: core_ok_def accepted_nodes_def accepted_at_def elim!: is_accepted.elims)

lemma submit_inv:
  assumes c: "core_ok r" and d: "distinct (accepted_nodes r)" and idle: "wr_active r = None" and i: "i < length (wr_nodes r)"
  shows "wf_inv (submit_node_completion cfg i payload r)"
proof -
  let ?e = "wr_nodes r ! i"
  have rejected: "wf_inv (answer i (SubmissionRejected why) r')" if "advances r r'" for why r'
  proof -
    have "wr_active r' = None" "accepted_nodes r' = accepted_nodes r"
      using that idle accepted_nodes_advances [OF that] by (simp_all add: advances_def)
    with core_answered [OF core_advances [OF c that]] d show ?thesis by (simp add: wf_inv_def)
  qed
  show ?thesis
  proof (cases "en_status ?e = RunningNode")
    case False
    then show ?thesis using rejected [OF advances_refl] by (simp add: submit_node_completion_def Let_def)
  next
    case run: True
    show ?thesis
    proof (cases "oc_parse (ss_outcome (en_start ?e)) payload")
      case (Inl issues)
      then show ?thesis using run rejected [OF advances_refl] by (simp add: submit_node_completion_def Let_def)
    next
      case (Inr parsed)
      define out where "out = \<lparr>no_name = oc_name (ss_outcome (en_start ?e)), no_payload = parsed\<rparr>"
      define st where "st = SettledCompleted (ss_node (en_start ?e)) (en_metadata ?e) out"
      define r1 where "r1 = wf_emit cfg (NodeOutcomeReceived (nd_name (ss_node (en_start ?e)))) r"
      have k1: "keeps r r1" unfolding r1_def by (rule emit_keeps) simp
      then have a1: "advances r r1" and n1: "wr_nodes r1 = wr_nodes r"
        by (simp_all add: keeps_advances keeps_def same_nodes_def)
      show ?thesis
      proof (cases "wi_validate (wc_impl cfg) (wr_state r1) st (runtime_view r1)")
        case (Some why)
        then show ?thesis using run Inr rejected [OF a1]
          by (simp add: submit_node_completion_def Let_def r1_def st_def out_def)
      next
        case None
        define r2 where "r2 = settle_entry cfg i CompletedNode (Some out) r1"
        obtain ds r3 where a: "apply_validated cfg st r2 = (ds, r3)" by (cases "apply_validated cfg st r2")
        obtain th r4 where nl: "next_launch cfg [ds] r3 = (th, r4)" by (cases "next_launch cfg [ds] r3")
        have whole: "submit_node_completion cfg i payload r =
            (case th of None \<Rightarrow> answer i (SubmissionAccepted out) r4
                      | Some t \<Rightarrow> r4\<lparr>wr_active := Some (InSubmit i out t)\<rparr>)"
          using run Inr None a nl
          by (simp add: submit_node_completion_def Let_def r1_def [symmetric] st_def [symmetric] out_def [symmetric]
              r2_def [symmetric] split: option.splits)
        have "advances r1 r2" unfolding r2_def using run n1 by (intro settle_entry_advances) simp_all
        then have a3: "advances r r3" using a1 keeps_advances [OF apply_keeps [OF a]] advances_trans by blast
        have "accepted_at (wr_nodes r2) i out" using i n1 by (simp add: r2_def settle_entry_def clock_now_def accepted_at_def Let_def)
        then have acc: "accepted_at (wr_nodes r4) i out"
          using apply_keeps [OF a] next_launch_advances [OF nl] accepted_grows by (auto simp: keeps_def same_nodes_def advances_def)
        have a4: "advances r r4" using a3 next_launch_advances [OF nl] advances_trans by blast
        have d4: "accepted_nodes r4 = accepted_nodes r" "wr_active r4 = None"
          using a4 idle accepted_nodes_advances [OF a4] by (simp_all add: advances_def)
        have ni: "i \<notin> set (accepted_nodes r)" by (rule accepted_not_running [OF c run])
        note c4 = core_advances [OF c a4]
        show ?thesis
        proof (cases th)
          case None
          with whole c4 core_answered [OF c4] acc d4 ni d show ?thesis by (simp add: wf_inv_def)
        next
          case (Some t)
          obtain k gs where t: "t = (k, gs)" by (cases t)
          have "accepted_nodes (r4\<lparr>wr_active := act\<rparr>) = accepted_nodes r" for act
            using d4 by (simp add: accepted_nodes_def)
          with whole core_same(1) [OF c4] Some t acc d ni next_launch_advances [OF nl] show ?thesis
            by (simp add: wf_inv_def)
        qed
      qed
    qed
  qed
qed

lemma accepted_nodes_updates [simp]:
  "accepted_nodes (r\<lparr>wr_active := a\<rparr>) = accepted_nodes r" "accepted_nodes (r\<lparr>wr_aborted := b\<rparr>) = accepted_nodes r"
  "accepted_nodes (r\<lparr>wr_starting := th\<rparr>) = accepted_nodes r" "accepted_nodes (r\<lparr>wr_queue := q\<rparr>) = accepted_nodes r"
  by (simp_all add: accepted_nodes_def)

lemma monitor_inv:
  assumes c: "core_ok r" and d: "distinct (accepted_nodes r)" and idle: "wr_active r = None"
  shows "wf_inv (settle_from_monitor cfg i ns r)"
proof (cases "settle_node_run cfg i (with_node (ss_node (en_start (wr_nodes r ! i))) (en_metadata (wr_nodes r ! i)) ns) r")
  case (Inl why)
  then show ?thesis using assms by (simp add: settle_from_monitor_def wf_inv_def Let_def)
next
  case (Inr p)
  obtain ds r1 where p: "p = (ds, r1)" by (cases p)
  obtain th r2 where nl: "next_launch cfg [ds] r1 = (th, r2)" by (cases "next_launch cfg [ds] r1")
  have a: "advances r r2" using settle_run_advances [OF Inr [unfolded p]] next_launch_advances [OF nl] advances_trans by blast
  have d2: "accepted_nodes r2 = accepted_nodes r" "wr_active r2 = None"
    using a idle accepted_nodes_advances [OF a] by (simp_all add: advances_def)
  from core_advances [OF c a] d d2 next_launch_advances [OF nl] show ?thesis
    by (cases th) (auto simp: settle_from_monitor_def Inr p nl wf_inv_def core_same Let_def)
qed

lemma begin_interrupt_inv:
  assumes c: "core_ok r" and d: "distinct (accepted_nodes r)" and idle: "wr_active r = None" "wr_starting r = None"
  shows "wf_inv (begin_interrupt reason r)"
proof (cases "wr_finished r")
  case False
  have "core_ok (begin_interrupt reason r)" using core_same(1) [OF core_same(2) [OF c]] False by (simp add: begin_interrupt_def)
  with False d idle show ?thesis by (simp add: begin_interrupt_def wf_inv_def)
qed (use assms in \<open>simp add: begin_interrupt_def wf_inv_def\<close>)

lemma cancel_entries_nth:
  "length (cancel_entries now is ns) = length ns \<and>
   (i < length ns \<longrightarrow> cancel_entries now is ns ! i =
      (if i \<in> set is then (ns ! i)\<lparr>en_status := CancelledNode, en_completed := Some now\<rparr> else ns ! i))"
proof (induction "is" arbitrary: ns)
  case (Cons k ks)
  from Cons.IH [of "ns[k := (ns ! k)\<lparr>en_status := CancelledNode, en_completed := Some now\<rparr>]"]
  show ?case by (cases "i = k") (auto simp: nth_list_update)
qed simp

lemma end_interrupt_advances:
  assumes running: "running = indices_where (\<lambda>e. en_status e = RunningNode) (wr_nodes r)"
  shows "advances r (end_interrupt cfg reason running r)"
    and "list_all (\<lambda>e. en_status e \<noteq> RunningNode) (wr_nodes (end_interrupt cfg reason running r))"
    and "map en_status (wr_nodes (end_interrupt cfg reason running r)) =
      map (\<lambda>e. if en_status e = RunningNode then CancelledNode else en_status e) (wr_nodes r)"
    and "\<not> wr_finished r \<Longrightarrow> wr_outcome (end_interrupt cfg reason running r) = Some (OutcomeCancelled reason)"
proof -
  define now where "now = wc_clock cfg (wr_ticks r)"
  define r2 where "r2 = r\<lparr>wr_ticks := wr_ticks r + 1, wr_nodes := cancel_entries now running (wr_nodes r)\<rparr>"
  define r3 where "r3 = announce cfg (interrupt_transition reason) (set_interrupted reason r2)"
  have whole: "end_interrupt cfg reason running r = wf_finish cfg (OutcomeCancelled reason) (record_snapshot cfg r3)"
    by (simp add: end_interrupt_def cancel_running_def clock_now_def r3_def r2_def now_def)
  have m: "i \<in> set running \<longleftrightarrow> i < length (wr_nodes r) \<and> en_status (wr_nodes r ! i) = RunningNode" for i
    by (simp add: running set_indices_where)
  have g: "grows (wr_nodes r) (cancel_entries now running (wr_nodes r))"
    using cancel_entries_nth [of now running "wr_nodes r"] m by (auto simp: grows_def frozen_def)
  have e: "list_all entry_ok (cancel_entries now running (wr_nodes r))" if "list_all entry_ok (wr_nodes r)"
    using that cancel_entries_nth [of now running "wr_nodes r"] m by (auto simp: list_all_length entry_ok_def)
  have "keeps r2 (set_interrupted reason r2)" by (rule keeps_same) (simp_all add: set_interrupted_def)
  from keeps_trans [OF this announce_keeps] have k: "keeps r2 r3" by (simp add: r3_def)
  have k2: "keeps r2 (record_snapshot cfg r3)" by (rule keeps_trans [OF k snapshot_keeps])
  have k3: "keeps r2 (end_interrupt cfg reason running r)" unfolding whole by (rule keeps_trans [OF k2 finish_keeps])
  have "advances r r2" unfolding r2_def by (rule nodes_advance [OF g e])
  then show "advances r (end_interrupt cfg reason running r)" by (rule advances_trans [OF _ keeps_advances [OF k3]])
  have ns: "wr_nodes (end_interrupt cfg reason running r) = cancel_entries now running (wr_nodes r)"
    using k3 by (simp add: keeps_def same_nodes_def r2_def)
  then show "list_all (\<lambda>e. en_status e \<noteq> RunningNode) (wr_nodes (end_interrupt cfg reason running r))"
    using cancel_entries_nth [of now running "wr_nodes r"] m by (auto simp: list_all_length)
  show "map en_status (wr_nodes (end_interrupt cfg reason running r)) =
      map (\<lambda>e. if en_status e = RunningNode then CancelledNode else en_status e) (wr_nodes r)"
    using cancel_entries_nth [of now running "wr_nodes r"] m by (intro nth_equalityI) (auto simp: ns)
  assume "\<not> wr_finished r"
  then have "\<not> wr_finished (record_snapshot cfg r3)"
    by (simp add: r2_def r3_def announce_def set_interrupted_def record_snapshot_def clock_now_def wf_emit_def rs_emit_def Let_def)
  then show "wr_outcome (end_interrupt cfg reason running r) = Some (OutcomeCancelled reason)"
    unfolding whole by (simp add: wf_finish_def Let_def)
qed

lemma resume_inv:
  assumes inv: "wf_inv r" and act: "wr_active r = Some act" and th: "active_thread act = Some (k, fs)"
  shows "wf_inv (resume_active act (launched cfg failure (k, fs) r) r)"
proof -
  have c: "core_ok r" and d: "distinct (accepted_nodes r @ submitting (Some act))"
    and ok: "active_ok (wr_nodes r) (wr_starting r = None) (wr_finished r) act"
    using inv act by (auto simp: wf_inv_def)
  show ?thesis
  proof (cases "launched cfg failure (k, fs) r")
    case (Inl why)
    with c d th show ?thesis
      by (cases act) (auto simp: resume_active_def wf_inv_def intro!: core_answered core_same)
  next
    case (Inr p)
    obtain t r1 where p: "p = (t, r1)" by (cases p)
    from launched_advances [OF Inr [unfolded p]]
    have a: "advances r r1" and n: "\<forall>k gs. t = Some (k, gs) \<longrightarrow> k < length (wr_nodes r1)" by blast+
    have d1: "accepted_nodes r1 = accepted_nodes r" and g: "grows (wr_nodes r) (wr_nodes r1)"
      using a accepted_nodes_advances [OF a] by (simp_all add: advances_def)
    note c1 = core_same(1) [OF core_advances [OF c a]]
    show ?thesis
    proof (cases act)
      case (InSubmit i out u)
      obtain k' gs where u: "u = (k', gs)" by (cases u)
      have acc: "accepted_at (wr_nodes r1) i out" using ok accepted_grows [OF _ g] by (simp add: InSubmit u)
      show ?thesis using c1 d d1 n acc
        by (cases t) (auto simp: resume_active_def InSubmit u Inr p wf_inv_def intro!: core_answered)
    next
      case (InSettle u)
      then show ?thesis using c1 d d1 n by (cases t) (auto simp: resume_active_def Inr p wf_inv_def)
    next
      case (InInterrupt reason running)
      then show ?thesis using th by simp
    qed
  qed
qed

lemma start_step_inv:
  assumes inv: "wf_inv r" and st: "wr_starting r = Some (k, fs)"
  shows "wf_inv (case launched cfg failure (k, fs) r of
      Inl err \<Rightarrow> r\<lparr>wr_starting := None\<rparr> | Inr (th, r1) \<Rightarrow> r1\<lparr>wr_starting := th\<rparr>)"
proof -
  have c: "core_ok r" and d: "distinct (accepted_nodes r @ submitting (wr_active r))"
    and ok: "\<And>act. wr_active r = Some act \<Longrightarrow> active_ok (wr_nodes r) False (wr_finished r) act"
    using inv st by (auto simp: wf_inv_def)
  have active: "active_ok ns idle fin act"
    if "wr_active r = Some act" "grows (wr_nodes r) ns" for act ns idle fin
  proof -
    have "length (wr_nodes r) \<le> length ns" using that by (simp add: grows_def)
    with ok [OF that(1)] accepted_grows [OF _ that(2)] show ?thesis
      by (cases act) (auto simp: active_thread.simps split: prod.splits)
  qed
  show ?thesis
  proof (cases "launched cfg failure (k, fs) r")
    case (Inl why)
    with core_started [OF c] st d active [OF _ grows_refl] show ?thesis by (auto simp: wf_inv_def)
  next
    case (Inr p)
    obtain t r1 where p: "p = (t, r1)" by (cases p)
    from launched_advances [OF Inr [unfolded p]]
    have a: "advances r r1" and n: "\<forall>k gs. t = Some (k, gs) \<longrightarrow> k < length (wr_nodes r1)" by blast+
    have s1: "wr_starting r1 = wr_starting r" "wr_active r1 = wr_active r" "grows (wr_nodes r) (wr_nodes r1)"
      "accepted_nodes r1 = accepted_nodes r"
      using a accepted_nodes_advances [OF a] by (simp_all add: advances_def)
    have "core_ok (r1\<lparr>wr_starting := t\<rparr>)" using core_started [OF core_advances [OF c a]] n s1 st by simp
    with s1 d active [OF _ s1(3)] show ?thesis by (auto simp: Inr p wf_inv_def)
  qed
qed

lemma start_inv: "wf_inv (wf_start cfg)"
proof -
  define r0 where "r0 = \<lparr>wr_state = wi_initial (wc_impl cfg) (wc_definition cfg) (wc_args cfg), wr_nodes = [], wr_snapshots = [],
      wr_timeline = [], wr_events = create_run_event_stream, wr_finished = False, wr_outcome = None,
      wr_aborted = None, wr_last_dispatches = [], wr_ticks = 0, wr_starting = None, wr_queue = [],
      wr_active = None, wr_answers = []\<rparr>"
  define r1 where "r1 = record_snapshot cfg (wf_emit cfg (WorkflowStarted (wd_metadata (wc_definition cfg))) r0)"
  obtain fin r2 where f: "finish_if_done cfg r1 = (fin, r2)" by (cases "finish_if_done cfg r1")
  obtain ds r3 where d: "wf_dispatch cfg r2 = (ds, r3)" by (cases "wf_dispatch cfg r2")
  obtain th r4 where nl: "next_launch cfg [ds] r3 = (th, r4)" by (cases "next_launch cfg [ds] r3")
  have whole: "wf_start cfg = (if fin then r2 else r4\<lparr>wr_starting := th\<rparr>)"
    by (simp add: wf_start_def r0_def [symmetric] r1_def [symmetric] f d nl Let_def)
  have c0: "core_ok r0"
    by (simp add: r0_def core_ok_def stream_inv_def create_run_event_stream_def ls_init_def)
  have "keeps r0 r1" unfolding r1_def by (rule keeps_trans [OF emit_keeps snapshot_keeps]) simp
  with finish_if_done_keeps [OF f] have k2: "keeps r0 r2" by (blast intro: keeps_trans)
  then have k3: "keeps r0 r3" by (rule keeps_trans [OF _ dispatch_keeps [OF d]])
  have a4: "advances r0 r4" using keeps_advances [OF k3] next_launch_advances [OF nl] advances_trans by blast
  have none: "wr_active r' = None \<and> wr_starting r' = None \<and> wr_queue r' = [] \<and> wr_answers r' = []" if "advances r0 r'" for r'
    using that by (simp add: advances_def r0_def)
  have "core_ok (r4\<lparr>wr_starting := th\<rparr>)"
    using core_advances [OF c0 a4] none [OF a4] next_launch_advances [OF nl] by (auto simp: core_ok_def)
  moreover have "core_ok r2" by (rule core_advances [OF c0 keeps_advances [OF k2]])
  ultimately show ?thesis
    using none [OF a4] none [OF keeps_advances [OF k2]] by (simp add: whole wf_inv_def accepted_nodes_def)
qed

lemma submit_starting: "wr_starting (submit_node_completion cfg i payload r) = wr_starting r"
proof -
  have e: "wr_starting (wf_emit cfg b q) = wr_starting q" for b and q :: "'a wf_run"
    by (simp add: wf_emit_def clock_now_def rs_emit_def Let_def)
  have s: "wr_starting r4 = wr_starting q"
    if "apply_validated cfg st (settle_entry cfg i ns acc q) = (ds, r3)" "next_launch cfg [ds] r3 = (th, r4)"
    for st ns acc ds r3 th r4 and q :: "'a wf_run"
    using keeps_advances [OF apply_keeps [OF that(1)]] next_launch_advances [OF that(2)]
    by (simp add: advances_def settle_entry_def clock_now_def)
  show ?thesis
    unfolding submit_node_completion_def Let_def
    by (auto split: sum.splits option.splits prod.splits simp: answer_def e dest!: s)
qed

text \<open>A settlement from the monitor changes nothing, or runs up to the next launch.\<close>

lemma from_monitor_cases:
  obtains (ignored) "settle_from_monitor cfg i ns r = r"
    | (applied) st ds r1 th r2 where "settle_node_run cfg i st r = Inr (ds, r1)" "next_launch cfg [ds] r1 = (th, r2)"
        "settle_from_monitor cfg i ns r = (case th of None \<Rightarrow> r2 | Some th \<Rightarrow> r2\<lparr>wr_active := Some (InSettle th)\<rparr>)"
proof -
  define st where "st = with_node (ss_node (en_start (wr_nodes r ! i))) (en_metadata (wr_nodes r ! i)) ns"
  show ?thesis
  proof (cases "settle_node_run cfg i st r")
    case (Inl err)
    then show ?thesis by (intro ignored) (simp add: settle_from_monitor_def st_def Let_def)
  next
    case (Inr p)
    obtain ds r1 where p: "p = (ds, r1)" by (cases p)
    obtain th r2 where nl: "next_launch cfg [ds] r1 = (th, r2)" by (cases "next_launch cfg [ds] r1")
    from Inr show ?thesis
      by (intro applied [of st ds r1 th r2])
        (simp_all add: p nl settle_from_monitor_def st_def [symmetric] Let_def split: option.split)
  qed
qed

lemma monitor_starting: "wr_starting (settle_from_monitor cfg i ns r) = wr_starting r"
proof (cases rule: from_monitor_cases [of cfg i ns r])
  case (applied st ds r1 th r2)
  then have "wr_starting r2 = wr_starting r"
    using settle_run_advances [OF applied(1)] next_launch_advances [OF applied(2)] by (simp add: advances_def)
  with applied show ?thesis by (simp split: option.split)
qed simp

section \<open>Steps\<close>

lemma start_settles:
  "wf_exec cfg (StartLaunchSettles failure) r = Some r' \<Longrightarrow>
   \<exists>k fs. wr_starting r = Some (k, fs) \<and> r' = (case launched cfg failure (k, fs) r of
      Inl err \<Rightarrow> r\<lparr>wr_starting := None\<rparr> | Inr (th', r1) \<Rightarrow> r1\<lparr>wr_starting := th'\<rparr>)"
proof -
  assume x: "wf_exec cfg (StartLaunchSettles failure) r = Some r'"
  then obtain k fs where st: "wr_starting r = Some (k, fs)" by (auto simp: wf_exec_def split: option.splits)
  with x show ?thesis
    by (intro exI [of _ k] exI [of _ fs]) (auto simp: wf_exec_def split: sum.splits)
qed

lemma exec_inv: "wf_inv r \<Longrightarrow> wf_exec cfg x r = Some r' \<Longrightarrow> wf_inv r'"
proof -
  assume inv: "wf_inv r" and x: "wf_exec cfg x r = Some r'"
  have c: "core_ok r" and d: "distinct (accepted_nodes r @ submitting (wr_active r))"
    and ok: "\<And>act. wr_active r = Some act \<Longrightarrow> active_ok (wr_nodes r) (wr_starting r = None) (wr_finished r) act"
    using inv by (auto simp: wf_inv_def)
  have enq: "wf_inv (r\<lparr>wr_queue := wr_queue r @ [y]\<rparr>)" if "queued_ok (length (wr_nodes r)) (wr_starting r = None) y" for y
    using core_enqueued [OF c that] d ok by (simp add: wf_inv_def)
  show "wf_inv r'"
  proof (cases x)
    case (Submit i payload)
    then show ?thesis using x enq by (auto simp: wf_exec_def split: if_splits)
  next
    case (NodeSettles i ns)
    then show ?thesis using x enq inv by (auto simp: wf_exec_def split: if_splits)
  next
    case (HostInterrupts reason)
    then show ?thesis using x enq by (auto simp: wf_exec_def split: if_splits)
  next
    case Dequeue
    then obtain y ys where a: "wr_active r = None" and q: "wr_queue r = y # ys"
      and r': "r' = run_op cfg y (r\<lparr>wr_queue := ys\<rparr>)"
      using x by (auto simp: wf_exec_def split: option.splits list.splits)
    let ?r = "r\<lparr>wr_queue := ys\<rparr>"
    have c1: "core_ok ?r" and y: "queued_ok (length (wr_nodes r)) (wr_starting r = None) y" using c q by (auto simp: core_ok_def)
    have d1: "distinct (accepted_nodes ?r)" "wr_active ?r = None" using d a by auto
    show ?thesis using y submit_inv [OF c1 d1] monitor_inv [OF c1 d1] begin_interrupt_inv [OF c1 d1]
      by (cases y) (auto simp: r' run_op_def)
  next
    case (LaunchSettles failure)
    then obtain act k fs where "wr_active r = Some act" "active_thread act = Some (k, fs)"
      "r' = resume_active act (launched cfg failure (k, fs) r) r"
      using x by (auto simp: wf_exec_def split: option.splits)
    with resume_inv [OF inv] show ?thesis by blast
  next
    case (StartLaunchSettles failure)
    then obtain k fs where st: "wr_starting r = Some (k, fs)" and "r' = (case launched cfg failure (k, fs) r of
        Inl err \<Rightarrow> r\<lparr>wr_starting := None\<rparr> | Inr (th, r1) \<Rightarrow> r1\<lparr>wr_starting := th\<rparr>)"
      using start_settles x by blast
    with start_step_inv [OF inv st] show ?thesis by simp
  next
    case HandlesInterrupted
    then obtain reason running where a: "wr_active r = Some (InInterrupt reason running)"
      and r': "r' = (end_interrupt cfg reason running r)\<lparr>wr_active := None\<rparr>"
      using x by (auto simp: wf_exec_def split: option.splits wf_active.splits)
    have "running = indices_where (\<lambda>e. en_status e = RunningNode) (wr_nodes r)" using ok [OF a] by simp
    from end_interrupt_advances(1) [OF this] have adv: "advances r (end_interrupt cfg reason running r)" .
    from core_same(1) [OF core_advances [OF c adv]] d accepted_nodes_advances [OF adv] show ?thesis
      by (simp add: r' wf_inv_def)
  next
    case HandlesRefused
    then obtain r0 where "r' = r\<lparr>wr_active := None\<rparr>"
      using x by (auto simp: wf_exec_def split: option.splits wf_active.splits)
    with c d core_same(1) show ?thesis by (simp add: wf_inv_def)
  qed
qed

text \<open>Every step lets the nodes grow and keeps what is sealed.\<close>

definition steps_on :: "'x wf_run \<Rightarrow> 'x wf_run \<Rightarrow> bool" where
  "steps_on r r' = (grows (wr_nodes r) (wr_nodes r') \<and> sealed r r')"

lemma advances_steps: "advances r r' \<Longrightarrow> steps_on r r'"
  by (simp add: advances_def steps_on_def)

lemma steps_trans: "steps_on r r1 \<Longrightarrow> steps_on r1 r2 \<Longrightarrow> steps_on r r2"
  unfolding steps_on_def using grows_trans sealed_trans by blast

lemma steps_same:
  "wr_nodes r' = wr_nodes r \<Longrightarrow> wr_finished r' = wr_finished r \<Longrightarrow> wr_events r' = wr_events r \<Longrightarrow>
   wr_outcome r' = wr_outcome r \<Longrightarrow> steps_on r r'"
  by (simp add: steps_on_def sealed_def stream_inv_def)

lemma next_launch_steps: "next_launch cfg fs r = (th, r') \<Longrightarrow> steps_on r r'"
  using advances_steps next_launch_advances by blast

lemma submit_steps: "steps_on r (submit_node_completion cfg i payload r)"
proof -
  let ?e = "wr_nodes r ! i"
  define r1 where "r1 = wf_emit cfg (NodeOutcomeReceived (nd_name (ss_node (en_start ?e)))) r"
  have k1: "keeps r r1" unfolding r1_def by (rule emit_keeps) simp
  have ans: "steps_on r (answer j a r')" if "steps_on r r'" for j a r'
    by (rule steps_trans [OF that steps_same]) (simp_all add: answer_def)
  have s1: "steps_on r r1" by (rule advances_steps [OF keeps_advances [OF k1]])
  have completed: "steps_on r r4"
    if run: "en_status ?e = RunningNode" and a: "apply_validated cfg st (settle_entry cfg i CompletedNode (Some out) r1) = (ds, r3)"
      and nl: "next_launch cfg [ds] r3 = (th, r4)" for st out ds r3 th r4
  proof -
    have "advances r1 (settle_entry cfg i CompletedNode (Some out) r1)"
      using run k1 by (intro settle_entry_advances) (simp_all add: keeps_def same_nodes_def)
    from advances_steps [OF advances_trans [OF this keeps_advances [OF apply_keeps [OF a]]]] s1 next_launch_steps [OF nl]
    show ?thesis using steps_trans by blast
  qed
  have act: "steps_on r (r4\<lparr>wr_active := b\<rparr>)" if "steps_on r r4" for r4 b
    by (rule steps_trans [OF that steps_same]) simp_all
  show ?thesis
    unfolding submit_node_completion_def Let_def r1_def [symmetric]
    by (auto split: sum.splits option.splits prod.splits intro: ans act s1 completed ans [OF advances_steps [OF advances_refl]])
qed

lemma monitor_steps: "steps_on r (settle_from_monitor cfg i ns r)"
proof (cases rule: from_monitor_cases [of cfg i ns r])
  case ignored
  then show ?thesis using advances_steps [OF advances_refl] by simp
next
  case (applied st ds r1 th r2)
  have "steps_on r r2"
    using advances_steps [OF settle_run_advances [OF applied(1)]] next_launch_steps [OF applied(2)] steps_trans by blast
  moreover have "steps_on r (r2\<lparr>wr_active := b\<rparr>)" if "steps_on r r2" for b
    by (rule steps_trans [OF that steps_same]) simp_all
  ultimately show ?thesis using applied(3) by (simp split: option.split)
qed

lemma launched_steps: "launched cfg failure th r = Inr (t, r') \<Longrightarrow> steps_on r r'"
  using launched_advances advances_steps by (cases th) blast

lemma exec_steps: "wf_inv r \<Longrightarrow> wf_exec cfg x r = Some r' \<Longrightarrow> steps_on r r'"
proof -
  assume inv: "wf_inv r" and x: "wf_exec cfg x r = Some r'"
  have upd: "steps_on r (f r1)" if "steps_on r r1" "steps_on r1 (f r1)" for f r1 using that steps_trans by blast
  show "steps_on r r'"
  proof (cases x)
    case Dequeue
    then obtain y ys where r': "r' = run_op cfg y (r\<lparr>wr_queue := ys\<rparr>)"
      using x by (auto simp: wf_exec_def split: option.splits list.splits)
    have q: "steps_on r (r\<lparr>wr_queue := ys\<rparr>)" by (rule steps_same) simp_all
    have b: "steps_on r1 (begin_interrupt reason r1)" for reason and r1 :: "'a wf_run"
      by (auto simp: begin_interrupt_def intro: steps_same)
    show ?thesis using steps_trans [OF q submit_steps] steps_trans [OF q monitor_steps] steps_trans [OF q b]
      by (cases y) (auto simp: r' run_op_def)
  next
    case (LaunchSettles failure)
    then obtain act th where r': "r' = resume_active act (launched cfg failure th r) r"
      using x by (auto simp: wf_exec_def split: option.splits)
    have "steps_on r (r1\<lparr>wr_active := a\<rparr>)" "steps_on r (answer i w (r1\<lparr>wr_active := a\<rparr>))" if "steps_on r r1" for r1 a i w
      by (rule steps_trans [OF that steps_same]; simp add: answer_def)+
    then show ?thesis using launched_steps [of cfg failure th r] advances_steps [OF advances_refl, of r]
      by (auto simp: r' resume_active_def split: wf_active.splits sum.splits option.splits)
  next
    case (StartLaunchSettles failure)
    then obtain k fs where r': "r' = (case launched cfg failure (k, fs) r of
        Inl err \<Rightarrow> r\<lparr>wr_starting := None\<rparr> | Inr (th', r1) \<Rightarrow> r1\<lparr>wr_starting := th'\<rparr>)"
      using start_settles x by blast
    have "steps_on r (r1\<lparr>wr_starting := a\<rparr>)" if "steps_on r r1" for r1 a
      by (rule steps_trans [OF that steps_same]) simp_all
    then show ?thesis using launched_steps [of cfg failure "(k, fs)" r] advances_steps [OF advances_refl, of r]
      by (auto simp: r' split: sum.splits)
  next
    case HandlesInterrupted
    then obtain reason running where a: "wr_active r = Some (InInterrupt reason running)"
      and r': "r' = (end_interrupt cfg reason running r)\<lparr>wr_active := None\<rparr>"
      using x by (auto simp: wf_exec_def split: option.splits wf_active.splits)
    have "running = indices_where (\<lambda>e. en_status e = RunningNode) (wr_nodes r)" using inv a by (auto simp: wf_inv_def)
    from advances_steps [OF end_interrupt_advances(1) [OF this]] show ?thesis
      unfolding r' by (rule steps_trans [OF _ steps_same]) simp_all
  qed (use x in \<open>auto simp: wf_exec_def intro!: steps_same split: if_splits option.splits wf_active.splits\<close>)
qed

lemma execs_inv: "wf_inv r \<Longrightarrow> wf_execs cfg xs r = Some r' \<Longrightarrow> wf_inv r' \<and> steps_on r r'"
proof (induction xs arbitrary: r)
  case Nil
  then show ?case using advances_steps [OF advances_refl] by auto
next
  case (Cons x xs)
  from Cons.prems obtain r1 where x: "wf_exec cfg x r = Some r1" and xs: "wf_execs cfg xs r1 = Some r'"
    by (auto split: option.splits)
  from Cons.IH [OF exec_inv [OF Cons.prems(1) x] xs] exec_steps [OF Cons.prems(1) x] steps_trans show ?case by blast
qed

lemma reach_inv: "wf_reach cfg r \<Longrightarrow> wf_inv r"
  by (induction rule: wf_reach.induct) (auto intro: start_inv exec_inv)

section \<open>What a run promises\<close>

definition wf_events :: "'x wf_run \<Rightarrow> wf_event stamped list" where
  "wf_events r = ls_buffer (rs_live (wr_events r))"

text \<open>
  C6: a workflow run has one outcome. Its events are numbered 0, 1, 2, ...; while there is no
  outcome none of them is a finish; once there is one, the last event is its
  \<open>workflow_finished\<close>, the only one, and neither the outcome nor the events change any more,
  whatever the host, the nodes and the launches do.
\<close>

theorem workflow_one_outcome:
  assumes "wf_reach cfg r" "wf_execs cfg xs r = Some r'"
  shows "map ev_seq (wf_events r') = [0..<length (wf_events r')]
    \<and> filter (\<lambda>e. is_wf_finished (ev_body e)) (wf_events r') =
        (case wr_outcome r' of None \<Rightarrow> [] | Some out \<Rightarrow> [last (wf_events r')])
    \<and> (\<forall>out. wr_outcome r' = Some out \<longrightarrow> ev_body (last (wf_events r')) = WorkflowFinished out)
    \<and> (wr_outcome r \<noteq> None \<longrightarrow> wr_outcome r' = wr_outcome r \<and> wf_events r' = wf_events r)"
proof -
  have filter_none: "list_all (\<lambda>e. \<not> is_wf_finished (ev_body e)) es \<Longrightarrow> filter (\<lambda>e. is_wf_finished (ev_body e)) es = []"
    for es :: "wf_event stamped list" by (auto simp: list_all_iff filter_empty_conv)
  have inv: "wf_inv r" by (rule reach_inv [OF assms(1)])
  have st: "stream_inv r" "stream_inv r'" and s: "sealed r r'"
    using inv execs_inv [OF inv assms(2)] by (simp_all add: wf_inv_def core_ok_def steps_on_def)
  have fin: "wr_outcome q \<noteq> None \<longleftrightarrow> wr_finished q" if "stream_inv q" for q :: "'a wf_run"
    using that by (auto simp: stream_inv_def Let_def split: if_splits)
  have "wr_outcome r \<noteq> None \<longrightarrow> wr_outcome r' = wr_outcome r \<and> wf_events r' = wf_events r"
    using s st fin by (auto simp: sealed_def wf_events_def)
  moreover have "map ev_seq (wf_events r') = [0..<length (wf_events r')]"
    using st(2) by (simp add: stream_inv_def wf_events_def Let_def)
  moreover have "filter (\<lambda>e. is_wf_finished (ev_body e)) (wf_events r') =
        (case wr_outcome r' of None \<Rightarrow> [] | Some out \<Rightarrow> [last (wf_events r')])
      \<and> (\<forall>out. wr_outcome r' = Some out \<longrightarrow> ev_body (last (wf_events r')) = WorkflowFinished out)"
  proof (cases "wr_finished r'")
    case True
    with st(2) obtain pre e out where "wf_events r' = pre @ [e]" "ev_body e = WorkflowFinished out"
      "wr_outcome r' = Some out" "list_all (\<lambda>e. \<not> is_wf_finished (ev_body e)) pre"
      by (auto simp: stream_inv_def wf_events_def Let_def)
    then show ?thesis by (simp add: filter_none)
  next
    case False
    with st(2) show ?thesis by (simp add: stream_inv_def wf_events_def Let_def filter_none)
  qed
  ultimately show ?thesis by blast
qed

text \<open>
  C9: a node run settles at most once. Every entry has its completion time exactly when it is
  settled and an accepted outcome exactly when it is completed; entries are never removed; and
  a settled entry keeps its status, its completion time and its outcome in every later state.
\<close>

theorem node_settles_once:
  assumes "wf_reach cfg r" "wf_execs cfg xs r = Some r'" "i < length (wr_nodes r)"
  shows "i < length (wr_nodes r')
    \<and> (en_status (wr_nodes r ! i) = RunningNode \<longleftrightarrow> en_completed (wr_nodes r ! i) = None)
    \<and> (en_status (wr_nodes r ! i) = CompletedNode \<longleftrightarrow> en_accepted (wr_nodes r ! i) \<noteq> None)
    \<and> en_start (wr_nodes r' ! i) = en_start (wr_nodes r ! i)
    \<and> (en_status (wr_nodes r ! i) \<noteq> RunningNode \<longrightarrow>
         node_snapshot (wr_nodes r' ! i) = node_snapshot (wr_nodes r ! i) \<and>
         en_accepted (wr_nodes r' ! i) = en_accepted (wr_nodes r ! i))"
proof -
  have inv: "wf_inv r" by (rule reach_inv [OF assms(1)])
  have "entry_ok (wr_nodes r ! i)" using inv assms(3) by (simp add: wf_inv_def core_ok_def list_all_length)
  moreover have "grows (wr_nodes r) (wr_nodes r')" using execs_inv [OF inv assms(2)] by (simp add: steps_on_def)
  ultimately show ?thesis using assms(3) by (auto simp: grows_def frozen_def entry_ok_def node_snapshot_def)
qed

text \<open>
  C8: an accepted submission is the node's one completion. When a submission is answered with
  acceptance, its node is completed with that outcome, now and in every later state, and no
  other submission of the node is ever accepted.
\<close>

theorem submission_accepted_once:
  assumes "wf_reach cfg r" "(i, SubmissionAccepted out) \<in> set (wr_answers r)"
  shows "en_status (wr_nodes r ! i) = CompletedNode \<and> en_accepted (wr_nodes r ! i) = Some out
    \<and> length (filter (\<lambda>(k, a). k = i \<and> is_accepted a) (wr_answers r)) = 1"
proof -
  have inv: "wf_inv r" by (rule reach_inv [OF assms(1)])
  have "distinct (accepted_nodes r)" using inv by (simp add: wf_inv_def)
  moreover have "i \<in> set (accepted_nodes r)" using assms(2) by (force simp: accepted_nodes_def)
  ultimately have "length (filter (\<lambda>k. k = i) (accepted_nodes r)) = 1"
    by (simp add: distinct_length_filter Int_absorb2 subset_eq)
  moreover have "length (filter (\<lambda>k. k = i) (accepted_nodes r)) =
      length (filter (\<lambda>(k, a). k = i \<and> is_accepted a) (wr_answers r))"
    by (simp add: accepted_nodes_def filter_map comp_def case_prod_unfold conj_commute)
  moreover have "accepted_at (wr_nodes r) i out" using inv assms(2) by (simp add: wf_inv_def core_ok_def)
  ultimately show ?thesis by (simp add: accepted_at_def)
qed

text \<open>Once a run is over and nothing is running or being launched, no step changes it.\<close>

definition wf_over :: "'x wf_run \<Rightarrow> bool" where
  "wf_over r = (wr_finished r \<and> list_all (\<lambda>e. en_status e \<noteq> RunningNode) (wr_nodes r) \<and>
     wr_starting r = None \<and> wr_active r = None \<and> list_all (queued_ok (length (wr_nodes r)) True) (wr_queue r))"

lemma over_stays:
  assumes over: "wf_over r" and x: "wf_exec cfg x r = Some r'"
  shows "wf_over r' \<and> wr_nodes r' = wr_nodes r \<and> wr_outcome r' = wr_outcome r \<and> wr_state r' = wr_state r \<and>
    wf_events r' = wf_events r"
proof (cases x)
  case Dequeue
  then obtain y ys where q: "wr_queue r = y # ys" and r': "r' = run_op cfg y (r\<lparr>wr_queue := ys\<rparr>)"
    using x by (auto simp: wf_exec_def split: option.splits list.splits)
  have settled: "en_status (wr_nodes r ! i) \<noteq> RunningNode" if "queued_ok (length (wr_nodes r)) True (OpSettle i ns)" for i ns
    using over that by (simp add: wf_over_def list_all_length)
  show ?thesis
  proof (cases y)
    case (OpSubmit i payload)
    with over q r' settled [of i] show ?thesis
      by (simp add: wf_over_def run_op_def submit_node_completion_def answer_def wf_events_def Let_def)
  next
    case (OpSettle i ns)
    have "en_status (wr_nodes r ! i) \<noteq> RunningNode" using over q OpSettle settled [of i] by (simp add: wf_over_def)
    with over q r' OpSettle show ?thesis
      by (cases ns) (simp_all add: wf_over_def run_op_def settle_from_monitor_def settle_node_run_def wf_events_def Let_def)
  next
    case (OpInterrupt reason)
    with over q r' show ?thesis by (simp add: wf_over_def run_op_def begin_interrupt_def wf_events_def)
  qed
qed (use over x in \<open>auto simp: wf_exec_def wf_over_def wf_events_def split: if_splits\<close>)

lemma over_stays_run:
  "wf_over r \<Longrightarrow> wf_execs cfg xs r = Some r' \<Longrightarrow>
   wr_nodes r' = wr_nodes r \<and> wr_outcome r' = wr_outcome r \<and> wr_state r' = wr_state r \<and> wf_events r' = wf_events r"
proof (induction xs arbitrary: r)
  case (Cons x xs)
  then obtain r1 where x: "wf_exec cfg x r = Some r1" and xs: "wf_execs cfg xs r1 = Some r'" by (auto split: option.splits)
  with over_stays [OF Cons.prems(1) x] Cons.IH [OF _ xs] show ?case by simp
qed simp

lemma interrupt_over:
  assumes inv: "wf_inv r" and x: "wf_exec cfg HandlesInterrupted r = Some r'"
  shows "\<exists>reason running. wr_active r = Some (InInterrupt reason running) \<and> wr_outcome r' = Some (OutcomeCancelled reason) \<and>
    wf_over r' \<and> map en_status (wr_nodes r') =
      map (\<lambda>e. if en_status e = RunningNode then CancelledNode else en_status e) (wr_nodes r)"
proof -
  from x obtain reason running where a: "wr_active r = Some (InInterrupt reason running)"
    and r': "r' = (end_interrupt cfg reason running r)\<lparr>wr_active := None\<rparr>"
    by (auto simp: wf_exec_def split: option.splits wf_active.splits)
  have ok: "wr_starting r = None" "\<not> wr_finished r" "running = indices_where (\<lambda>e. en_status e = RunningNode) (wr_nodes r)"
    using inv a by (auto simp: wf_inv_def)
  note adv = end_interrupt_advances(1) [OF ok(3), of cfg reason]
  have "core_ok (end_interrupt cfg reason running r)" using inv core_advances [OF _ adv] by (simp add: wf_inv_def)
  moreover have "wr_outcome (end_interrupt cfg reason running r) = Some (OutcomeCancelled reason)"
    by (rule end_interrupt_advances(4) [OF ok(3,2)])
  moreover have "list_all (\<lambda>e. en_status e \<noteq> RunningNode) (wr_nodes (end_interrupt cfg reason running r))"
    by (rule end_interrupt_advances(2) [OF ok(3)])
  ultimately show ?thesis using a ok(1) adv end_interrupt_advances(3) [OF ok(3), of cfg reason]
    by (auto simp: r' wf_over_def core_ok_def advances_def stream_inv_def Let_def split: if_splits)
qed

text \<open>
  C7: an interrupt is final. When the interrupt of a run completes, the run's outcome is
  cancelled with the interrupt's reason, no node is running, the nodes that had settled keep
  how they settled; and from then on nothing starts, settles or is reported again, whatever is
  still queued and whatever the nodes and the host still send.
\<close>

theorem workflow_interrupt_final:
  assumes "wf_reach cfg r" "wf_exec cfg HandlesInterrupted r = Some r'" "wf_execs cfg xs r' = Some r''"
    "wr_active r = Some (InInterrupt reason running)"
  shows "wr_outcome r'' = Some (OutcomeCancelled reason) \<and> running_nodes r'' = []
    \<and> wr_nodes r'' = wr_nodes r' \<and> wr_state r'' = wr_state r' \<and> wf_events r'' = wf_events r'
    \<and> map en_status (wr_nodes r'') =
        map (\<lambda>e. if en_status e = RunningNode then CancelledNode else en_status e) (wr_nodes r)"
proof -
  from interrupt_over [OF reach_inv [OF assms(1)] assms(2)] assms(4)
  have o: "wf_over r'" "wr_outcome r' = Some (OutcomeCancelled reason)"
    "map en_status (wr_nodes r') = map (\<lambda>e. if en_status e = RunningNode then CancelledNode else en_status e) (wr_nodes r)"
    by auto
  have "running_nodes r' = []" using o(1) by (auto simp: wf_over_def running_nodes_def list_all_iff filter_empty_conv)
  with o over_stays_run [OF o(1) assms(3)] show ?thesis by (simp add: running_nodes_def)
qed

end
