(* ===== verification/WorkflowExamples.thy ===== *)
theory WorkflowExamples
  imports WorkflowProps
begin

text \<open>
  Concrete workflow runs: the witnesses of the runtime's properties, and two ways in which the
  dispatch loop of the code launches a node it should not.
\<close>

section \<open>A plan of two nodes\<close>

text \<open>
  The implementation starts every planned node that is neither running nor finished; a failed
  node fails the workflow, two completed ones make it a success.
\<close>

definition planned :: "string \<Rightarrow> dispatch" where
  "planned n = \<lparr>dp_start = \<lparr>ss_node = \<lparr>nd_kind = AgentKind, nd_name = n, nd_description = None\<rparr>,
       ss_input = AgentInput [] None,
       ss_outcome = \<lparr>oc_name = ''done'', oc_description = [],
         oc_parse = (\<lambda>j. if j = JNull then Inl [\<lparr>issue_path = [], issue_message = ''no payload''\<rparr>] else Inr j)\<rparr>\<rparr>,
     dp_metadata = None\<rparr>"

definition plan_dispatch :: "nat wf_state \<Rightarrow> runtime_snapshot \<Rightarrow> dispatch list" where
  "plan_dispatch s rt =
     filter (\<lambda>d. nd_name (ss_node (dp_start d)) \<notin> set (map sn_name (rt_running rt @ rt_finished rt)))
       [planned ''a'', planned ''b'']"

fun plan_apply :: "nat wf_state \<Rightarrow> wf_settlement \<Rightarrow> nat transition_result" where
  "plan_apply s (SettledCompleted _ _ _) = \<lparr>tr_state = s\<lparr>ws_version := ws_version s + 1, ws_data := ws_data s + 1\<rparr>, tr_transition = Some []\<rparr>"
| "plan_apply s _ = \<lparr>tr_state = s\<lparr>ws_version := ws_version s + 1, ws_done := True, ws_status := WfFailure\<rparr>, tr_transition = Some []\<rparr>"

definition plan_impl :: "nat wf_impl" where
  "plan_impl = \<lparr>wi_initial = (\<lambda>_ _. \<lparr>ws_version = 0, ws_done = False, ws_status = WfRunning, ws_last_transition = None, ws_data = 0\<rparr>),
     wi_dispatch = (\<lambda>_. plan_dispatch), wi_validate = (\<lambda>_ _ _. None), wi_apply = (\<lambda>s x _. plan_apply s x),
     wi_evaluate = (\<lambda>s _. \<lparr>tr_state = (if ws_data s = 2 then s\<lparr>ws_done := True, ws_status := WfSuccess\<rparr> else s), tr_transition = None\<rparr>),
     wi_deadlock = (\<lambda>_ _ _. None), wi_outcome = (\<lambda>s. if ws_status s = WfSuccess then Some (OutcomeSuccess None) else None),
     wi_to_json = (\<lambda>s. [(''done'', JBool (ws_done s))])\<rparr>"

definition plan_config :: "nat wf_config" where
  "plan_config = \<lparr>wc_impl = plan_impl, wc_definition = \<lparr>wd_description = None, wd_nodes = None, wd_args = None, wd_metadata = None\<rparr>,
     wc_args = [], wc_clock = (\<lambda>_. ''now'')\<rparr>"

definition plan_start :: "nat wf_run" where
  "plan_start = wf_start plan_config"

definition plan_run :: "wf_label list \<Rightarrow> nat wf_run option" where
  "plan_run xs = wf_execs plan_config xs plan_start"

lemma plan_reach: "plan_run xs = Some r \<Longrightarrow> wf_reach plan_config r"
  unfolding plan_run_def plan_start_def by (rule wf_execs_reach [OF wf_started])

definition launches :: "wf_label list" where
  "launches = [StartLaunchSettles None, StartLaunchSettles None]"

definition first_done :: "wf_label list" where
  "first_done = launches @ [Submit 0 JNull, Dequeue, Submit 0 (JBool True), Dequeue]"

definition second_done :: "wf_label list" where
  "second_done = [Submit 0 (JBool False), Dequeue, Submit 1 (JBool True), Dequeue]"

definition afterwards :: "wf_label list" where
  "afterwards = [HostInterrupts ''late'', Dequeue, NodeSettles 1 (NodeFailed ''late''), Submit 1 JNull, Dequeue]"

definition digest :: "nat wf_run \<Rightarrow> (string \<times> node_status) list \<times> wf_outcome option \<times> nat" where
  "digest r = (map (\<lambda>e. (nd_name (ss_node (en_start e)), en_status e)) (wr_nodes r), wr_outcome r, length (wf_events r))"

lemma plan_runs:
  assumes "plan_run (xs @ ys) = Some r'"
  shows "\<exists>r. plan_run xs = Some r \<and> wf_execs plan_config ys r = Some r'"
proof -
  have "wf_execs plan_config (xs @ ys) q = Some r' \<Longrightarrow> \<exists>r. wf_execs plan_config xs q = Some r \<and> wf_execs plan_config ys r = Some r'" for q
    by (induction xs arbitrary: q) (auto split: option.splits)
  then show ?thesis using assms by (simp add: plan_run_def)
qed

section \<open>Witnesses\<close>

definition whole_run :: "wf_label list" where
  "whole_run = first_done @ second_done"

lemma whole_digest: "map_option digest (plan_run whole_run) =
    Some ([(''a'', CompletedNode), (''b'', CompletedNode)], Some (OutcomeSuccess None), 10)"
  by code_simp

lemma afterwards_runs: "map_option digest (plan_run (whole_run @ afterwards)) =
    Some ([(''a'', CompletedNode), (''b'', CompletedNode)], Some (OutcomeSuccess None), 10)"
  by code_simp

lemma first_digest: "map_option digest (plan_run first_done) =
    Some ([(''a'', CompletedNode), (''b'', RunningNode)], None, 6)"
  by code_simp

lemma whole_then_afterwards:
  "\<exists>r r'. plan_run whole_run = Some r \<and> wf_execs plan_config afterwards r = Some r' \<and> wr_outcome r = Some (OutcomeSuccess None)"
proof -
  obtain r' where "plan_run (whole_run @ afterwards) = Some r'" using afterwards_runs by auto
  then obtain r where "plan_run whole_run = Some r" "wf_execs plan_config afterwards r = Some r'" using plan_runs by blast
  with whole_digest show ?thesis by (auto simp: digest_def)
qed

theorem workflow_one_outcome_witness:
  "\<exists>r r'. plan_run whole_run = Some r \<and> wf_execs plan_config afterwards r = Some r'
    \<and> wr_outcome r' = Some (OutcomeSuccess None) \<and> ev_body (last (wf_events r')) = WorkflowFinished (OutcomeSuccess None)
    \<and> wf_events r' = wf_events r"
proof -
  obtain r r' where r: "plan_run whole_run = Some r" "wf_execs plan_config afterwards r = Some r'"
    and out: "wr_outcome r = Some (OutcomeSuccess None)" using whole_then_afterwards by blast
  from workflow_one_outcome [OF plan_reach [OF r(1)] r(2)] r out show ?thesis by auto
qed

theorem node_settles_once_witness:
  "\<exists>r r'. plan_run first_done = Some r \<and> wf_execs plan_config second_done r = Some r'
    \<and> en_status (wr_nodes r ! 0) = CompletedNode \<and> node_snapshot (wr_nodes r' ! 0) = node_snapshot (wr_nodes r ! 0)"
proof -
  obtain r' where "plan_run (first_done @ second_done) = Some r'" using whole_digest by (auto simp: whole_run_def)
  then obtain r where r: "plan_run first_done = Some r" "wf_execs plan_config second_done r = Some r'" using plan_runs by blast
  with first_digest have "length (wr_nodes r) = 2" "en_status (wr_nodes r ! 0) = CompletedNode" by (auto simp: digest_def)
  with node_settles_once [OF plan_reach [OF r(1)] r(2), of 0] r show ?thesis by auto
qed

lemma whole_answers: "map_option wr_answers (plan_run whole_run) =
    Some [(0, SubmissionRejected ''invalid done: no payload''),
      (0, SubmissionAccepted \<lparr>no_name = ''done'', no_payload = JBool True\<rparr>),
      (0, SubmissionRejected ''node run is already finished''),
      (1, SubmissionAccepted \<lparr>no_name = ''done'', no_payload = JBool True\<rparr>)]"
  by code_simp

theorem submission_accepted_once_witness:
  "\<exists>r. plan_run whole_run = Some r \<and> length (wr_answers r) = 4
    \<and> en_accepted (wr_nodes r ! 0) = Some \<lparr>no_name = ''done'', no_payload = JBool True\<rparr>
    \<and> length (filter (\<lambda>(k, a). k = 0 \<and> is_accepted a) (wr_answers r)) = 1"
proof -
  obtain r where r: "plan_run whole_run = Some r" and a: "length (wr_answers r) = 4"
    and m: "(0, SubmissionAccepted \<lparr>no_name = ''done'', no_payload = JBool True\<rparr>) \<in> set (wr_answers r)"
    using whole_answers by auto
  from submission_accepted_once [OF plan_reach [OF r] m] r a show ?thesis by auto
qed

definition interrupted_early :: "wf_label list" where
  "interrupted_early = first_done @ [HostInterrupts ''stop'', Submit 1 (JBool True), Dequeue]"

definition late_moves :: "wf_label list" where
  "late_moves = [Dequeue, NodeSettles 1 (NodeCancelled None), HostInterrupts ''again'', Dequeue]"

fun interrupting :: "wf_active option \<Rightarrow> (string \<times> nat list) option" where
  "interrupting (Some (InInterrupt reason running)) = Some (reason, running)"
| "interrupting _ = None"

lemma interrupting_Some: "interrupting a = Some (reason, running) \<longleftrightarrow> a = Some (InInterrupt reason running)"
  by (cases "(a, ())" rule: prod.exhaust, cases a rule: interrupting.cases) auto

lemma interrupted_active:
  "map_option (\<lambda>r. interrupting (wr_active r)) (plan_run interrupted_early) = Some (Some (''stop'', [1]))"
  by code_simp

lemma late_moves_run: "map_option digest (plan_run (interrupted_early @ (HandlesInterrupted # late_moves))) =
    Some ([(''a'', CompletedNode), (''b'', CancelledNode)], Some (OutcomeCancelled ''stop''), 9)"
  by code_simp

theorem workflow_interrupt_final_witness:
  "\<exists>r r' r''. plan_run interrupted_early = Some r \<and> wf_exec plan_config HandlesInterrupted r = Some r'
    \<and> wf_execs plan_config late_moves r' = Some r''
    \<and> wr_outcome r'' = Some (OutcomeCancelled ''stop'') \<and> running_nodes r'' = [] \<and> wf_events r'' = wf_events r'"
proof -
  obtain r'' where "plan_run (interrupted_early @ (HandlesInterrupted # late_moves)) = Some r''"
    using late_moves_run by auto
  then obtain r where r: "plan_run interrupted_early = Some r" "wf_execs plan_config (HandlesInterrupted # late_moves) r = Some r''"
    using plan_runs by blast
  then obtain r' where r': "wf_exec plan_config HandlesInterrupted r = Some r'" "wf_execs plan_config late_moves r' = Some r''"
    by (auto split: option.splits)
  have "wr_active r = Some (InInterrupt ''stop'' [1])" using interrupted_active r(1) by (simp add: interrupting_Some)
  from workflow_interrupt_final [OF plan_reach [OF r(1)] r' this] r(1) r' show ?thesis by auto
qed

section \<open>What the dispatch loop does not check\<close>

text \<open>
  A launch that fails may finish the workflow; the loop goes on and launches the next node of
  the finished run. Nothing stops that node: an interrupt of a finished run does nothing.
\<close>

lemma launch_after_finish:
  "map_option digest (plan_run [StartLaunchSettles (Some ''boom'')]) =
     Some ([(''a'', FailedNode), (''b'', RunningNode)], Some (OutcomeFailure (Some ''failure'') None), 6) \<and>
   map_option digest (plan_run [StartLaunchSettles (Some ''boom''), StartLaunchSettles None, HostInterrupts ''stop'', Dequeue]) =
     Some ([(''a'', FailedNode), (''b'', RunningNode)], Some (OutcomeFailure (Some ''failure'') None), 6)"
  by (rule conjI; code_simp)

text \<open>
  The initial dispatch does not run through the queue: a node that completes while the loop is
  still launching makes the implementation dispatch again, from a snapshot in which the
  dispatches the loop has left are not claimed yet; the loop then claims them a second time.
\<close>

lemma initial_dispatch_races:
  "map_option digest (plan_run [Submit 0 (JBool True), Dequeue, LaunchSettles None, StartLaunchSettles None]) =
     Some ([(''a'', CompletedNode), (''b'', RunningNode), (''b'', RunningNode)], None, 7)"
  by code_simp

end
