(* ===== verification/Schemas.thy ===== *)
theory Schemas
  imports Json
begin

text \<open>
  The pieces of the zod schemas that the program declares, as parse functions: \<open>None\<close> is a
  refusal, and the issues of a refusal are a parameter where they are shown. Numbers are read
  from their rendering.
\<close>

text \<open>A strict object has no other keys.\<close>

definition strict_keys :: "string list \<Rightarrow> json_object \<Rightarrow> bool" where
  "strict_keys ks kvs = list_all (\<lambda>kv. fst kv \<in> set ks) kvs"

definition jnat :: "nat \<Rightarrow> json" where
  "jnat n = JNum (string_of_nat n)"

definition optional_member :: "string \<Rightarrow> json option \<Rightarrow> json_object" where
  "optional_member k v = (case v of None \<Rightarrow> [] | Some j \<Rightarrow> [(k, j)])"

definition newline :: string where
  "newline = [CHR 0x0A]"

definition nat_of_digits :: "string \<Rightarrow> nat" where
  "nat_of_digits s = foldl (\<lambda>n c. 10 * n + (of_char c - 48)) 0 s"

definition parse_positive :: "json \<Rightarrow> nat option" where
  "parse_positive j =
     (case j of
        JNum n \<Rightarrow>
          (if n \<noteq> [] \<and> list_all (\<lambda>c. c \<in> set ''0123456789'') n \<and> 0 < nat_of_digits n \<and> nat_of_digits n < 2 ^ 53
           then Some (nat_of_digits n) else None)
      | _ \<Rightarrow> None)"

text \<open>\<open>z.string().min(1)\<close>, required and optional.\<close>

definition parse_text :: "json option \<Rightarrow> string option" where
  "parse_text j = (case j of Some (JStr s) \<Rightarrow> if s = [] then None else Some s | _ \<Rightarrow> None)"

definition parse_optional_text :: "json option \<Rightarrow> string option option" where
  "parse_optional_text j = (case j of None \<Rightarrow> Some None | Some _ \<Rightarrow> map_option Some (parse_text j))"

text \<open>\<open>z.enum(names)\<close>, \<open>z.boolean().default(d)\<close>.\<close>

definition parse_enum :: "string list \<Rightarrow> json option \<Rightarrow> string option" where
  "parse_enum names j = (case j of Some (JStr s) \<Rightarrow> if s \<in> set names then Some s else None | _ \<Rightarrow> None)"

definition parse_flag :: "bool \<Rightarrow> json option \<Rightarrow> bool option" where
  "parse_flag d j = (case j of None \<Rightarrow> Some d | Some (JBool b) \<Rightarrow> Some b | _ \<Rightarrow> None)"

text \<open>\<open>z.number().int().min(0)\<close>.\<close>

definition parse_natural :: "json \<Rightarrow> nat option" where
  "parse_natural j =
     (case j of
        JNum n \<Rightarrow>
          (if n \<noteq> [] \<and> list_all (\<lambda>c. c \<in> set ''0123456789'') n \<and> nat_of_digits n < 2 ^ 53 then Some (nat_of_digits n) else None)
      | _ \<Rightarrow> None)"

text \<open>The numeral of a natural number is read back.\<close>

lemma digit_value: "of_char (digit_char d) - (48::nat) = d mod 10"
proof -
  have "\<forall>m \<in> set [0..<10]. of_char (digit_char m) - (48::nat) = m" by code_simp
  then have "of_char (digit_char (d mod 10)) - (48::nat) = d mod 10" by simp
  then show ?thesis by (simp add: digit_char_def)
qed

lemma nat_of_rendered [simp]: "nat_of_digits (string_of_nat n) = n"
proof (induction n rule: string_of_nat.induct)
  case (1 n)
  show ?case
  proof (cases "n < 10")
    case True
    then show ?thesis by (simp add: string_of_nat.simps [of n] nat_of_digits_def digit_value)
  next
    case False
    with 1 show ?thesis by (simp add: string_of_nat.simps [of n] nat_of_digits_def digit_value)
  qed
qed

end
