(* ===== verification/RalphLoop.thy ===== *)
theory RalphLoop
  imports Workflow Schemas
begin

text \<open>
  The bundled workflow \<open>coding-agent/.ephai/agentic-workflows/ralph_loop/workflow.mjs\<close>: planner,
  reviewer and critic in turn, and a bounded number of attempts. Its callbacks are one value of
  the runtime's \<open>wf_impl\<close>. The issues zod reports for a refused payload are a parameter.
\<close>

section \<open>Payloads\<close>

datatype ralph_phase = PlannerPhase | ReviewerPhase | CriticPhase | DonePhase

fun phase_name :: "ralph_phase \<Rightarrow> string" where
  "phase_name PlannerPhase = ''planner''"
| "phase_name ReviewerPhase = ''reviewer''"
| "phase_name CriticPhase = ''critic''"
| "phase_name DonePhase = ''done''"

text \<open>The three payloads differ in the name of their text: \<open>plan\<close>, \<open>review\<close>, \<open>verdict\<close>.\<close>

record ralph_report =
  rr_pass :: bool
  rr_text :: string
  rr_summary :: string

fun payload_key :: "ralph_phase \<Rightarrow> string" where
  "payload_key PlannerPhase = ''plan''"
| "payload_key ReviewerPhase = ''review''"
| "payload_key _ = ''verdict''"

definition parse_report :: "ralph_phase \<Rightarrow> json \<Rightarrow> ralph_report option" where
  "parse_report p j =
     (case j of
        JObj kvs \<Rightarrow>
          (if \<not> strict_keys [''pass'', payload_key p, ''summary''] kvs then None
           else (case (map_of kvs ''pass'', map_of kvs (payload_key p), map_of kvs ''summary'') of
                   (Some (JBool b), Some (JStr t), Some (JStr s)) \<Rightarrow>
                     (if t \<noteq> [] \<and> s \<noteq> [] then Some \<lparr>rr_pass = b, rr_text = t, rr_summary = s\<rparr> else None)
                 | _ \<Rightarrow> None))
      | _ \<Rightarrow> None)"

definition report_json :: "ralph_phase \<Rightarrow> ralph_report \<Rightarrow> json" where
  "report_json p r = JObj [(''pass'', JBool (rr_pass r)), (payload_key p, JStr (rr_text r)), (''summary'', JStr (rr_summary r))]"

section \<open>State\<close>

record ralph_data =
  ra_attempt :: nat
  ra_max :: nat
  ra_phase :: ralph_phase
  ra_failures :: "string list"
  ra_planner :: "ralph_report option"
  ra_reviewer :: "ralph_report option"
  ra_critic :: "ralph_report option"

type_synonym ralph_state = "ralph_data wf_state"

definition ralph_initial :: "nat \<Rightarrow> ralph_state" where
  "ralph_initial max_attempts =
     \<lparr>ws_version = 0, ws_done = False, ws_status = WfRunning, ws_last_transition = None,
      ws_data = \<lparr>ra_attempt = 1, ra_max = max_attempts, ra_phase = PlannerPhase, ra_failures = [],
                ra_planner = None, ra_reviewer = None, ra_critic = None\<rparr>\<rparr>"

definition with_transition :: "'x wf_state \<Rightarrow> string \<Rightarrow> json_object \<Rightarrow> 'x transition_result" where
  "with_transition s type rest =
     (let t = (''type'', JStr type) # rest in \<lparr>tr_state = s\<lparr>ws_last_transition := Some t\<rparr>, tr_transition = Some t\<rparr>)"

definition unchanged :: "'x wf_state \<Rightarrow> 'x transition_result" where
  "unchanged s = \<lparr>tr_state = s, tr_transition = None\<rparr>"

section \<open>Node bindings\<close>

text \<open>A binding is a node of the definition's metadata; a description of another type is left out.\<close>

definition as_binding :: "json \<Rightarrow> node_def option" where
  "as_binding j =
     (case j of
        JObj kvs \<Rightarrow>
          (case (map_of kvs ''kind'', map_of kvs ''name'') of
             (Some (JStr k), Some (JStr n)) \<Rightarrow>
               (let d = (case map_of kvs ''description'' of Some (JStr d) \<Rightarrow> Some d | _ \<Rightarrow> None) in
                if k = ''agent'' then Some \<lparr>nd_kind = AgentKind, nd_name = n, nd_description = d\<rparr>
                else if k = ''workflow'' then Some \<lparr>nd_kind = WorkflowKind, nd_name = n, nd_description = d\<rparr>
                else None)
           | _ \<Rightarrow> None)
      | _ \<Rightarrow> None)"

definition is_binding_map :: "string list \<Rightarrow> json_object \<Rightarrow> bool" where
  "is_binding_map roles kvs =
     list_all (\<lambda>role. case map_of kvs role of Some j \<Rightarrow> as_binding j \<noteq> None | None \<Rightarrow> False) roles"

definition binding_for :: "string list \<Rightarrow> wf_definition \<Rightarrow> string \<Rightarrow> node_def option" where
  "binding_for roles def role =
     (case wd_metadata def of
        None \<Rightarrow> None
      | Some meta \<Rightarrow>
          (case map_of meta ''nodeBindings'' of
             Some (JObj kvs) \<Rightarrow>
               (if is_binding_map roles kvs then (case map_of kvs role of Some j \<Rightarrow> as_binding j | None \<Rightarrow> None) else None)
           | _ \<Rightarrow> None))"

definition ralph_roles :: "string list" where
  "ralph_roles = [''planner'', ''reviewer'', ''critic'']"

section \<open>Dispatch\<close>

fun ralph_outcome_name :: "ralph_phase \<Rightarrow> string" where
  "ralph_outcome_name PlannerPhase = ''submit_planner_ralph_outcome''"
| "ralph_outcome_name ReviewerPhase = ''submit_reviewer_ralph_outcome''"
| "ralph_outcome_name _ = ''submit_critic_ralph_outcome''"

fun ralph_outcome_description :: "ralph_phase \<Rightarrow> string" where
  "ralph_outcome_description PlannerPhase = ''Submit the Ralph planner result for this attempt.''"
| "ralph_outcome_description ReviewerPhase = ''Submit the Ralph reviewer result for this attempt.''"
| "ralph_outcome_description _ = ''Submit the Ralph critic result for this attempt.''"

definition ralph_outcome_for :: "(json \<Rightarrow> zod_issue list) \<Rightarrow> ralph_phase \<Rightarrow> outcome_contract" where
  "ralph_outcome_for issues p =
     \<lparr>oc_name = ralph_outcome_name p, oc_description = ralph_outcome_description p,
      oc_parse = (\<lambda>j. case parse_report p j of None \<Rightarrow> Inl (issues j) | Some r \<Rightarrow> Inr (report_json p r))\<rparr>"

definition report_text :: "ralph_report option \<Rightarrow> string" where
  "report_text r = (case r of None \<Rightarrow> [] | Some x \<Rightarrow> rr_text x)"



definition ralph_messages :: "ralph_data \<Rightarrow> message list" where
  "ralph_messages d =
     [user_text (''Attempt '' @ string_of_nat (ra_attempt d) @
        (case ra_phase d of
           PlannerPhase \<Rightarrow> '': produce a concise implementation plan.''
         | ReviewerPhase \<Rightarrow>
             '': review this plan and decide whether it passes.'' @ newline @ newline @ report_text (ra_planner d)
         | _ \<Rightarrow>
             '': critique the accepted plan and review.'' @ newline @ newline @ ''Plan: '' @ report_text (ra_planner d) @
             newline @ ''Review: '' @ report_text (ra_reviewer d)))]"

definition role_metadata :: "ralph_data \<Rightarrow> json_object" where
  "role_metadata d = [(''role'', JStr (phase_name (ra_phase d))), (''attempt'', jnat (ra_attempt d))]"

definition report_or_null :: "ralph_phase \<Rightarrow> ralph_report option \<Rightarrow> json" where
  "report_or_null p r = (case r of None \<Rightarrow> JNull | Some x \<Rightarrow> report_json p x)"

definition ralph_start_for :: "(json \<Rightarrow> zod_issue list) \<Rightarrow> ralph_data \<Rightarrow> node_def \<Rightarrow> start_spec" where
  "ralph_start_for issues d n =
     \<lparr>ss_node = n,
      ss_input = (case nd_kind n of
         AgentKind \<Rightarrow> AgentInput (ralph_messages d) (Some (role_metadata d))
       | WorkflowKind \<Rightarrow>
           WorkflowInput
             [(''phase'', JStr (phase_name (ra_phase d))), (''attempt'', jnat (ra_attempt d)),
              (''planner'', report_or_null PlannerPhase (ra_planner d)),
              (''reviewer'', report_or_null ReviewerPhase (ra_reviewer d))] (Some (role_metadata d))),
      ss_outcome = ralph_outcome_for issues (ra_phase d)\<rparr>"

definition ralph_dispatch :: "(json \<Rightarrow> zod_issue list) \<Rightarrow> wf_definition \<Rightarrow> ralph_state \<Rightarrow> runtime_snapshot \<Rightarrow> dispatch list" where
  "ralph_dispatch issues def s rt =
     (let d = ws_data s in
      if ws_done s \<or> ra_phase d = DonePhase then []
      else if rt_running rt \<noteq> [] then []
      else case binding_for ralph_roles def (phase_name (ra_phase d)) of
             None \<Rightarrow> []
           | Some n \<Rightarrow> [\<lparr>dp_start = ralph_start_for issues d n, dp_metadata = Some (role_metadata d)\<rparr>])"

section \<open>Settlements\<close>

fun settlement_metadata :: "wf_settlement \<Rightarrow> json_object option" where
  "settlement_metadata (SettledCompleted _ m _) = m"
| "settlement_metadata (SettledRejected _ m _) = m"
| "settlement_metadata (SettledFailed _ m _) = m"
| "settlement_metadata (SettledCancelled _ m _) = m"

definition settlement_role :: "wf_settlement \<Rightarrow> string option" where
  "settlement_role st =
     (case settlement_metadata st of
        None \<Rightarrow> None
      | Some m \<Rightarrow> (case map_of m ''role'' of Some (JStr r) \<Rightarrow> Some r | _ \<Rightarrow> None))"

definition ralph_validate :: "ralph_state \<Rightarrow> wf_settlement \<Rightarrow> string option" where
  "ralph_validate s st =
     (if ra_phase (ws_data s) = DonePhase then Some ''workflow is already done''
      else if settlement_role st \<noteq> Some (phase_name (ra_phase (ws_data s))) then
        Some (''settlement role \"'' @ (case settlement_role st of None \<Rightarrow> ''unknown'' | Some r \<Rightarrow> r) @
              ''\" does not match phase \"'' @ phase_name (ra_phase (ws_data s)) @ ''\"'')
      else None)"

text \<open>\<open>settlementFailure\<close>, the same in both workflows: why a settlement is not a completion.\<close>

fun settlement_failure :: "wf_settlement \<Rightarrow> string \<Rightarrow> string option" where
  "settlement_failure (SettledCompleted _ _ _) who = None"
| "settlement_failure (SettledCancelled _ _ why) who =
     Some (who @ '' cancelled: '' @ (case why of None \<Rightarrow> ''cancelled'' | Some w \<Rightarrow> w))"
| "settlement_failure (SettledRejected _ _ why) who = Some (who @ '' rejected: '' @ why)"
| "settlement_failure (SettledFailed _ _ why) who = Some (who @ '' failed: '' @ why)"

text \<open>\<open>None\<close>: the payload does not parse, and the callback throws.\<close>

definition ralph_apply :: "ralph_state \<Rightarrow> wf_settlement \<Rightarrow> ralph_data transition_result option" where
  "ralph_apply s st =
     (let d = ws_data s; p = ra_phase d in
      if p = DonePhase then Some (unchanged s)
      else case settlement_failure st (phase_name p) of
             Some why \<Rightarrow>
               Some (with_transition
                 (s\<lparr>ws_version := ws_version s + 1, ws_data := d\<lparr>ra_failures := ra_failures d @ [why]\<rparr>\<rparr>)
                 ''ralph_node_failed''
                 [(''phase'', JStr (phase_name p)), (''attempt'', jnat (ra_attempt d)), (''reason'', JStr why)])
           | None \<Rightarrow>
               (case st of
                  SettledCompleted _ _ out \<Rightarrow>
                    (case parse_report p (no_payload out) of
                       None \<Rightarrow> None
                     | Some r \<Rightarrow>
                         Some (case p of
                            PlannerPhase \<Rightarrow>
                              with_transition (s\<lparr>ws_version := ws_version s + 1, ws_data := d\<lparr>ra_planner := Some r\<rparr>\<rparr>)
                                ''ralph_planner_submitted'' [(''attempt'', jnat (ra_attempt d))]
                          | ReviewerPhase \<Rightarrow>
                              with_transition (s\<lparr>ws_version := ws_version s + 1, ws_data := d\<lparr>ra_reviewer := Some r\<rparr>\<rparr>)
                                ''ralph_reviewer_submitted'' [(''attempt'', jnat (ra_attempt d))]
                          | _ \<Rightarrow>
                              with_transition (s\<lparr>ws_version := ws_version s + 1, ws_data := d\<lparr>ra_critic := Some r\<rparr>\<rparr>)
                                ''ralph_critic_submitted'' [(''attempt'', jnat (ra_attempt d))]))
                | _ \<Rightarrow> Some (unchanged s)))"

section \<open>Progress\<close>

definition retry_or_fail :: "ralph_state \<Rightarrow> string \<Rightarrow> ralph_data transition_result" where
  "retry_or_fail s reason =
     (let d = ws_data s;
          failures = (if reason \<in> set (ra_failures d) then ra_failures d else ra_failures d @ [reason]) in
      if ra_attempt d < ra_max d then
        with_transition
          (s\<lparr>ws_data := d\<lparr>ra_attempt := ra_attempt d + 1, ra_phase := PlannerPhase, ra_planner := None,
             ra_reviewer := None, ra_critic := None, ra_failures := failures\<rparr>\<rparr>)
          ''ralph_retrying'' [(''attempt'', jnat (ra_attempt d + 1)), (''reason'', JStr reason)]
      else
        with_transition
          (s\<lparr>ws_done := True, ws_status := WfFailure, ws_data := d\<lparr>ra_failures := failures\<rparr>\<rparr>)
          ''ralph_failed'' [(''attempt'', jnat (ra_attempt d)), (''reason'', JStr reason)])"

definition advance_phase :: "ralph_state \<Rightarrow> ralph_phase \<Rightarrow> string \<Rightarrow> ralph_data transition_result" where
  "advance_phase s p type =
     with_transition (s\<lparr>ws_data := (ws_data s)\<lparr>ra_phase := p\<rparr>\<rparr>) type
       [(''attempt'', jnat (ra_attempt (ws_data s))), (''phase'', JStr (phase_name p))]"

definition transition_type :: "'x wf_state \<Rightarrow> string option" where
  "transition_type s =
     (case ws_last_transition s of
        None \<Rightarrow> None
      | Some t \<Rightarrow> (case map_of t ''type'' of Some (JStr x) \<Rightarrow> Some x | _ \<Rightarrow> None))"

definition transition_reason :: "'x wf_state \<Rightarrow> string" where
  "transition_reason s =
     (case ws_last_transition s of
        None \<Rightarrow> ''node failed''
      | Some t \<Rightarrow> (case map_of t ''reason'' of Some (JStr x) \<Rightarrow> x | _ \<Rightarrow> ''node failed''))"

definition ralph_evaluate :: "ralph_state \<Rightarrow> ralph_data transition_result" where
  "ralph_evaluate s =
     (let d = ws_data s in
      if ws_done s \<or> ra_phase d = DonePhase then unchanged s
      else if transition_type s = Some ''ralph_node_failed'' then retry_or_fail s (transition_reason s)
      else case (ra_phase d, ra_planner d, ra_reviewer d, ra_critic d) of
             (PlannerPhase, Some r, _, _) \<Rightarrow>
               (if \<not> rr_pass r then retry_or_fail s (''planner failed: '' @ rr_summary r)
                else advance_phase s ReviewerPhase ''ralph_planner_passed'')
           | (ReviewerPhase, _, Some r, _) \<Rightarrow>
               (if \<not> rr_pass r then retry_or_fail s (''reviewer failed: '' @ rr_summary r)
                else advance_phase s CriticPhase ''ralph_reviewer_passed'')
           | (CriticPhase, _, _, Some r) \<Rightarrow>
               (if \<not> rr_pass r then retry_or_fail s (''critic failed: '' @ rr_summary r)
                else with_transition
                  (s\<lparr>ws_done := True, ws_status := WfSuccess, ws_data := d\<lparr>ra_phase := DonePhase\<rparr>\<rparr>)
                  ''ralph_succeeded'' [(''attempt'', jnat (ra_attempt d))])
           | _ \<Rightarrow> unchanged s)"

definition ralph_deadlock :: "ralph_state \<Rightarrow> runtime_snapshot \<Rightarrow> dispatch list \<Rightarrow> deadlock_report option" where
  "ralph_deadlock s rt ds =
     (if ws_done s \<or> rt_running rt \<noteq> [] \<or> ds \<noteq> [] then None
      else Some \<lparr>dr_reason = ''ralph loop has no dispatchable node'',
             dr_details = Some [(''attempt'', jnat (ra_attempt (ws_data s))),
               (''phase'', JStr (phase_name (ra_phase (ws_data s)))),
               (''lastTransition'', JObj (case ws_last_transition s of None \<Rightarrow> [] | Some t \<Rightarrow> t))]\<rparr>)"

definition report_summary :: "ralph_report option \<Rightarrow> json" where
  "report_summary r = JStr (case r of None \<Rightarrow> [] | Some x \<Rightarrow> rr_summary x)"

definition ralph_workflow_outcome :: "ralph_state \<Rightarrow> wf_outcome option" where
  "ralph_workflow_outcome s =
     (let d = ws_data s in
      if \<not> ws_done s then None
      else if ws_status s = WfSuccess then
        Some (OutcomeSuccess (Some (JObj [(''planner_summary'', report_summary (ra_planner d)),
          (''reviewer_summary'', report_summary (ra_reviewer d)), (''critic_summary'', report_summary (ra_critic d))])))
      else
        Some (OutcomeFailure (Some (''ralph failed after '' @ string_of_nat (ra_attempt d) @ '' attempt(s)''))
          (Some (JObj [(''attempts'', jnat (ra_attempt d)), (''failures'', JArr (map JStr (ra_failures d)))]))))"

section \<open>The implementation\<close>

text \<open>The state as JSON; its keys are listed in one fixed order.\<close>

definition base_to_json :: "'x wf_state \<Rightarrow> json_object" where
  "base_to_json s =
     [(''version'', jnat (nat (ws_version s))), (''is_workflow_done'', JBool (ws_done s)),
      (''workflow_status'', JStr (status_text (ws_status s)))] @
     optional_member ''last_transition'' (map_option JObj (ws_last_transition s))"

definition ralph_to_json :: "ralph_state \<Rightarrow> json_object" where
  "ralph_to_json s =
     (let d = ws_data s in
      base_to_json s @
      [(''attempt'', jnat (ra_attempt d)), (''maxAttempts'', jnat (ra_max d)), (''phase'', JStr (phase_name (ra_phase d))),
       (''failures'', JArr (map JStr (ra_failures d)))] @
      optional_member ''planner'' (map_option (report_json PlannerPhase) (ra_planner d)) @
      optional_member ''reviewer'' (map_option (report_json ReviewerPhase) (ra_reviewer d)) @
      optional_member ''critic'' (map_option (report_json CriticPhase) (ra_critic d)))"

text \<open>
  For parsed arguments. A settlement reaches \<open>wi_apply\<close> with a payload that its contract has
  parsed, so \<^const>\<open>ralph_apply\<close> does not throw there (lemma \<open>ralph_apply_total\<close>).
\<close>

definition ralph_impl :: "(json \<Rightarrow> zod_issue list) \<Rightarrow> nat \<Rightarrow> ralph_data wf_impl" where
  "ralph_impl issues max_attempts =
     \<lparr>wi_initial = (\<lambda>_ _. ralph_initial max_attempts),
      wi_dispatch = ralph_dispatch issues,
      wi_validate = (\<lambda>s st _. ralph_validate s st),
      wi_apply = (\<lambda>s st _. case ralph_apply s st of Some r \<Rightarrow> r | None \<Rightarrow> unchanged s),
      wi_evaluate = (\<lambda>s _. ralph_evaluate s),
      wi_deadlock = ralph_deadlock,
      wi_outcome = ralph_workflow_outcome,
      wi_to_json = ralph_to_json\<rparr>"

text \<open>\<open>RalphArgsSchema\<close>: \<open>max_attempts\<close> is a positive safe integer, 3 when absent.\<close>

definition parse_ralph_args :: "json_object \<Rightarrow> nat option" where
  "parse_ralph_args kvs =
     (if \<not> strict_keys [''max_attempts''] kvs then None
      else case map_of kvs ''max_attempts'' of
             None \<Rightarrow> Some 3
           | Some j \<Rightarrow> parse_positive j)"

end
