(* ===== verification/RalphProps.thy ===== *)
theory RalphProps
  imports RalphLoop WorkflowProps
begin

text \<open>
  The ralph loop on the workflow runtime: one node at a time, a bounded number of node runs,
  no deadlock, and an outcome that means what it says.
\<close>

section \<open>What the runtime's bookkeeping leaves alone\<close>

lemma wf_emit_simps [simp]:
  "wr_state (wf_emit cfg b r) = wr_state r" "wr_nodes (wf_emit cfg b r) = wr_nodes r"
  "wr_finished (wf_emit cfg b r) = wr_finished r" "wr_outcome (wf_emit cfg b r) = wr_outcome r"
  "wr_queue (wf_emit cfg b r) = wr_queue r" "wr_active (wf_emit cfg b r) = wr_active r"
  "wr_starting (wf_emit cfg b r) = wr_starting r" "wr_last_dispatches (wf_emit cfg b r) = wr_last_dispatches r"
  by (simp_all add: wf_emit_def clock_now_def rs_emit_def Let_def)

lemma record_snapshot_simps [simp]:
  "wr_state (record_snapshot cfg r) = wr_state r" "wr_nodes (record_snapshot cfg r) = wr_nodes r"
  "wr_finished (record_snapshot cfg r) = wr_finished r" "wr_outcome (record_snapshot cfg r) = wr_outcome r"
  "wr_queue (record_snapshot cfg r) = wr_queue r" "wr_active (record_snapshot cfg r) = wr_active r"
  "wr_starting (record_snapshot cfg r) = wr_starting r"
  by (simp_all add: record_snapshot_def clock_now_def Let_def)

lemma wf_finish_simps [simp]:
  "wr_state (wf_finish cfg out r) = wr_state r" "wr_nodes (wf_finish cfg out r) = wr_nodes r"
  "wr_outcome (wf_finish cfg out r) = (if wr_finished r then wr_outcome r else Some out)"
  by (simp_all add: wf_finish_def Let_def)

lemma apply_transition_simps [simp]:
  "wr_state (apply_transition cfg res r) = tr_state res" "wr_nodes (apply_transition cfg res r) = wr_nodes r"
  "wr_finished (apply_transition cfg res r) = wr_finished r" "wr_outcome (apply_transition cfg res r) = wr_outcome r"
  by (simp_all add: apply_transition_def Let_def split: option.splits)

section \<open>The data of the loop\<close>

fun phase_index :: "ralph_phase \<Rightarrow> nat" where
  "phase_index PlannerPhase = 0"
| "phase_index ReviewerPhase = 1"
| "phase_index _ = 2"

definition passed :: "ralph_report option \<Rightarrow> bool" where
  "passed r = (\<exists>x. r = Some x \<and> rr_pass x)"

text \<open>The reports of the current attempt: every earlier phase has passed, the later ones have none.\<close>

definition reports_ok :: "ralph_data \<Rightarrow> bool" where
  "reports_ok d =
     (case ra_phase d of
        PlannerPhase \<Rightarrow> ra_planner d = None \<and> ra_reviewer d = None \<and> ra_critic d = None
      | ReviewerPhase \<Rightarrow> passed (ra_planner d) \<and> ra_reviewer d = None \<and> ra_critic d = None
      | CriticPhase \<Rightarrow> passed (ra_planner d) \<and> passed (ra_reviewer d) \<and> ra_critic d = None
      | DonePhase \<Rightarrow> passed (ra_planner d) \<and> passed (ra_reviewer d) \<and> passed (ra_critic d))"

definition data_ok :: "nat \<Rightarrow> ralph_data \<Rightarrow> bool" where
  "data_ok n d = (ra_max d = n \<and> 1 \<le> ra_attempt d \<and> ra_attempt d \<le> n)"

definition live_data :: "nat \<Rightarrow> ralph_state \<Rightarrow> bool" where
  "live_data n s = (data_ok n (ws_data s) \<and> \<not> ws_done s \<and> ra_phase (ws_data s) \<noteq> DonePhase \<and> reports_ok (ws_data s))"

definition stage :: "ralph_data \<Rightarrow> nat" where
  "stage d = 3 * (ra_attempt d - 1) + phase_index (ra_phase d)"

text \<open>The settlement of a node that the loop started in this phase.\<close>

definition settles_phase :: "ralph_data \<Rightarrow> wf_settlement \<Rightarrow> bool" where
  "settles_phase d st =
     (settlement_role st = Some (phase_name (ra_phase d)) \<and>
      (\<forall>n m out. st = SettledCompleted n m out \<longrightarrow> parse_report (ra_phase d) (no_payload out) \<noteq> None))"

lemma ralph_apply_total:
  assumes "settles_phase (ws_data s) st"
  shows "ralph_apply s st \<noteq> None"
  using assms by (cases st) (auto simp: ralph_apply_def settles_phase_def Let_def split: option.splits)

lemma parse_report_roundtrip: "parse_report p j = Some r \<Longrightarrow> parse_report p (report_json p r) = Some r"
  by (cases p) (auto simp: parse_report_def report_json_def strict_keys_def split: json.splits option.splits if_splits)

lemma with_transition_state [simp]:
  "tr_state (with_transition s ty rest) = s\<lparr>ws_last_transition := Some ((''type'', JStr ty) # rest)\<rparr>"
  by (simp add: with_transition_def Let_def)

lemma unchanged_state [simp]: "tr_state (unchanged s) = s"
  by (simp add: unchanged_def)

definition finished_data :: "nat \<Rightarrow> ralph_state \<Rightarrow> bool" where
  "finished_data n s =
     (data_ok n (ws_data s) \<and> ws_done s \<and>
      (if ws_status s = WfSuccess then ra_phase (ws_data s) = DonePhase \<and> reports_ok (ws_data s)
       else ws_status s = WfFailure \<and> ra_attempt (ws_data s) = n))"

lemma retry_data:
  assumes "data_ok n (ws_data s)" "\<not> ws_done s" "phase_index (ra_phase (ws_data s)) \<le> 2"
  shows "live_data n (tr_state (retry_or_fail s why)) \<and> stage (ws_data s) < stage (ws_data (tr_state (retry_or_fail s why)))
    \<or> finished_data n (tr_state (retry_or_fail s why))"
  using assms
  by (auto simp: retry_or_fail_def live_data_def finished_data_def data_ok_def reports_ok_def stage_def Let_def)

lemma phase_index_bound [simp]: "phase_index p \<le> 2"
  by (cases p) auto

lemma ralph_settles:
  assumes live: "live_data n s" and st: "settles_phase (ws_data s) st" and a: "ralph_apply s st = Some res"
  defines "s' \<equiv> tr_state (ralph_evaluate (tr_state res))"
  shows "live_data n s' \<and> stage (ws_data s) < stage (ws_data s') \<or> finished_data n s'"
proof (cases "settlement_failure st (phase_name (ra_phase (ws_data s)))")
  case (Some why)
  let ?s = "tr_state res"
  have s1: "ws_data ?s = (ws_data s)\<lparr>ra_failures := ra_failures (ws_data s) @ [why]\<rparr>" "\<not> ws_done ?s"
    "transition_type ?s = Some ''ralph_node_failed''"
    using a live Some by (auto simp: ralph_apply_def live_data_def transition_type_def Let_def)
  then have "s' = tr_state (retry_or_fail ?s (transition_reason ?s))"
    using live by (simp add: s'_def ralph_evaluate_def live_data_def Let_def)
  moreover have "data_ok n (ws_data ?s)" "stage (ws_data ?s) = stage (ws_data s)"
    using live s1 by (simp_all add: live_data_def data_ok_def stage_def)
  ultimately show ?thesis using retry_data [of n ?s] s1(2) by simp
next
  case None
  then obtain nd m out where c: "st = SettledCompleted nd m out" by (cases st) auto
  then obtain r where r: "parse_report (ra_phase (ws_data s)) (no_payload out) = Some r"
    using st by (auto simp: settles_phase_def)
  let ?s = "tr_state res"
  have ph: "ra_phase (ws_data ?s) = ra_phase (ws_data s)" "data_ok n (ws_data ?s)" "\<not> ws_done ?s"
    "stage (ws_data ?s) = stage (ws_data s)" "transition_type ?s \<noteq> Some ''ralph_node_failed''"
    and pl: "ra_phase (ws_data s) = PlannerPhase \<Longrightarrow> ws_data ?s = (ws_data s)\<lparr>ra_planner := Some r\<rparr>"
    and rv: "ra_phase (ws_data s) = ReviewerPhase \<Longrightarrow> ws_data ?s = (ws_data s)\<lparr>ra_reviewer := Some r\<rparr>"
    and cr: "ra_phase (ws_data s) = CriticPhase \<Longrightarrow> ws_data ?s = (ws_data s)\<lparr>ra_critic := Some r\<rparr>"
    using a live None c r
    by (auto simp: ralph_apply_def live_data_def data_ok_def stage_def transition_type_def Let_def split: ralph_phase.splits)
  have retry: "live_data n s' \<and> stage (ws_data s) < stage (ws_data s') \<or> finished_data n s'"
    if "s' = tr_state (retry_or_fail ?s why)" for why
    using retry_data [of n ?s why] ph that by simp
  show ?thesis
  proof (cases "rr_pass r")
    case True
    show ?thesis using live ph pl rv cr True
      by (cases "ra_phase (ws_data s)")
        (auto simp: s'_def ralph_evaluate_def advance_phase_def live_data_def finished_data_def data_ok_def reports_ok_def
          passed_def stage_def Let_def)
  next
    case False
    then have "\<exists>why. s' = tr_state (retry_or_fail ?s why)" using live ph pl rv cr
      by (cases "ra_phase (ws_data s)") (auto simp: s'_def ralph_evaluate_def live_data_def Let_def)
    with retry show ?thesis by blast
  qed
qed

section \<open>The loop on the runtime\<close>

text \<open>A definition with valid node bindings, and a positive number of attempts.\<close>

definition ralph_config :: "(json \<Rightarrow> zod_issue list) \<Rightarrow> nat \<Rightarrow> ralph_data wf_config \<Rightarrow> bool" where
  "ralph_config issues n cfg =
     (wc_impl cfg = ralph_impl issues n \<and> 1 \<le> n \<and> binding_for ralph_roles (wc_definition cfg) ''planner'' \<noteq> None)"

lemma ralph_bound:
  "ralph_config issues n cfg \<Longrightarrow> p \<noteq> DonePhase \<Longrightarrow> binding_for ralph_roles (wc_definition cfg) (phase_name p) \<noteq> None"
  by (cases p) (auto simp: ralph_config_def binding_for_def is_binding_map_def ralph_roles_def split: option.splits json.splits if_splits)

definition started_for :: "(json \<Rightarrow> zod_issue list) \<Rightarrow> ralph_data \<Rightarrow> wf_entry \<Rightarrow> bool" where
  "started_for issues d e =
     (en_metadata e = Some (role_metadata d) \<and> ss_outcome (en_start e) = ralph_outcome_for issues (ra_phase d))"

definition idle_nodes :: "'x wf_run \<Rightarrow> bool" where
  "idle_nodes r = list_all (\<lambda>e. en_status e \<noteq> RunningNode) (wr_nodes r)"

definition ralph_over :: "nat \<Rightarrow> ralph_data wf_run \<Rightarrow> bool" where
  "ralph_over n r =
     (wr_finished r \<and> idle_nodes r \<and> length (wr_nodes r) \<le> 3 * n \<and>
      ((\<exists>why. wr_outcome r = Some (OutcomeCancelled why)) \<or>
       finished_data n (wr_state r) \<and> wr_outcome r = ralph_workflow_outcome (wr_state r)))"

definition ralph_running :: "(json \<Rightarrow> zod_issue list) \<Rightarrow> nat \<Rightarrow> ralph_data wf_run \<Rightarrow> bool" where
  "ralph_running issues n r =
     (\<not> wr_finished r \<and> live_data n (wr_state r) \<and> length (wr_nodes r) \<le> stage (ws_data (wr_state r)) + 1 \<and>
      (\<exists>i. indices_where (\<lambda>e. en_status e = RunningNode) (wr_nodes r) = [i] \<and>
           started_for issues (ws_data (wr_state r)) (wr_nodes r ! i)))"

definition ralph_ok :: "(json \<Rightarrow> zod_issue list) \<Rightarrow> nat \<Rightarrow> ralph_data wf_run \<Rightarrow> bool" where
  "ralph_ok issues n r = (ralph_over n r \<or> ralph_running issues n r)"

text \<open>Between a settlement and the launch of the next node.\<close>

definition ralph_pending :: "(json \<Rightarrow> zod_issue list) \<Rightarrow> nat \<Rightarrow> dispatch list \<Rightarrow> ralph_data wf_run \<Rightarrow> bool" where
  "ralph_pending issues n ds r =
     (\<not> wr_finished r \<and> live_data n (wr_state r) \<and> length (wr_nodes r) \<le> stage (ws_data (wr_state r)) \<and> idle_nodes r \<and>
      (\<exists>nd. ds = [\<lparr>dp_start = ralph_start_for issues (ws_data (wr_state r)) nd,
                   dp_metadata = Some (role_metadata (ws_data (wr_state r)))\<rparr>]))"

definition ralph_gap :: "(json \<Rightarrow> zod_issue list) \<Rightarrow> nat \<Rightarrow> dispatch list \<Rightarrow> ralph_data wf_run \<Rightarrow> bool" where
  "ralph_gap issues n ds r = (ds = [] \<and> ralph_over n r \<or> ralph_pending issues n ds r)"

lemma ralph_ok_cong:
  "wr_state r' = wr_state r \<Longrightarrow> wr_nodes r' = wr_nodes r \<Longrightarrow> wr_finished r' = wr_finished r \<Longrightarrow> wr_outcome r' = wr_outcome r \<Longrightarrow>
   ralph_ok issues n r' = ralph_ok issues n r"
  by (simp add: ralph_ok_def ralph_over_def ralph_running_def idle_nodes_def)

lemma idle_running_nodes: "idle_nodes r \<Longrightarrow> running_nodes r = []"
  by (auto simp: idle_nodes_def running_nodes_def list_all_iff filter_empty_conv)

lemma stage_bound: "data_ok n d \<Longrightarrow> stage d + 1 \<le> 3 * n"
  unfolding data_ok_def stage_def using phase_index_bound [of "ra_phase d"] by linarith

lemma dispatch_pending:
  assumes cfg: "ralph_config issues n cfg"
    and r: "\<not> wr_finished r" "live_data n (wr_state r)" "length (wr_nodes r) \<le> stage (ws_data (wr_state r))" "idle_nodes r"
    and d: "wf_dispatch cfg r = (ds, r')"
  shows "ralph_pending issues n ds r'"
proof -
  let ?d = "ws_data (wr_state r)"
  have live: "\<not> ws_done (wr_state r)" "ra_phase ?d \<noteq> DonePhase" using r(2) by (simp_all add: live_data_def)
  obtain nd where nd: "binding_for ralph_roles (wc_definition cfg) (phase_name (ra_phase ?d)) = Some nd"
    using ralph_bound [OF cfg live(2)] by blast
  have ds: "wi_dispatch (wc_impl cfg) (wc_definition cfg) (wr_state r) (runtime_view r) =
      [\<lparr>dp_start = ralph_start_for issues ?d nd, dp_metadata = Some (role_metadata ?d)\<rparr>]"
    using cfg live nd idle_running_nodes [OF r(4)]
    by (simp add: ralph_config_def ralph_impl_def ralph_dispatch_def runtime_view_def Let_def)
  from d live(1) have "ds = wi_dispatch (wc_impl cfg) (wc_definition cfg) (wr_state r) (runtime_view r)"
    "wr_state r' = wr_state r \<and> wr_nodes r' = wr_nodes r \<and> wr_finished r' = wr_finished r"
    unfolding wf_dispatch_def by (auto simp: Let_def ds)
  with ds r show ?thesis by (auto simp: ralph_pending_def idle_nodes_def)
qed

lemma finish_if_done_eq:
  "finish_if_done cfg r = (if ws_done (wr_state r) then
     (True, wf_finish cfg (case wi_outcome (wc_impl cfg) (wr_state r) of Some out \<Rightarrow> out
        | None \<Rightarrow> (if ws_status (wr_state r) = WfDeadlock then OutcomeDeadlocked (status_text (ws_status (wr_state r))) None
                  else OutcomeFailure (Some (status_text (ws_status (wr_state r)))) None)) r) else (False, r))"
  by (simp add: finish_if_done_def Let_def)

lemma apply_gap:
  assumes cfg: "ralph_config issues n cfg"
    and r: "\<not> wr_finished r" "live_data n (wr_state r)" "length (wr_nodes r) \<le> stage (ws_data (wr_state r)) + 1" "idle_nodes r"
    and st: "settles_phase (ws_data (wr_state r)) st" and a: "apply_validated cfg st r = (ds, r')"
  shows "ralph_gap issues n ds r'"
proof -
  have impl: "wc_impl cfg = ralph_impl issues n" using cfg by (simp add: ralph_config_def)
  obtain res where res: "ralph_apply (wr_state r) st = Some res" using ralph_apply_total [OF st] by blast
  define s' where "s' = tr_state (ralph_evaluate (tr_state res))"
  define r1 where "r1 = apply_transition cfg (wi_apply (wc_impl cfg) (wr_state r) st (runtime_view r)) r"
  define r2 where "r2 = record_snapshot cfg (apply_transition cfg (wi_evaluate (wc_impl cfg) (wr_state r1) (runtime_view r1)) r1)"
  have r1: "wr_state r1 = tr_state res" by (simp add: r1_def impl ralph_impl_def res)
  have r2: "wr_state r2 = s'" "wr_nodes r2 = wr_nodes r" "\<not> wr_finished r2"
    using r(1) by (simp_all add: r2_def r1 s'_def impl ralph_impl_def) (simp_all add: r1_def)
  have fin: "finish_if_done cfg r2 =
      (if ws_done s' then (True, wf_finish cfg (the (ralph_workflow_outcome s')) r2) else (False, r2))"
    by (simp add: finish_if_done_eq r2(1) impl ralph_impl_def ralph_workflow_outcome_def Let_def)
  have ab: "(ds, r') = (if ws_done s' then ([], wf_finish cfg (the (ralph_workflow_outcome s')) r2) else wf_dispatch cfg r2)"
    unfolding a [symmetric] apply_validated_def Let_def r1_def [symmetric] r2_def [symmetric] fin by simp
  have data: "live_data n s' \<and> stage (ws_data (wr_state r)) < stage (ws_data s') \<or> finished_data n s'"
    unfolding s'_def by (rule ralph_settles [OF r(2) st res])
  show ?thesis
  proof (cases "ws_done s'")
    case True
    then have fd: "finished_data n s'" using data by (auto simp: live_data_def)
    have "length (wr_nodes r) \<le> 3 * n"
      using r(3) stage_bound [of n "ws_data (wr_state r)"] r(2) by (simp add: live_data_def)
    moreover have "ralph_workflow_outcome s' \<noteq> None" using True by (simp add: ralph_workflow_outcome_def Let_def)
    ultimately show ?thesis using ab True fd r2 r(4) by (auto simp: ralph_gap_def ralph_over_def idle_nodes_def)
  next
    case False
    then have "live_data n s'" "stage (ws_data (wr_state r)) < stage (ws_data s')" using data by (auto simp: finished_data_def)
    then have "ralph_pending issues n ds r'"
      using ab False r2 r by (intro dispatch_pending [OF cfg, of r2]) (auto simp: idle_nodes_def)
    then show ?thesis by (simp add: ralph_gap_def)
  qed
qed

section \<open>Launching the next node\<close>

definition flat :: "dispatch list list \<Rightarrow> bool" where
  "flat fs = list_all (\<lambda>f. f = []) fs"

definition flat_thread :: "wf_thread option \<Rightarrow> bool" where
  "flat_thread th = (\<forall>k fs. th = Some (k, fs) \<longrightarrow> flat fs)"

lemma flat_launch: "flat fs \<Longrightarrow> next_launch cfg fs r = (None, r)"
  by (induction cfg fs r rule: next_launch.induct) (auto simp: flat_def)

lemma indices_where_snoc:
  "indices_where P (xs @ [x]) = indices_where P xs @ (if P x then [length xs] else [])"
proof -
  have "filter (\<lambda>i. P ((xs @ [x]) ! i)) [0..<length xs] = filter (\<lambda>i. P (xs ! i)) [0..<length xs]"
    by (rule filter_cong) (auto simp: nth_append)
  then show ?thesis by (simp add: indices_where_def)
qed

lemma idle_indices: "idle_nodes r \<longleftrightarrow> indices_where (\<lambda>e. en_status e = RunningNode) (wr_nodes r) = []"
  by (auto simp: idle_nodes_def indices_where_def list_all_length filter_empty_conv)

lemma gap_launch:
  assumes g: "ralph_gap issues n ds r" and fs: "flat fs" and nl: "next_launch cfg (ds # fs) r = (th, r')"
  shows "ralph_ok issues n r' \<and> flat_thread th"
proof (cases "ds = []")
  case True
  then have "next_launch cfg (ds # fs) r = (None, r)" using flat_launch [OF fs, of cfg r] by simp
  with g True nl show ?thesis by (auto simp: ralph_gap_def ralph_pending_def ralph_ok_def flat_thread_def)
next
  case False
  let ?d = "ws_data (wr_state r)"
  from False g obtain nd where p: "ralph_pending issues n ds r" and
    ds: "ds = [\<lparr>dp_start = ralph_start_for issues ?d nd, dp_metadata = Some (role_metadata ?d)\<rparr>]"
    by (auto simp: ralph_gap_def ralph_pending_def)
  have th: "th = Some (length (wr_nodes r), [] # fs)" and r': "wr_state r' = wr_state r" "wr_finished r' = wr_finished r"
    "wr_outcome r' = wr_outcome r"
    "wr_nodes r' = wr_nodes r @ [\<lparr>en_start = ralph_start_for issues ?d nd, en_metadata = Some (role_metadata ?d),
        en_status = RunningNode, en_started = wc_clock cfg (wr_ticks r), en_completed = None, en_accepted = None, en_handle = False\<rparr>]"
    using nl ds by (auto simp: claim_dispatch_def clock_now_def)
  have "indices_where (\<lambda>e. en_status e = RunningNode) (wr_nodes r') = [length (wr_nodes r)]"
    using p by (simp add: r' indices_where_snoc ralph_pending_def idle_indices)
  moreover have "started_for issues ?d (wr_nodes r' ! length (wr_nodes r))"
    by (simp add: r' started_for_def ralph_start_for_def)
  ultimately have "ralph_running issues n r'" using p r' by (auto simp: ralph_running_def ralph_pending_def)
  then show ?thesis using fs th by (auto simp: ralph_ok_def flat_thread_def flat_def)
qed

section \<open>Every operation\<close>

lemma role_roundtrip: "settlement_metadata st = Some (role_metadata d) \<Longrightarrow> settlement_role st = Some (phase_name (ra_phase d))"
  by (simp add: settlement_role_def role_metadata_def)

lemma settles_validates: "live_data n s \<Longrightarrow> settles_phase (ws_data s) st \<Longrightarrow> ralph_validate s st = None"
  by (simp add: live_data_def settles_phase_def ralph_validate_def)

text \<open>Settling the one running node.\<close>

lemma settle_gap:
  assumes cfg: "ralph_config issues n cfg" and r: "ralph_running issues n r" and i: "i < length (wr_nodes r)"
    and run: "en_status (wr_nodes r ! i) = RunningNode" and ns: "ns \<noteq> RunningNode"
    and st: "settlement_metadata st = en_metadata (wr_nodes r ! i)"
    and payload: "\<forall>nd m out. st = SettledCompleted nd m out \<longrightarrow>
       (\<exists>j. oc_parse (ss_outcome (en_start (wr_nodes r ! i))) j = Inr (no_payload out))"
    and a: "apply_validated cfg st (settle_entry cfg i ns acc r) = (ds, r')"
  shows "ralph_gap issues n ds r'"
proof -
  let ?d = "ws_data (wr_state r)" and ?r = "settle_entry cfg i ns acc r"
  from r obtain k where k: "indices_where (\<lambda>e. en_status e = RunningNode) (wr_nodes r) = [k]"
    and sf: "started_for issues ?d (wr_nodes r ! k)" by (auto simp: ralph_running_def)
  have only: "j = k" if "j < length (wr_nodes r)" "en_status (wr_nodes r ! j) = RunningNode" for j
    using that k set_indices_where [of "\<lambda>e. en_status e = RunningNode" "wr_nodes r"] by auto
  have ik: "i = k" by (rule only [OF i run])
  have s: "wr_state ?r = wr_state r" "wr_finished ?r = wr_finished r" "length (wr_nodes ?r) = length (wr_nodes r)"
    by (simp_all add: settle_entry_def clock_now_def)
  have "en_status (wr_nodes ?r ! j) \<noteq> RunningNode" if "j < length (wr_nodes r)" for j
    using only [of j] ik ns that by (cases "j = k") (auto simp: settle_entry_def clock_now_def)
  then have idle: "idle_nodes ?r" by (simp add: idle_nodes_def list_all_length s(3))
  have parses: "parse_report (ra_phase ?d) (no_payload out) \<noteq> None" if "st = SettledCompleted nd m out" for nd m out
  proof -
    from that payload obtain j where "oc_parse (ralph_outcome_for issues (ra_phase ?d)) j = Inr (no_payload out)"
      using sf ik by (auto simp: started_for_def)
    then show ?thesis by (auto simp: ralph_outcome_for_def dest: parse_report_roundtrip split: option.splits)
  qed
  have "settlement_role st = Some (phase_name (ra_phase ?d))" using st sf ik by (simp add: started_for_def role_roundtrip)
  then have "settles_phase (ws_data (wr_state ?r)) st" using parses s by (auto simp: settles_phase_def)
  then show ?thesis using r s idle by (intro apply_gap [OF cfg _ _ _ _ _ a]) (auto simp: ralph_running_def)
qed

lemma running_validates:
  assumes cfg: "ralph_config issues n cfg" and r: "ralph_running issues n r" and i: "i < length (wr_nodes r)"
    and run: "en_status (wr_nodes r ! i) = RunningNode" and st: "settlement_metadata st = en_metadata (wr_nodes r ! i)"
  shows "wi_validate (wc_impl cfg) (wr_state r) st rt = None"
proof -
  let ?d = "ws_data (wr_state r)"
  from r obtain k where k: "indices_where (\<lambda>e. en_status e = RunningNode) (wr_nodes r) = [k]"
    and sf: "started_for issues ?d (wr_nodes r ! k)" by (auto simp: ralph_running_def)
  have "i \<in> set (indices_where (\<lambda>e. en_status e = RunningNode) (wr_nodes r))" using i run by (simp add: set_indices_where)
  with k sf st have "settlement_role st = Some (phase_name (ra_phase ?d))" by (auto simp: started_for_def role_roundtrip)
  with cfg r show ?thesis by (auto simp: ralph_config_def ralph_impl_def ralph_validate_def ralph_running_def live_data_def)
qed

lemma over_idle: "ralph_over n r \<Longrightarrow> i < length (wr_nodes r) \<Longrightarrow> en_status (wr_nodes r ! i) \<noteq> RunningNode"
  by (simp add: ralph_over_def idle_nodes_def list_all_length)

lemma settle_run_gap:
  assumes cfg: "ralph_config issues n cfg" and r: "ralph_ok issues n r" and i: "i < length (wr_nodes r)"
    and st: "settlement_metadata st = en_metadata (wr_nodes r ! i)" "settlement_status st \<noteq> RunningNode"
    and s: "settle_node_run cfg i st r = Inr (ds, r')"
  shows "settlement_status st = CompletedNode \<and> ds = [] \<and> r' = r \<or> ralph_gap issues n ds r'"
proof (cases "settlement_status st = CompletedNode")
  case False
  then have run: "en_status (wr_nodes r ! i) = RunningNode"
    and a: "apply_validated cfg st (settle_entry cfg i (settlement_status st) None r) = (ds, r')"
    using s by (auto simp: settle_node_run_def split: if_splits option.splits)
  from r run over_idle i have "ralph_running issues n r" by (auto simp: ralph_ok_def)
  from settle_gap [OF cfg this i run st(2,1) _ a] False show ?thesis by (cases st) auto
qed (use s in \<open>simp add: settle_node_run_def\<close>)

lemma settled_status [simp]: "settlement_status st \<noteq> RunningNode"
  by (cases st) auto

lemma launched_ok:
  assumes cfg: "ralph_config issues n cfg" and r: "ralph_ok issues n r" and k: "k < length (wr_nodes r)" and fs: "flat fs"
    and l: "launched cfg failure (k, fs) r = Inr (th, r')"
  shows "ralph_ok issues n r' \<and> flat_thread th"
proof (cases failure)
  case None
  let ?ns = "(wr_nodes r)[k := (wr_nodes r ! k)\<lparr>en_handle := True\<rparr>]"
  have eq: "th = None" "r' = r\<lparr>wr_nodes := ?ns\<rparr>" using l None by (auto simp: launched_def flat_launch [OF fs])
  have nth: "en_status (?ns ! j) = en_status (wr_nodes r ! j)" "started_for issues d (?ns ! j) = started_for issues d (wr_nodes r ! j)"
    if "j < length (wr_nodes r)" for j d using that by (cases "j = k"; simp add: started_for_def)+
  have idx: "indices_where (\<lambda>e. en_status e = RunningNode) ?ns = indices_where (\<lambda>e. en_status e = RunningNode) (wr_nodes r)"
    unfolding indices_where_def by (rule filter_cong) (auto simp: nth)
  have in_range: "j < length (wr_nodes r)" if "indices_where (\<lambda>e. en_status e = RunningNode) (wr_nodes r) = [j]" for j
    using that set_indices_where [of "\<lambda>e. en_status e = RunningNode" "wr_nodes r"] by auto
  show ?thesis using r idx nth in_range
    by (auto simp: eq ralph_ok_def ralph_over_def ralph_running_def flat_thread_def idle_indices)
next
  case (Some why)
  let ?e = "wr_nodes r ! k" and ?st = "SettledFailed (ss_node (en_start (wr_nodes r ! k))) (en_metadata (wr_nodes r ! k)) why"
  from Some l obtain ds r1 where s: "settle_node_run cfg k ?st r = Inr (ds, r1)" and nl: "next_launch cfg (ds # fs) r1 = (th, r')"
    by (auto simp: launched_def Let_def split: sum.splits)
  from settle_run_gap [OF cfg r k _ _ s] have "ralph_gap issues n ds r1" by simp
  from gap_launch [OF this fs nl] show ?thesis .
qed

definition flat_active :: "wf_active option \<Rightarrow> bool" where
  "flat_active act = (\<forall>a. act = Some a \<longrightarrow> flat_thread (active_thread a))"

lemma flat_Nil [simp]: "flat []"
  by (simp add: flat_def)

lemma submit_ok:
  assumes cfg: "ralph_config issues n cfg" and r: "ralph_ok issues n r" and i: "i < length (wr_nodes r)" and act: "flat_active (wr_active r)"
  shows "ralph_ok issues n (submit_node_completion cfg i payload r) \<and> flat_active (wr_active (submit_node_completion cfg i payload r))"
proof -
  let ?e = "wr_nodes r ! i"
  have ans: "ralph_ok issues n (answer j a q) = ralph_ok issues n q" for j a q
    by (rule ralph_ok_cong) (simp_all add: answer_def)
  show ?thesis
  proof (cases "en_status ?e = RunningNode")
    case False
    then show ?thesis using r act by (simp add: submit_node_completion_def ans Let_def)
  next
    case run: True
    with r over_idle i have rr: "ralph_running issues n r" by (auto simp: ralph_ok_def)
    show ?thesis
    proof (cases "oc_parse (ss_outcome (en_start ?e)) payload")
      case (Inl issues)
      then show ?thesis using r act by (simp add: submit_node_completion_def ans run Let_def)
    next
      case (Inr parsed)
      define out where "out = \<lparr>no_name = oc_name (ss_outcome (en_start ?e)), no_payload = parsed\<rparr>"
      define st where "st = SettledCompleted (ss_node (en_start ?e)) (en_metadata ?e) out"
      define r1 where "r1 = wf_emit cfg (NodeOutcomeReceived (nd_name (ss_node (en_start ?e)))) r"
      have r1: "ralph_running issues n r1" "wr_nodes r1 = wr_nodes r" using rr by (simp_all add: r1_def ralph_running_def)
      have v: "wi_validate (wc_impl cfg) (wr_state r1) st (runtime_view r1) = None"
        by (rule running_validates [OF cfg r1(1), of i]) (use i run r1(2) in \<open>simp_all add: st_def\<close>)
      obtain ds r2 where a: "apply_validated cfg st (settle_entry cfg i CompletedNode (Some out) r1) = (ds, r2)"
        by (cases "apply_validated cfg st (settle_entry cfg i CompletedNode (Some out) r1)")
      obtain th r3 where nl: "next_launch cfg [ds] r2 = (th, r3)" by (cases "next_launch cfg [ds] r2")
      have g: "ralph_gap issues n ds r2"
        by (rule settle_gap [OF cfg r1(1), of i CompletedNode st])
          (use i run r1(2) Inr a in \<open>auto simp: st_def out_def\<close>)
      from gap_launch [OF g flat_Nil nl] have ok: "ralph_ok issues n r3" "flat_thread th" by simp_all
      have upd: "ralph_ok issues n (q\<lparr>wr_active := b\<rparr>) = ralph_ok issues n q" for q b by (rule ralph_ok_cong) simp_all
      have eq: "submit_node_completion cfg i payload r =
          (case th of None \<Rightarrow> answer i (SubmissionAccepted out) r3 | Some t \<Rightarrow> r3\<lparr>wr_active := Some (InSubmit i out t)\<rparr>)"
        using run Inr v a nl
        by (simp add: submit_node_completion_def Let_def r1_def [symmetric] st_def [symmetric] out_def [symmetric] split: option.splits)
      have "wr_active r3 = wr_active r" if "th = None"
        using keeps_advances [OF apply_keeps [OF a]] next_launch_advances [OF nl]
        by (simp add: advances_def settle_entry_def clock_now_def r1_def)
      then show ?thesis using ok act by (cases th) (auto simp: eq ans upd flat_active_def)
    qed
  qed
qed

lemma monitor_ok:
  assumes cfg: "ralph_config issues n cfg" and r: "ralph_ok issues n r" and i: "i < length (wr_nodes r)" and act: "flat_active (wr_active r)"
  shows "ralph_ok issues n (settle_from_monitor cfg i ns r) \<and> flat_active (wr_active (settle_from_monitor cfg i ns r))"
proof (cases "settle_node_run cfg i (with_node (ss_node (en_start (wr_nodes r ! i))) (en_metadata (wr_nodes r ! i)) ns) r")
  case (Inl why)
  then show ?thesis using r act by (simp add: settle_from_monitor_def Let_def)
next
  case (Inr p)
  let ?st = "with_node (ss_node (en_start (wr_nodes r ! i))) (en_metadata (wr_nodes r ! i)) ns"
  obtain ds r1 where p: "p = (ds, r1)" by (cases p)
  obtain th r2 where nl: "next_launch cfg [ds] r1 = (th, r2)" by (cases "next_launch cfg [ds] r1")
  have m: "settlement_metadata ?st = en_metadata (wr_nodes r ! i)" by (cases ns) auto
  have ok: "ralph_ok issues n r2 \<and> flat_thread th"
  proof (cases "settlement_status ?st = CompletedNode \<and> ds = [] \<and> r1 = r")
    case True
    then show ?thesis using r nl by (auto simp: flat_thread_def)
  next
    case False
    with settle_run_gap [OF cfg r i m settled_status Inr [unfolded p]] have "ralph_gap issues n ds r1" by blast
    from gap_launch [OF this flat_Nil nl] show ?thesis .
  qed
  have upd: "ralph_ok issues n (q\<lparr>wr_active := b\<rparr>) = ralph_ok issues n q" for q b by (rule ralph_ok_cong) simp_all
  have "wr_active r2 = wr_active r" if "th = None"
    using settle_run_advances [OF Inr [unfolded p]] next_launch_advances [OF nl] by (simp add: advances_def)
  with ok act show ?thesis by (cases th) (auto simp: settle_from_monitor_def Inr p nl upd flat_active_def Let_def)
qed

definition ralph_inv :: "(json \<Rightarrow> zod_issue list) \<Rightarrow> nat \<Rightarrow> ralph_data wf_run \<Rightarrow> bool" where
  "ralph_inv issues n r = (ralph_ok issues n r \<and> flat_active (wr_active r) \<and> flat_thread (wr_starting r))"

lemma ralph_frame [simp]:
  "ralph_ok issues n (r\<lparr>wr_active := a\<rparr>) = ralph_ok issues n r" "ralph_ok issues n (r\<lparr>wr_starting := t\<rparr>) = ralph_ok issues n r"
  "ralph_ok issues n (r\<lparr>wr_queue := q\<rparr>) = ralph_ok issues n r" "ralph_ok issues n (r\<lparr>wr_aborted := w\<rparr>) = ralph_ok issues n r"
  "ralph_ok issues n (answer j x r) = ralph_ok issues n r"
  by (rule ralph_ok_cong; simp add: answer_def)+

lemma flat_thread_None [simp]: "flat_thread None"
  by (simp add: flat_thread_def)

lemma flat_active_simps [simp]:
  "flat_active None" "flat_active (Some a) = flat_thread (active_thread a)"
  by (simp_all add: flat_active_def)

lemma end_interrupt_ok:
  assumes r: "ralph_ok issues n r" and fin: "\<not> wr_finished r"
    and running: "running = indices_where (\<lambda>e. en_status e = RunningNode) (wr_nodes r)"
  shows "ralph_ok issues n (end_interrupt cfg reason running r)"
proof -
  let ?q = "end_interrupt cfg reason running r"
  have "length (wr_nodes ?q) = length (wr_nodes r)"
    using end_interrupt_advances(3) [OF running, of cfg reason] by (metis length_map)
  moreover have "length (wr_nodes r) \<le> 3 * n"
    using r fin stage_bound [of n "ws_data (wr_state r)"] by (auto simp: ralph_ok_def ralph_over_def ralph_running_def live_data_def)
  moreover have "wr_finished ?q" by (simp add: end_interrupt_def)
  ultimately have "ralph_over n ?q"
    using end_interrupt_advances(2) [OF running, of cfg reason] end_interrupt_advances(4) [OF running fin, of cfg reason]
    by (simp add: ralph_over_def idle_nodes_def)
  then show ?thesis by (simp add: ralph_ok_def)
qed

lemma ralph_step:
  assumes cfg: "ralph_config issues n cfg" and wf: "wf_inv r" and inv: "ralph_inv issues n r" and x: "wf_exec cfg x r = Some r'"
  shows "ralph_inv issues n r'"
proof -
  have r: "ralph_ok issues n r" "flat_active (wr_active r)" "flat_thread (wr_starting r)" using inv by (simp_all add: ralph_inv_def)
  have core: "core_ok r" and actok: "\<And>act. wr_active r = Some act \<Longrightarrow> active_ok (wr_nodes r) (wr_starting r = None) (wr_finished r) act"
    using wf by (auto simp: wf_inv_def)
  show ?thesis
  proof (cases x)
    case Dequeue
    then obtain y ys where q: "wr_queue r = y # ys" and r': "r' = run_op cfg y (r\<lparr>wr_queue := ys\<rparr>)" and idle: "wr_active r = None"
      using x by (auto simp: wf_exec_def split: option.splits list.splits)
    let ?r = "r\<lparr>wr_queue := ys\<rparr>"
    have y: "queued_ok (length (wr_nodes r)) (wr_starting r = None) y" using core q by (simp add: core_ok_def)
    have r1: "ralph_ok issues n ?r" "flat_active (wr_active ?r)" using r by simp_all
    have st: "wr_starting r' = wr_starting r"
    proof (cases y)
      case (OpInterrupt reason)
      then show ?thesis by (simp add: r' run_op_def begin_interrupt_def)
    next
      case (OpSubmit i payload)
      have "wr_starting (submit_node_completion cfg i payload ?r) = wr_starting ?r" by (rule submit_starting)
      with OpSubmit show ?thesis by (simp add: r' run_op_def)
    next
      case (OpSettle i ns)
      have "wr_starting (settle_from_monitor cfg i ns ?r) = wr_starting ?r" by (rule monitor_starting)
      with OpSettle show ?thesis by (simp add: r' run_op_def)
    qed
    show ?thesis using submit_ok [OF cfg r1(1) _ r1(2)] monitor_ok [OF cfg r1(1) _ r1(2)] y st r r'
      by (cases y) (auto simp: ralph_inv_def run_op_def begin_interrupt_def)
  next
    case (LaunchSettles failure)
    then obtain act k fs where a: "wr_active r = Some act" and t: "active_thread act = Some (k, fs)"
      and r': "r' = resume_active act (launched cfg failure (k, fs) r) r"
      using x by (auto simp: wf_exec_def split: option.splits)
    have k: "k < length (wr_nodes r)" using actok [OF a] t by (cases act) auto
    have fs: "flat fs" using r(2) a t by (simp add: flat_thread_def)
    show ?thesis
    proof (cases "launched cfg failure (k, fs) r")
      case (Inl why)
      then show ?thesis using r a t by (cases act) (auto simp: r' resume_active_def ralph_inv_def answer_def ralph_ok_def ralph_over_def ralph_running_def idle_nodes_def)
    next
      case (Inr p)
      obtain th r1 where p: "p = (th, r1)" by (cases p)
      from launched_ok [OF cfg r(1) k fs Inr [unfolded p]] have ok: "ralph_ok issues n r1" "flat_thread th" by simp_all
      have s1: "wr_starting r1 = wr_starting r" using launched_advances [OF Inr [unfolded p]] by (simp add: advances_def)
      have sa: "wr_starting (answer j z q) = wr_starting q" "wr_active (answer j z q) = wr_active q" for j z and q :: "ralph_data wf_run"
        by (simp_all add: answer_def)
      show ?thesis using r ok s1 t
        by (cases act; cases th) (auto simp: r' resume_active_def Inr p ralph_inv_def sa)
    qed
  next
    case (StartLaunchSettles failure)
    then obtain k fs where st: "wr_starting r = Some (k, fs)" and r': "r' = (case launched cfg failure (k, fs) r of
        Inl err \<Rightarrow> r\<lparr>wr_starting := None\<rparr> | Inr (th', r1) \<Rightarrow> r1\<lparr>wr_starting := th'\<rparr>)"
      using start_settles x by blast
    have k: "k < length (wr_nodes r)" using core st by (simp add: core_ok_def)
    have fs: "flat fs" using r(3) st by (simp add: flat_thread_def)
    show ?thesis
    proof (cases "launched cfg failure (k, fs) r")
      case (Inr p)
      obtain th r1 where p: "p = (th, r1)" by (cases p)
      from launched_ok [OF cfg r(1) k fs Inr [unfolded p]] launched_advances [OF Inr [unfolded p]] r
      show ?thesis by (simp add: r' Inr p ralph_inv_def advances_def)
    qed (use r in \<open>simp add: r' ralph_inv_def\<close>)
  next
    case HandlesInterrupted
    then obtain reason running where a: "wr_active r = Some (InInterrupt reason running)"
      and r': "r' = (end_interrupt cfg reason running r)\<lparr>wr_active := None\<rparr>"
      using x by (auto simp: wf_exec_def split: option.splits wf_active.splits)
    have i: "\<not> wr_finished r" "running = indices_where (\<lambda>e. en_status e = RunningNode) (wr_nodes r)" using actok [OF a] by simp_all
    from end_interrupt_ok [OF r(1) i] end_interrupt_advances(1) [OF i(2), of cfg reason] r(3) show ?thesis
      by (simp add: r' ralph_inv_def advances_def)
  qed (use r x in \<open>auto simp: ralph_inv_def wf_exec_def split: if_splits option.splits wf_active.splits\<close>)
qed

lemma ralph_start_inv:
  assumes cfg: "ralph_config issues n cfg"
  shows "ralph_inv issues n (wf_start cfg)"
proof -
  have impl: "wc_impl cfg = ralph_impl issues n" and n: "1 \<le> n" using cfg by (simp_all add: ralph_config_def)
  define r0 where "r0 = \<lparr>wr_state = wi_initial (wc_impl cfg) (wc_definition cfg) (wc_args cfg), wr_nodes = [], wr_snapshots = [],
      wr_timeline = [], wr_events = create_run_event_stream, wr_finished = False, wr_outcome = None,
      wr_aborted = None, wr_last_dispatches = [], wr_ticks = 0, wr_starting = None, wr_queue = [],
      wr_active = None, wr_answers = []\<rparr>"
  define r1 where "r1 = record_snapshot cfg (wf_emit cfg (WorkflowStarted (wd_metadata (wc_definition cfg))) r0)"
  obtain ds r3 where d: "wf_dispatch cfg r1 = (ds, r3)" by (cases "wf_dispatch cfg r1")
  obtain th r4 where nl: "next_launch cfg [ds] r3 = (th, r4)" by (cases "next_launch cfg [ds] r3")
  have s1: "wr_state r1 = ralph_initial n" "wr_nodes r1 = []" "\<not> wr_finished r1" "wr_active r1 = None"
    by (simp_all add: r1_def r0_def impl ralph_impl_def)
  have live: "live_data n (ralph_initial n)" using n by (simp add: live_data_def ralph_initial_def data_ok_def reports_ok_def)
  then have "finish_if_done cfg r1 = (False, r1)" by (simp add: finish_if_done_eq s1 live_data_def)
  then have whole: "wf_start cfg = r4\<lparr>wr_starting := th\<rparr>"
    by (simp add: wf_start_def r0_def [symmetric] r1_def [symmetric] d nl Let_def)
  have "ralph_pending issues n ds r3"
    by (rule dispatch_pending [OF cfg _ _ _ _ d]) (use live s1 in \<open>simp_all add: idle_nodes_def\<close>)
  then have "ralph_gap issues n ds r3" by (simp add: ralph_gap_def)
  from gap_launch [OF this flat_Nil nl] have "ralph_ok issues n r4" "flat_thread th" by simp_all
  moreover have "wr_active r4 = None"
    using keeps_advances [OF dispatch_keeps [OF d]] next_launch_advances [OF nl] s1(4) by (simp add: advances_def)
  ultimately show ?thesis by (simp add: whole ralph_inv_def)
qed

lemma ralph_reach:
  assumes cfg: "ralph_config issues n cfg" and r: "wf_reach cfg r"
  shows "ralph_inv issues n r"
  using r
proof (induction rule: wf_reach.induct)
  case wf_started
  show ?case by (rule ralph_start_inv [OF cfg])
next
  case (wf_step r x r')
  then show ?case using ralph_step [OF cfg reach_inv] by blast
qed

lemma outcome_finished: "stream_inv r \<Longrightarrow> wr_finished r \<longleftrightarrow> wr_outcome r \<noteq> None"
  by (auto simp: stream_inv_def Let_def split: if_splits)

section \<open>What the loop promises\<close>

text \<open>
  C21: the ralph loop never deadlocks and is bounded. Until it has an outcome exactly one node is
  running, the one of the current phase and attempt; once it has one none is; it launches at
  most three nodes per attempt and never more attempts than allowed.
\<close>

theorem ralph_one_node_at_a_time:
  assumes "ralph_config issues n cfg" "wf_reach cfg r"
  shows "length (wr_nodes r) \<le> 3 * n
    \<and> (wr_outcome r = None \<longrightarrow>
         map sn_metadata (running_nodes r) = [Some (role_metadata (ws_data (wr_state r)))]
         \<and> 1 \<le> ra_attempt (ws_data (wr_state r)) \<and> ra_attempt (ws_data (wr_state r)) \<le> n)
    \<and> (wr_outcome r \<noteq> None \<longrightarrow> running_nodes r = [])"
proof -
  have ok: "ralph_ok issues n r" using ralph_reach [OF assms] by (simp add: ralph_inv_def)
  have fin: "wr_finished r \<longleftrightarrow> wr_outcome r \<noteq> None"
    using reach_inv [OF assms(2)] by (intro outcome_finished) (simp add: wf_inv_def core_ok_def)
  show ?thesis
  proof (cases "wr_finished r")
    case True
    then have o: "ralph_over n r" using ok by (auto simp: ralph_ok_def ralph_running_def)
    then show ?thesis using fin True by (auto simp: ralph_over_def idle_running_nodes)
  next
    case False
    then have rr: "ralph_running issues n r" using ok by (auto simp: ralph_ok_def ralph_over_def)
    then obtain i where i: "indices_where (\<lambda>e. en_status e = RunningNode) (wr_nodes r) = [i]"
      "started_for issues (ws_data (wr_state r)) (wr_nodes r ! i)" by (auto simp: ralph_running_def)
    have "filter (\<lambda>e. en_status e = RunningNode) (wr_nodes r) = [wr_nodes r ! i]"
      using i(1) by (simp add: filter_indices_where)
    then have "map sn_metadata (running_nodes r) = [Some (role_metadata (ws_data (wr_state r)))]"
      using i(2) by (simp add: running_nodes_def node_snapshot_def started_for_def)
    moreover have "data_ok n (ws_data (wr_state r))" using rr by (simp add: ralph_running_def live_data_def)
    moreover have "length (wr_nodes r) \<le> 3 * n"
      using rr stage_bound [of n "ws_data (wr_state r)"] by (auto simp: ralph_running_def live_data_def)
    ultimately show ?thesis using False fin by (simp add: data_ok_def)
  qed
qed

text \<open>
  C22: the outcome of the ralph loop means what it says. It is a success only when planner,
  reviewer and critic of one attempt have all passed, with their summaries; a failure only
  when the last allowed attempt has failed; otherwise the run was interrupted.
\<close>

theorem ralph_outcome_meaning:
  assumes "ralph_config issues n cfg" "wf_reach cfg r" "wr_outcome r = Some out"
  shows "(\<exists>why. out = OutcomeCancelled why)
    \<or> (\<exists>p q c. ra_planner (ws_data (wr_state r)) = Some p \<and> ra_reviewer (ws_data (wr_state r)) = Some q
         \<and> ra_critic (ws_data (wr_state r)) = Some c \<and> rr_pass p \<and> rr_pass q \<and> rr_pass c
         \<and> out = OutcomeSuccess (Some (JObj [(''planner_summary'', JStr (rr_summary p)),
              (''reviewer_summary'', JStr (rr_summary q)), (''critic_summary'', JStr (rr_summary c))])))
    \<or> (ra_attempt (ws_data (wr_state r)) = n
         \<and> out = OutcomeFailure (Some (''ralph failed after '' @ string_of_nat n @ '' attempt(s)''))
              (Some (JObj [(''attempts'', jnat n), (''failures'', JArr (map JStr (ra_failures (ws_data (wr_state r)))))])))"
proof -
  have ok: "ralph_ok issues n r" using ralph_reach [OF assms(1,2)] by (simp add: ralph_inv_def)
  have "wr_finished r"
    using reach_inv [OF assms(2)] assms(3) outcome_finished [of r] by (simp add: wf_inv_def core_ok_def)
  then have "ralph_over n r" using ok by (auto simp: ralph_ok_def ralph_running_def)
  then consider (c) why where "out = OutcomeCancelled why"
    | (f) "finished_data n (wr_state r)" "ralph_workflow_outcome (wr_state r) = Some out"
    using assms(3) by (auto simp: ralph_over_def)
  then show ?thesis
  proof cases
    case f
    show ?thesis
    proof (cases "ws_status (wr_state r) = WfSuccess")
      case True
      with f obtain p q c where "ra_planner (ws_data (wr_state r)) = Some p" "ra_reviewer (ws_data (wr_state r)) = Some q"
        "ra_critic (ws_data (wr_state r)) = Some c" "rr_pass p" "rr_pass q" "rr_pass c"
        by (auto simp: finished_data_def reports_ok_def passed_def)
      with f True show ?thesis by (auto simp: ralph_workflow_outcome_def report_summary_def finished_data_def Let_def)
    next
      case False
      with f show ?thesis by (simp add: finished_data_def ralph_workflow_outcome_def)
    qed
  qed blast
qed

end
