(* ===== verification/RalphExamples.thy ===== *)
theory RalphExamples
  imports RalphProps
begin

text \<open>A concrete run of the ralph loop: the witnesses of its properties.\<close>

definition agent_binding :: "string \<Rightarrow> json" where
  "agent_binding n = JObj [(''kind'', JStr ''agent''), (''name'', JStr n)]"

definition sample_ralph :: "ralph_data wf_config" where
  "sample_ralph = \<lparr>wc_impl = ralph_impl (\<lambda>_. []) 2,
     wc_definition = \<lparr>wd_description = None, wd_nodes = None, wd_args = None,
       wd_metadata = Some [(''nodeBindings'', JObj [(''planner'', agent_binding ''p''), (''reviewer'', agent_binding ''r''),
         (''critic'', agent_binding ''c'')])]\<rparr>,
     wc_args = [], wc_clock = (\<lambda>_. ''now'')\<rparr>"

definition report :: "string \<Rightarrow> bool \<Rightarrow> json" where
  "report key b = JObj [(''pass'', JBool b), (key, JStr ''text''), (''summary'', JStr ''sum'')]"

text \<open>The reviewer refuses the first attempt; the second passes all three phases.\<close>

definition first_attempt :: "wf_label list" where
  "first_attempt = [StartLaunchSettles None, Submit 0 (report ''plan'' True), Dequeue, LaunchSettles None,
     Submit 1 (report ''review'' False), Dequeue, LaunchSettles None]"

definition second_attempt :: "wf_label list" where
  "second_attempt = [Submit 2 (report ''plan'' True), Dequeue, LaunchSettles None,
     Submit 3 (report ''review'' True), Dequeue, LaunchSettles None, Submit 4 (report ''verdict'' True), Dequeue]"

definition ralph_run :: "wf_label list \<Rightarrow> ralph_data wf_run option" where
  "ralph_run xs = wf_execs sample_ralph xs (wf_start sample_ralph)"

lemma ralph_run_reach: "ralph_run xs = Some r \<Longrightarrow> wf_reach sample_ralph r"
  unfolding ralph_run_def by (rule wf_execs_reach [OF wf_started])

lemma sample_ralph_config: "ralph_config (\<lambda>_. []) 2 sample_ralph"
proof -
  have "binding_for ralph_roles (wc_definition sample_ralph) ''planner'' \<noteq> None"
    by (simp add: sample_ralph_def binding_for_def is_binding_map_def ralph_roles_def agent_binding_def as_binding_def)
  then show ?thesis by (simp add: ralph_config_def sample_ralph_def)
qed

definition ralph_digest :: "ralph_data wf_run \<Rightarrow> nat \<times> nat \<times> nat" where
  "ralph_digest r = (length (wr_nodes r), length (running_nodes r), ra_attempt (ws_data (wr_state r)))"

lemma first_attempt_runs:
  "map_option (\<lambda>r. (ralph_digest r, wr_outcome r)) (ralph_run first_attempt) = Some ((3, 1, 2), None)"
  by code_simp

lemma second_attempt_runs:
  "map_option (\<lambda>r. (ralph_digest r, wr_outcome r)) (ralph_run (first_attempt @ second_attempt)) =
   Some ((5, 0, 2), Some (OutcomeSuccess (Some (JObj [(''planner_summary'', JStr ''sum''), (''reviewer_summary'', JStr ''sum''),
     (''critic_summary'', JStr ''sum'')]))))"
  by code_simp

theorem ralph_one_node_at_a_time_witness:
  "\<exists>r. ralph_run first_attempt = Some r \<and> wr_outcome r = None \<and> ra_attempt (ws_data (wr_state r)) = 2
    \<and> map sn_metadata (running_nodes r) = [Some (role_metadata (ws_data (wr_state r)))]"
proof -
  obtain r where r: "ralph_run first_attempt = Some r" "wr_outcome r = None" "ra_attempt (ws_data (wr_state r)) = 2"
    using first_attempt_runs by (auto simp: ralph_digest_def)
  from ralph_one_node_at_a_time [OF sample_ralph_config ralph_run_reach [OF r(1)]] r show ?thesis by auto
qed

theorem ralph_outcome_meaning_witness:
  "\<exists>r p q c. ralph_run (first_attempt @ second_attempt) = Some r \<and> ra_planner (ws_data (wr_state r)) = Some p
    \<and> ra_reviewer (ws_data (wr_state r)) = Some q \<and> ra_critic (ws_data (wr_state r)) = Some c
    \<and> rr_pass p \<and> rr_pass q \<and> rr_pass c"
proof -
  obtain r out where r: "ralph_run (first_attempt @ second_attempt) = Some r" "wr_outcome r = Some out"
    and out: "out = OutcomeSuccess (Some (JObj [(''planner_summary'', JStr ''sum''), (''reviewer_summary'', JStr ''sum''),
     (''critic_summary'', JStr ''sum'')]))"
    using second_attempt_runs by auto
  from ralph_outcome_meaning [OF sample_ralph_config ralph_run_reach [OF r(1)] r(2)] r(1) out show ?thesis by auto
qed

end
