(* ===== verification/PursuitTypes.thy ===== *)
theory PursuitTypes
  imports RalphLoop
begin

text \<open>
  The data of the bundled workflow \<open>coding-agent/.ephai/agentic-workflows/pursuit/workflow.mjs\<close>:
  a pursuit is a list of legs, a leg a list of attempts, an attempt a plan and its work items;
  with the payloads that planners and workers submit, and the settlements' metadata.
\<close>

section \<open>State\<close>

datatype entity_status = EntityNotStarted | EntityRunning | EntitySuccess | EntityFailed | EntityCancelled

datatype item_status = ItemNotStarted | ItemRunning | ItemSuccess | ItemFailed | ItemBlocked | ItemCancelled

fun entity_text :: "entity_status \<Rightarrow> string" where
  "entity_text EntityNotStarted = ''NotStarted''"
| "entity_text EntityRunning = ''Running''"
| "entity_text EntitySuccess = ''Success''"
| "entity_text EntityFailed = ''Failed''"
| "entity_text EntityCancelled = ''Cancelled''"

fun item_text :: "item_status \<Rightarrow> string" where
  "item_text ItemNotStarted = ''NotStarted''"
| "item_text ItemRunning = ''Running''"
| "item_text ItemSuccess = ''Success''"
| "item_text ItemFailed = ''Failed''"
| "item_text ItemBlocked = ''Blocked''"
| "item_text ItemCancelled = ''Cancelled''"

definition entity_terminal :: "entity_status \<Rightarrow> bool" where
  "entity_terminal s = (s = EntitySuccess \<or> s = EntityFailed \<or> s = EntityCancelled)"

definition item_terminal :: "item_status \<Rightarrow> bool" where
  "item_terminal s = (s = ItemSuccess \<or> s = ItemFailed \<or> s = ItemBlocked \<or> s = ItemCancelled)"

datatype failure_kind = PlannerFailed | ContextCompositionFailed | WorkFailed | BlockedByDependency

record failure_reason =
  fr_item :: "string option"
  fr_kind :: failure_kind
  fr_message :: "string option"
  fr_summary :: "string option"
  fr_outcome :: "string option"
  fr_blocked_by :: "string list option"

record work_item =
  wk_key :: string
  wk_id :: string
  wk_agent :: string
  wk_status :: item_status
  wk_title :: string
  wk_spec :: string
  wk_depends :: "string list"
  wk_version :: nat
  wk_summary :: "string option"
  wk_outcome :: "string option"

record plan =
  pn_id :: string
  pn_status :: entity_status
  pn_leg_goal :: "string option"
  pn_next_goal :: "string option"
  pn_version :: nat
  pn_summary :: "string option"

record attempt_run =
  at_id :: string
  at_sequence :: nat
  at_status :: entity_status
  at_failures :: "failure_reason list"
  at_version :: nat
  at_consistent :: bool
  at_plan :: plan
  at_items :: "work_item list"

datatype leg_origin = InitialLeg | NextGoalLeg | PredefinedLeg

record leg =
  lg_id :: string
  lg_sequence :: nat
  lg_origin :: leg_origin
  lg_max :: nat
  lg_status :: entity_status
  lg_goal :: string
  lg_version :: nat
  lg_provenance :: string
  lg_mutatable :: bool
  lg_next :: "string option"
  lg_attempts :: "attempt_run list"

datatype goal_mode = DynamicGoals | PredefinedGoals

record pursuit =
  pt_id :: string
  pt_goal :: string
  pt_mode :: goal_mode
  pt_leg_goals :: "string list"
  pt_status :: entity_status
  pt_closed :: "string option"

text \<open>\<open>pd_minted\<close> counts the calls of \<open>randomUUID\<close>: the n-th one returns the host's n-th id.\<close>

record pursuit_data =
  pd_pursuit :: pursuit
  pd_legs :: "leg list"
  pd_failures :: "string list"
  pd_minted :: nat

type_synonym pursuit_state = "pursuit_data wf_state"

text \<open>What the host supplies: \<open>randomUUID\<close>, the clock's reading at the close, and the issues of zod.\<close>

record pursuit_host =
  ph_uuid :: "nat \<Rightarrow> string"
  ph_now :: string
  ph_issues :: "json \<Rightarrow> zod_issue list"

section \<open>Payloads\<close>

record planner_item =
  pi_id :: string
  pi_agent :: string
  pi_title :: string
  pi_spec :: string
  pi_depends :: "string list"

record planner_payload =
  pp_summary :: string
  pp_leg_goal :: "string option"
  pp_next_goal :: "string option"
  pp_items :: "planner_item list"

record worker_payload =
  wp_summary :: string
  wp_pass :: bool
  wp_outcome :: string

definition parse_depends :: "json option \<Rightarrow> string list option" where
  "parse_depends j =
     (case j of
        None \<Rightarrow> Some []
      | Some (JArr xs) \<Rightarrow> all_some (map (\<lambda>x. parse_text (Some x)) xs)
      | _ \<Rightarrow> None)"

definition parse_planner_item :: "json \<Rightarrow> planner_item option" where
  "parse_planner_item j =
     (case j of
        JObj kvs \<Rightarrow>
          (if \<not> strict_keys [''id'', ''agent_name'', ''title'', ''spec'', ''depends_on''] kvs then None
           else (case (parse_text (map_of kvs ''id''), parse_text (map_of kvs ''agent_name''), parse_text (map_of kvs ''title''),
                       parse_text (map_of kvs ''spec''), parse_depends (map_of kvs ''depends_on'')) of
                   (Some i, Some a, Some t, Some s, Some ds) \<Rightarrow>
                     Some \<lparr>pi_id = i, pi_agent = a, pi_title = t, pi_spec = s, pi_depends = ds\<rparr>
                 | _ \<Rightarrow> None))
      | _ \<Rightarrow> None)"

definition parse_planner_items :: "json option \<Rightarrow> planner_item list option" where
  "parse_planner_items j =
     (case j of
        Some (JArr xs) \<Rightarrow> (if xs = [] then None else all_some (map parse_planner_item xs))
      | _ \<Rightarrow> None)"

definition parse_planner :: "json \<Rightarrow> planner_payload option" where
  "parse_planner j =
     (case j of
        JObj kvs \<Rightarrow>
          (if \<not> strict_keys [''summary'', ''leg_goal'', ''next_leg_goal'', ''work_items''] kvs then None
           else (case (parse_text (map_of kvs ''summary''), parse_optional_text (map_of kvs ''leg_goal''),
                       parse_optional_text (map_of kvs ''next_leg_goal''), parse_planner_items (map_of kvs ''work_items'')) of
                   (Some s, Some g, Some n, Some its) \<Rightarrow>
                     Some \<lparr>pp_summary = s, pp_leg_goal = g, pp_next_goal = n, pp_items = its\<rparr>
                 | _ \<Rightarrow> None))
      | _ \<Rightarrow> None)"

definition parse_worker :: "json \<Rightarrow> worker_payload option" where
  "parse_worker j =
     (case j of
        JObj kvs \<Rightarrow>
          (if \<not> strict_keys [''summary'', ''is_pass'', ''outcome''] kvs then None
           else (case (parse_text (map_of kvs ''summary''), map_of kvs ''is_pass'', parse_text (map_of kvs ''outcome'')) of
                   (Some s, Some (JBool b), Some out) \<Rightarrow> Some \<lparr>wp_summary = s, wp_pass = b, wp_outcome = out\<rparr>
                 | _ \<Rightarrow> None))
      | _ \<Rightarrow> None)"

text \<open>The parsed payloads as JSON, with the defaults filled in.\<close>

definition planner_item_json :: "planner_item \<Rightarrow> json" where
  "planner_item_json i = JObj [(''id'', JStr (pi_id i)), (''agent_name'', JStr (pi_agent i)), (''title'', JStr (pi_title i)),
     (''spec'', JStr (pi_spec i)), (''depends_on'', JArr (map JStr (pi_depends i)))]"

definition planner_json :: "planner_payload \<Rightarrow> json" where
  "planner_json p = JObj ([(''summary'', JStr (pp_summary p))] @
     optional_member ''leg_goal'' (map_option JStr (pp_leg_goal p)) @
     optional_member ''next_leg_goal'' (map_option JStr (pp_next_goal p)) @
     [(''work_items'', JArr (map planner_item_json (pp_items p)))])"

definition worker_json :: "worker_payload \<Rightarrow> json" where
  "worker_json p = JObj [(''summary'', JStr (wp_summary p)), (''is_pass'', JBool (wp_pass p)), (''outcome'', JStr (wp_outcome p))]"

definition contract_of :: "(json \<Rightarrow> zod_issue list) \<Rightarrow> string \<Rightarrow> string \<Rightarrow> (json \<Rightarrow> 'p option) \<Rightarrow> ('p \<Rightarrow> json) \<Rightarrow> outcome_contract" where
  "contract_of issues name description parse render =
     \<lparr>oc_name = name, oc_description = description,
      oc_parse = (\<lambda>j. case parse j of None \<Rightarrow> Inl (issues j) | Some p \<Rightarrow> Inr (render p))\<rparr>"

section \<open>Metadata of the settlements\<close>

datatype pursuit_meta =
    PlannerMeta string string string string
  | WorkerMeta string string string string string

text \<open>\<open>PlannerMeta leg attempt plan n\<close> and \<open>WorkerMeta leg attempt item key n\<close>; \<open>n\<close> renders the attempt's number.\<close>

definition str_member :: "json_object \<Rightarrow> string \<Rightarrow> string option" where
  "str_member kvs k = (case map_of kvs k of Some (JStr s) \<Rightarrow> Some s | _ \<Rightarrow> None)"

definition num_member :: "json_object \<Rightarrow> string \<Rightarrow> string option" where
  "num_member kvs k = (case map_of kvs k of Some (JNum s) \<Rightarrow> Some s | _ \<Rightarrow> None)"

definition pursuit_metadata :: "wf_settlement \<Rightarrow> pursuit_meta option" where
  "pursuit_metadata st =
     (case settlement_metadata st of
        None \<Rightarrow> None
      | Some m \<Rightarrow>
          (case (str_member m ''role'', str_member m ''leg_id'', str_member m ''attempt_id'', num_member m ''attempt'') of
             (Some role, Some l, Some a, Some n) \<Rightarrow>
               (if role = ''planner'' then
                  (case str_member m ''plan_id'' of Some p \<Rightarrow> Some (PlannerMeta l a p n) | None \<Rightarrow> None)
                else if role = ''worker'' then
                  (case (str_member m ''work_item_id'', str_member m ''work_item_key'') of
                     (Some i, Some k) \<Rightarrow> Some (WorkerMeta l a i k n)
                   | _ \<Rightarrow> None)
                else None)
           | _ \<Rightarrow> None))"

text \<open>The plans and work items that running nodes are working on.\<close>

record running_set =
  rs_plans :: "string list"
  rs_items :: "string list"

definition running_metadata :: "runtime_snapshot \<Rightarrow> running_set" where
  "running_metadata rt =
     (let metas = List.map_filter sn_metadata (rt_running rt);
          of_role = (\<lambda>role k. List.map_filter (\<lambda>m. if str_member m ''role'' = Some role then str_member m k else None) metas)
      in \<lparr>rs_plans = of_role ''planner'' ''plan_id'', rs_items = of_role ''worker'' ''work_item_key''\<rparr>)"

section \<open>Arguments\<close>

record pursuit_args =
  pa_goal :: string
  pa_leg_goals :: "string list"
  pa_max :: nat

text \<open>\<open>PursuitArgsSchema\<close>: absent \<open>leg_goals\<close> is the empty list, present ones are not empty; two attempts by default.\<close>

definition DEFAULT_MAX_ATTEMPTS :: nat where
  "DEFAULT_MAX_ATTEMPTS = 2"

definition parse_leg_goals :: "json option \<Rightarrow> string list option" where
  "parse_leg_goals j =
     (case j of
        None \<Rightarrow> Some []
      | Some (JArr xs) \<Rightarrow> (if xs = [] then None else all_some (map (\<lambda>x. parse_text (Some x)) xs))
      | _ \<Rightarrow> None)"

definition parse_pursuit_args :: "json_object \<Rightarrow> pursuit_args option" where
  "parse_pursuit_args kvs =
     (if \<not> strict_keys [''pursuit_goal'', ''leg_goals'', ''max_attempts''] kvs then None
      else (case (parse_text (map_of kvs ''pursuit_goal''), parse_leg_goals (map_of kvs ''leg_goals''),
                  (case map_of kvs ''max_attempts'' of None \<Rightarrow> Some DEFAULT_MAX_ATTEMPTS | Some j \<Rightarrow> parse_positive j)) of
              (Some g, Some gs, Some n) \<Rightarrow> Some \<lparr>pa_goal = g, pa_leg_goals = gs, pa_max = n\<rparr>
            | _ \<Rightarrow> None))"

end
