(* ===== verification/PursuitContext.thy ===== *)
theory PursuitContext
  imports PursuitTypes
begin

text \<open>
  What a pursuit shows of itself: failure reasons and outcomes as text, the context passed to
  delegated workflows, and the virtual directory tree that agents list and search. The
  collation key of \<open>localeCompare\<close> is a parameter.
\<close>

section \<open>Texts\<close>

fun coalesce :: "'a option list \<Rightarrow> 'a \<Rightarrow> 'a" where
  "coalesce [] d = d"
| "coalesce (Some x # _) d = x"
| "coalesce (None # xs) d = coalesce xs d"

definition item_list :: "string list \<Rightarrow> string" where
  "item_list ids = join_with '', '' (map (\<lambda>i. ''work_item_'' @ i) ids)"

definition blocked_summary :: "string list \<Rightarrow> string" where
  "blocked_summary ids = ''blocked by '' @ item_list ids"

definition blocked_by_text :: "string list option \<Rightarrow> string" where
  "blocked_by_text b =
     (case b of
        None \<Rightarrow> ''blocked by failed dependency''
      | Some ids \<Rightarrow> (if ids = [] then ''blocked by failed dependency'' else blocked_summary ids))"

definition format_failure_reason :: "failure_reason \<Rightarrow> string" where
  "format_failure_reason r =
     (case (fr_kind r, fr_item r) of
        (WorkFailed, Some i) \<Rightarrow>
          ''work_item_'' @ i @ '' [Failed]: '' @ coalesce [fr_summary r, fr_outcome r, fr_message r] ''(no summary)''
      | (BlockedByDependency, Some i) \<Rightarrow>
          ''work_item_'' @ i @ '' [Blocked]: '' @ coalesce [fr_summary r, fr_message r] (blocked_by_text (fr_blocked_by r))
      | (ContextCompositionFailed, Some i) \<Rightarrow>
          ''work_item_'' @ i @ '' [Context composition failed]: '' @ coalesce [fr_message r] ''(no message)''
      | (ContextCompositionFailed, None) \<Rightarrow>
          ''planner [Context composition failed]: '' @ coalesce [fr_message r] ''(no message)''
      | _ \<Rightarrow> ''planner [Failed]: '' @ coalesce [fr_message r] ''(no message)'')"

definition compose_attempt_outcome :: "attempt_run \<Rightarrow> string" where
  "compose_attempt_outcome a =
     (if at_items a = [] then ''# Attempt outcome'' @ newline @ ''(no work items)''
      else join_with newline (''# Attempt outcome'' #
        map (\<lambda>w. ''- work_item_'' @ wk_id w @ '' ['' @ item_text (wk_status w) @ '']: '' @ coalesce [wk_summary w] ''(no summary)'')
          (at_items a)))"

definition compose_leg_outcome :: "leg \<Rightarrow> string" where
  "compose_leg_outcome l =
     (case last_opt (lg_attempts l) of None \<Rightarrow> ''(no attempts)'' | Some a \<Rightarrow> compose_attempt_outcome a)"

definition compose_pursuit_outcome :: "pursuit_data \<Rightarrow> string" where
  "compose_pursuit_outcome d =
     join_with (newline @ newline)
       ((if pt_status (pd_pursuit d) = EntityCancelled then ''# Pursuit outcome'' @ newline @ ''pursuit cancelled''
         else ''# Pursuit outcome'') #
        map (\<lambda>l. ''## leg_'' @ lg_id l @ '' ['' @ entity_text (lg_status l) @ '']'' @ newline @ compose_leg_outcome l)
          (filter (\<lambda>l. lg_status l = EntitySuccess \<or> lg_status l = EntityFailed) (pd_legs d)))"

definition failure_summary :: "pursuit_data \<Rightarrow> string" where
  "failure_summary d =
     (case find (\<lambda>a. at_failures a \<noteq> []) (concat (map (\<lambda>l. rev (lg_attempts l)) (rev (pd_legs d)))) of
        None \<Rightarrow> ''pursuit failed''
      | Some a \<Rightarrow> format_failure_reason (hd (at_failures a)))"

definition terminal_summary :: "pursuit_data \<Rightarrow> string" where
  "terminal_summary d =
     (if pt_status (pd_pursuit d) = EntitySuccess then
        (case last_opt (pd_legs d) of
           None \<Rightarrow> ''pursuit completed''
         | Some l \<Rightarrow> (case last_opt (lg_attempts l) of
                        None \<Rightarrow> ''pursuit completed''
                      | Some a \<Rightarrow> coalesce [pn_summary (at_plan a)] ''pursuit completed''))
      else failure_summary d)"

section \<open>Paths\<close>

definition root_path :: "string \<Rightarrow> string" where
  "root_path i = ''pursuit_'' @ i"

definition leg_dir :: "string \<Rightarrow> string" where
  "leg_dir i = ''leg_'' @ i"

definition attempt_dir :: "leg \<Rightarrow> attempt_run \<Rightarrow> string" where
  "attempt_dir l a =
     leg_dir (lg_id l) @ (if at_consistent a then ''/attempt_'' else ''/superseded/attempt_'') @ at_id a"

section \<open>The context as JSON\<close>

definition jtext :: "string option \<Rightarrow> json" where
  "jtext t = (case t of None \<Rightarrow> JNull | Some s \<Rightarrow> JStr s)"

fun kind_text :: "failure_kind \<Rightarrow> string" where
  "kind_text PlannerFailed = ''planner_failed''"
| "kind_text ContextCompositionFailed = ''context_composition_failed''"
| "kind_text WorkFailed = ''failed''"
| "kind_text BlockedByDependency = ''blocked_by_failed_dependency''"

fun origin_text :: "leg_origin \<Rightarrow> string" where
  "origin_text InitialLeg = ''initial''"
| "origin_text NextGoalLeg = ''next_leg_goal''"
| "origin_text PredefinedLeg = ''predefined''"

fun mode_text :: "goal_mode \<Rightarrow> string" where
  "mode_text DynamicGoals = ''dynamic''"
| "mode_text PredefinedGoals = ''predefined''"

definition reason_json :: "failure_reason \<Rightarrow> json" where
  "reason_json r = JObj ([(''work_item_id'', jtext (fr_item r)), (''kind'', JStr (kind_text (fr_kind r))),
     (''message'', jtext (fr_message r)), (''summary'', jtext (fr_summary r)), (''outcome'', jtext (fr_outcome r))] @
     optional_member ''blocked_by'' (map_option (\<lambda>ids. JArr (map JStr ids)) (fr_blocked_by r)))"

definition item_snapshot :: "string \<Rightarrow> work_item \<Rightarrow> json" where
  "item_snapshot path w = JObj
     [(''id'', JStr (wk_id w)), (''agent_name'', JStr (wk_agent w)), (''title'', JStr (wk_title w)), (''spec'', JStr (wk_spec w)),
      (''depends_on'', JArr (map JStr (wk_depends w))), (''status'', JStr (item_text (wk_status w))),
      (''summary'', jtext (wk_summary w)), (''outcome'', jtext (wk_outcome w)), (''agent_run_id'', JNull),
      (''context_path'', JStr (path @ ''/work_item_'' @ wk_id w)), (''leg_goal_version'', jnat (wk_version w))]"

definition attempt_snapshot :: "string \<Rightarrow> leg \<Rightarrow> attempt_run \<Rightarrow> json" where
  "attempt_snapshot root l a =
     (let path = root @ ''/'' @ attempt_dir l a; p = at_plan a in JObj
     [(''id'', JStr (at_id a)), (''sequence'', jnat (at_sequence a)), (''status'', JStr (entity_text (at_status a))),
      (''failure_reasons'', JArr (map reason_json (at_failures a))), (''is_consistent_with_leg_goal'', JBool (at_consistent a)),
      (''context_path'', JStr path),
      (''outcome'', if entity_terminal (at_status a) then JStr (compose_attempt_outcome a) else JNull),
      (''leg_goal_version'', jnat (at_version a)),
      (''plan'', JObj [(''id'', JStr (pn_id p)), (''status'', JStr (entity_text (pn_status p))),
         (''declared_leg_goal'', jtext (pn_leg_goal p)), (''declared_next_leg_goal'', jtext (pn_next_goal p)),
         (''summary'', jtext (pn_summary p)), (''agent_run_id'', JNull), (''leg_goal_version'', jnat (pn_version p))]),
      (''work_items'', JArr (map (item_snapshot path) (at_items a)))])"

definition leg_snapshot :: "pursuit_data \<Rightarrow> leg \<Rightarrow> json" where
  "leg_snapshot d l =
     (let root = root_path (pt_id (pd_pursuit d)) in JObj
     [(''id'', JStr (lg_id l)), (''sequence'', jnat (lg_sequence l)), (''origin'', JStr (origin_text (lg_origin l))),
      (''status'', JStr (entity_text (lg_status l))), (''leg_goal'', JStr (lg_goal l)), (''leg_goal_version'', jnat (lg_version l)),
      (''leg_goal_provenance'', JStr (lg_provenance l)), (''is_leg_goal_mutatable'', JBool (lg_mutatable l)),
      (''next_leg_goal'', jtext (lg_next l)), (''max_attempts'', jnat (lg_max l)),
      (''context_path'', JStr (root @ ''/'' @ leg_dir (lg_id l))),
      (''outcome'', if entity_terminal (lg_status l) then JStr (compose_leg_outcome l) else JNull),
      (''attempts'', JArr (map (attempt_snapshot root l) (lg_attempts l)))])"

definition pursuit_context :: "pursuit_data \<Rightarrow> json" where
  "pursuit_context d =
     (let p = pd_pursuit d in JObj
     [(''pursuit'', JObj
        [(''id'', JStr (pt_id p)), (''goal'', JStr (pt_goal p)), (''leg_goal_mode'', JStr (mode_text (pt_mode p))),
         (''predefined_leg_count'', if pt_mode p = PredefinedGoals then jnat (length (pt_leg_goals p)) else JNull),
         (''status'', JStr (entity_text (pt_status p))), (''context_path'', JStr (root_path (pt_id p))),
         (''outcome'', if entity_terminal (pt_status p) then JStr (terminal_summary d) else JNull),
         (''legs'', JArr (map (leg_snapshot d) (pd_legs d)))])])"

section \<open>The directory tree\<close>

datatype owner_kind = PursuitOwner | LegOwner | AttemptOwner | ItemOwner

fun owner_text :: "owner_kind \<Rightarrow> string" where
  "owner_text PursuitOwner = ''pursuit''"
| "owner_text LegOwner = ''leg''"
| "owner_text AttemptOwner = ''attempt''"
| "owner_text ItemOwner = ''work_item''"

record owner_ref =
  ow_kind :: owner_kind
  ow_id :: string
  ow_status :: string
  ow_first_line :: "string option"

record context_file =
  cf_owner :: owner_ref
  cf_content :: string

record context_dir =
  cd_owner :: owner_ref
  cd_superseded :: bool

record context_tree =
  ct_root :: string
  ct_files :: "(string \<times> context_file) list"
  ct_dirs :: "(string \<times> context_dir) list"

definition put_file :: "owner_ref \<Rightarrow> string \<Rightarrow> string \<Rightarrow> context_tree \<Rightarrow> context_tree" where
  "put_file owner path content t = t\<lparr>ct_files := AList.update path \<lparr>cf_owner = owner, cf_content = content\<rparr> (ct_files t)\<rparr>"

definition put_dir :: "owner_ref \<Rightarrow> string \<Rightarrow> bool \<Rightarrow> context_tree \<Rightarrow> context_tree" where
  "put_dir owner path old t = t\<lparr>ct_dirs := AList.update path \<lparr>cd_owner = owner, cd_superseded = old\<rparr> (ct_dirs t)\<rparr>"

definition put_files :: "owner_ref \<Rightarrow> string \<Rightarrow> (string \<times> string) list \<Rightarrow> context_tree \<Rightarrow> context_tree" where
  "put_files owner dir fs t = fold (\<lambda>f. put_file owner (dir @ ''/'' @ fst f) (snd f)) fs t"

definition first_line :: "string option \<Rightarrow> string option" where
  "first_line t = map_option (\<lambda>s. hd (split_on (CHR 0x0A) s)) t"

definition effective_status :: "work_item \<Rightarrow> running_set \<Rightarrow> item_status" where
  "effective_status w running =
     (if wk_status w = ItemNotStarted \<and> wk_key w \<in> set (rs_items running) then ItemRunning else wk_status w)"

definition option_file :: "string \<Rightarrow> string option \<Rightarrow> (string \<times> string) list" where
  "option_file name content = (case content of None \<Rightarrow> [] | Some c \<Rightarrow> [(name, c)])"

definition attempt_files :: "attempt_run \<Rightarrow> (string \<times> string) list" where
  "attempt_files a =
     option_file ''plan_summary.md'' (pn_summary (at_plan a)) @
     (if at_status a = EntityFailed \<and> at_failures a \<noteq> [] then
        [(''failure_reasons.md'', join_with newline (map (\<lambda>r. ''- '' @ format_failure_reason r) (at_failures a)))] else []) @
     (if at_status a = EntitySuccess \<or> at_status a = EntityFailed then [(''outcome.md'', compose_attempt_outcome a)] else [])"

definition declaration_files :: "attempt_run \<Rightarrow> (string \<times> string) list" where
  "declaration_files a =
     option_file ''leg_goal.md'' (pn_leg_goal (at_plan a)) @ option_file ''next_leg_goal.md'' (pn_next_goal (at_plan a))"

definition item_files :: "work_item \<Rightarrow> (string \<times> string) list" where
  "item_files w =
     [(''title.md'', wk_title w), (''spec.md'', wk_spec w)] @ option_file ''summary.md'' (wk_summary w) @
     option_file ''outcome.md'' (wk_outcome w)"

definition put_item :: "running_set \<Rightarrow> string \<Rightarrow> bool \<Rightarrow> work_item \<Rightarrow> context_tree \<Rightarrow> context_tree" where
  "put_item running dir old w t =
     (let owner = \<lparr>ow_kind = ItemOwner, ow_id = wk_id w, ow_status = item_text (effective_status w running),
                  ow_first_line = first_line (wk_summary w)\<rparr>;
          path = dir @ ''/work_item_'' @ wk_id w
      in put_files owner path (item_files w) (put_dir owner path old t))"

definition put_attempt :: "running_set \<Rightarrow> leg \<Rightarrow> owner_ref \<Rightarrow> attempt_run \<Rightarrow> context_tree \<Rightarrow> context_tree" where
  "put_attempt running l leg_owner a t =
     (let old = \<not> at_consistent a; dir = attempt_dir l a;
          status = (if at_status a = EntityRunning \<and> pn_id (at_plan a) \<in> set (rs_plans running) then EntityRunning else at_status a);
          owner = \<lparr>ow_kind = AttemptOwner, ow_id = at_id a, ow_status = entity_text status,
                  ow_first_line = first_line (pn_summary (at_plan a))\<rparr>;
          t1 = (if old then put_dir leg_owner (leg_dir (lg_id l) @ ''/superseded'') True t else t);
          t2 = put_files owner dir (attempt_files a) (put_dir owner dir old t1);
          t3 = (if old then put_files owner dir (declaration_files a) t2 else t2)
      in fold (put_item running dir old) (at_items a) t3)"

definition put_leg :: "running_set \<Rightarrow> leg \<Rightarrow> context_tree \<Rightarrow> context_tree" where
  "put_leg running l t =
     (let dir = leg_dir (lg_id l);
          owner = \<lparr>ow_kind = LegOwner, ow_id = lg_id l, ow_status = entity_text (lg_status l), ow_first_line = None\<rparr>;
          t1 = put_file owner (dir @ ''/leg_goal.md'') (lg_goal l @ newline @ newline @ ''Provenance: '' @ lg_provenance l)
                 (put_dir owner dir False t);
          t2 = put_files owner dir (option_file ''next_leg_goal.md'' (lg_next l)) t1;
          t3 = (if entity_terminal (lg_status l) then put_file owner (dir @ ''/outcome.md'') (compose_leg_outcome l) t2 else t2)
      in fold (put_attempt running l owner) (lg_attempts l) t3)"

definition build_context :: "pursuit_data \<Rightarrow> running_set \<Rightarrow> context_tree" where
  "build_context d running =
     (let p = pd_pursuit d;
          owner = \<lparr>ow_kind = PursuitOwner, ow_id = pt_id p, ow_status = entity_text (pt_status p), ow_first_line = None\<rparr>;
          t1 = put_file owner ''goal.md'' (pt_goal p)
                 (put_dir owner [] False \<lparr>ct_root = root_path (pt_id p), ct_files = [], ct_dirs = []\<rparr>);
          t2 = (if entity_terminal (pt_status p) then put_file owner ''outcome.md'' (compose_pursuit_outcome d) t1 else t1)
      in fold (put_leg running) (pd_legs d) t2)"

section \<open>Listing and searching\<close>

definition dir_row :: "string \<Rightarrow> string \<times> context_dir \<Rightarrow> string \<times> json" where
  "dir_row root e =
     (let path = (if fst e = [] then root else root @ ''/'' @ fst e); w = cd_owner (snd e) in
      (path, JObj [(''kind'', JStr ''directory''), (''path'', JStr path), (''status'', JStr (ow_status w)),
        (''owner_kind'', JStr (owner_text (ow_kind w))), (''owner_id'', JStr (ow_id w)), (''superseded'', JBool (cd_superseded (snd e)))]))"

definition file_row :: "string \<Rightarrow> string \<times> context_file \<Rightarrow> string \<times> json" where
  "file_row root e =
     (let path = root @ ''/'' @ fst e; w = cf_owner (snd e) in
      (path, JObj [(''kind'', JStr ''file''), (''path'', JStr path), (''status'', JStr (ow_status w)),
        (''owner_kind'', JStr (owner_text (ow_kind w))), (''owner_id'', JStr (ow_id w)),
        (''bytes'', jnat (length (cf_content (snd e))))]))"

text \<open>\<open>rows.sort\<close> is stable; the rows are paired with their paths.\<close>

definition list_context_rows :: "(string \<Rightarrow> 'k::linorder) \<Rightarrow> context_tree \<Rightarrow> json list" where
  "list_context_rows collation t =
     map snd (sort_key (\<lambda>r. collation (fst r))
       (map (dir_row (ct_root t)) (ct_dirs t) @ map (file_row (ct_root t)) (ct_files t)))"

text \<open>\<open>toLocaleLowerCase\<close> on code units below 256.\<close>

definition lower_char :: "char \<Rightarrow> char" where
  "lower_char c =
     (let n = (of_char c :: nat) in
      if (65 \<le> n \<and> n \<le> 90) \<or> (192 \<le> n \<and> n \<le> 222 \<and> n \<noteq> 215) then char_of (n + 32) else c)"

fun index_of :: "string \<Rightarrow> string \<Rightarrow> nat option" where
  "index_of p [] = (if p = [] then Some 0 else None)"
| "index_of p (c # cs) = (if starts_with p (c # cs) then Some 0 else map_option Suc (index_of p cs))"

definition CONTEXT_SNIPPET_RADIUS :: nat where
  "CONTEXT_SNIPPET_RADIUS = 48"

definition search_row :: "string \<Rightarrow> string \<Rightarrow> string \<times> context_file \<Rightarrow> json option" where
  "search_row root query e =
     (let content = cf_content (snd e); w = cf_owner (snd e) in
      case index_of (map lower_char query) (map lower_char content) of
        None \<Rightarrow> None
      | Some i \<Rightarrow>
          (let start = i - CONTEXT_SNIPPET_RADIUS;
               stop = min (length content) (i + length query + CONTEXT_SNIPPET_RADIUS)
           in Some (JObj [(''path'', JStr (root @ ''/'' @ fst e)), (''status'', JStr (ow_status w)),
                (''owner_kind'', JStr (owner_text (ow_kind w))), (''owner_id'', JStr (ow_id w)),
                (''snippet'', JStr (drop start (take stop content)))])))"

definition search_context_rows :: "context_tree \<Rightarrow> string \<Rightarrow> json list" where
  "search_context_rows t query = List.map_filter (search_row (ct_root t) query) (ct_files t)"

end
