(* ===== verification/Pursuit.thy ===== *)
theory Pursuit
  imports PursuitContext
begin

text \<open>
  The operations of the pursuit workflow (\<open>pursuit/workflow.mjs\<close>): the initial state, dispatch,
  validation of a planner's submission (with the search for a dependency cycle), settlements,
  and progress: propagation of blocked dependencies, the end of attempts, legs and the pursuit.
  The code mutates a clone of the state; here each operation returns the new state.
\<close>

section \<open>Creating\<close>

definition create_attempt :: "pursuit_host \<Rightarrow> nat \<Rightarrow> nat \<Rightarrow> nat \<Rightarrow> attempt_run" where
  "create_attempt host minted sequence version =
     \<lparr>at_id = ph_uuid host minted, at_sequence = sequence, at_status = EntityRunning, at_failures = [], at_version = version,
      at_consistent = True,
      at_plan = \<lparr>pn_id = ph_uuid host (minted + 1), pn_status = EntityNotStarted, pn_leg_goal = None, pn_next_goal = None,
                pn_version = version, pn_summary = None\<rparr>,
      at_items = []\<rparr>"

record leg_init =
  li_sequence :: nat
  li_origin :: leg_origin
  li_goal :: string
  li_provenance :: string
  li_mutatable :: bool
  li_next :: "string option"
  li_max :: nat

definition create_leg :: "pursuit_host \<Rightarrow> nat \<Rightarrow> leg_init \<Rightarrow> leg" where
  "create_leg host minted i =
     \<lparr>lg_id = ph_uuid host minted, lg_sequence = li_sequence i, lg_origin = li_origin i, lg_max = li_max i,
      lg_status = EntityRunning, lg_goal = li_goal i, lg_version = 1, lg_provenance = li_provenance i,
      lg_mutatable = li_mutatable i, lg_next = li_next i, lg_attempts = [create_attempt host (minted + 1) 1 1]\<rparr>"

text \<open>\<open>xs[i]\<close>, with \<open>undefined\<close> as \<open>None\<close>.\<close>

definition at_index :: "'a list \<Rightarrow> nat \<Rightarrow> 'a option" where
  "at_index xs i = (if i < length xs then Some (xs ! i) else None)"

definition pursuit_initial :: "pursuit_host \<Rightarrow> pursuit_args \<Rightarrow> pursuit_state" where
  "pursuit_initial host args =
     (let goals = pa_leg_goals args; dynamic = (goals = []);
          init = \<lparr>li_sequence = 1, li_origin = InitialLeg,
            li_goal = (if dynamic then pa_goal args else coalesce [at_index goals 0] (pa_goal args)),
            li_provenance = (if dynamic then ''inherited from pursuit goal'' else ''predefined leg_goal[1]''),
            li_mutatable = dynamic, li_next = (if dynamic then None else at_index goals 1), li_max = pa_max args\<rparr>
      in \<lparr>ws_version = 0, ws_done = False, ws_status = WfRunning, ws_last_transition = None,
          ws_data = \<lparr>pd_pursuit = \<lparr>pt_id = ph_uuid host 0, pt_goal = pa_goal args,
              pt_mode = (if dynamic then DynamicGoals else PredefinedGoals), pt_leg_goals = goals,
              pt_status = EntityRunning, pt_closed = None\<rparr>,
            pd_legs = [create_leg host 1 init], pd_failures = [], pd_minted = 4\<rparr>\<rparr>)"

section \<open>Dependencies\<close>

definition leg_items :: "leg \<Rightarrow> work_item list" where
  "leg_items l = concat (map at_items (lg_attempts l))"

definition dependency_status :: "leg \<Rightarrow> nat \<Rightarrow> string \<Rightarrow> item_status option" where
  "dependency_status l version i =
     map_option wk_status (find (\<lambda>w. wk_id w = i \<and> wk_version w = version) (leg_items l))"

definition dependency_blocks :: "item_status option \<Rightarrow> bool" where
  "dependency_blocks s = (s = Some ItemFailed \<or> s = Some ItemBlocked)"

definition dependencies_succeeded :: "leg \<Rightarrow> work_item \<Rightarrow> bool" where
  "dependencies_succeeded l w = list_all (\<lambda>i. dependency_status l (wk_version w) i = Some ItemSuccess) (wk_depends w)"

definition blocking :: "leg \<Rightarrow> work_item \<Rightarrow> string list" where
  "blocking l w = filter (\<lambda>i. dependency_blocks (dependency_status l (wk_version w) i)) (wk_depends w)"

definition work_item_by_id :: "leg \<Rightarrow> attempt_run \<Rightarrow> string \<Rightarrow> work_item option" where
  "work_item_by_id l a i =
     find (\<lambda>w. wk_id w = i \<and> wk_status w = ItemSuccess)
       (concat (map at_items (filter (\<lambda>c. at_sequence c \<le> at_sequence a) (lg_attempts l))))"

definition work_item_key :: "string \<Rightarrow> nat \<Rightarrow> string \<Rightarrow> string" where
  "work_item_key leg_id version i = leg_id @ '':'' @ string_of_nat version @ '':'' @ i"

section \<open>Dispatch\<close>

definition user_sections :: "string list \<Rightarrow> message" where
  "user_sections ss = user_text (join_with (newline @ newline) (filter (\<lambda>s. s \<noteq> []) ss))"

definition planner_messages :: "pursuit_data \<Rightarrow> leg \<Rightarrow> attempt_run \<Rightarrow> message list" where
  "planner_messages d l a =
     (let failed = join_with newline (map (\<lambda>c. ''- attempt_'' @ at_id c @ '': '' @
            join_with ''; '' (map format_failure_reason (at_failures c)))
            (filter (\<lambda>c. at_status c = EntityFailed) (lg_attempts l)))
      in [user_sections
        [''# Pursuit goal'', pt_goal (pd_pursuit d), ''# Current leg goal'', lg_goal l, ''Provenance: '' @ lg_provenance l,
         (case lg_next l of None \<Rightarrow> [] | Some g \<Rightarrow> ''# Declared next leg goal'' @ newline @ g),
         (if failed = [] then [] else ''# Failed prior attempts'' @ newline @ failed),
         ''# Planner task'',
         ''Plan attempt '' @ string_of_nat (at_sequence a) @ ''. Submit work items with stable ids, titles, specs, and dependency ids. '' @
         ''Use leg_goal only to replace a dynamic leg goal; use next_leg_goal only to queue the next dynamic leg.'']])"

definition dependency_text :: "work_item \<Rightarrow> string" where
  "dependency_text w = join_with newline
     [''## work_item_'' @ wk_id w, coalesce [wk_summary w] ''(no summary)'', coalesce [wk_outcome w] ''(no outcome)'']"

definition worker_messages :: "pursuit_data \<Rightarrow> leg \<Rightarrow> attempt_run \<Rightarrow> work_item \<Rightarrow> message list" where
  "worker_messages d l a w =
     (let deps = join_with (newline @ newline) (map dependency_text (List.map_filter (work_item_by_id l a) (wk_depends w)))
      in [user_sections
        [''# Pursuit goal'', pt_goal (pd_pursuit d), ''# Current leg goal'', lg_goal l, ''# Work item'',
         ''work_item_'' @ wk_id w @ '': '' @ wk_title w, wk_spec w,
         (if deps = [] then [] else ''# Completed dependencies'' @ newline @ deps),
         ''# Worker task'',
         ''Complete only this work item, then submit whether it passed, a concise summary, and the outcome.'']])"

definition pursuit_start :: "node_def \<Rightarrow> json_object \<Rightarrow> message list \<Rightarrow> json_object \<Rightarrow> outcome_contract \<Rightarrow> start_spec" where
  "pursuit_start n meta msgs args contract =
     \<lparr>ss_node = n,
      ss_input = (case nd_kind n of AgentKind \<Rightarrow> AgentInput msgs (Some meta) | WorkflowKind \<Rightarrow> WorkflowInput args (Some meta)),
      ss_outcome = contract\<rparr>"

definition planner_contract :: "pursuit_host \<Rightarrow> outcome_contract" where
  "planner_contract host = contract_of (ph_issues host) ''submit_planner_outcome''
     ''Submit the pursuit planner result for this attempt.'' parse_planner planner_json"

definition worker_contract :: "pursuit_host \<Rightarrow> outcome_contract" where
  "worker_contract host = contract_of (ph_issues host) ''submit_worker_outcome''
     ''Submit the pursuit worker result for this work item.'' parse_worker worker_json"

definition planner_metadata :: "leg \<Rightarrow> attempt_run \<Rightarrow> json_object" where
  "planner_metadata l a =
     [(''role'', JStr ''planner''), (''leg_id'', JStr (lg_id l)), (''attempt_id'', JStr (at_id a)),
      (''plan_id'', JStr (pn_id (at_plan a))), (''attempt'', jnat (at_sequence a))]"

definition worker_metadata :: "leg \<Rightarrow> attempt_run \<Rightarrow> work_item \<Rightarrow> json_object" where
  "worker_metadata l a w =
     [(''role'', JStr ''worker''), (''leg_id'', JStr (lg_id l)), (''attempt_id'', JStr (at_id a)),
      (''work_item_id'', JStr (wk_id w)), (''work_item_key'', JStr (wk_key w)), (''attempt'', jnat (at_sequence a))]"

definition planner_dispatch :: "pursuit_host \<Rightarrow> pursuit_data \<Rightarrow> leg \<Rightarrow> attempt_run \<Rightarrow> node_def \<Rightarrow> dispatch" where
  "planner_dispatch host d l a n =
     \<lparr>dp_start = pursuit_start n (planner_metadata l a) (planner_messages d l a)
        [(''kind'', JStr ''planner''), (''pursuit_context'', pursuit_context d),
         (''current'', JObj [(''pursuit_id'', JStr (pt_id (pd_pursuit d))), (''leg_id'', JStr (lg_id l)),
           (''attempt_id'', JStr (at_id a)), (''plan_id'', JStr (pn_id (at_plan a)))])]
        (planner_contract host),
      dp_metadata = Some (planner_metadata l a)\<rparr>"

definition worker_dispatch :: "pursuit_host \<Rightarrow> pursuit_data \<Rightarrow> leg \<Rightarrow> attempt_run \<Rightarrow> work_item \<Rightarrow> node_def \<Rightarrow> dispatch" where
  "worker_dispatch host d l a w n =
     \<lparr>dp_start = pursuit_start n (worker_metadata l a w) (worker_messages d l a w)
        [(''kind'', JStr ''worker''), (''pursuit_context'', pursuit_context d),
         (''current'', JObj [(''pursuit_id'', JStr (pt_id (pd_pursuit d))), (''leg_id'', JStr (lg_id l)),
           (''attempt_id'', JStr (at_id a)), (''work_item_id'', JStr (wk_id w))])]
        (worker_contract host),
      dp_metadata = Some (worker_metadata l a w)\<rparr>"

definition pursuit_roles :: "string list" where
  "pursuit_roles = [''planner'', ''worker'']"

definition dispatchable :: "leg \<Rightarrow> running_set \<Rightarrow> work_item \<Rightarrow> bool" where
  "dispatchable l running w =
     (wk_status w = ItemNotStarted \<and> wk_key w \<notin> set (rs_items running) \<and> dependencies_succeeded l w)"

definition leg_dispatch :: "pursuit_host \<Rightarrow> wf_definition \<Rightarrow> pursuit_data \<Rightarrow> running_set \<Rightarrow> leg \<Rightarrow> dispatch list" where
  "leg_dispatch host def d running l =
     (if lg_status l \<noteq> EntityRunning then []
      else case last_opt (lg_attempts l) of
             None \<Rightarrow> []
           | Some a \<Rightarrow>
               (if at_status a \<noteq> EntityRunning then []
                else if pn_status (at_plan a) = EntityNotStarted then
                  (if pn_id (at_plan a) \<in> set (rs_plans running) then []
                   else case binding_for pursuit_roles def ''planner'' of
                          None \<Rightarrow> [] | Some n \<Rightarrow> [planner_dispatch host d l a n])
                else if pn_status (at_plan a) \<noteq> EntitySuccess then []
                else case binding_for pursuit_roles def ''worker'' of
                       None \<Rightarrow> []
                     | Some n \<Rightarrow> map (\<lambda>w. worker_dispatch host d l a w n) (filter (dispatchable l running) (at_items a))))"

definition pursuit_dispatch :: "pursuit_host \<Rightarrow> wf_definition \<Rightarrow> pursuit_state \<Rightarrow> runtime_snapshot \<Rightarrow> dispatch list" where
  "pursuit_dispatch host def s rt =
     (if ws_done s then []
      else concat (map (leg_dispatch host def (ws_data s) (running_metadata rt)) (pd_legs (ws_data s))))"

section \<open>Validation\<close>

definition find_attempt :: "pursuit_data \<Rightarrow> string \<Rightarrow> string \<Rightarrow> (leg \<times> attempt_run) option" where
  "find_attempt d leg_id attempt_id =
     (case find (\<lambda>l. lg_id l = leg_id) (pd_legs d) of
        None \<Rightarrow> None
      | Some l \<Rightarrow> map_option (Pair l) (find (\<lambda>a. at_id a = attempt_id) (lg_attempts l)))"

definition find_work_item :: "pursuit_data \<Rightarrow> string \<Rightarrow> string \<Rightarrow> string \<Rightarrow> string \<Rightarrow> work_item option" where
  "find_work_item d leg_id attempt_id i k =
     (case find_attempt d leg_id attempt_id of
        None \<Rightarrow> None
      | Some (l, a) \<Rightarrow> find (\<lambda>w. wk_id w = i \<and> wk_key w = k) (at_items a))"

text \<open>\<open>hasCycle\<close>: the nodes on the path are \<open>visiting\<close>, the finished ones \<open>done\<close>.\<close>

function visit :: "(string \<times> string list) list \<Rightarrow> string list \<Rightarrow> string list \<Rightarrow> string \<Rightarrow> bool \<times> string list"
  and visit_all :: "(string \<times> string list) list \<Rightarrow> string list \<Rightarrow> string list \<Rightarrow> string list \<Rightarrow> bool \<times> string list"
where
  "visit g visiting don i =
     (if i \<in> set don then (False, don)
      else if i \<in> set visiting then (True, don)
      else case visit_all g (i # visiting) don (case map_of g i of None \<Rightarrow> [] | Some ds \<Rightarrow> ds) of
             (True, don') \<Rightarrow> (True, don')
           | (False, don') \<Rightarrow> (False, i # don'))"
| "visit_all g visiting don [] = (False, don)"
| "visit_all g visiting don (i # is) =
     (case visit g visiting don i of
        (True, don') \<Rightarrow> (True, don')
      | (False, don') \<Rightarrow> visit_all g visiting don' is)"
  by pat_completeness auto

termination
proof (relation "inv_image (less_than <*lex*> less_than)
    (\<lambda>x. case x of Inl (g, v, _, i) \<Rightarrow> (card (fst ` set g - set v), 1)
                 | Inr (g, v, _, is) \<Rightarrow> (card (fst ` set g - set v), 2 * length is))")
  fix g :: "(string \<times> string list) list" and visiting don :: "string list" and i :: string
  assume new: "i \<notin> set visiting"
  show "(Inr (g, i # visiting, don, case map_of g i of None \<Rightarrow> [] | Some ds \<Rightarrow> ds), Inl (g, visiting, don, i))
      \<in> inv_image (less_than <*lex*> less_than)
        (\<lambda>x. case x of Inl (g, v, _, i) \<Rightarrow> (card (fst ` set g - set v), 1)
                     | Inr (g, v, _, is) \<Rightarrow> (card (fst ` set g - set v), 2 * length is))"
  proof (cases "map_of g i")
    case None
    then have "fst ` set g - set (i # visiting) = fst ` set g - set visiting" by (auto simp: map_of_eq_None_iff)
    with None show ?thesis by simp
  next
    case (Some ds)
    then have "i \<in> fst ` set g - set visiting" using new by (force dest: map_of_SomeD)
    then have "card (fst ` set g - set (i # visiting)) < card (fst ` set g - set visiting)"
      by (intro psubset_card_mono) auto
    with Some show ?thesis by simp
  qed
qed auto

definition dependency_graph :: "planner_payload \<Rightarrow> (string \<times> string list) list" where
  "dependency_graph p =
     (let ids = map pi_id (pp_items p)
      in fold (\<lambda>i. AList.update (pi_id i) (filter (\<lambda>x. x \<in> set ids) (pi_depends i))) (pp_items p) [])"

definition current_graph_cycle :: "planner_payload \<Rightarrow> string option" where
  "current_graph_cycle p =
     (let g = dependency_graph p
      in if fst (visit_all g [] [] (map fst g)) then Some ''work item depends_on contains a dependency cycle'' else None)"

fun duplicate_id :: "string list \<Rightarrow> planner_item list \<Rightarrow> string option" where
  "duplicate_id seen [] = None"
| "duplicate_id seen (i # is) = (if pi_id i \<in> set seen then Some (pi_id i) else duplicate_id (pi_id i # seen) is)"

text \<open>The existing items of the leg, with their attempts.\<close>

definition existing_items :: "leg \<Rightarrow> (attempt_run \<times> work_item) list" where
  "existing_items l = concat (map (\<lambda>a. map (Pair a) (at_items a)) (lg_attempts l))"

definition in_version :: "leg \<Rightarrow> attempt_run \<times> work_item \<Rightarrow> bool" where
  "in_version l e = (at_consistent (fst e) \<and> wk_version (snd e) = lg_version l)"

definition dependency_error :: "leg \<Rightarrow> attempt_run \<Rightarrow> planner_payload \<Rightarrow> planner_item \<Rightarrow> string \<Rightarrow> string option" where
  "dependency_error l a p item dep =
     (if dep \<in> set (map pi_id (pp_items p)) then None
      else if pp_leg_goal p \<noteq> None then Some ''replacement leg_goal submissions cannot depend_on prior work items''
      else
        let matching = filter (\<lambda>e. wk_id (snd e) = dep) (existing_items l) in
        if matching = [] then Some (''work item \"'' @ pi_id item @ ''\" depends_on unknown id \"'' @ dep @ ''\"'')
        else if list_ex (\<lambda>e. at_sequence (fst e) < at_sequence a \<and> in_version l e) matching then None
        else if at_sequence (fst (hd matching)) \<ge> at_sequence a then
          Some (''work item \"'' @ pi_id item @ ''\" depends_on future attempt item \"'' @ dep @ ''\"'')
        else Some (''work item \"'' @ pi_id item @ ''\" depends_on superseded leg-goal version item \"'' @ dep @ ''\"''))"

text \<open>The first error in order.\<close>

fun first_some :: "'a option list \<Rightarrow> 'a option" where
  "first_some [] = None"
| "first_some (x # xs) = (case x of Some y \<Rightarrow> Some y | None \<Rightarrow> first_some xs)"

definition planner_submission_error :: "pursuit_data \<Rightarrow> leg \<Rightarrow> attempt_run \<Rightarrow> planner_payload \<Rightarrow> string option" where
  "planner_submission_error d l a p =
     (if pt_mode (pd_pursuit d) = PredefinedGoals \<and> (pp_leg_goal p \<noteq> None \<or> pp_next_goal p \<noteq> None) then
        Some ''predefined leg goals cannot be refocused or declare next_leg_goal''
      else first_some
        [map_option (\<lambda>i. ''duplicate work item id \"'' @ i @ ''\"'') (duplicate_id [] (pp_items p)),
         (if pp_leg_goal p \<noteq> None then None
          else first_some (map (\<lambda>i.
            if list_ex (\<lambda>e. in_version l e \<and> wk_id (snd e) = pi_id i) (existing_items l)
            then Some (''duplicate work item id \"'' @ pi_id i @ ''\" in current leg goal version'') else None) (pp_items p))),
         first_some (concat (map (\<lambda>i. map (dependency_error l a p i) (pi_depends i)) (pp_items p))),
         current_graph_cycle p])"

text \<open>\<open>Inl\<close>: the payload of a planner does not parse, and the callback throws.\<close>

definition pursuit_validate :: "pursuit_state \<Rightarrow> wf_settlement \<Rightarrow> string + string option" where
  "pursuit_validate s st =
     (if ws_done s then Inr (Some ''workflow is already done'')
      else case pursuit_metadata st of
             None \<Rightarrow> Inr (Some ''pursuit settlement is missing role metadata'')
           | Some (PlannerMeta leg_id attempt_id plan_id n) \<Rightarrow>
               (case find_attempt (ws_data s) leg_id attempt_id of
                  None \<Rightarrow> Inr (Some ''unknown planner attempt'')
                | Some (l, a) \<Rightarrow>
                    (if entity_terminal (pn_status (at_plan a)) then Inr (Some ''planner target is already terminal'')
                     else case st of
                            SettledCompleted _ _ out \<Rightarrow>
                              (case parse_planner (no_payload out) of
                                 None \<Rightarrow> Inl ''invalid planner payload''
                               | Some p \<Rightarrow> Inr (planner_submission_error (ws_data s) l a p))
                          | _ \<Rightarrow> Inr None))
           | Some (WorkerMeta leg_id attempt_id i k n) \<Rightarrow>
               (case find_work_item (ws_data s) leg_id attempt_id i k of
                  None \<Rightarrow> Inr (Some ''unknown worker item'')
                | Some w \<Rightarrow> Inr (if item_terminal (wk_status w) then Some ''worker target is already terminal'' else None)))"

section \<open>Settlements\<close>

text \<open>Change the first element that satisfies the predicate.\<close>

fun update_first :: "('a \<Rightarrow> bool) \<Rightarrow> ('a \<Rightarrow> 'a) \<Rightarrow> 'a list \<Rightarrow> 'a list" where
  "update_first P f [] = []"
| "update_first P f (x # xs) = (if P x then f x # xs else x # update_first P f xs)"

definition update_leg :: "string \<Rightarrow> (leg \<Rightarrow> leg) \<Rightarrow> pursuit_data \<Rightarrow> pursuit_data" where
  "update_leg leg_id f d = d\<lparr>pd_legs := update_first (\<lambda>l. lg_id l = leg_id) f (pd_legs d)\<rparr>"

definition update_attempt :: "string \<Rightarrow> (attempt_run \<Rightarrow> attempt_run) \<Rightarrow> leg \<Rightarrow> leg" where
  "update_attempt attempt_id f l = l\<lparr>lg_attempts := update_first (\<lambda>a. at_id a = attempt_id) f (lg_attempts l)\<rparr>"

definition bump :: "'x wf_state \<Rightarrow> 'x wf_state" where
  "bump s = s\<lparr>ws_version := ws_version s + 1\<rparr>"

definition planner_failure_reason :: "string \<Rightarrow> failure_reason" where
  "planner_failure_reason why =
     \<lparr>fr_item = None,
      fr_kind = (if starts_with ''context_script_error:'' why then ContextCompositionFailed else PlannerFailed),
      fr_message = Some why, fr_summary = None, fr_outcome = None, fr_blocked_by = None\<rparr>"

definition fail_plan :: "string \<Rightarrow> attempt_run \<Rightarrow> attempt_run" where
  "fail_plan why a = a\<lparr>at_plan := (at_plan a)\<lparr>pn_status := EntityFailed\<rparr>, at_failures := [planner_failure_reason why]\<rparr>"

text \<open>A replacement of the leg's goal supersedes the other attempts.\<close>

definition refocus_leg :: "string \<Rightarrow> planner_payload \<Rightarrow> leg \<Rightarrow> leg" where
  "refocus_leg attempt_id p l =
     (case pp_leg_goal p of
        Some g \<Rightarrow>
          l\<lparr>lg_version := lg_version l + 1, lg_goal := g,
            lg_provenance := ''declared by attempt_'' @ attempt_id @ '' planner'', lg_next := pp_next_goal p,
            lg_attempts := update_first (\<lambda>a. at_id a = attempt_id) (\<lambda>a. a\<lparr>at_version := lg_version l + 1\<rparr>)
              (map (\<lambda>a. a\<lparr>at_consistent := (at_id a = attempt_id)\<rparr>) (lg_attempts l))\<rparr>
      | None \<Rightarrow> (case pp_next_goal p of None \<Rightarrow> l | Some n \<Rightarrow> l\<lparr>lg_next := Some n\<rparr>))"

definition planned_item :: "leg \<Rightarrow> planner_item \<Rightarrow> work_item" where
  "planned_item l i =
     \<lparr>wk_key = work_item_key (lg_id l) (lg_version l) (pi_id i), wk_id = pi_id i, wk_agent = pi_agent i,
      wk_status = ItemNotStarted, wk_title = pi_title i, wk_spec = pi_spec i, wk_depends = pi_depends i,
      wk_version = lg_version l, wk_summary = None, wk_outcome = None\<rparr>"

definition accept_plan :: "planner_payload \<Rightarrow> leg \<Rightarrow> attempt_run \<Rightarrow> attempt_run" where
  "accept_plan p l a =
     a\<lparr>at_plan := (at_plan a)\<lparr>pn_status := EntitySuccess, pn_leg_goal := pp_leg_goal p, pn_next_goal := pp_next_goal p,
         pn_version := lg_version l, pn_summary := Some (pp_summary p)\<rparr>,
       at_items := at_items a @ map (planned_item l) (pp_items p)\<rparr>"

definition submit_plan :: "string \<Rightarrow> planner_payload \<Rightarrow> leg \<Rightarrow> leg" where
  "submit_plan attempt_id p l =
     (let l1 = refocus_leg attempt_id p l in update_attempt attempt_id (accept_plan p l1) l1)"

text \<open>\<open>None\<close>: the payload does not parse, and the callback throws.\<close>

definition apply_planner :: "pursuit_state \<Rightarrow> string \<Rightarrow> string \<Rightarrow> string \<Rightarrow> string \<Rightarrow> wf_settlement \<Rightarrow> pursuit_data transition_result option" where
  "apply_planner s leg_id attempt_id plan_id n st =
     (let d = ws_data s in
      case find_attempt d leg_id attempt_id of
        None \<Rightarrow> Some (unchanged s)
      | Some _ \<Rightarrow>
          (case (st, settlement_failure st ''planner'') of
             (_, Some why) \<Rightarrow>
               (let d1 = update_leg leg_id (update_attempt attempt_id (fail_plan why)) d
                in Some (with_transition (bump (s\<lparr>ws_data := d1\<lparr>pd_failures := pd_failures d1 @ [why]\<rparr>\<rparr>))
                     ''pursuit_planner_failed'' [(''plan_id'', JStr plan_id), (''reason'', JStr why)]))
           | (SettledCompleted _ _ out, None) \<Rightarrow>
               (case parse_planner (no_payload out) of
                  None \<Rightarrow> None
                | Some p \<Rightarrow>
                    Some (with_transition (bump (s\<lparr>ws_data := update_leg leg_id (submit_plan attempt_id p) d\<rparr>))
                      ''pursuit_planner_submitted'' [(''plan_id'', JStr plan_id), (''attempt'', JNum n)]))
           | _ \<Rightarrow> Some (unchanged s)))"

definition update_item :: "string \<Rightarrow> string \<Rightarrow> string \<Rightarrow> string \<Rightarrow> (work_item \<Rightarrow> work_item) \<Rightarrow> pursuit_data \<Rightarrow> pursuit_data" where
  "update_item leg_id attempt_id i k f =
     update_leg leg_id (update_attempt attempt_id (\<lambda>a. a\<lparr>at_items := update_first (\<lambda>w. wk_id w = i \<and> wk_key w = k) f (at_items a)\<rparr>))"

definition finish_item :: "item_status \<Rightarrow> string \<Rightarrow> string \<Rightarrow> work_item \<Rightarrow> work_item" where
  "finish_item st summary outcome w = w\<lparr>wk_status := st, wk_summary := Some summary, wk_outcome := Some outcome\<rparr>"

definition apply_worker :: "pursuit_state \<Rightarrow> string \<Rightarrow> string \<Rightarrow> string \<Rightarrow> string \<Rightarrow> wf_settlement \<Rightarrow> pursuit_data transition_result option" where
  "apply_worker s leg_id attempt_id i k st =
     (let d = ws_data s in
      case find_work_item d leg_id attempt_id i k of
        None \<Rightarrow> Some (unchanged s)
      | Some _ \<Rightarrow>
          (case (st, settlement_failure st ''worker'') of
             (_, Some why) \<Rightarrow>
               (let d1 = update_item leg_id attempt_id i k (finish_item ItemFailed why why) d
                in Some (with_transition (bump (s\<lparr>ws_data := d1\<lparr>pd_failures := pd_failures d1 @ [why]\<rparr>\<rparr>))
                     ''pursuit_worker_failed'' [(''work_item_id'', JStr i), (''reason'', JStr why)]))
           | (SettledCompleted _ _ out, None) \<Rightarrow>
               (case parse_worker (no_payload out) of
                  None \<Rightarrow> None
                | Some p \<Rightarrow>
                    (let status = (if wp_pass p then ItemSuccess else ItemFailed) in
                     Some (with_transition (bump (s\<lparr>ws_data := update_item leg_id attempt_id i k
                         (finish_item status (wp_summary p) (wp_outcome p)) d\<rparr>))
                       ''pursuit_worker_submitted'' [(''work_item_id'', JStr i), (''status'', JStr (item_text status))])))
           | _ \<Rightarrow> Some (unchanged s)))"

definition pursuit_apply :: "pursuit_state \<Rightarrow> wf_settlement \<Rightarrow> pursuit_data transition_result option" where
  "pursuit_apply s st =
     (case pursuit_metadata st of
        None \<Rightarrow> Some (unchanged s)
      | Some (PlannerMeta leg_id attempt_id plan_id n) \<Rightarrow> apply_planner s leg_id attempt_id plan_id n st
      | Some (WorkerMeta leg_id attempt_id i k n) \<Rightarrow> apply_worker s leg_id attempt_id i k st)"

end
