(* ===== verification/PursuitProgress.thy ===== *)
theory PursuitProgress
  imports Pursuit
begin

text \<open>
  Progress of a pursuit (\<open>reconcilePursuitProgress\<close> and below it), its outcome, and the workflow
  implementation made of all its operations.
\<close>

section \<open>Blocked dependencies\<close>

definition set_item :: "nat \<Rightarrow> nat \<Rightarrow> work_item \<Rightarrow> leg \<Rightarrow> leg" where
  "set_item i j w l =
     l\<lparr>lg_attempts := (lg_attempts l)[i := (lg_attempts l ! i)\<lparr>at_items := (at_items (lg_attempts l ! i))[j := w]\<rparr>]\<rparr>"

definition item_at :: "leg \<Rightarrow> nat \<times> nat \<Rightarrow> work_item" where
  "item_at l ij = at_items (lg_attempts l ! fst ij) ! snd ij"

definition item_positions :: "leg \<Rightarrow> (nat \<times> nat) list" where
  "item_positions l =
     concat (map (\<lambda>i. map (Pair i) [0..<length (at_items (lg_attempts l ! i))]) [0..<length (lg_attempts l)])"

definition block_item :: "string list \<Rightarrow> work_item \<Rightarrow> work_item" where
  "block_item ids w =
     w\<lparr>wk_status := ItemBlocked, wk_summary := Some (blocked_summary ids), wk_outcome := Some (blocked_summary ids)\<rparr>"

definition block_step :: "running_set \<Rightarrow> nat \<times> nat \<Rightarrow> bool \<times> leg \<Rightarrow> bool \<times> leg" where
  "block_step running ij cl =
     (case cl of (changed, l) \<Rightarrow>
        let w = item_at l ij in
        if wk_status w \<noteq> ItemNotStarted \<or> wk_key w \<in> set (rs_items running) \<or> blocking l w = [] then (changed, l)
        else (True, set_item (fst ij) (snd ij) (block_item (blocking l w) w) l))"

text \<open>One round of the two nested loops; an item blocked in it blocks later items of the same round.\<close>

definition block_pass :: "running_set \<Rightarrow> leg \<Rightarrow> bool \<times> leg" where
  "block_pass running l = fold (block_step running) (item_positions l) (False, l)"

text \<open>How many items are not started: the measure of the outer loop.\<close>

definition open_items :: "leg \<Rightarrow> nat" where
  "open_items l = sum_list (map (\<lambda>a. length (filter (\<lambda>w. wk_status w = ItemNotStarted) (at_items a))) (lg_attempts l))"

lemma filter_update_less:
  "j < length xs \<Longrightarrow> P (xs ! j) \<Longrightarrow> \<not> P y \<Longrightarrow> length (filter P (xs[j := y])) < length (filter P xs)"
proof (induction xs arbitrary: j)
  case (Cons x xs)
  show ?case
  proof (cases j)
    case 0
    with Cons.prems show ?thesis by (simp add: less_Suc_eq)
  next
    case (Suc k)
    with Cons.IH [of k] Cons.prems show ?thesis by simp
  qed
qed simp

lemma sum_update_less:
  "i < length xs \<Longrightarrow> f y < f (xs ! i) \<Longrightarrow> sum_list (map f (xs[i := y])) < sum_list (map f xs)" for f :: "'a \<Rightarrow> nat"
proof (induction xs arbitrary: i)
  case (Cons x xs)
  then show ?case by (cases i) auto
qed simp

lemma set_item_positions: "i < length (lg_attempts l) \<Longrightarrow> item_positions (set_item i j w l) = item_positions l"
proof -
  assume "i < length (lg_attempts l)"
  then have "length (at_items (lg_attempts (set_item i j w l) ! k)) = length (at_items (lg_attempts l ! k))" for k
    by (cases "k = i") (simp_all add: set_item_def)
  then show ?thesis by (simp add: item_positions_def set_item_def [of i j w l])
qed

lemma in_positions: "ij \<in> set (item_positions l) \<longleftrightarrow>
    fst ij < length (lg_attempts l) \<and> snd ij < length (at_items (lg_attempts l ! fst ij))"
  by (cases ij) (force simp: item_positions_def)

lemma set_item_open:
  assumes "ij \<in> set (item_positions l)" "wk_status (item_at l ij) = ItemNotStarted" "wk_status w \<noteq> ItemNotStarted"
  shows "open_items (set_item (fst ij) (snd ij) w l) < open_items l"
  using assms unfolding open_items_def set_item_def in_positions item_at_def
  by (auto intro!: sum_update_less filter_update_less)

lemma block_steps_measure:
  "set ps \<subseteq> set (item_positions l) \<Longrightarrow> fold (block_step running) ps (c, l) = (c', l') \<Longrightarrow>
   item_positions l' = item_positions l \<and> open_items l' \<le> open_items l \<and> (c' \<and> \<not> c \<longrightarrow> open_items l' < open_items l)"
proof (induction ps arbitrary: c l)
  case (Cons p ps)
  obtain c1 l1 where s: "block_step running p (c, l) = (c1, l1)" by (cases "block_step running p (c, l)")
  have p: "p \<in> set (item_positions l)" using Cons.prems(1) by simp
  have one: "item_positions l1 = item_positions l \<and> (c1 = c \<and> l1 = l \<or> c1 \<and> open_items l1 < open_items l)"
    using s set_item_open [OF p] set_item_positions [of "fst p" l] p
    by (auto simp: block_step_def Let_def in_positions block_item_def split: if_splits)
  have "fold (block_step running) ps (c1, l1) = (c', l')" using Cons.prems(2) s by simp
  from Cons.IH [OF _ this] one Cons.prems(1) show ?case by auto
qed simp

function propagate_blocks :: "running_set \<Rightarrow> leg \<Rightarrow> bool \<times> leg" where
  "propagate_blocks running l =
     (case block_pass running l of (changed, l1) \<Rightarrow>
        if changed then (True, snd (propagate_blocks running l1)) else (False, l1))"
  by pat_completeness auto

termination
proof (relation "measure (\<lambda>(running, l). open_items l)", simp, goal_cases)
  case (1 running l changed l1)
  then have "fold (block_step running) (item_positions l) (False, l) = (True, l1)" by (simp add: block_pass_def)
  from block_steps_measure [OF subset_refl this] show ?case by simp
qed

declare propagate_blocks.simps [simp del]

section \<open>The end of an attempt\<close>

definition item_failure_reason :: "leg \<Rightarrow> work_item \<Rightarrow> failure_reason" where
  "item_failure_reason l w =
     (if wk_status w = ItemBlocked then
        (let ids = blocking l w in
         \<lparr>fr_item = Some (wk_id w), fr_kind = BlockedByDependency,
          fr_message = (if ids \<noteq> [] then Some (blocked_summary ids) else None),
          fr_summary = wk_summary w, fr_outcome = wk_outcome w, fr_blocked_by = (if ids \<noteq> [] then Some ids else None)\<rparr>)
      else \<lparr>fr_item = Some (wk_id w), fr_kind = WorkFailed, fr_message = None, fr_summary = wk_summary w,
             fr_outcome = wk_outcome w, fr_blocked_by = None\<rparr>)"

definition item_failed :: "work_item \<Rightarrow> bool" where
  "item_failed w = (wk_status w = ItemFailed \<or> wk_status w = ItemBlocked)"

definition item_failure_reasons :: "work_item list \<Rightarrow> leg \<Rightarrow> failure_reason list" where
  "item_failure_reasons its l = map (item_failure_reason l) (filter item_failed its)"

text \<open>The status an attempt ends with, and why; \<open>None\<close> while it goes on.\<close>

definition attempt_verdict :: "leg \<Rightarrow> attempt_run \<Rightarrow> running_set \<Rightarrow> (entity_status \<times> failure_reason list) option" where
  "attempt_verdict l a running =
     (if pn_status (at_plan a) = EntityFailed then Some (EntityFailed, at_failures a)
      else if pn_status (at_plan a) = EntitySuccess \<and> at_items a \<noteq> [] \<and>
          list_all (\<lambda>w. effective_status w running = ItemSuccess) (at_items a) then Some (EntitySuccess, [])
      else if pn_status (at_plan a) = EntitySuccess \<and> list_ex item_failed (at_items a) \<and>
          list_all (\<lambda>w. item_terminal (effective_status w running)) (at_items a)
        then Some (EntityFailed, item_failure_reasons (at_items a) l)
      else None)"

section \<open>The end of a leg and of the pursuit\<close>

definition close_pursuit :: "pursuit_host \<Rightarrow> entity_status \<Rightarrow> pursuit_state \<Rightarrow> pursuit_state" where
  "close_pursuit host st s =
     s\<lparr>ws_done := True, ws_status := (if st = EntitySuccess then WfSuccess else WfFailure),
       ws_data := (ws_data s)\<lparr>pd_pursuit := (pd_pursuit (ws_data s))\<lparr>pt_status := st, pt_closed := Some (ph_now host)\<rparr>\<rparr>\<rparr>"

definition next_leg_init :: "pursuit_data \<Rightarrow> leg \<Rightarrow> leg_init option" where
  "next_leg_init d l =
     (if pt_mode (pd_pursuit d) = DynamicGoals then
        (case lg_next l of
           None \<Rightarrow> None
         | Some g \<Rightarrow> Some \<lparr>li_sequence = lg_sequence l + 1, li_origin = NextGoalLeg, li_goal = g,
             li_provenance = ''inherited from successful leg_'' @ string_of_nat (lg_sequence l) @ '' next_leg_goal'',
             li_mutatable = True, li_next = None, li_max = lg_max l\<rparr>)
      else
        (case at_index (pt_leg_goals (pd_pursuit d)) (lg_sequence l) of
           None \<Rightarrow> None
         | Some g \<Rightarrow> Some \<lparr>li_sequence = lg_sequence l + 1, li_origin = PredefinedLeg, li_goal = g,
             li_provenance = ''predefined leg_goal['' @ string_of_nat (lg_sequence l + 1) @ '']'',
             li_mutatable = False, li_next = at_index (pt_leg_goals (pd_pursuit d)) (lg_sequence l + 1), li_max = lg_max l\<rparr>))"

definition set_leg :: "nat \<Rightarrow> leg \<Rightarrow> pursuit_state \<Rightarrow> pursuit_state" where
  "set_leg k l s = s\<lparr>ws_data := (ws_data s)\<lparr>pd_legs := (pd_legs (ws_data s))[k := l]\<rparr>\<rparr>"

definition push_failure :: "failure_reason list \<Rightarrow> pursuit_state \<Rightarrow> pursuit_state" where
  "push_failure reasons s =
     (let why = (case reasons of [] \<Rightarrow> ''attempt failed'' | r # _ \<Rightarrow> coalesce [fr_message r] ''attempt failed'')
      in s\<lparr>ws_data := (ws_data s)\<lparr>pd_failures := pd_failures (ws_data s) @ [why]\<rparr>\<rparr>)"

definition retry_leg :: "pursuit_host \<Rightarrow> nat \<Rightarrow> leg \<Rightarrow> pursuit_state \<Rightarrow> pursuit_state" where
  "retry_leg host k l s =
     (let n = pd_minted (ws_data s);
          l1 = l\<lparr>lg_attempts := lg_attempts l @ [create_attempt host n (length (lg_attempts l) + 1) (lg_version l)]\<rparr>
      in (set_leg k l1 s)\<lparr>ws_data := (ws_data (set_leg k l1 s))\<lparr>pd_minted := n + 2\<rparr>\<rparr>)"

definition push_leg :: "pursuit_host \<Rightarrow> leg_init \<Rightarrow> pursuit_state \<Rightarrow> pursuit_state" where
  "push_leg host i s =
     s\<lparr>ws_data := (ws_data s)\<lparr>pd_legs := pd_legs (ws_data s) @ [create_leg host (pd_minted (ws_data s)) i],
       pd_minted := pd_minted (ws_data s) + 3\<rparr>\<rparr>"

definition reconcile_leg :: "pursuit_host \<Rightarrow> running_set \<Rightarrow> nat \<Rightarrow> pursuit_state \<Rightarrow> bool \<times> pursuit_state" where
  "reconcile_leg host running k s =
     (let l = pd_legs (ws_data s) ! k in
      case last_opt (lg_attempts l) of
        None \<Rightarrow> (False, s)
      | Some a \<Rightarrow>
          (if entity_terminal (at_status a) then (False, s)
           else case attempt_verdict l a running of
                  None \<Rightarrow> (False, s)
                | Some (st, reasons) \<Rightarrow>
                    (let l1 = l\<lparr>lg_attempts := butlast (lg_attempts l) @ [a\<lparr>at_status := st, at_failures := reasons\<rparr>]\<rparr> in
                     if st = EntityFailed then
                       (if length (lg_attempts l1) < lg_max l1 then (True, retry_leg host k l1 (push_failure reasons s))
                        else (True, close_pursuit host EntityFailed
                               (set_leg k (l1\<lparr>lg_status := EntityFailed\<rparr>) (push_failure reasons s))))
                     else
                       (case next_leg_init (ws_data s) l1 of
                          Some i \<Rightarrow> (True, push_leg host i (set_leg k (l1\<lparr>lg_status := EntitySuccess\<rparr>) s))
                        | None \<Rightarrow> (True, close_pursuit host EntitySuccess (set_leg k (l1\<lparr>lg_status := EntitySuccess\<rparr>) s))))))"

definition reconcile_one :: "pursuit_host \<Rightarrow> running_set \<Rightarrow> nat \<Rightarrow> bool \<times> pursuit_state \<Rightarrow> bool \<times> pursuit_state" where
  "reconcile_one host running k cs =
     (case cs of (changed, s) \<Rightarrow>
        let l = pd_legs (ws_data s) ! k in
        if lg_status l \<noteq> EntityRunning then (changed, s)
        else case propagate_blocks running l of (c1, l1) \<Rightarrow>
          (case reconcile_leg host running k (set_leg k l1 s) of (c2, s1) \<Rightarrow> (changed \<or> c2 \<or> c1, s1)))"

text \<open>
  The code's loop also visits a leg that it pushes meanwhile, and leaves it as it is (lemma
  \<open>fresh_leg_visit\<close>); here it runs over the legs there are at the start.
\<close>

lemma fresh_leg_visit:
  assumes "pd_legs (ws_data s) ! k = create_leg host n i"
  shows "reconcile_one host running k (changed, s) = (changed, s)"
proof -
  have "block_pass running (create_leg host n i) = (False, create_leg host n i)"
    by (simp add: block_pass_def item_positions_def create_leg_def create_attempt_def)
  then have "propagate_blocks running (create_leg host n i) = (False, create_leg host n i)"
    by (simp add: propagate_blocks.simps)
  moreover have "set_leg k (create_leg host n i) s = s"
    using assms by (simp add: set_leg_def flip: assms)
  moreover have "reconcile_leg host running k s = (False, s)"
    using assms by (simp add: reconcile_leg_def create_leg_def create_attempt_def attempt_verdict_def entity_terminal_def last_opt_def)
  moreover have "lg_status (create_leg host n i) = EntityRunning" by (simp add: create_leg_def)
  ultimately show ?thesis using assms by (simp add: reconcile_one_def Let_def)
qed

definition reconcile_progress :: "pursuit_host \<Rightarrow> pursuit_state \<Rightarrow> running_set \<Rightarrow> pursuit_data transition_result" where
  "reconcile_progress host s running =
     (if ws_done s then unchanged s
      else case fold (reconcile_one host running) [0..<length (pd_legs (ws_data s))] (False, s) of (changed, s1) \<Rightarrow>
        if \<not> changed then unchanged s
        else with_transition (bump s1) (if ws_done s1 then ''pursuit_finished'' else ''pursuit_progressed'')
          [(''status'', JStr (entity_text (pt_status (pd_pursuit (ws_data s1))))),
           (''latest_leg_id'', jtext (map_option lg_id (last_opt (pd_legs (ws_data s1)))))])"

section \<open>Outcome\<close>

definition pursuit_workflow_outcome :: "pursuit_state \<Rightarrow> wf_outcome option" where
  "pursuit_workflow_outcome s =
     (let d = ws_data s; i = pt_id (pd_pursuit d); summary = terminal_summary d in
      if \<not> ws_done s then None
      else if ws_status s = WfSuccess then
        Some (OutcomeSuccess (Some (JObj [(''pursuit_id'', JStr i), (''context_path'', JStr (root_path i)), (''summary'', JStr summary)])))
      else
        Some (OutcomeFailure (Some summary) (Some (JObj [(''pursuit_id'', JStr i), (''context_path'', JStr (root_path i)),
          (''failures'', JArr (map JStr (pd_failures d)))]))))"

definition pursuit_deadlock :: "pursuit_state \<Rightarrow> runtime_snapshot \<Rightarrow> dispatch list \<Rightarrow> deadlock_report option" where
  "pursuit_deadlock s rt ds =
     (if ws_done s \<or> rt_running rt \<noteq> [] \<or> ds \<noteq> [] then None
      else Some \<lparr>dr_reason = ''pursuit has no dispatchable node'',
             dr_details = Some [(''pursuit_id'', JStr (pt_id (pd_pursuit (ws_data s)))),
               (''latest_leg_id'', jtext (map_option lg_id (last_opt (pd_legs (ws_data s))))),
               (''lastTransition'', JObj (case ws_last_transition s of None \<Rightarrow> [] | Some t \<Rightarrow> t))]\<rparr>)"

section \<open>The state as JSON\<close>

definition item_state_json :: "work_item \<Rightarrow> json" where
  "item_state_json w = JObj
     [(''key'', JStr (wk_key w)), (''id'', JStr (wk_id w)), (''agentName'', JStr (wk_agent w)),
      (''status'', JStr (item_text (wk_status w))), (''title'', JStr (wk_title w)), (''spec'', JStr (wk_spec w)),
      (''dependsOn'', JArr (map JStr (wk_depends w))), (''legGoalVersion'', jnat (wk_version w)),
      (''summary'', jtext (wk_summary w)), (''outcome'', jtext (wk_outcome w))]"

definition attempt_state_json :: "attempt_run \<Rightarrow> json" where
  "attempt_state_json a = JObj
     [(''id'', JStr (at_id a)), (''sequence'', jnat (at_sequence a)), (''status'', JStr (entity_text (at_status a))),
      (''failureReasons'', JArr (map reason_json (at_failures a))), (''legGoalVersion'', jnat (at_version a)),
      (''isConsistentWithLegGoal'', JBool (at_consistent a)),
      (''plan'', JObj [(''id'', JStr (pn_id (at_plan a))), (''status'', JStr (entity_text (pn_status (at_plan a)))),
         (''declaredLegGoal'', jtext (pn_leg_goal (at_plan a))), (''declaredNextLegGoal'', jtext (pn_next_goal (at_plan a))),
         (''legGoalVersion'', jnat (pn_version (at_plan a))), (''summary'', jtext (pn_summary (at_plan a)))]),
      (''workItems'', JArr (map item_state_json (at_items a)))]"

definition leg_state_json :: "leg \<Rightarrow> json" where
  "leg_state_json l = JObj
     [(''id'', JStr (lg_id l)), (''sequence'', jnat (lg_sequence l)), (''origin'', JStr (origin_text (lg_origin l))),
      (''maxAttempts'', jnat (lg_max l)), (''status'', JStr (entity_text (lg_status l))), (''legGoal'', JStr (lg_goal l)),
      (''legGoalVersion'', jnat (lg_version l)), (''legGoalProvenance'', JStr (lg_provenance l)),
      (''isLegGoalMutatable'', JBool (lg_mutatable l)), (''nextLegGoal'', jtext (lg_next l)),
      (''attempts'', JArr (map attempt_state_json (lg_attempts l)))]"

definition pursuit_to_json :: "pursuit_state \<Rightarrow> json_object" where
  "pursuit_to_json s =
     (let d = ws_data s; p = pd_pursuit d in
      base_to_json s @
      [(''pursuit'', JObj [(''id'', JStr (pt_id p)), (''goal'', JStr (pt_goal p)), (''legGoalMode'', JStr (mode_text (pt_mode p))),
         (''legGoals'', JArr (map JStr (pt_leg_goals p))), (''status'', JStr (entity_text (pt_status p))), (''closedAt'', jtext (pt_closed p))]),
       (''legs'', JArr (map leg_state_json (pd_legs d))), (''failures'', JArr (map JStr (pd_failures d)))])"

section \<open>The implementation\<close>

text \<open>
  For parsed arguments. The runtime parses a completed payload with the contract of the node's
  start, which is the schema that validation and settlement parse it with again: the branches
  in which they would throw are not taken for the nodes that the pursuit starts.
\<close>

definition pursuit_impl :: "pursuit_host \<Rightarrow> pursuit_args \<Rightarrow> pursuit_data wf_impl" where
  "pursuit_impl host args =
     \<lparr>wi_initial = (\<lambda>_ _. pursuit_initial host args),
      wi_dispatch = pursuit_dispatch host,
      wi_validate = (\<lambda>s st _. case pursuit_validate s st of Inl err \<Rightarrow> Some err | Inr r \<Rightarrow> r),
      wi_apply = (\<lambda>s st _. case pursuit_apply s st of Some r \<Rightarrow> r | None \<Rightarrow> unchanged s),
      wi_evaluate = (\<lambda>s rt. reconcile_progress host s (running_metadata rt)),
      wi_deadlock = pursuit_deadlock,
      wi_outcome = pursuit_workflow_outcome,
      wi_to_json = pursuit_to_json\<rparr>"

end
