(* ===== verification/PursuitGraph.thy ===== *)
theory PursuitGraph
  imports PursuitProgress
begin

text \<open>
  The search for a dependency cycle in a planner's submission: it breaks exactly when the
  dependency relation of the submitted items is cyclic. The finished nodes of the search are
  closed under dependencies and hold no cycle.
\<close>

definition edges :: "(string \<times> string list) list \<Rightarrow> (string \<times> string) set" where
  "edges g = {(a, b). \<exists>ds. map_of g a = Some ds \<and> b \<in> set ds}"

definition settled :: "(string \<times> string) set \<Rightarrow> string set \<Rightarrow> bool" where
  "settled E D = (E `` D \<subseteq> D \<and> (\<forall>x \<in> D. (x, x) \<notin> E\<^sup>+))"

lemma settled_reach: "(x, y) \<in> E\<^sup>+ \<Longrightarrow> settled E D \<Longrightarrow> x \<in> D \<Longrightarrow> y \<in> D"
  by (induction rule: trancl_induct) (auto simp: settled_def)

lemma settled_insert:
  assumes s: "settled E D" and out: "E `` {i} \<subseteq> D"
  shows "settled E (insert i D)"
proof (cases "i \<in> D")
  case True
  with s show ?thesis by (simp add: insert_absorb)
next
  case False
  have "(i, i) \<notin> E\<^sup>+"
  proof
    assume "(i, i) \<in> E\<^sup>+"
    then obtain y where y: "(i, y) \<in> E" "(y, i) \<in> E\<^sup>*" by (meson tranclD)
    then have "y \<in> D" using out by blast
    moreover from this False have "(y, i) \<in> E\<^sup>+" using y(2) by (metis rtranclD)
    ultimately have "i \<in> D" using settled_reach s by blast
    with False show False ..
  qed
  with s out show ?thesis by (auto simp: settled_def)
qed

lemma edges_out: "edges g `` {i} = set (case map_of g i of None \<Rightarrow> [] | Some ds \<Rightarrow> ds)"
  by (cases "map_of g i") (auto simp: edges_def)

text \<open>A search that does not break has finished everything it was asked to visit.\<close>

lemma search_finishes:
  "settled (edges g) (set don) \<Longrightarrow> visit g visiting don i = (False, don') \<Longrightarrow>
     settled (edges g) (set don') \<and> insert i (set don) \<subseteq> set don'"
  "settled (edges g) (set don) \<Longrightarrow> visit_all g visiting don is = (False, don') \<Longrightarrow>
     settled (edges g) (set don') \<and> set is \<union> set don \<subseteq> set don'"
proof (induction g visiting don i and g visiting don "is" arbitrary: don' and don' rule: visit_visit_all.induct)
  case (1 g visiting don i)
  let ?ds = "case map_of g i of None \<Rightarrow> [] | Some ds \<Rightarrow> ds"
  show ?case
  proof (cases "i \<in> set don \<or> i \<in> set visiting")
    case True
    with 1 show ?thesis by (auto split: if_splits)
  next
    case False
    obtain b d where v: "visit_all g (i # visiting) don ?ds = (b, d)" by (cases "visit_all g (i # visiting) don ?ds")
    with 1(3) False have b: "\<not> b" and don': "don' = i # d" by (auto split: bool.splits)
    have "settled (edges g) (set d) \<and> set ?ds \<union> set don \<subseteq> set d"
      using 1(1) [OF _ _ 1(2), of d] False v b by simp
    then show ?thesis using don' edges_out [of g i] settled_insert [of "edges g" "set d" i] by auto
  qed
next
  case (3 g visiting don i "is")
  obtain b d where v: "visit g visiting don i = (b, d)" by (cases "visit g visiting don i")
  with 3(4) have b: "\<not> b" and va: "visit_all g visiting d is = (False, don')" by (auto split: bool.splits)
  from 3(1) [OF 3(3), of d] v b have 1: "settled (edges g) (set d) \<and> insert i (set don) \<subseteq> set d" by simp
  from 3(2) v b have "settled (edges g) (set d) \<Longrightarrow> settled (edges g) (set don') \<and> set is \<union> set d \<subseteq> set don'" using va by auto
  with 1 show ?case by auto
qed auto

text \<open>A search that breaks has closed a cycle through a node of its path.\<close>

lemma search_breaks:
  "\<forall>v \<in> set visiting. (v, i) \<in> (edges g)\<^sup>+ \<Longrightarrow> visit g visiting don i = (True, don') \<Longrightarrow> \<exists>x. (x, x) \<in> (edges g)\<^sup>+"
  "\<forall>v \<in> set visiting. \<forall>x \<in> set is. (v, x) \<in> (edges g)\<^sup>+ \<Longrightarrow> visit_all g visiting don is = (True, don') \<Longrightarrow>
     \<exists>x. (x, x) \<in> (edges g)\<^sup>+"
proof (induction g visiting don i and g visiting don "is" arbitrary: don' and don' rule: visit_visit_all.induct)
  case (1 g visiting don i)
  let ?ds = "case map_of g i of None \<Rightarrow> [] | Some ds \<Rightarrow> ds"
  show ?case
  proof (cases "i \<in> set don \<or> i \<in> set visiting")
    case True
    with 1(2,3) show ?thesis by (auto split: if_splits)
  next
    case False
    obtain b d where v: "visit_all g (i # visiting) don ?ds = (b, d)" by (cases "visit_all g (i # visiting) don ?ds")
    with 1(3) False have b: b by (auto split: bool.splits)
    have "\<forall>u \<in> set (i # visiting). \<forall>x \<in> set ?ds. (u, x) \<in> (edges g)\<^sup>+"
      using 1(2) edges_out [of g i] by (auto intro: trancl_into_trancl)
    from 1(1) [OF _ _ this, of d] False v b show ?thesis by simp
  qed
next
  case (3 g visiting don i "is")
  obtain b d where v: "visit g visiting don i = (b, d)" by (cases "visit g visiting don i")
  show ?case
  proof (cases b)
    case True
    with 3(1) [of d] 3(3) v show ?thesis by auto
  next
    case False
    with 3(4) v have "visit_all g visiting d is = (True, don')" by (auto split: bool.splits)
    with 3(2) [of False d] 3(3) v False show ?thesis by auto
  qed
qed auto

lemma search_correct: "fst (visit_all g [] [] (map fst g)) \<longleftrightarrow> \<not> acyclic (edges g)"
proof -
  obtain b d where v: "visit_all g [] [] (map fst g) = (b, d)" by (cases "visit_all g [] [] (map fst g)")
  show ?thesis
  proof (cases b)
    case True
    with search_breaks(2) [of "[]" "map fst g" g "[]" d] v show ?thesis by (auto simp: acyclic_def)
  next
    case False
    have "settled (edges g) (set [])" by (simp add: settled_def)
    from search_finishes(2) [OF this, of "[]" "map fst g" d] v False
    have s: "settled (edges g) (set d)" "fst ` set g \<subseteq> set d" by auto
    have "(x, x) \<notin> (edges g)\<^sup>+" for x
    proof
      assume c: "(x, x) \<in> (edges g)\<^sup>+"
      then obtain y where "(x, y) \<in> edges g" by (meson tranclD)
      then have "x \<in> fst ` set g" by (force simp: edges_def dest: map_of_SomeD)
      with s c show False by (auto simp: settled_def)
    qed
    then show ?thesis using v False by (simp add: acyclic_def)
  qed
qed

section \<open>The dependencies of a submission\<close>

definition depends_relation :: "planner_payload \<Rightarrow> (string \<times> string) set" where
  "depends_relation p =
     {(pi_id i, x) | i x. i \<in> set (pp_items p) \<and> x \<in> set (pi_depends i) \<and> x \<in> pi_id ` set (pp_items p)}"

lemma dependency_graph_eq:
  "distinct (map pi_id (pp_items p)) \<Longrightarrow>
   dependency_graph p = map (\<lambda>i. (pi_id i, filter (\<lambda>x. x \<in> set (map pi_id (pp_items p))) (pi_depends i))) (pp_items p)"
  unfolding dependency_graph_def Let_def by (subst fold_update_append) auto

lemma edges_dependency_graph:
  assumes d: "distinct (map pi_id (pp_items p))"
  shows "edges (dependency_graph p) = depends_relation p"
proof -
  have "map fst (dependency_graph p) = map pi_id (pp_items p)" by (simp add: dependency_graph_eq [OF d] comp_def)
  then have dg: "distinct (map fst (dependency_graph p))" using d by simp
  have "map_of (dependency_graph p) a = Some ds \<longleftrightarrow> (a, ds) \<in> set (dependency_graph p)" for a ds
    using dg by (simp add: map_of_eq_Some_iff)
  then show ?thesis unfolding edges_def depends_relation_def by (auto simp: dependency_graph_eq [OF d])
qed

text \<open>
  C24: the cycle check of a planner's submission is exact. For items with distinct ids the
  submission is refused for a cycle precisely when the relation "depends on", restricted to the
  submitted items, is cyclic; the search ends on every submission.
\<close>

theorem cycle_check_exact:
  assumes "distinct (map pi_id (pp_items p))"
  shows "current_graph_cycle p = None \<longleftrightarrow> acyclic (depends_relation p)"
  using search_correct [of "dependency_graph p"] edges_dependency_graph [OF assms]
  by (simp add: current_graph_cycle_def Let_def)

lemma cycle_check_exact_witness:
  "\<not> acyclic (depends_relation \<lparr>pp_summary = ''s'', pp_leg_goal = None, pp_next_goal = None, pp_items =
     [\<lparr>pi_id = ''a'', pi_agent = ''w'', pi_title = ''t'', pi_spec = ''p'', pi_depends = [''b'']\<rparr>,
      \<lparr>pi_id = ''b'', pi_agent = ''w'', pi_title = ''t'', pi_spec = ''p'', pi_depends = [''x'', ''a'']\<rparr>]\<rparr>)"
  by (subst cycle_check_exact [symmetric]) code_simp+

end
