(* ===== verification/WorkflowStates.thy ===== *)
theory WorkflowStates
  imports RalphProps
begin

text \<open>
  What an implementation has to keep of its own state for it to hold in every reachable run of the
  runtime. \<open>settled_workflow\<close> is the contract: an implementation that refuses submissions once its
  state is done, and whose operations keep an invariant. Then an outcome that no interrupt and no
  deadlock has decided is the one that the implementation computes from a state with the invariant.
\<close>

definition state_outcome :: "'x wf_config \<Rightarrow> 'x wf_state \<Rightarrow> wf_outcome" where
  "state_outcome cfg s =
     (case wi_outcome (wc_impl cfg) s of
        Some out \<Rightarrow> out
      | None \<Rightarrow> (if ws_status s = WfDeadlock then OutcomeDeadlocked (status_text (ws_status s)) None
                 else OutcomeFailure (Some (status_text (ws_status s))) None))"

fun stopping :: "wf_outcome \<Rightarrow> bool" where
  "stopping (OutcomeCancelled _) = True"
| "stopping (OutcomeDeadlocked _ _) = True"
| "stopping _ = False"

lemma finish_if_done_computes:
  "finish_if_done cfg r = (if ws_done (wr_state r) then (True, wf_finish cfg (state_outcome cfg (wr_state r)) r) else (False, r))"
  by (simp add: finish_if_done_def state_outcome_def Let_def)

locale settled_workflow =
  fixes cfg :: "'x wf_config" and I :: "'x wf_state \<Rightarrow> bool"
  assumes initial: "I (wi_initial (wc_impl cfg) (wc_definition cfg) (wc_args cfg))"
    and applied: "I s \<Longrightarrow> \<not> ws_done s \<Longrightarrow> wi_validate (wc_impl cfg) s st rt = None \<Longrightarrow> I (tr_state (wi_apply (wc_impl cfg) s st rt'))"
    and evaluated: "I s \<Longrightarrow> I (tr_state (wi_evaluate (wc_impl cfg) s rt))"
    and refuses: "ws_done s \<Longrightarrow> wi_validate (wc_impl cfg) s st rt \<noteq> None"
begin

text \<open>The state of a run that the runtime has stopped is the state it had, marked as done.\<close>

definition stopped_state :: "'x wf_state \<Rightarrow> bool" where
  "stopped_state s = (\<exists>s' st t. I s' \<and> s = s'\<lparr>ws_done := True, ws_status := st, ws_last_transition := t\<rparr>)"

definition good :: "'x wf_run \<Rightarrow> bool" where
  "good r \<longleftrightarrow> (wr_finished r \<longleftrightarrow> wr_outcome r \<noteq> None) \<and>
     (case wr_outcome r of
        None \<Rightarrow> I (wr_state r)
      | Some out \<Rightarrow> ws_done (wr_state r) \<and>
          (I (wr_state r) \<and> out = state_outcome cfg (wr_state r) \<or> stopping out \<and> stopped_state (wr_state r)))"

lemma good_cong:
  "wr_state r' = wr_state r \<Longrightarrow> wr_finished r' = wr_finished r \<Longrightarrow> wr_outcome r' = wr_outcome r \<Longrightarrow> good r' = good r"
  by (simp add: good_def split: option.split)

lemma good_live: "good r \<Longrightarrow> \<not> ws_done (wr_state r) \<Longrightarrow> \<not> wr_finished r \<and> wr_outcome r = None \<and> I (wr_state r)"
  by (auto simp: good_def split: option.splits)

lemma good_open: "good r \<Longrightarrow> \<not> wr_finished r \<Longrightarrow> wr_outcome r = None \<and> I (wr_state r)"
  by (auto simp: good_def)

lemma good_finish_if_done: "good r \<Longrightarrow> good (snd (finish_if_done cfg r))"
  by (auto simp: finish_if_done_computes good_def split: option.splits)

lemma good_stopped:
  assumes "I s" and "\<not> wr_finished r" and "wr_state r = s\<lparr>ws_done := True, ws_status := st, ws_last_transition := t\<rparr>" and "stopping out"
  shows "good (wf_finish cfg out r)"
  using assms by (auto simp: good_def stopped_state_def)

lemma good_dispatch:
  assumes g: "good r" and d: "wf_dispatch cfg r = (ds, r')"
  shows "good r'"
proof (cases "ws_done (wr_state r)")
  case True
  with g d show ?thesis by (simp add: wf_dispatch_def)
next
  case False
  note live = good_live [OF g False]
  define ds' where "ds' = wi_dispatch (wc_impl cfg) (wc_definition cfg) (wr_state r) (runtime_view r)"
  define r2 where "r2 = (if ds' \<noteq> [] then wf_emit cfg (WorkflowDispatched (map dispatch_info ds')) (r\<lparr>wr_last_dispatches := ds'\<rparr>) else r\<lparr>wr_last_dispatches := ds'\<rparr>)"
  have r2: "wr_state r2 = wr_state r" "wr_finished r2 = wr_finished r" "wr_outcome r2 = wr_outcome r" by (simp_all add: r2_def)
  then have g2: "good r2" using g good_cong by blast
  have r': "r' = (if ds' = [] then deadlock_if_idle cfg r2 else r2)"
    using d False by (auto simp: wf_dispatch_def Let_def ds'_def [symmetric] r2_def)
  show ?thesis
  proof (cases "ds' = [] \<and> running_nodes r2 = [] \<and> wr_last_dispatches r2 = []")
    case True
    show ?thesis
    proof (cases "wi_deadlock (wc_impl cfg) (wr_state r2) (runtime_view r2) (wr_last_dispatches r2)")
      case None
      with True g2 show ?thesis by (simp add: r' deadlock_if_idle_def Let_def)
    next
      case (Some rep)
      with True False show ?thesis
        by (auto simp: r' deadlock_if_idle_def r2 Let_def announce_def deadlocked_state_def live
            intro!: good_stopped [where s = "wr_state r"])
    qed
  next
    case False
    with g2 show ?thesis by (auto simp: r' deadlock_if_idle_def Let_def)
  qed
qed

lemma good_applied:
  assumes g: "good r" and v: "wi_validate (wc_impl cfg) (wr_state r) st rt = None" and a: "apply_validated cfg st r = (ds, r')"
  shows "good r'"
proof -
  have open_state: "\<not> ws_done (wr_state r)" using refuses v by blast
  note live = good_live [OF g this]
  define r1 where "r1 = apply_transition cfg (wi_apply (wc_impl cfg) (wr_state r) st (runtime_view r)) r"
  define r2 where "r2 = apply_transition cfg (wi_evaluate (wc_impl cfg) (wr_state r1) (runtime_view r1)) r1"
  have "I (wr_state r1)" using applied [OF _ open_state v] live by (simp add: r1_def)
  then have "I (wr_state r2)" by (simp add: r2_def evaluated)
  then have "good (record_snapshot cfg r2)" using live by (simp add: good_def r1_def r2_def)
  then have g3: "good (snd (finish_if_done cfg (record_snapshot cfg r2)))" by (rule good_finish_if_done)
  obtain fin r3 where f: "finish_if_done cfg (record_snapshot cfg r2) = (fin, r3)" by (cases "finish_if_done cfg (record_snapshot cfg r2)")
  have "(if fin then ([], r3) else wf_dispatch cfg r3) = (ds, r')"
    using a by (simp add: apply_validated_def Let_def r1_def [symmetric] r2_def [symmetric] f)
  with g3 f good_dispatch show ?thesis by (auto split: if_splits)
qed

lemma next_launch_frame:
  "next_launch cfg fs r = (th, r') \<Longrightarrow> wr_state r' = wr_state r \<and> wr_finished r' = wr_finished r \<and> wr_outcome r' = wr_outcome r"
  by (induction cfg fs r rule: next_launch.induct) (auto simp: claim_dispatch_def clock_now_def Let_def)

lemma good_next: "good r \<Longrightarrow> next_launch cfg fs r = (th, r') \<Longrightarrow> good r'"
  using next_launch_frame good_cong by blast

lemma settle_entry_frame [simp]:
  "wr_state (settle_entry cfg i st acc r) = wr_state r" "wr_finished (settle_entry cfg i st acc r) = wr_finished r"
  "wr_outcome (settle_entry cfg i st acc r) = wr_outcome r"
  by (simp_all add: settle_entry_def clock_now_def Let_def)

lemma good_settle_entry [simp]: "good (settle_entry cfg i st acc r) = good r"
  by (rule good_cong) simp_all

lemma good_settled: "good r \<Longrightarrow> settle_node_run cfg i st r = Inr (ds, r') \<Longrightarrow> good r'"
  using good_applied [of "settle_entry cfg i (settlement_status st) None r" st]
  by (auto simp: settle_node_run_def split: if_splits option.splits)

lemma good_answer [simp]: "good (answer i a r) = good r"
  by (rule good_cong) (simp_all add: answer_def)

lemma good_emit [simp]: "good (wf_emit cfg e r) = good r"
  by (rule good_cong) simp_all

lemma good_updates [simp]:
  "good (r\<lparr>wr_active := act\<rparr>) = good r" "good (r\<lparr>wr_starting := th\<rparr>) = good r" "good (r\<lparr>wr_queue := q\<rparr>) = good r"
  "good (r\<lparr>wr_aborted := ab\<rparr>) = good r" "good (r\<lparr>wr_nodes := es\<rparr>) = good r"
  by (simp_all add: good_def split: option.split)

lemma good_launched:
  assumes g: "good r" and l: "launched cfg failure (i, fs) r = Inr (th, r')"
  shows "good r'"
proof (cases failure)
  case None
  with l have "next_launch cfg fs (r\<lparr>wr_nodes := (wr_nodes r)[i := (wr_nodes r ! i)\<lparr>en_handle := True\<rparr>]\<rparr>) = (th, r')"
    by (simp add: launched_def Let_def)
  from good_next [OF _ this] show ?thesis using g by simp
next
  case (Some reason)
  with l obtain st ds r1 where "settle_node_run cfg i st r = Inr (ds, r1)" "next_launch cfg (ds # fs) r1 = (th, r')"
    by (auto simp: launched_def Let_def split: sum.splits)
  then show ?thesis using good_settled good_next g by blast
qed

lemma good_submit:
  assumes g: "good r"
  shows "good (submit_node_completion cfg i payload r)"
proof -
  define e where "e = wr_nodes r ! i"
  define r1 where "r1 = wf_emit cfg (NodeOutcomeReceived (nd_name (ss_node (en_start e)))) r"
  have g1: "good r1" using g by (simp add: r1_def)
  have applied_good: "good q" if "wi_validate (wc_impl cfg) (wr_state r1) st (runtime_view r1) = None"
    "apply_validated cfg st (settle_entry cfg i CompletedNode (Some out) r1) = (ds, r2)" "next_launch cfg [ds] r2 = (th, r3)" "good r3 = good q"
    for st out ds r2 th r3 and q :: "'x wf_run"
  proof -
    have "good r2" by (rule good_applied [OF _ _ that(2)]) (use g1 that(1) in simp_all)
    then show ?thesis using good_next that(3,4) by blast
  qed
  show ?thesis
  proof (cases "en_status e = RunningNode")
    case False
    then show ?thesis using g by (simp add: submit_node_completion_def e_def Let_def)
  next
    case True
    show ?thesis
    proof (cases "oc_parse (ss_outcome (en_start e)) payload")
      case (Inl issues)
      with True g show ?thesis by (simp add: submit_node_completion_def e_def Let_def)
    next
      case (Inr parsed)
      define out where "out = \<lparr>no_name = oc_name (ss_outcome (en_start e)), no_payload = parsed\<rparr>"
      define st where "st = SettledCompleted (ss_node (en_start e)) (en_metadata e) out"
      obtain ds r2 where a: "apply_validated cfg st (settle_entry cfg i CompletedNode (Some out) r1) = (ds, r2)"
        by (cases "apply_validated cfg st (settle_entry cfg i CompletedNode (Some out) r1)")
      obtain th r3 where nl: "next_launch cfg [ds] r2 = (th, r3)" by (cases "next_launch cfg [ds] r2")
      have eq: "submit_node_completion cfg i payload r =
          (case wi_validate (wc_impl cfg) (wr_state r1) st (runtime_view r1) of
             Some reason \<Rightarrow> answer i (SubmissionRejected reason) r1
           | None \<Rightarrow> (case th of None \<Rightarrow> answer i (SubmissionAccepted out) r3 | Some t \<Rightarrow> r3\<lparr>wr_active := Some (InSubmit i out t)\<rparr>))"
        using True Inr a nl
        by (simp add: submit_node_completion_def Let_def e_def [symmetric] r1_def [symmetric] st_def [symmetric] out_def [symmetric] split: option.splits)
      show ?thesis using g1 applied_good [OF _ a nl] by (auto simp: eq split: option.split)
    qed
  qed
qed

lemma good_monitor: "good r \<Longrightarrow> good (settle_from_monitor cfg i ns r)"
proof (cases rule: from_monitor_cases [of cfg i ns r])
  case (applied st ds r1 th r2)
  moreover assume "good r"
  ultimately have "good r2" using good_settled good_next by blast
  with applied(3) show ?thesis by (simp split: option.split)
qed simp

lemma good_end_interrupt: "good r \<Longrightarrow> \<not> wr_finished r \<Longrightarrow> good (end_interrupt cfg reason running r)"
  using good_open [of r]
  by (auto simp: end_interrupt_def announce_def set_interrupted_def cancel_running_def clock_now_def interrupted_state_def
      intro!: good_stopped [where s = "wr_state r"])

lemma good_start: "good (wf_start cfg)"
proof -
  define r0 where "r0 = \<lparr>wr_state = wi_initial (wc_impl cfg) (wc_definition cfg) (wc_args cfg), wr_nodes = [], wr_snapshots = [],
      wr_timeline = [], wr_events = create_run_event_stream, wr_finished = False, wr_outcome = None,
      wr_aborted = None, wr_last_dispatches = [], wr_ticks = 0, wr_starting = None, wr_queue = [],
      wr_active = None, wr_answers = []\<rparr>"
  define r1 where "r1 = record_snapshot cfg (wf_emit cfg (WorkflowStarted (wd_metadata (wc_definition cfg))) r0)"
  obtain fin r2 where f: "finish_if_done cfg r1 = (fin, r2)" by (cases "finish_if_done cfg r1")
  obtain ds r3 where d: "wf_dispatch cfg r2 = (ds, r3)" by (cases "wf_dispatch cfg r2")
  obtain th r4 where nl: "next_launch cfg [ds] r3 = (th, r4)" by (cases "next_launch cfg [ds] r3")
  have whole: "wf_start cfg = (if fin then r2 else r4\<lparr>wr_starting := th\<rparr>)"
    by (simp add: wf_start_def r0_def [symmetric] r1_def [symmetric] f d nl Let_def)
  have "good r1" using initial by (simp add: r1_def r0_def good_def)
  then have g2: "good r2" using good_finish_if_done [of r1] f by simp
  with good_dispatch [OF _ d] good_next [OF _ nl] show ?thesis by (simp add: whole)
qed

lemma good_step:
  assumes wf: "wf_inv r" and g: "good r" and x: "wf_exec cfg x r = Some r'"
  shows "good r'"
proof (cases x)
  case Dequeue
  then obtain y ys where "r' = run_op cfg y (r\<lparr>wr_queue := ys\<rparr>)"
    using x by (auto simp: wf_exec_def split: option.splits list.splits)
  then show ?thesis using good_submit good_monitor g
    by (cases y) (simp_all add: run_op_def begin_interrupt_def)
next
  case (LaunchSettles failure)
  then obtain act th where "active_thread act = Some th" and r': "r' = resume_active act (launched cfg failure th r) r"
    using x by (auto simp: wf_exec_def split: option.splits)
  then show ?thesis using g good_launched [of r failure "fst th" "snd th"]
    by (cases act) (auto simp: resume_active_def split: sum.split option.split)
next
  case (StartLaunchSettles failure)
  then obtain k fs where r': "r' = (case launched cfg failure (k, fs) r of Inl err \<Rightarrow> r\<lparr>wr_starting := None\<rparr> | Inr (th', r1) \<Rightarrow> r1\<lparr>wr_starting := th'\<rparr>)"
    using start_settles x by blast
  then show ?thesis using g good_launched [of r failure k fs] by (auto split: sum.split)
next
  case HandlesInterrupted
  then obtain reason running where a: "wr_active r = Some (InInterrupt reason running)"
    and r': "r' = (end_interrupt cfg reason running r)\<lparr>wr_active := None\<rparr>"
    using x by (auto simp: wf_exec_def split: option.splits wf_active.splits)
  have "\<not> wr_finished r" using wf a by (auto simp: wf_inv_def)
  with g show ?thesis by (simp add: r' good_end_interrupt)
qed (use g x in \<open>auto simp: wf_exec_def split: if_splits option.splits wf_active.splits\<close>)

lemma reach_good: "wf_reach cfg r \<Longrightarrow> good r"
proof (induction rule: wf_reach.induct)
  case (wf_step r x r')
  then show ?case using good_step [OF reach_inv] by blast
qed (rule good_start)

text \<open>What follows for the data of a reachable state and for an outcome.\<close>

lemma reach_data: "wf_reach cfg r \<Longrightarrow> \<exists>s. I s \<and> ws_data s = ws_data (wr_state r)"
  using reach_good [of r] by (fastforce simp: good_def stopped_state_def split: option.splits)

lemma reach_outcome:
  "wf_reach cfg r \<Longrightarrow> wr_outcome r = Some out \<Longrightarrow> \<not> stopping out \<Longrightarrow>
   I (wr_state r) \<and> ws_done (wr_state r) \<and> out = state_outcome cfg (wr_state r)"
  using reach_good [of r] by (auto simp: good_def)

end

end
