(* ===== verification/PursuitProps.thy ===== *)
theory PursuitProps
  imports PursuitGraph WorkflowStates
begin

text \<open>
  What holds of the legs and attempts of a pursuit in every reachable run: the invariant of the
  states of \<open>pursuit/workflow.mjs\<close>, kept by every settlement and by the progress loop, as an
  interpretation of \<open>settled_workflow\<close> on the pursuit's implementation.
\<close>

section \<open>The invariant\<close>

definition leg_shape :: "leg \<Rightarrow> nat \<times> nat \<times> entity_status \<times> (nat \<times> entity_status) list" where
  "leg_shape l = (lg_sequence l, lg_max l, lg_status l, map (\<lambda>a. (at_sequence a, at_status a)) (lg_attempts l))"

text \<open>Attempts are numbered from 1 and at most \<open>m\<close>; all but the last one failed, and the last one has the leg's status.\<close>

definition leg_ok :: "nat \<Rightarrow> leg \<Rightarrow> bool" where
  "leg_ok m l =
     (lg_max l = m \<and> lg_attempts l \<noteq> [] \<and> length (lg_attempts l) \<le> m \<and>
      map at_sequence (lg_attempts l) = [1..<length (lg_attempts l) + 1] \<and>
      list_all (\<lambda>a. at_status a = EntityFailed) (butlast (lg_attempts l)) \<and>
      at_status (last (lg_attempts l)) = lg_status l \<and>
      (lg_status l = EntityRunning \<or> lg_status l = EntitySuccess \<or> lg_status l = EntityFailed \<and> length (lg_attempts l) = m))"

definition legs_ok :: "nat \<Rightarrow> leg list \<Rightarrow> bool" where
  "legs_ok m ls =
     (ls \<noteq> [] \<and> map lg_sequence ls = [1..<length ls + 1] \<and> list_all (leg_ok m) ls \<and>
      list_all (\<lambda>l. lg_status l = EntitySuccess) (butlast ls))"

text \<open>The legs of a pursuit with predefined goals are the goals' prefix.\<close>

definition goals_ok :: "pursuit_args \<Rightarrow> pursuit_data \<Rightarrow> bool" where
  "goals_ok args d =
     (pt_leg_goals (pd_pursuit d) = pa_leg_goals args \<and> (pt_mode (pd_pursuit d) = PredefinedGoals \<longleftrightarrow> pa_leg_goals args \<noteq> []) \<and>
      (pa_leg_goals args \<noteq> [] \<longrightarrow> length (pd_legs d) \<le> length (pa_leg_goals args) \<and>
         map lg_goal (pd_legs d) = take (length (pd_legs d)) (pa_leg_goals args)))"

definition ending_ok :: "pursuit_args \<Rightarrow> pursuit_state \<Rightarrow> bool" where
  "ending_ok args s =
     (if ws_done s then
        ws_status s = WfSuccess \<and> lg_status (last (pd_legs (ws_data s))) = EntitySuccess \<and>
          (pa_leg_goals args \<noteq> [] \<longrightarrow> length (pd_legs (ws_data s)) = length (pa_leg_goals args)) \<or>
        ws_status s = WfFailure \<and> lg_status (last (pd_legs (ws_data s))) = EntityFailed
      else ws_status s = WfRunning \<and> lg_status (last (pd_legs (ws_data s))) = EntityRunning)"

definition pursuit_ok :: "pursuit_args \<Rightarrow> pursuit_state \<Rightarrow> bool" where
  "pursuit_ok args s = (legs_ok (pa_max args) (pd_legs (ws_data s)) \<and> goals_ok args (ws_data s) \<and> ending_ok args s)"

section \<open>Changes that keep the shape\<close>

lemma leg_ok_shape: "leg_shape l' = leg_shape l \<Longrightarrow> leg_ok m l' = leg_ok m l"
proof -
  assume s: "leg_shape l' = leg_shape l"
  then have m: "map (\<lambda>a. (at_sequence a, at_status a)) (lg_attempts l') = map (\<lambda>a. (at_sequence a, at_status a)) (lg_attempts l)"
    and f: "lg_max l' = lg_max l" "lg_status l' = lg_status l" by (simp_all add: leg_shape_def)
  from m have len: "length (lg_attempts l') = length (lg_attempts l)" by (rule map_eq_imp_length_eq)
  have seqs: "map at_sequence (lg_attempts l') = map at_sequence (lg_attempts l)"
    using arg_cong [OF m, of "map fst"] by (simp add: comp_def)
  have sts: "map at_status (lg_attempts l') = map at_status (lg_attempts l)"
    using arg_cong [OF m, of "map snd"] by (simp add: comp_def)
  have bl: "list_all (\<lambda>a. at_status a = EntityFailed) (butlast as) = list_all (\<lambda>x. x = EntityFailed) (butlast (map at_status as))" for as
    by (simp add: map_butlast list.pred_map comp_def flip: map_butlast)
  have la: "at_status (last (lg_attempts l')) = at_status (last (lg_attempts l))" if "lg_attempts l \<noteq> []"
    using arg_cong [OF sts, of last] that len by (cases "lg_attempts l' = []") (simp_all add: last_map)
  have ne: "lg_attempts l' = [] \<longleftrightarrow> lg_attempts l = []" using len by auto
  show ?thesis
  proof (cases "lg_attempts l = []")
    case False
    then show ?thesis by (simp add: leg_ok_def bl sts seqs f len ne la [OF False])
  qed (simp add: leg_ok_def ne)
qed

lemma legs_shape:
  assumes s: "map leg_shape ls' = map leg_shape ls"
  shows "legs_ok m ls' = legs_ok m ls" "length ls' = length ls" "ls \<noteq> [] \<Longrightarrow> lg_status (last ls') = lg_status (last ls)"
proof -
  show len: "length ls' = length ls" using s by (rule map_eq_imp_length_eq)
  have at: "leg_shape (ls' ! i) = leg_shape (ls ! i)" if "i < length ls" for i
    using arg_cong [OF s, of "\<lambda>xs. xs ! i"] that len by simp
  then have st: "lg_status (ls' ! i) = lg_status (ls ! i)" "lg_sequence (ls' ! i) = lg_sequence (ls ! i)"
    "leg_ok m (ls' ! i) = leg_ok m (ls ! i)" if "i < length ls" for i m
    using that leg_ok_shape [OF at [OF that]] by (simp_all add: leg_shape_def)
  show "ls \<noteq> [] \<Longrightarrow> lg_status (last ls') = lg_status (last ls)"
    using st len by (cases "ls' = []") (auto simp: last_conv_nth)
  have "map lg_sequence ls' = map lg_sequence ls" by (rule nth_equalityI) (use len st in simp_all)
  moreover have "list_all (leg_ok m) ls' = list_all (leg_ok m) ls" using len st by (simp add: list_all_length)
  moreover have "list_all (\<lambda>l. lg_status l = EntitySuccess) (butlast ls') = list_all (\<lambda>l. lg_status l = EntitySuccess) (butlast ls)"
    using len st by (simp add: list_all_length nth_butlast)
  ultimately show "legs_ok m ls' = legs_ok m ls" using len by (auto simp: legs_ok_def)
qed

text \<open>An update of a running pursuit's data that keeps the shape, the mode and predefined goals.\<close>

lemma ok_keeps:
  assumes ok: "pursuit_ok args s"
    and p: "pd_pursuit (ws_data s') = pd_pursuit (ws_data s)"
    and sh: "map leg_shape (pd_legs (ws_data s')) = map leg_shape (pd_legs (ws_data s))"
    and g: "pt_mode (pd_pursuit (ws_data s)) = PredefinedGoals \<Longrightarrow>
      map lg_goal (pd_legs (ws_data s')) = map lg_goal (pd_legs (ws_data s))"
    and st: "ws_done s' = ws_done s" "ws_status s' = ws_status s"
  shows "pursuit_ok args s'"
proof -
  have "pd_legs (ws_data s) \<noteq> []" using ok by (simp add: pursuit_ok_def legs_ok_def)
  note same = legs_shape(1) [OF sh] legs_shape(2) [OF sh] legs_shape(3) [OF sh this]
  show ?thesis using ok g by (auto simp: pursuit_ok_def goals_ok_def ending_ok_def p st same)
qed

lemma map_update_first: "(\<And>x. x \<in> set xs \<Longrightarrow> P x \<Longrightarrow> g (f x) = g x) \<Longrightarrow> map g (update_first P f xs) = map g xs"
  by (induction xs) auto

lemma update_attempt_shape:
  "(\<And>a. at_sequence (f a) = at_sequence a \<and> at_status (f a) = at_status a) \<Longrightarrow>
   leg_shape (update_attempt i f l) = leg_shape l"
  by (simp add: leg_shape_def update_attempt_def map_update_first)

lemma update_attempt_fields [simp]: "lg_goal (update_attempt i f l) = lg_goal l" "lg_status (update_attempt i f l) = lg_status l"
  by (simp_all add: update_attempt_def)

lemma update_leg_keeps:
  "(\<And>l. g (f l) = g l) \<Longrightarrow> map g (pd_legs (update_leg i f d)) = map g (pd_legs d)"
  by (simp add: update_leg_def map_update_first)

lemma update_leg_pursuit [simp]: "pd_pursuit (update_leg i f d) = pd_pursuit d"
  by (simp add: update_leg_def)

lemma submit_plan_shape: "leg_shape (submit_plan i p l) = leg_shape l"
proof -
  have "leg_shape (refocus_leg i p l) = leg_shape l"
    by (auto simp: refocus_leg_def leg_shape_def map_update_first split: option.split)
  moreover have "leg_shape (update_attempt i (accept_plan p l') l') = leg_shape l'" for l'
    by (rule update_attempt_shape) (simp add: accept_plan_def)
  ultimately show ?thesis by (simp add: submit_plan_def Let_def)
qed

lemma submit_plan_goal: "pp_leg_goal p = None \<Longrightarrow> lg_goal (submit_plan i p l) = lg_goal l"
  by (simp add: submit_plan_def refocus_leg_def Let_def split: option.split)

section \<open>Settlements\<close>

lemma update_item_keeps:
  "map leg_shape (pd_legs (update_item li ai i k f d)) = map leg_shape (pd_legs d)"
  "map lg_goal (pd_legs (update_item li ai i k f d)) = map lg_goal (pd_legs d)"
  "pd_pursuit (update_item li ai i k f d) = pd_pursuit d"
  by (simp_all add: update_item_def update_leg_keeps update_attempt_shape)

lemma fail_plan_keeps:
  "map leg_shape (pd_legs (update_leg li (update_attempt ai (fail_plan why)) d)) = map leg_shape (pd_legs d)"
  "map lg_goal (pd_legs (update_leg li (update_attempt ai (fail_plan why)) d)) = map lg_goal (pd_legs d)"
  by (simp_all add: update_leg_keeps update_attempt_shape fail_plan_def)

lemmas settlement_keeps = update_item_keeps fail_plan_keeps

lemma ok_written:
  assumes "pursuit_ok args s" and "pd_pursuit d = pd_pursuit (ws_data s)"
    and "map leg_shape (pd_legs d) = map leg_shape (pd_legs (ws_data s))"
    and "pt_mode (pd_pursuit (ws_data s)) = PredefinedGoals \<Longrightarrow> map lg_goal (pd_legs d) = map lg_goal (pd_legs (ws_data s))"
  shows "pursuit_ok args (tr_state (with_transition (bump (s\<lparr>ws_data := d\<rparr>)) t rest))"
  using assms by (intro ok_keeps [OF assms(1)]) (simp_all add: with_transition_def bump_def Let_def)

lemma ok_worker:
  assumes ok: "pursuit_ok args s" and a: "apply_worker s li ai i k st = Some tr"
  shows "pursuit_ok args (tr_state tr)"
proof -
  have fails: "pursuit_ok args (tr_state (with_transition (bump (s\<lparr>ws_data :=
      (update_item li ai i k f (ws_data s))\<lparr>pd_failures := fs\<rparr>\<rparr>)) t rest))" for f fs t rest
    by (rule ok_written [OF ok]) (simp_all add: settlement_keeps)
  have writes: "pursuit_ok args (tr_state (with_transition (bump (s\<lparr>ws_data := update_item li ai i k f (ws_data s)\<rparr>)) t rest))" for f t rest
    by (rule ok_written [OF ok]) (simp_all add: settlement_keeps)
  have same: "pursuit_ok args (tr_state (unchanged s))" using ok by (simp add: unchanged_def)
  show ?thesis using a fails writes same
    by (cases st; cases "find_work_item (ws_data s) li ai i k"; cases "settlement_failure st ''worker''")
      (auto simp: apply_worker_def Let_def split: option.splits)
qed

lemma ok_planner:
  assumes ok: "pursuit_ok args s" and v: "pursuit_validate s st = Inr None" and m: "pursuit_metadata st = Some (PlannerMeta li ai pl n)"
    and a: "apply_planner s li ai pl n st = Some tr"
  shows "pursuit_ok args (tr_state tr)"
proof -
  have goal: "pp_leg_goal p = None" if "find_attempt (ws_data s) li ai \<noteq> None" "st = SettledCompleted x y out" "parse_planner (no_payload out) = Some p"
    "pt_mode (pd_pursuit (ws_data s)) = PredefinedGoals" for x y out p
    using v m that by (auto simp: pursuit_validate_def planner_submission_error_def split: if_splits option.splits)
  have submits: "pursuit_ok args (tr_state (with_transition (bump (s\<lparr>ws_data := update_leg li (submit_plan ai p) (ws_data s)\<rparr>)) t rest))"
    if "find_attempt (ws_data s) li ai \<noteq> None" "st = SettledCompleted x y out" "parse_planner (no_payload out) = Some p" for x y out p t rest
    by (rule ok_written [OF ok]) (use goal [OF that] in \<open>simp_all add: update_leg_keeps submit_plan_shape submit_plan_goal\<close>)
  have fails: "pursuit_ok args (tr_state (with_transition (bump (s\<lparr>ws_data :=
      (update_leg li (update_attempt ai (fail_plan why)) (ws_data s))\<lparr>pd_failures := fs\<rparr>\<rparr>)) t rest))" for why fs t rest
    by (rule ok_written [OF ok]) (simp_all add: settlement_keeps)
  have same: "pursuit_ok args (tr_state (unchanged s))" using ok by (simp add: unchanged_def)
  show ?thesis using a fails submits same
    by (cases st; cases "find_attempt (ws_data s) li ai"; cases "settlement_failure st ''planner''")
      (auto simp: apply_planner_def Let_def split: option.splits)
qed

lemma ok_applied:
  assumes ok: "pursuit_ok args s" and v: "pursuit_validate s st = Inr None" and a: "pursuit_apply s st = Some tr"
  shows "pursuit_ok args (tr_state tr)"
  using a ok_worker [OF ok] ok_planner [OF ok v]
  by (auto simp: pursuit_apply_def ok unchanged_def split: option.splits pursuit_meta.splits)

section \<open>Progress\<close>

lemma block_step_shape: "block_step running ij (c, l) = (c', l') \<Longrightarrow> leg_shape l' = leg_shape l \<and> lg_goal l' = lg_goal l"
proof -
  have "map g ((lg_attempts l)[i := (lg_attempts l ! i)\<lparr>at_items := x\<rparr>]) = map g (lg_attempts l)"
    if "\<And>a. g (a\<lparr>at_items := x\<rparr>) = g a" for g :: "attempt_run \<Rightarrow> nat \<times> entity_status" and i x
    using that by (cases "i < length (lg_attempts l)") (simp_all add: map_update list_update_same_conv list_update_beyond)
  then show "block_step running ij (c, l) = (c', l') \<Longrightarrow> ?thesis"
    by (auto simp: block_step_def Let_def set_item_def leg_shape_def split: if_splits)
qed

lemma block_steps_shape: "fold (block_step running) ps (c, l) = (c', l') \<Longrightarrow> leg_shape l' = leg_shape l \<and> lg_goal l' = lg_goal l"
proof (induction ps arbitrary: c l)
  case (Cons p ps)
  obtain c1 l1 where s: "block_step running p (c, l) = (c1, l1)" by (cases "block_step running p (c, l)")
  with Cons.prems have "fold (block_step running) ps (c1, l1) = (c', l')" by simp
  from Cons.IH [OF this] block_step_shape [OF s] show ?case by simp
qed simp

lemma propagate_shape: "leg_shape (snd (propagate_blocks running l)) = leg_shape l \<and> lg_goal (snd (propagate_blocks running l)) = lg_goal l"
proof (induction running l rule: propagate_blocks.induct)
  case (1 running l)
  obtain c l1 where p: "block_pass running l = (c, l1)" by (cases "block_pass running l")
  then have "leg_shape l1 = leg_shape l \<and> lg_goal l1 = lg_goal l" unfolding block_pass_def by (rule block_steps_shape)
  with 1 p show ?case by (cases c) (simp_all add: propagate_blocks.simps [of running l])
qed

lemma ok_blocks:
  assumes ok: "pursuit_ok args s" and k: "k < length (pd_legs (ws_data s))"
  shows "pursuit_ok args (set_leg k (snd (propagate_blocks running (pd_legs (ws_data s) ! k))) s)"
proof -
  let ?ls = "pd_legs (ws_data s)"
  note same = propagate_shape [of running "?ls ! k"]
  have "map leg_shape (?ls[k := snd (propagate_blocks running (?ls ! k))]) = map leg_shape ?ls"
    and "map lg_goal (?ls[k := snd (propagate_blocks running (?ls ! k))]) = map lg_goal ?ls"
    using same k by (simp_all add: map_update list_update_same_conv)
  then show ?thesis by (intro ok_keeps [OF ok]) (simp_all add: set_leg_def)
qed

text \<open>The attempts of a leg, up to the last one.\<close>

lemma leg_ok_last:
  "lg_attempts l = as @ [a] \<Longrightarrow> leg_ok m l \<longleftrightarrow>
     lg_max l = m \<and> length as < m \<and> map at_sequence as = [1..<length as + 1] \<and> at_sequence a = length as + 1 \<and>
     list_all (\<lambda>a. at_status a = EntityFailed) as \<and> at_status a = lg_status l \<and>
     (lg_status l = EntityRunning \<or> lg_status l = EntitySuccess \<or> lg_status l = EntityFailed \<and> length as + 1 = m)"
  by (auto simp: leg_ok_def)

lemma legs_ok_last:
  "legs_ok m (ls @ [l]) \<longleftrightarrow>
     map lg_sequence ls = [1..<length ls + 1] \<and> lg_sequence l = length ls + 1 \<and>
     list_all (\<lambda>l. leg_ok m l \<and> lg_status l = EntitySuccess) ls \<and> leg_ok m l"
  by (auto simp: legs_ok_def list_all_iff)

lemma running_leg:
  assumes "pursuit_ok args s" and "k < length (pd_legs (ws_data s))" and "lg_status (pd_legs (ws_data s) ! k) = EntityRunning"
  shows "\<exists>ls l. pd_legs (ws_data s) = ls @ [l] \<and> k = length ls \<and> \<not> ws_done s \<and> ws_status s = WfRunning"
proof -
  let ?ls = "pd_legs (ws_data s)"
  obtain ls l where ls: "?ls = ls @ [l]" using assms(2) by (cases ?ls rule: rev_cases) auto
  have "\<not> k < length ls"
  proof
    assume "k < length ls"
    moreover have "list_all (\<lambda>l. lg_status l = EntitySuccess) ls" using assms(1) by (auto simp: pursuit_ok_def ls legs_ok_last list_all_iff)
    ultimately show False using assms(3) by (auto simp: ls nth_append list_all_length)
  qed
  then have "k = length ls" using assms(2) ls by simp
  with assms ls show ?thesis by (auto simp: pursuit_ok_def ending_ok_def split: if_splits)
qed

lemma verdict_status: "attempt_verdict l a running = Some (st, reasons) \<Longrightarrow> st = EntityFailed \<or> st = EntitySuccess"
  by (auto simp: attempt_verdict_def split: if_splits)

lemma leg_retried:
  assumes "leg_ok m l" "lg_attempts l = as @ [a]" "lg_status l = EntityRunning" "length as + 1 < m"
  shows "leg_ok m (l\<lparr>lg_attempts := as @ [a\<lparr>at_status := EntityFailed, at_failures := rs\<rparr>, create_attempt host n (Suc (Suc (length as))) v]\<rparr>)"
proof -
  have "lg_attempts (l\<lparr>lg_attempts := as @ [a\<lparr>at_status := EntityFailed, at_failures := rs\<rparr>, create_attempt host n (Suc (Suc (length as))) v]\<rparr>) =
      (as @ [a\<lparr>at_status := EntityFailed, at_failures := rs\<rparr>]) @ [create_attempt host n (Suc (Suc (length as))) v]" by simp
  from leg_ok_last [OF this] show ?thesis
    using assms by (simp add: leg_ok_last [OF assms(2)] create_attempt_def)
qed

lemma leg_ended:
  assumes "leg_ok m l" "lg_attempts l = as @ [a]" "st = EntitySuccess \<or> st = EntityFailed \<and> length as + 1 = m"
  shows "leg_ok m (l\<lparr>lg_attempts := as @ [a\<lparr>at_status := st, at_failures := rs\<rparr>], lg_status := st\<rparr>)"
proof -
  have "lg_attempts (l\<lparr>lg_attempts := as @ [a\<lparr>at_status := st, at_failures := rs\<rparr>], lg_status := st\<rparr>) =
      as @ [a\<lparr>at_status := st, at_failures := rs\<rparr>]" by simp
  from leg_ok_last [OF this] show ?thesis using assms by (auto simp: leg_ok_last [OF assms(2)])
qed

lemma leg_created: "1 \<le> li_max i \<Longrightarrow> leg_ok (li_max i) (create_leg host n i) \<and> lg_status (create_leg host n i) = EntityRunning"
  by (simp add: leg_ok_def create_leg_def create_attempt_def)

lemma next_leg_fields:
  "next_leg_init d l = Some i \<Longrightarrow> li_sequence i = lg_sequence l + 1 \<and> li_max i = lg_max l \<and>
     (pt_mode (pd_pursuit d) = PredefinedGoals \<longrightarrow>
        lg_sequence l < length (pt_leg_goals (pd_pursuit d)) \<and> li_goal i = pt_leg_goals (pd_pursuit d) ! lg_sequence l)"
  by (auto simp: next_leg_init_def at_index_def split: if_splits option.splits)

text \<open>How a leg ends or goes on: the attempt's verdict decides.\<close>

lemma ok_leg:
  assumes ok: "pursuit_ok args s" and ls: "pd_legs (ws_data s) = ls @ [l]" and run: "lg_status l = EntityRunning"
    and live: "\<not> ws_done s" "ws_status s = WfRunning"
  shows "pursuit_ok args (snd (reconcile_leg host running (length ls) s))"
proof -
  have lok: "legs_ok (pa_max args) (ls @ [l])" and gok: "goals_ok args (ws_data s)" using ok ls by (simp_all add: pursuit_ok_def)
  note legs = lok [unfolded legs_ok_last]
  then obtain as a where as: "lg_attempts l = as @ [a]"
    by (cases "lg_attempts l" rule: rev_cases) (auto simp: leg_ok_def)
  have l: "leg_ok (pa_max args) l" using legs by simp
  note att = l [unfolded leg_ok_last [OF as]]
  have open_attempt: "\<not> entity_terminal (at_status a)" using att run by (simp add: entity_terminal_def)
  show ?thesis
  proof (cases "attempt_verdict l a running")
    case None
    with ok as open_attempt show ?thesis by (simp add: reconcile_leg_def Let_def ls)
  next
    case (Some v)
    then obtain st reasons where v: "attempt_verdict l a running = Some (st, reasons)" by (cases v) auto
    show ?thesis
    proof (cases "st = EntityFailed")
      case True
      with att as open_attempt v leg_retried [OF l as run, of reasons] leg_ended [OF l as, of st reasons] show ?thesis
        using legs gok live
        by (auto simp: reconcile_leg_def ls pursuit_ok_def retry_leg_def close_pursuit_def set_leg_def push_failure_def Let_def legs_ok_last
            goals_ok_def ending_ok_def run)
    next
      case False
      then have st: "st = EntitySuccess" using verdict_status [OF v] by blast
      define l1 where "l1 = l\<lparr>lg_attempts := as @ [a\<lparr>at_status := EntitySuccess, at_failures := reasons\<rparr>], lg_status := EntitySuccess\<rparr>"
      define nl where "nl = next_leg_init (ws_data s) (l\<lparr>lg_attempts := as @ [a\<lparr>at_status := EntitySuccess, at_failures := reasons\<rparr>]\<rparr>)"
      have eq: "snd (reconcile_leg host running (length ls) s) =
          (case nl of
             Some i \<Rightarrow> push_leg host i (set_leg (length ls) l1 s)
           | None \<Rightarrow> close_pursuit host EntitySuccess (set_leg (length ls) l1 s))"
        using as open_attempt v st by (simp add: reconcile_leg_def Let_def ls l1_def nl_def split: option.split)
      have won: "leg_ok (pa_max args) l1" unfolding l1_def by (rule leg_ended [OF l as]) simp
      have f1: "lg_sequence l1 = lg_sequence l" "lg_goal l1 = lg_goal l" "lg_status l1 = EntitySuccess" by (simp_all add: l1_def)
      show ?thesis
      proof (cases nl)
        case None
        with legs gok show ?thesis
          by (auto simp: eq pursuit_ok_def close_pursuit_def set_leg_def ls legs_ok_last won f1 goals_ok_def ending_ok_def nl_def next_leg_init_def
              at_index_def split: option.splits if_splits)
      next
        case (Some i)
        then have i: "li_sequence i = length ls + 2" "li_max i = pa_max args"
            "pa_leg_goals args \<noteq> [] \<Longrightarrow> length ls + 1 < length (pa_leg_goals args) \<and> li_goal i = pa_leg_goals args ! (length ls + 1)"
          using next_leg_fields [OF Some [unfolded nl_def]] legs gok att by (simp_all add: goals_ok_def)
        have new: "leg_ok (pa_max args) (create_leg host n i)" "lg_status (create_leg host n i) = EntityRunning" for n
          using leg_created [of i] att i by auto
        have g: "lg_goal (create_leg host n i) = li_goal i" "lg_sequence (create_leg host n i) = li_sequence i" for n by (simp_all add: create_leg_def)
        have "map lg_goal ls @ [lg_goal l, li_goal i] = take (length ls + 2) (pa_leg_goals args)" if "pa_leg_goals args \<noteq> []"
          using i(3) [OF that] gok that by (simp add: goals_ok_def ls take_Suc_conv_app_nth)
        then have goals: "goals_ok args (ws_data (push_leg host i (set_leg (length ls) l1 s)))"
          using gok i(3) by (auto simp: goals_ok_def push_leg_def set_leg_def ls f1 g)
        define l2 where "l2 = create_leg host (pd_minted (ws_data (set_leg (length ls) l1 s))) i"
        have pushed: "pd_legs (ws_data (push_leg host i (set_leg (length ls) l1 s))) = (ls @ [l1]) @ [l2]"
          "ws_done (push_leg host i (set_leg (length ls) l1 s)) = ws_done s"
          "ws_status (push_leg host i (set_leg (length ls) l1 s)) = ws_status s"
          by (simp_all add: push_leg_def set_leg_def ls l2_def)
        have "legs_ok (pa_max args) ((ls @ [l1]) @ [l2])"
          unfolding legs_ok_last using legs won f1 g i(1) new by (simp add: l2_def)
        then show ?thesis using goals live new Some by (simp add: eq pursuit_ok_def pushed ending_ok_def l2_def)
      qed
    qed
  qed
qed

lemma ok_reconcile_one:
  assumes "pursuit_ok args (snd cs)" and k: "k < length (pd_legs (ws_data (snd cs)))"
  shows "pursuit_ok args (snd (reconcile_one host running k cs)) \<and>
    length (pd_legs (ws_data (snd cs))) \<le> length (pd_legs (ws_data (snd (reconcile_one host running k cs))))"
proof -
  obtain c s where cs: "cs = (c, s)" by (cases cs)
  with assms have ok: "pursuit_ok args s" and k: "k < length (pd_legs (ws_data s))" by simp_all
  let ?l = "pd_legs (ws_data s) ! k"
  show ?thesis
  proof (cases "lg_status ?l = EntityRunning")
    case False
    with cs ok show ?thesis by (simp add: reconcile_one_def Let_def)
  next
    case True
    obtain c1 l1 where p: "propagate_blocks running ?l = (c1, l1)" by (cases "propagate_blocks running ?l")
    define s1 where "s1 = set_leg k l1 s"
    have ok1: "pursuit_ok args s1" using ok_blocks [OF ok k, of running] by (simp add: p s1_def)
    have "leg_shape l1 = leg_shape ?l" using propagate_shape [of running ?l] p by simp
    then have run1: "lg_status (pd_legs (ws_data s1) ! k) = EntityRunning" and k1: "k < length (pd_legs (ws_data s1))"
      and len: "length (pd_legs (ws_data s1)) = length (pd_legs (ws_data s))"
      using True k by (simp_all add: s1_def set_leg_def leg_shape_def)
    obtain ls l where l: "pd_legs (ws_data s1) = ls @ [l]" "k = length ls" "\<not> ws_done s1" "ws_status s1 = WfRunning"
      using running_leg [OF ok1 k1 run1] by blast
    have ok2: "pursuit_ok args (snd (reconcile_leg host running k s1))"
      unfolding l(2) by (rule ok_leg [OF ok1 l(1)]) (use run1 l in simp_all)
    have grows: "length (pd_legs (ws_data s1)) \<le> length (pd_legs (ws_data (snd (reconcile_leg host running k s1))))"
      by (auto simp: reconcile_leg_def Let_def retry_leg_def close_pursuit_def set_leg_def push_failure_def push_leg_def split: option.splits prod.splits)
    show ?thesis using True ok2 grows len
      by (cases "reconcile_leg host running k s1") (simp add: reconcile_one_def cs Let_def p s1_def [symmetric])
  qed
qed

lemma ok_reconcile_all:
  "pursuit_ok args (snd cs) \<Longrightarrow> \<forall>k \<in> set ks. k < length (pd_legs (ws_data (snd cs))) \<Longrightarrow>
   pursuit_ok args (snd (fold (reconcile_one host running) ks cs))"
proof (induction ks arbitrary: cs)
  case (Cons k ks)
  from ok_reconcile_one [OF Cons.prems(1), of k host running] Cons.prems(2) show ?case
    by (auto intro!: Cons.IH)
qed simp

lemma ok_progress: "pursuit_ok args s \<Longrightarrow> pursuit_ok args (tr_state (reconcile_progress host s running))"
proof -
  assume ok: "pursuit_ok args s"
  have "pursuit_ok args (snd (fold (reconcile_one host running) [0..<length (pd_legs (ws_data s))] (False, s)))"
    by (rule ok_reconcile_all) (simp_all add: ok)
  then show ?thesis using ok
    by (auto simp: reconcile_progress_def unchanged_def with_transition_def bump_def Let_def pursuit_ok_def ending_ok_def split: prod.splits)
qed

lemma ok_initial: "1 \<le> pa_max args \<Longrightarrow> pursuit_ok args (pursuit_initial host args)"
  using leg_created [of "\<lparr>li_sequence = 1, li_origin = InitialLeg,
      li_goal = (if pa_leg_goals args = [] then pa_goal args else coalesce [at_index (pa_leg_goals args) 0] (pa_goal args)),
      li_provenance = (if pa_leg_goals args = [] then ''inherited from pursuit goal'' else ''predefined leg_goal[1]''),
      li_mutatable = (pa_leg_goals args = []), li_next = (if pa_leg_goals args = [] then None else at_index (pa_leg_goals args) 1),
      li_max = pa_max args\<rparr>" host 1]
  by (cases "pa_leg_goals args")
    (auto simp: pursuit_initial_def Let_def pursuit_ok_def legs_ok_def goals_ok_def ending_ok_def create_leg_def at_index_def)

section \<open>Every reachable pursuit\<close>

definition pursuit_config :: "pursuit_host \<Rightarrow> pursuit_args \<Rightarrow> wf_definition \<Rightarrow> json_object \<Rightarrow> (nat \<Rightarrow> string) \<Rightarrow> pursuit_data wf_config" where
  "pursuit_config host args def wargs clock =
     \<lparr>wc_impl = pursuit_impl host args, wc_definition = def, wc_args = wargs, wc_clock = clock\<rparr>"

interpretation sound_pursuit: settled_workflow "pursuit_config host args def wargs clock" "\<lambda>s. 1 \<le> pa_max args \<longrightarrow> pursuit_ok args s"
  for host args def wargs clock
proof (unfold_locales, goal_cases)
  case 1
  show ?case using ok_initial by (simp add: pursuit_config_def pursuit_impl_def)
next
  case (2 s st rt rt')
  then have v: "pursuit_validate s st = Inr None" by (auto simp: pursuit_config_def pursuit_impl_def split: sum.splits)
  show ?case using 2 ok_applied [OF _ v] by (auto simp: pursuit_config_def pursuit_impl_def unchanged_def split: option.split)
next
  case (3 s rt)
  then show ?case using ok_progress by (simp add: pursuit_config_def pursuit_impl_def)
next
  case (4 s st rt)
  then show ?case by (simp add: pursuit_config_def pursuit_impl_def pursuit_validate_def)
qed

lemma parsed_max: "parse_pursuit_args kvs = Some args \<Longrightarrow> 1 \<le> pa_max args"
  by (auto simp: parse_pursuit_args_def DEFAULT_MAX_ATTEMPTS_def parse_positive_def split: if_splits option.splits json.splits)

text \<open>
  C23: a pursuit stays within its plan. In every reachable run of a pursuit with parsed arguments the
  legs are numbered from 1 without a gap and all but the last one succeeded; each leg has between 1 and
  \<open>max_attempts\<close> attempts, numbered from 1, of which all but the last one failed; with predefined goals
  the legs pursue exactly the goals' prefix. A run ends as a success only when every leg succeeded, one
  for each predefined goal, and as a failure only when the last leg used up all its attempts and every one failed.
\<close>

theorem pursuit_stays_in_plan:
  assumes "parse_pursuit_args wargs = Some args" and "wf_reach (pursuit_config host args def wargs clock) r"
  shows "legs_ok (pa_max args) (pd_legs (ws_data (wr_state r))) \<and> goals_ok args (ws_data (wr_state r))
    \<and> (\<forall>v. wr_outcome r = Some (OutcomeSuccess v) \<longrightarrow>
         (\<forall>l \<in> set (pd_legs (ws_data (wr_state r))). lg_status l = EntitySuccess) \<and>
         (pa_leg_goals args \<noteq> [] \<longrightarrow> map lg_goal (pd_legs (ws_data (wr_state r))) = pa_leg_goals args))
    \<and> (\<forall>why v. wr_outcome r = Some (OutcomeFailure why v) \<longrightarrow>
         length (lg_attempts (last (pd_legs (ws_data (wr_state r))))) = pa_max args \<and>
         (\<forall>a \<in> set (lg_attempts (last (pd_legs (ws_data (wr_state r))))). at_status a = EntityFailed))"
proof -
  let ?ls = "pd_legs (ws_data (wr_state r))"
  note m = parsed_max [OF assms(1)]
  obtain s where "pursuit_ok args s" "ws_data s = ws_data (wr_state r)"
    using sound_pursuit.reach_data [OF assms(2)] m by auto
  then have plan: "legs_ok (pa_max args) ?ls" "goals_ok args (ws_data (wr_state r))" by (simp_all add: pursuit_ok_def)
  have ends: "pursuit_ok args (wr_state r) \<and> ws_done (wr_state r) \<and>
      pursuit_workflow_outcome (wr_state r) = Some out" if "wr_outcome r = Some out" "\<not> stopping out" for out
    using sound_pursuit.reach_outcome [OF assms(2) that] m
    by (auto simp: state_outcome_def pursuit_config_def pursuit_impl_def pursuit_workflow_outcome_def Let_def)
  have good: "(\<forall>l \<in> set ?ls. lg_status l = EntitySuccess) \<and> (pa_leg_goals args \<noteq> [] \<longrightarrow> map lg_goal ?ls = pa_leg_goals args)"
    if "wr_outcome r = Some (OutcomeSuccess v)" for v
    using ends [OF that] plan
    by (cases ?ls rule: rev_cases) (auto simp: pursuit_workflow_outcome_def Let_def ending_ok_def pursuit_ok_def legs_ok_last
        goals_ok_def list_all_iff split: if_splits)
  have bad: "length (lg_attempts (last ?ls)) = pa_max args \<and> (\<forall>a \<in> set (lg_attempts (last ?ls)). at_status a = EntityFailed)"
    if "wr_outcome r = Some (OutcomeFailure why v)" for why v
  proof -
    have st: "lg_status (last ?ls) = EntityFailed" using ends [OF that]
      by (auto simp: pursuit_workflow_outcome_def Let_def ending_ok_def pursuit_ok_def split: if_splits)
    have "leg_ok (pa_max args) (last ?ls)" using plan by (cases ?ls rule: rev_cases) (simp_all add: legs_ok_def)
    then show ?thesis using st
      by (cases "lg_attempts (last ?ls)" rule: rev_cases) (auto simp: leg_ok_def list_all_iff)
  qed
  show ?thesis using plan good bad by simp
qed

section \<open>A concrete pursuit\<close>

definition sample_pursuit_args :: json_object where
  "sample_pursuit_args = [(''pursuit_goal'', JStr ''g''), (''leg_goals'', JArr [JStr ''a'']), (''max_attempts'', JNum ''2'')]"

definition sample_pursuit_host :: pursuit_host where
  "sample_pursuit_host = \<lparr>ph_uuid = string_of_nat, ph_now = ''now'', ph_issues = (\<lambda>_. [])\<rparr>"

definition sample_definition :: wf_definition where
  "sample_definition = \<lparr>wd_description = None, wd_nodes = None, wd_args = None,
     wd_metadata = Some [(''nodeBindings'', JObj [(''planner'', JObj [(''kind'', JStr ''agent''), (''name'', JStr ''p'')]),
       (''worker'', JObj [(''kind'', JStr ''agent''), (''name'', JStr ''w'')])])]\<rparr>"

definition sample_pursuit_config :: "pursuit_data wf_config" where
  "sample_pursuit_config = pursuit_config sample_pursuit_host \<lparr>pa_goal = ''g'', pa_leg_goals = [''a''], pa_max = 2\<rparr> sample_definition sample_pursuit_args (\<lambda>_. ''now'')"

text \<open>The planner of the first attempt fails to start; the second attempt plans one item, which passes.\<close>

definition sample_labels :: "wf_label list" where
  "sample_labels = [StartLaunchSettles (Some ''no agent''), StartLaunchSettles None,
     Submit 1 (JObj [(''summary'', JStr ''s''), (''work_items'', JArr [JObj [(''id'', JStr ''x''), (''agent_name'', JStr ''w''),
       (''title'', JStr ''t''), (''spec'', JStr ''p'')]])]), Dequeue, LaunchSettles None,
     Submit 2 (JObj [(''summary'', JStr ''s''), (''is_pass'', JBool True), (''outcome'', JStr ''o'')]), Dequeue]"

definition sample_pursuit :: "pursuit_data wf_run option" where
  "sample_pursuit = wf_execs sample_pursuit_config sample_labels (wf_start sample_pursuit_config)"

lemma sample_pursuit_runs:
  "map_option (\<lambda>r. (map (map at_status \<circ> lg_attempts) (pd_legs (ws_data (wr_state r))),
      case wr_outcome r of Some (OutcomeSuccess _) \<Rightarrow> True | _ \<Rightarrow> False)) sample_pursuit =
   Some ([[EntityFailed, EntitySuccess]], True)"
  by code_simp

theorem pursuit_stays_in_plan_witness:
  "\<exists>r l. sample_pursuit = Some r \<and> pd_legs (ws_data (wr_state r)) = [l] \<and> leg_ok 2 l \<and> lg_status l = EntitySuccess
     \<and> lg_goal l = ''a'' \<and> map at_status (lg_attempts l) = [EntityFailed, EntitySuccess]"
proof -
  let ?args = "\<lparr>pa_goal = ''g'', pa_leg_goals = [''a''], pa_max = 2\<rparr>"
  obtain r where r: "sample_pursuit = Some r" and sts: "map (map at_status \<circ> lg_attempts) (pd_legs (ws_data (wr_state r))) = [[EntityFailed, EntitySuccess]]"
    and won: "case wr_outcome r of Some (OutcomeSuccess _) \<Rightarrow> True | _ \<Rightarrow> False" using sample_pursuit_runs by auto
  obtain v where v: "wr_outcome r = Some (OutcomeSuccess v)" using won by (cases "wr_outcome r"; cases "the (wr_outcome r)") simp_all
  obtain l where l: "pd_legs (ws_data (wr_state r)) = [l]" "map at_status (lg_attempts l) = [EntityFailed, EntitySuccess]"
    using sts by (cases "pd_legs (ws_data (wr_state r))") simp_all
  have "parse_positive (JNum ''2'') = Some 2" by (simp add: parse_positive_def nat_of_digits_def)
  then have p: "parse_pursuit_args sample_pursuit_args = Some ?args"
    by (simp add: parse_pursuit_args_def sample_pursuit_args_def strict_keys_def parse_text_def parse_leg_goals_def)
  have "wf_reach sample_pursuit_config r" using r unfolding sample_pursuit_def by (rule wf_execs_reach [OF wf_started])
  from pursuit_stays_in_plan [OF p this [unfolded sample_pursuit_config_def]] r v l show ?thesis by (auto simp: legs_ok_def)
qed

end
