(* ===== verification/PursuitTree.thy ===== *)
theory PursuitTree
  imports PursuitContext
begin

text \<open>
  What the context of a pursuit holds: which directories and files \<open>buildPursuitContext\<close> is to make of
  the pursuit, one rule for each kind, and the proof that it makes these and no others.
\<close>

section \<open>The directories and files of a pursuit\<close>

text \<open>An owner: its kind, id and status.\<close>

type_synonym owner_view = "string \<times> string \<times> string"

definition owner_view :: "owner_ref \<Rightarrow> owner_view" where
  "owner_view w = (owner_text (ow_kind w), ow_id w, ow_status w)"

definition pursuit_view :: "pursuit_data \<Rightarrow> owner_view" where
  "pursuit_view d = (''pursuit'', pt_id (pd_pursuit d), entity_text (pt_status (pd_pursuit d)))"

definition leg_view :: "leg \<Rightarrow> owner_view" where
  "leg_view l = (''leg'', lg_id l, entity_text (lg_status l))"

definition attempt_view :: "attempt_run \<Rightarrow> owner_view" where
  "attempt_view a = (''attempt'', at_id a, entity_text (at_status a))"

definition item_view :: "running_set \<Rightarrow> work_item \<Rightarrow> owner_view" where
  "item_view running w =
     (''work_item'', wk_id w,
      if wk_status w = ItemNotStarted \<and> wk_key w \<in> set (rs_items running) then ''Running'' else item_text (wk_status w))"

definition leg_at :: "leg \<Rightarrow> string" where
  "leg_at l = ''leg_'' @ lg_id l"

definition attempt_at :: "leg \<Rightarrow> attempt_run \<Rightarrow> string" where
  "attempt_at l a = (if at_consistent a then leg_at l else leg_at l @ ''/superseded'') @ ''/attempt_'' @ at_id a"

definition item_at :: "leg \<Rightarrow> attempt_run \<Rightarrow> work_item \<Rightarrow> string" where
  "item_at l a w = attempt_at l a @ ''/work_item_'' @ wk_id w"

inductive holds_dir :: "pursuit_data \<Rightarrow> running_set \<Rightarrow> string \<Rightarrow> owner_view \<Rightarrow> bool \<Rightarrow> bool" for d running where
  top_dir: "holds_dir d running [] (pursuit_view d) False"
| leg_in: "l \<in> set (pd_legs d) \<Longrightarrow> holds_dir d running (leg_at l) (leg_view l) False"
| superseded_in: "l \<in> set (pd_legs d) \<Longrightarrow> a \<in> set (lg_attempts l) \<Longrightarrow> \<not> at_consistent a \<Longrightarrow>
    holds_dir d running (leg_at l @ ''/superseded'') (leg_view l) True"
| attempt_in: "l \<in> set (pd_legs d) \<Longrightarrow> a \<in> set (lg_attempts l) \<Longrightarrow>
    holds_dir d running (attempt_at l a) (attempt_view a) (\<not> at_consistent a)"
| item_in: "l \<in> set (pd_legs d) \<Longrightarrow> a \<in> set (lg_attempts l) \<Longrightarrow> w \<in> set (at_items a) \<Longrightarrow>
    holds_dir d running (item_at l a w) (item_view running w) (\<not> at_consistent a)"

inductive holds_file :: "pursuit_data \<Rightarrow> running_set \<Rightarrow> string \<Rightarrow> owner_view \<Rightarrow> string \<Rightarrow> bool" for d running where
  goal: "holds_file d running ''goal.md'' (pursuit_view d) (pt_goal (pd_pursuit d))"
| outcome: "entity_terminal (pt_status (pd_pursuit d)) \<Longrightarrow>
    holds_file d running ''outcome.md'' (pursuit_view d) (compose_pursuit_outcome d)"
| leg_goal: "l \<in> set (pd_legs d) \<Longrightarrow>
    holds_file d running (leg_at l @ ''/leg_goal.md'') (leg_view l) (lg_goal l @ newline @ newline @ ''Provenance: '' @ lg_provenance l)"
| next_goal: "l \<in> set (pd_legs d) \<Longrightarrow> lg_next l = Some c \<Longrightarrow> holds_file d running (leg_at l @ ''/next_leg_goal.md'') (leg_view l) c"
| leg_outcome: "l \<in> set (pd_legs d) \<Longrightarrow> entity_terminal (lg_status l) \<Longrightarrow>
    holds_file d running (leg_at l @ ''/outcome.md'') (leg_view l) (compose_leg_outcome l)"
| plan_summary: "l \<in> set (pd_legs d) \<Longrightarrow> a \<in> set (lg_attempts l) \<Longrightarrow> pn_summary (at_plan a) = Some c \<Longrightarrow>
    holds_file d running (attempt_at l a @ ''/plan_summary.md'') (attempt_view a) c"
| reasons: "l \<in> set (pd_legs d) \<Longrightarrow> a \<in> set (lg_attempts l) \<Longrightarrow> at_status a = EntityFailed \<Longrightarrow> at_failures a \<noteq> [] \<Longrightarrow>
    holds_file d running (attempt_at l a @ ''/failure_reasons.md'') (attempt_view a)
      (join_with newline (map (\<lambda>r. ''- '' @ format_failure_reason r) (at_failures a)))"
| attempt_outcome: "l \<in> set (pd_legs d) \<Longrightarrow> a \<in> set (lg_attempts l) \<Longrightarrow> at_status a \<in> {EntitySuccess, EntityFailed} \<Longrightarrow>
    holds_file d running (attempt_at l a @ ''/outcome.md'') (attempt_view a) (compose_attempt_outcome a)"
| declared_goal: "l \<in> set (pd_legs d) \<Longrightarrow> a \<in> set (lg_attempts l) \<Longrightarrow> \<not> at_consistent a \<Longrightarrow> pn_leg_goal (at_plan a) = Some c \<Longrightarrow>
    holds_file d running (attempt_at l a @ ''/leg_goal.md'') (attempt_view a) c"
| declared_next: "l \<in> set (pd_legs d) \<Longrightarrow> a \<in> set (lg_attempts l) \<Longrightarrow> \<not> at_consistent a \<Longrightarrow> pn_next_goal (at_plan a) = Some c \<Longrightarrow>
    holds_file d running (attempt_at l a @ ''/next_leg_goal.md'') (attempt_view a) c"
| title: "l \<in> set (pd_legs d) \<Longrightarrow> a \<in> set (lg_attempts l) \<Longrightarrow> w \<in> set (at_items a) \<Longrightarrow>
    holds_file d running (item_at l a w @ ''/title.md'') (item_view running w) (wk_title w)"
| spec: "l \<in> set (pd_legs d) \<Longrightarrow> a \<in> set (lg_attempts l) \<Longrightarrow> w \<in> set (at_items a) \<Longrightarrow>
    holds_file d running (item_at l a w @ ''/spec.md'') (item_view running w) (wk_spec w)"
| summary: "l \<in> set (pd_legs d) \<Longrightarrow> a \<in> set (lg_attempts l) \<Longrightarrow> w \<in> set (at_items a) \<Longrightarrow> wk_summary w = Some c \<Longrightarrow>
    holds_file d running (item_at l a w @ ''/summary.md'') (item_view running w) c"
| item_outcome: "l \<in> set (pd_legs d) \<Longrightarrow> a \<in> set (lg_attempts l) \<Longrightarrow> w \<in> set (at_items a) \<Longrightarrow> wk_outcome w = Some c \<Longrightarrow>
    holds_file d running (item_at l a w @ ''/outcome.md'') (item_view running w) c"

section \<open>A tree and what was put into it\<close>

text \<open>
  \<open>F\<close> and \<open>D\<close> are what was put: every path of \<open>F\<close> has one file, with a content put there, and so for the
  directories.
\<close>

type_synonym put_files_set = "(string \<times> owner_view \<times> string) set"
type_synonym put_dirs_set = "(string \<times> owner_view \<times> bool) set"

definition file_view :: "string \<times> context_file \<Rightarrow> string \<times> owner_view \<times> string" where
  "file_view e = (fst e, owner_view (cf_owner (snd e)), cf_content (snd e))"

definition dir_view :: "string \<times> context_dir \<Rightarrow> string \<times> owner_view \<times> bool" where
  "dir_view e = (fst e, owner_view (cd_owner (snd e)), cd_superseded (snd e))"

definition filled :: "put_files_set \<Rightarrow> put_dirs_set \<Rightarrow> context_tree \<Rightarrow> bool" where
  "filled F D t =
     (distinct (map fst (ct_files t)) \<and> distinct (map fst (ct_dirs t)) \<and>
      fst ` set (ct_files t) = fst ` F \<and> file_view ` set (ct_files t) \<subseteq> F \<and>
      fst ` set (ct_dirs t) = fst ` D \<and> dir_view ` set (ct_dirs t) \<subseteq> D)"

lemma updated_paths: "fst ` set (AList.update k v al) = insert k (fst ` set al)"
  by (simp add: dom_update)

lemma updated_entries: "set (AList.update k v al) \<subseteq> insert (k, v) (set al)"
  by (induction al) auto

lemma filled_put_file:
  assumes t: "filled F D t"
  shows "filled (insert (path, owner_view owner, content) F) D (put_file owner path content t)"
proof -
  let ?f = "\<lparr>cf_owner = owner, cf_content = content\<rparr>"
  have "file_view ` set (AList.update path ?f (ct_files t)) \<subseteq> insert (file_view (path, ?f)) (file_view ` set (ct_files t))"
    using image_mono [OF updated_entries, of file_view path ?f "ct_files t"] by simp
  also have "\<dots> \<subseteq> insert (path, owner_view owner, content) F" using t by (auto simp: file_view_def filled_def)
  finally show ?thesis using t by (simp add: filled_def put_file_def updated_paths distinct_update)
qed

lemma filled_put_dir:
  assumes t: "filled F D t"
  shows "filled F (insert (path, owner_view owner, old) D) (put_dir owner path old t)"
proof -
  let ?f = "\<lparr>cd_owner = owner, cd_superseded = old\<rparr>"
  have "dir_view ` set (AList.update path ?f (ct_dirs t)) \<subseteq> insert (dir_view (path, ?f)) (dir_view ` set (ct_dirs t))"
    using image_mono [OF updated_entries, of dir_view path ?f "ct_dirs t"] by simp
  also have "\<dots> \<subseteq> insert (path, owner_view owner, old) D" using t by (auto simp: dir_view_def filled_def)
  finally show ?thesis using t by (simp add: filled_def put_dir_def updated_paths distinct_update)
qed

definition files_in :: "string \<Rightarrow> owner_view \<Rightarrow> (string \<times> string) list \<Rightarrow> put_files_set" where
  "files_in dir v fs = (\<lambda>f. (dir @ ''/'' @ fst f, v, snd f)) ` set fs"

lemma filled_put_files:
  "filled F D t \<Longrightarrow> filled (F \<union> files_in dir (owner_view owner) fs) D (put_files owner dir fs t)"
  unfolding put_files_def files_in_def
proof (induction fs arbitrary: F t)
  case Nil
  then show ?case by simp
next
  case (Cons f fs)
  from Cons.IH [OF filled_put_file [OF Cons.prems]] show ?case by simp
qed

lemma filled_fold:
  assumes "\<And>x F D t. x \<in> set xs \<Longrightarrow> filled F D t \<Longrightarrow> filled (F \<union> f x) (D \<union> g x) (put x t)" and "filled F D t"
  shows "filled (F \<union> \<Union> (f ` set xs)) (D \<union> \<Union> (g ` set xs)) (fold put xs t)"
  using assms
proof (induction xs arbitrary: F D t)
  case Nil
  then show ?case by simp
next
  case (Cons x xs)
  have "filled (F \<union> f x) (D \<union> g x) (put x t)" using Cons.prems by simp
  from Cons.IH [OF Cons.prems(1) this] show ?case by (simp add: Un_assoc)
qed

lemma filled_same: "filled F D t \<Longrightarrow> F = F' \<Longrightarrow> D = D' \<Longrightarrow> filled F' D' t"
  by simp

section \<open>What the builder puts\<close>

definition item_puts :: "running_set \<Rightarrow> string \<Rightarrow> work_item \<Rightarrow> put_files_set" where
  "item_puts running dir w = files_in (dir @ ''/work_item_'' @ wk_id w) (item_view running w) (item_files w)"

definition item_dirs :: "running_set \<Rightarrow> string \<Rightarrow> bool \<Rightarrow> work_item \<Rightarrow> put_dirs_set" where
  "item_dirs running dir old w = {(dir @ ''/work_item_'' @ wk_id w, item_view running w, old)}"

lemma filled_put_item:
  assumes "filled F D t"
  shows "filled (F \<union> item_puts running dir w) (D \<union> item_dirs running dir old w) (put_item running dir old w t)"
proof -
  let ?owner = "\<lparr>ow_kind = ItemOwner, ow_id = wk_id w, ow_status = item_text (effective_status w running), ow_first_line = first_line (wk_summary w)\<rparr>"
  have v: "owner_view ?owner = item_view running w" by (simp add: owner_view_def item_view_def effective_status_def)
  show ?thesis
    using filled_put_files [OF filled_put_dir [OF assms, of "dir @ ''/work_item_'' @ wk_id w" ?owner old], of "dir @ ''/work_item_'' @ wk_id w" ?owner "item_files w"]
    by (simp add: put_item_def Let_def item_puts_def item_dirs_def v)
qed

definition attempt_puts :: "running_set \<Rightarrow> leg \<Rightarrow> attempt_run \<Rightarrow> put_files_set" where
  "attempt_puts running l a =
     files_in (attempt_at l a) (attempt_view a) (attempt_files a @ (if at_consistent a then [] else declaration_files a)) \<union>
     \<Union> (item_puts running (attempt_at l a) ` set (at_items a))"

definition attempt_dirs :: "running_set \<Rightarrow> leg \<Rightarrow> attempt_run \<Rightarrow> put_dirs_set" where
  "attempt_dirs running l a =
     (if at_consistent a then {} else {(leg_at l @ ''/superseded'', leg_view l, True)}) \<union>
     {(attempt_at l a, attempt_view a, \<not> at_consistent a)} \<union> \<Union> (item_dirs running (attempt_at l a) (\<not> at_consistent a) ` set (at_items a))"

lemma attempt_at_eq: "attempt_dir l a = attempt_at l a"
  by (simp add: attempt_dir_def attempt_at_def leg_at_def leg_dir_def)

lemma leg_at_eq: "leg_dir (lg_id l) = leg_at l"
  by (simp add: leg_at_def leg_dir_def)

lemma files_in_Nil [simp]: "files_in dir v [] = {}"
  by (simp add: files_in_def)

lemma files_in_append: "files_in dir v (xs @ ys) = files_in dir v xs \<union> files_in dir v ys"
  by (simp add: files_in_def image_Un)

lemma filled_put_attempt:
  assumes t: "filled F D t" and o: "owner_view leg_owner = leg_view l"
  shows "filled (F \<union> attempt_puts running l a) (D \<union> attempt_dirs running l a) (put_attempt running l leg_owner a t)"
proof -
  define old dir where "old = (\<not> at_consistent a)" and "dir = attempt_at l a"
  define w where "w = \<lparr>ow_kind = AttemptOwner, ow_id = at_id a,
    ow_status = entity_text (if at_status a = EntityRunning \<and> pn_id (at_plan a) \<in> set (rs_plans running) then EntityRunning else at_status a),
    ow_first_line = first_line (pn_summary (at_plan a))\<rparr>"
  define t1 where "t1 = (if old then put_dir leg_owner (leg_at l @ ''/superseded'') True t else t)"
  define t2 where "t2 = put_files w dir (attempt_files a) (put_dir w dir old t1)"
  define t3 where "t3 = (if old then put_files w dir (declaration_files a) t2 else t2)"
  have v: "owner_view w = attempt_view a" by (simp add: owner_view_def attempt_view_def w_def)
  have "filled F (D \<union> {(leg_at l @ ''/superseded'', leg_view l, True)}) (put_dir leg_owner (leg_at l @ ''/superseded'') True t)"
    using filled_put_dir [OF t, of "leg_at l @ ''/superseded''" leg_owner True] by (simp add: o)
  then have "filled F (D \<union> (if old then {(leg_at l @ ''/superseded'', leg_view l, True)} else {})) t1"
    using t by (simp add: t1_def)
  from filled_put_files [OF filled_put_dir [OF this, of dir w old], of dir w "attempt_files a", unfolded v]
  have t2: "filled (F \<union> files_in dir (attempt_view a) (attempt_files a))
      (insert (dir, attempt_view a, old) (D \<union> (if old then {(leg_at l @ ''/superseded'', leg_view l, True)} else {}))) t2"
    by (simp only: t2_def)
  with filled_put_files [OF this, of dir w "declaration_files a", unfolded v]
  have t3: "filled (F \<union> files_in dir (attempt_view a) (attempt_files a) \<union> (if old then files_in dir (attempt_view a) (declaration_files a) else {}))
      (insert (dir, attempt_view a, old) (D \<union> (if old then {(leg_at l @ ''/superseded'', leg_view l, True)} else {}))) t3"
    by (cases old) (simp_all add: t3_def)
  have built: "put_attempt running l leg_owner a t = fold (put_item running dir old) (at_items a) t3"
    by (simp add: put_attempt_def Let_def attempt_at_eq leg_at_eq old_def dir_def w_def t1_def t2_def t3_def)
  show ?thesis unfolding built
    by (rule filled_same [OF filled_fold [OF filled_put_item t3]])
      (auto simp: attempt_puts_def attempt_dirs_def files_in_append old_def dir_def)
qed

definition leg_files :: "leg \<Rightarrow> (string \<times> string) list" where
  "leg_files l = [(''leg_goal.md'', lg_goal l @ newline @ newline @ ''Provenance: '' @ lg_provenance l)] @ option_file ''next_leg_goal.md'' (lg_next l) @
     (if entity_terminal (lg_status l) then [(''outcome.md'', compose_leg_outcome l)] else [])"

definition leg_puts :: "running_set \<Rightarrow> leg \<Rightarrow> put_files_set" where
  "leg_puts running l = files_in (leg_at l) (leg_view l) (leg_files l) \<union> \<Union> (attempt_puts running l ` set (lg_attempts l))"

definition leg_dirs :: "running_set \<Rightarrow> leg \<Rightarrow> put_dirs_set" where
  "leg_dirs running l = insert (leg_at l, leg_view l, False) (\<Union> (attempt_dirs running l ` set (lg_attempts l)))"

lemma filled_put_leg:
  assumes t: "filled F D t"
  shows "filled (F \<union> leg_puts running l) (D \<union> leg_dirs running l) (put_leg running l t)"
proof -
  define w where "w = \<lparr>ow_kind = LegOwner, ow_id = lg_id l, ow_status = entity_text (lg_status l), ow_first_line = None\<rparr>"
  have v: "owner_view w = leg_view l" by (simp add: owner_view_def leg_view_def w_def)
  have built: "put_leg running l t = fold (put_attempt running l w) (lg_attempts l) (put_files w (leg_at l) (leg_files l) (put_dir w (leg_at l) False t))"
    by (simp add: put_leg_def Let_def leg_at_eq w_def leg_files_def put_files_def)
  show ?thesis unfolding built
    by (rule filled_same [OF filled_fold [OF filled_put_attempt [OF _ v] filled_put_files [OF filled_put_dir [OF t, of "leg_at l" w False]]]])
      (auto simp: leg_puts_def leg_dirs_def v)
qed

definition pursuit_puts :: "pursuit_data \<Rightarrow> running_set \<Rightarrow> put_files_set" where
  "pursuit_puts d running =
     insert (''goal.md'', pursuit_view d, pt_goal (pd_pursuit d))
       (if entity_terminal (pt_status (pd_pursuit d)) then {(''outcome.md'', pursuit_view d, compose_pursuit_outcome d)} else {}) \<union>
     \<Union> (leg_puts running ` set (pd_legs d))"

definition pursuit_dirs :: "pursuit_data \<Rightarrow> running_set \<Rightarrow> put_dirs_set" where
  "pursuit_dirs d running = insert ([], pursuit_view d, False) (\<Union> (leg_dirs running ` set (pd_legs d)))"

lemma filled_build: "filled (pursuit_puts d running) (pursuit_dirs d running) (build_context d running)"
proof -
  define w where "w = \<lparr>ow_kind = PursuitOwner, ow_id = pt_id (pd_pursuit d), ow_status = entity_text (pt_status (pd_pursuit d)), ow_first_line = None\<rparr>"
  define t0 where "t0 = \<lparr>ct_root = root_path (pt_id (pd_pursuit d)), ct_files = [], ct_dirs = []\<rparr>"
  define t1 where "t1 = put_file w ''goal.md'' (pt_goal (pd_pursuit d)) (put_dir w [] False t0)"
  have v: "owner_view w = pursuit_view d" by (simp add: owner_view_def pursuit_view_def w_def)
  have "filled {} {} t0" by (simp add: filled_def t0_def)
  from filled_put_file [OF filled_put_dir [OF this, of "[]" w False], of "''goal.md''" w "pt_goal (pd_pursuit d)", unfolded v]
  have t1: "filled {(''goal.md'', pursuit_view d, pt_goal (pd_pursuit d))} {([], pursuit_view d, False)} t1" by (simp only: t1_def)
  with filled_put_file [OF this, of "''outcome.md''" w "compose_pursuit_outcome d", unfolded v]
  have t2: "filled ({(''goal.md'', pursuit_view d, pt_goal (pd_pursuit d))} \<union>
        (if entity_terminal (pt_status (pd_pursuit d)) then {(''outcome.md'', pursuit_view d, compose_pursuit_outcome d)} else {}))
      {([], pursuit_view d, False)} (if entity_terminal (pt_status (pd_pursuit d)) then put_file w ''outcome.md'' (compose_pursuit_outcome d) t1 else t1)"
    by (simp add: insert_commute)
  have built: "build_context d running = fold (put_leg running) (pd_legs d)
      (if entity_terminal (pt_status (pd_pursuit d)) then put_file w ''outcome.md'' (compose_pursuit_outcome d) t1 else t1)"
    by (simp add: build_context_def Let_def w_def t0_def t1_def)
  show ?thesis unfolding built
    by (rule filled_same [OF filled_fold [OF filled_put_leg t2]]) (auto simp: pursuit_puts_def pursuit_dirs_def)
qed

section \<open>The builder makes what the pursuit holds\<close>

lemma option_file_in: "f \<in> set (option_file name content) \<longleftrightarrow> fst f = name \<and> content = Some (snd f)"
  by (cases f) (auto simp: option_file_def split: option.splits)

lemma files_in_iff: "(p, v, c) \<in> files_in dir v' fs \<longleftrightarrow> v = v' \<and> (\<exists>name. (name, c) \<in> set fs \<and> p = dir @ ''/'' @ name)"
  by (force simp: files_in_def)

lemma dirs_held: "(p, v, old) \<in> pursuit_dirs d running \<longleftrightarrow> holds_dir d running p v old"
proof
  assume "(p, v, old) \<in> pursuit_dirs d running"
  then consider "p = []" "v = pursuit_view d" "old = False"
    | l where "l \<in> set (pd_legs d)" "p = leg_at l" "v = leg_view l" "old = False"
    | l a where "l \<in> set (pd_legs d)" "a \<in> set (lg_attempts l)" "(p, v, old) \<in> attempt_dirs running l a"
    unfolding pursuit_dirs_def leg_dirs_def by blast
  then show "holds_dir d running p v old"
  proof cases
    case 3
    then show ?thesis
      using holds_dir.superseded_in [OF 3(1,2)] holds_dir.attempt_in [OF 3(1,2)] holds_dir.item_in [OF 3(1,2)]
      by (auto simp: attempt_dirs_def item_dirs_def item_at_def split: if_splits)
  qed (simp_all add: holds_dir.intros)
next
  assume "holds_dir d running p v old"
  then show "(p, v, old) \<in> pursuit_dirs d running"
    by cases (auto simp: pursuit_dirs_def leg_dirs_def attempt_dirs_def item_dirs_def item_at_def)
qed

lemma item_put_held:
  assumes "l \<in> set (pd_legs d)" "a \<in> set (lg_attempts l)" "w \<in> set (at_items a)" "(p, v, c) \<in> item_puts running (attempt_at l a) w"
  shows "holds_file d running p v c"
  using assms holds_file.title [OF assms(1-3)] holds_file.spec [OF assms(1-3)] holds_file.summary [OF assms(1-3)] holds_file.item_outcome [OF assms(1-3)]
  by (auto simp: item_puts_def files_in_iff item_files_def option_file_in item_at_def)

lemma attempt_put_held:
  assumes "l \<in> set (pd_legs d)" "a \<in> set (lg_attempts l)" "(p, v, c) \<in> attempt_puts running l a"
  shows "holds_file d running p v c"
  using assms holds_file.plan_summary [OF assms(1,2)] holds_file.reasons [OF assms(1,2)] holds_file.attempt_outcome [OF assms(1,2)]
    holds_file.declared_goal [OF assms(1,2)] holds_file.declared_next [OF assms(1,2)]
  by (auto intro: item_put_held [OF assms(1,2)] simp: attempt_puts_def files_in_iff attempt_files_def declaration_files_def option_file_in split: if_splits)

lemma leg_put_held:
  assumes "l \<in> set (pd_legs d)" "(p, v, c) \<in> leg_puts running l"
  shows "holds_file d running p v c"
  using assms holds_file.leg_goal [OF assms(1)] holds_file.next_goal [OF assms(1)] holds_file.leg_outcome [OF assms(1)]
  by (auto intro: attempt_put_held [OF assms(1)] simp: leg_puts_def leg_files_def files_in_iff option_file_in split: if_splits)

lemma files_in_mem: "(name, c) \<in> set fs \<Longrightarrow> (dir @ ''/'' @ name, v, c) \<in> files_in dir v fs"
  by (force simp: files_in_def)

lemma put_in_leg: "l \<in> set (pd_legs d) \<Longrightarrow> x \<in> leg_puts running l \<Longrightarrow> x \<in> pursuit_puts d running"
  unfolding pursuit_puts_def by (rule UnI2, rule UN_I)

lemma put_in_attempt: "a \<in> set (lg_attempts l) \<Longrightarrow> x \<in> attempt_puts running l a \<Longrightarrow> x \<in> leg_puts running l"
  unfolding leg_puts_def by (rule UnI2, rule UN_I)

lemma put_in_item: "w \<in> set (at_items a) \<Longrightarrow> x \<in> item_puts running (attempt_at l a) w \<Longrightarrow> x \<in> attempt_puts running l a"
  unfolding attempt_puts_def by (rule UnI2, rule UN_I)

lemma leg_file_put:
  "l \<in> set (pd_legs d) \<Longrightarrow> (name, c) \<in> set (leg_files l) \<Longrightarrow> (leg_at l @ ''/'' @ name, leg_view l, c) \<in> pursuit_puts d running"
  by (rule put_in_leg, assumption, unfold leg_puts_def, rule UnI1, rule files_in_mem)

lemma attempt_file_put:
  "l \<in> set (pd_legs d) \<Longrightarrow> a \<in> set (lg_attempts l) \<Longrightarrow>
   (name, c) \<in> set (attempt_files a @ (if at_consistent a then [] else declaration_files a)) \<Longrightarrow>
   (attempt_at l a @ ''/'' @ name, attempt_view a, c) \<in> pursuit_puts d running"
  by (rule put_in_leg, assumption, rule put_in_attempt, assumption, unfold attempt_puts_def, rule UnI1, rule files_in_mem)

lemma item_file_put:
  "l \<in> set (pd_legs d) \<Longrightarrow> a \<in> set (lg_attempts l) \<Longrightarrow> w \<in> set (at_items a) \<Longrightarrow> (name, c) \<in> set (item_files w) \<Longrightarrow>
   (item_at l a w @ ''/'' @ name, item_view running w, c) \<in> pursuit_puts d running"
  by (rule put_in_leg, assumption, rule put_in_attempt, assumption, rule put_in_item, assumption,
      unfold item_puts_def item_at_def, rule files_in_mem)

lemma files_held: "(p, v, c) \<in> pursuit_puts d running \<longleftrightarrow> holds_file d running p v c"
proof
  assume "(p, v, c) \<in> pursuit_puts d running"
  then show "holds_file d running p v c"
    by (auto simp: pursuit_puts_def intro: holds_file.intros leg_put_held split: if_splits)
next
  assume "holds_file d running p v c"
  then show "(p, v, c) \<in> pursuit_puts d running"
  proof cases
    case goal
    then show ?thesis by (simp add: pursuit_puts_def)
  next
    case outcome
    then show ?thesis by (simp add: pursuit_puts_def)
  next
    case (leg_goal l)
    then show ?thesis using leg_file_put [of l d "''leg_goal.md''" c] by (simp add: leg_files_def option_file_in)
  next
    case (next_goal l)
    then show ?thesis using leg_file_put [of l d "''next_leg_goal.md''" c] by (simp add: leg_files_def option_file_in)
  next
    case (leg_outcome l)
    then show ?thesis using leg_file_put [of l d "''outcome.md''" c] by (simp add: leg_files_def option_file_in)
  next
    case (plan_summary l a)
    then show ?thesis using attempt_file_put [of l d a "''plan_summary.md''" c] by (simp add: attempt_files_def declaration_files_def option_file_in)
  next
    case (reasons l a)
    then show ?thesis using attempt_file_put [of l d a "''failure_reasons.md''" c] by (simp add: attempt_files_def declaration_files_def option_file_in)
  next
    case (attempt_outcome l a)
    then show ?thesis using attempt_file_put [of l d a "''outcome.md''" c] by (simp add: attempt_files_def declaration_files_def option_file_in)
  next
    case (declared_goal l a)
    then show ?thesis using attempt_file_put [of l d a "''leg_goal.md''" c] by (simp add: attempt_files_def declaration_files_def option_file_in)
  next
    case (declared_next l a)
    then show ?thesis using attempt_file_put [of l d a "''next_leg_goal.md''" c] by (simp add: attempt_files_def declaration_files_def option_file_in)
  next
    case (title l a w)
    then show ?thesis using item_file_put [of l d a w "''title.md''" c] by (simp add: item_files_def option_file_in)
  next
    case (spec l a w)
    then show ?thesis using item_file_put [of l d a w "''spec.md''" c] by (simp add: item_files_def option_file_in)
  next
    case (summary l a w)
    then show ?thesis using item_file_put [of l d a w "''summary.md''" c] by (simp add: item_files_def option_file_in)
  next
    case (item_outcome l a w)
    then show ?thesis using item_file_put [of l d a w "''outcome.md''" c] by (simp add: item_files_def option_file_in)
  qed
qed

lemma put_files_root: "ct_root (put_files w dir fs t) = ct_root t"
  unfolding put_files_def by (induction fs arbitrary: t) (simp_all add: put_file_def)

lemma fold_root: "(\<And>x t. ct_root (f x t) = ct_root t) \<Longrightarrow> ct_root (fold f xs t) = ct_root t"
  by (induction xs arbitrary: t) simp_all

lemma build_root: "ct_root (build_context d running) = root_path (pt_id (pd_pursuit d))"
  by (simp add: build_context_def put_leg_def put_attempt_def put_item_def Let_def fold_root put_files_root put_file_def put_dir_def)

end
