(* ===== verification/JsonParse.thy ===== *)
theory JsonParse
  imports Schemas
begin

text \<open>
  The library function \<open>JSON.parse\<close>, which the program applies to the texts of its own stores, to
  replies of the gateway and to tokens. Code units above 255 are not represented, so an escape
  of one is an error here. A numeral is kept as it is written: this is its value for the texts
  that \<open>JSON.stringify\<close> writes, which render a number in one way. Repeated keys keep their
  places, which no text of \<open>JSON.stringify\<close> has.
\<close>

section \<open>Strings and numerals\<close>

definition json_space :: "char \<Rightarrow> bool" where
  "json_space c = (of_char c \<in> {9, 10, 13, 32 :: nat})"

definition skip_ws :: "string \<Rightarrow> string" where
  "skip_ws = dropWhile json_space"

definition hex_value :: "char \<Rightarrow> nat option" where
  "hex_value c =
     (case find_index ((=) c) ''0123456789abcdef'' of
        Some n \<Rightarrow> Some n
      | None \<Rightarrow> find_index ((=) c) ''0123456789ABCDEF'')"

fun simple_escape :: "char \<Rightarrow> char option" where
  "simple_escape c =
     (let n = (of_char c :: nat) in
      if n = 34 \<or> n = 92 \<or> n = 47 then Some c
      else if c = CHR ''b'' then Some (char_of (8::nat))
      else if c = CHR ''f'' then Some (char_of (12::nat))
      else if c = CHR ''n'' then Some (char_of (10::nat))
      else if c = CHR ''r'' then Some (char_of (13::nat))
      else if c = CHR ''t'' then Some (char_of (9::nat))
      else None)"

definition unicode_escape :: "char \<Rightarrow> char \<Rightarrow> char \<Rightarrow> char \<Rightarrow> char option" where
  "unicode_escape a b c d =
     (case (hex_value a, hex_value b, hex_value c, hex_value d) of
        (Some 0, Some 0, Some x, Some y) \<Rightarrow> Some (char_of (16 * x + y))
      | _ \<Rightarrow> None)"

text \<open>The rest of a string literal, after its opening quote, and what follows it.\<close>

fun read_chars :: "string \<Rightarrow> (string \<times> string) option" where
  "read_chars [] = None"
| "read_chars (c # cs) =
     (if c = CHR 0x22 then Some ([], cs)
      else if c = CHR 0x5C then
        (case cs of
           [] \<Rightarrow> None
         | e # es \<Rightarrow>
             (if e = CHR ''u'' then
                (case es of
                   w # x # y # z # rest \<Rightarrow>
                     (case unicode_escape w x y z of
                        None \<Rightarrow> None
                      | Some u \<Rightarrow> map_option (map_prod ((#) u) id) (read_chars rest))
                 | _ \<Rightarrow> None)
              else case simple_escape e of
                     None \<Rightarrow> None
                   | Some u \<Rightarrow> map_option (map_prod ((#) u) id) (read_chars es)))
      else if (of_char c :: nat) < 32 then None
      else map_option (map_prod ((#) c) id) (read_chars cs))"

definition is_digit :: "char \<Rightarrow> bool" where
  "is_digit c = (c \<in> set ''0123456789'')"

definition exponent_ok :: "string \<Rightarrow> bool" where
  "exponent_ok s =
     (case s of
        [] \<Rightarrow> True
      | c # t \<Rightarrow>
          c \<in> set ''eE'' \<and>
          (let d = (case t of s # u \<Rightarrow> if s \<in> set ''+-'' then u else t | [] \<Rightarrow> []) in d \<noteq> [] \<and> list_all is_digit d))"

definition fraction_ok :: "string \<Rightarrow> bool" where
  "fraction_ok s =
     (case s of
        c # t \<Rightarrow> if c = CHR ''.'' then takeWhile is_digit t \<noteq> [] \<and> exponent_ok (dropWhile is_digit t) else exponent_ok s
      | [] \<Rightarrow> True)"

definition json_number :: "string \<Rightarrow> bool" where
  "json_number s =
     (let r = (case s of c # t \<Rightarrow> if c = CHR ''-'' then t else s | [] \<Rightarrow> []); d = takeWhile is_digit r
      in d \<noteq> [] \<and> (hd d = CHR ''0'' \<longrightarrow> length d = 1) \<and> fraction_ok (dropWhile is_digit r))"

section \<open>Values\<close>

definition read_literal :: "string \<Rightarrow> (json \<times> string) option" where
  "read_literal s =
     (if starts_with ''null'' s then Some (JNull, drop 4 s)
      else if starts_with ''true'' s then Some (JBool True, drop 4 s)
      else if starts_with ''false'' s then Some (JBool False, drop 5 s)
      else let n = takeWhile num_char s in
           if json_number n then Some (JNum n, drop (length n) s) else None)"

text \<open>
  Recursive descent. Each value starts with a character of its own, so the length of the text
  bounds the depth of the calls; \<open>json_parse_stringify\<close> below confirms it.
\<close>

fun parse_value :: "nat \<Rightarrow> string \<Rightarrow> (json \<times> string) option"
  and parse_elements :: "nat \<Rightarrow> string \<Rightarrow> (json list \<times> string) option"
  and parse_members :: "nat \<Rightarrow> string \<Rightarrow> ((string \<times> json) list \<times> string) option"
where
  "parse_value 0 s = None"
| "parse_value (Suc f) s =
     (case skip_ws s of
        [] \<Rightarrow> None
      | c # r \<Rightarrow>
          (if c = CHR 0x22 then map_option (map_prod JStr id) (read_chars r)
           else if c = CHR ''['' then
             (if starts_with '']'' (skip_ws r) then Some (JArr [], tl (skip_ws r))
              else map_option (map_prod JArr id) (parse_elements f r))
           else if c = CHR ''{'' then
             (if starts_with ''}'' (skip_ws r) then Some (JObj [], tl (skip_ws r))
              else map_option (map_prod JObj id) (parse_members f r))
           else read_literal (c # r)))"
| "parse_elements 0 s = None"
| "parse_elements (Suc f) s =
     (case parse_value f s of
        None \<Rightarrow> None
      | Some (v, r) \<Rightarrow>
          (case skip_ws r of
             [] \<Rightarrow> None
           | c # t \<Rightarrow>
               (if c = CHR '']'' then Some ([v], t)
                else if c = CHR '','' then map_option (map_prod ((#) v) id) (parse_elements f t)
                else None)))"
| "parse_members 0 s = None"
| "parse_members (Suc f) s =
     (case skip_ws s of
        [] \<Rightarrow> None
      | q # s1 \<Rightarrow>
          (if q \<noteq> CHR 0x22 then None
           else case read_chars s1 of
             None \<Rightarrow> None
           | Some (k, s2) \<Rightarrow>
               (case skip_ws s2 of
                  [] \<Rightarrow> None
                | c # s3 \<Rightarrow>
                    (if c \<noteq> CHR '':'' then None
                     else case parse_value f s3 of
                       None \<Rightarrow> None
                     | Some (v, r) \<Rightarrow>
                         (case skip_ws r of
                            [] \<Rightarrow> None
                          | d # t \<Rightarrow>
                              (if d = CHR ''}'' then Some ([(k, v)], t)
                               else if d = CHR '','' then map_option (map_prod ((#) (k, v)) id) (parse_members f t)
                               else None))))))"

definition json_parse :: "string \<Rightarrow> json option" where
  "json_parse s =
     (case parse_value (Suc (length s)) s of
        None \<Rightarrow> None
      | Some (v, r) \<Rightarrow> if skip_ws r = [] then Some v else None)"

section \<open>Reading back what \<open>JSON.stringify\<close> wrote\<close>

text \<open>Values whose numerals are numerals of JSON; every finite number of JavaScript renders as one.\<close>

fun numerals_ok :: "json \<Rightarrow> bool" where
  "numerals_ok (JNum n) = (wf_num n \<and> json_number n)"
| "numerals_ok (JArr xs) = (\<forall>v \<in> set xs. numerals_ok v)"
| "numerals_ok (JObj kvs) = (\<forall>kv \<in> set kvs. numerals_ok (snd kv))"
| "numerals_ok _ = True"

lemma hex_value_digit: "hex_value (hex_digit n) = Some (n mod 16)"
proof -
  have "\<forall>m \<in> set [0..<16]. hex_value (''0123456789abcdef'' ! m) = Some m" by code_simp
  then show ?thesis by (simp add: hex_digit_def)
qed

lemma read_escaped: "read_chars (escape_char c @ s) = map_option (map_prod ((#) c) id) (read_chars s)"
proof (cases "of_char c \<in> {34, 92 :: nat} \<or> (of_char c :: nat) < 32")
  case True
  let ?n = "of_char c :: nat"
  have z: "hex_value CHR ''0'' = Some 0" by (simp add: hex_value_def)
  have u: "unicode_escape CHR ''0'' CHR ''0'' (hex_digit (?n div 16)) (hex_digit ?n) = Some c" if "?n < 32"
  proof -
    have "16 * (?n div 16 mod 16) + ?n mod 16 = ?n" using that by simp
    then show ?thesis by (simp add: unicode_escape_def z hex_value_digit)
  qed
  have short: "simple_escape (hd (escape_tail ?n)) = Some c \<and> escape_tail ?n = [hd (escape_tail ?n)] \<and> hd (escape_tail ?n) \<noteq> CHR ''u''"
    if n: "?n \<in> {34, 92, 8, 9, 10, 12, 13}"
  proof -
    have "c \<in> char_of ` {34, 92, 8, 9, 10, 12, 13 :: nat}" using n by (metis char_of_char imageI)
    moreover have "char_of (34::nat) = CHR 0x22" "char_of (92::nat) = CHR 0x5C" by code_simp+
    ultimately show ?thesis by (auto simp: escape_tail_def)
  qed
  have "read_chars (CHR 0x5C # escape_tail ?n @ s) = map_option (map_prod ((#) c) id) (read_chars s)"
  proof (cases "?n \<in> {34, 92, 8, 9, 10, 12, 13}")
    case True
    with short obtain e where "escape_tail ?n = [e]" "simple_escape e = Some c" "e \<noteq> CHR ''u''" by metis
    then show ?thesis by simp
  next
    case False
    with True have "?n < 32" "escape_tail ?n = [CHR ''u'', CHR ''0'', CHR ''0'', hex_digit (?n div 16), hex_digit ?n]"
      by (auto simp: escape_tail_def)
    with u show ?thesis by simp
  qed
  then show ?thesis unfolding escape_char_special [OF True] by simp
next
  case False
  then have e: "escape_char c = [c]" by (intro escape_char_plain) auto
  moreover have "c \<noteq> CHR 0x22" "c \<noteq> CHR 0x5C" using False by auto
  ultimately show ?thesis using False by simp
qed

lemma read_quoted: "read_chars (escape s @ CHR 0x22 # r) = Some (s, r)"
proof (induction s)
  case (Cons c s)
  then show ?case unfolding escape_simps append_assoc read_escaped by simp
qed simp

text \<open>What may follow a value: anything that does not go on a numeral.\<close>

definition value_end :: "string \<Rightarrow> bool" where
  "value_end r = (r = [] \<or> \<not> num_char (hd r))"

lemma delim_value_end: "delim r \<Longrightarrow> value_end r"
  by (auto simp: delim_def value_end_def num_char_def)

lemma read_numeral:
  assumes "wf_num n" "json_number n" "value_end r"
  shows "read_literal (n @ r) = Some (JNum n, r)"
proof -
  have "takeWhile num_char r = []" using assms(3) by (cases r) (auto simp: value_end_def)
  with assms(1) have t: "takeWhile num_char (n @ r) = n" by (simp add: wf_num_def list_all_iff takeWhile_append)
  from assms(1) have "hd (n @ r) \<in> set ''-0123456789''" by (simp add: wf_num_def)
  then have "\<not> starts_with ''null'' (n @ r) \<and> \<not> starts_with ''true'' (n @ r) \<and> \<not> starts_with ''false'' (n @ r)"
    by (cases "n @ r") (auto simp: starts_with_def)
  with t assms(2) show ?thesis by (simp add: read_literal_def)
qed

lemma skip_ws_Cons [simp]: "\<not> json_space c \<Longrightarrow> skip_ws (c # r) = c # r"
  by (simp add: skip_ws_def)

lemma not_space [simp]:
  "\<not> json_space CHR 0x22" "\<not> json_space CHR ''[''" "\<not> json_space CHR '']''" "\<not> json_space CHR ''{''" "\<not> json_space CHR ''}''"
  "\<not> json_space CHR '',''" "\<not> json_space CHR '':''" "\<not> json_space CHR ''n''" "\<not> json_space CHR ''t''" "\<not> json_space CHR ''f''"
  by (simp_all add: json_space_def)

lemma numeral_start: "wf_num n \<Longrightarrow> \<exists>c t. n = c # t \<and> \<not> json_space c \<and> c \<noteq> CHR 0x22 \<and> c \<noteq> CHR ''['' \<and> c \<noteq> CHR ''{''"
  by (cases n) (auto simp: wf_num_def json_space_def)

lemma numerals_wf: "numerals_ok v \<Longrightarrow> wf_json v"
  by (induction v) (auto simp: wf_items_iff wf_members_iff)

lemma value_start:
  assumes "numerals_ok v"
  obtains c t where "stringify v = c # t" "\<not> json_space c" "c \<noteq> CHR '']''" "c \<noteq> CHR ''}''"
proof (cases v)
  case (JNum n)
  with assms that numeral_start [of n] show ?thesis by (auto simp: wf_num_def)
next
  case (JBool b)
  with that show ?thesis by (cases b) auto
qed (use that in \<open>auto simp: quote_def\<close>)

text \<open>Enough fuel reads a rendering back, whatever delimiter follows it.\<close>

lemma parse_rendered:
  "(\<forall>v r. numerals_ok v \<longrightarrow> value_end r \<longrightarrow> length (stringify v) \<le> f \<longrightarrow> parse_value f (stringify v @ r) = Some (v, r)) \<and>
   (\<forall>xs r. xs \<noteq> [] \<longrightarrow> (\<forall>v \<in> set xs. numerals_ok v) \<longrightarrow> length (stringify_items xs) < f \<longrightarrow>
      parse_elements f (stringify_items xs @ CHR '']'' # r) = Some (xs, r)) \<and>
   (\<forall>kvs r. kvs \<noteq> [] \<longrightarrow> (\<forall>kv \<in> set kvs. numerals_ok (snd kv)) \<longrightarrow> length (stringify_members kvs) < f \<longrightarrow>
      parse_members f (stringify_members kvs @ CHR ''}'' # r) = Some (kvs, r))"
proof (induction f)
  case 0
  then show ?case by (auto elim: value_start)
next
  case (Suc f)
  note val = Suc.IH [THEN conjunct1, rule_format] and els = Suc.IH [THEN conjunct2, THEN conjunct1, rule_format]
    and mems = Suc.IH [THEN conjunct2, THEN conjunct2, rule_format]
  have 1: "parse_value (Suc f) (stringify v @ r) = Some (v, r)"
    if v: "numerals_ok v" "value_end r" "length (stringify v) \<le> Suc f" for v r
  proof (cases v)
    case (JNum n)
    with v numeral_start [of n] read_numeral [of n r] show ?thesis by auto
  next
    case (JStr s)
    with v show ?thesis by (simp add: quote_def read_quoted)
  next
    case (JArr xs)
    show ?thesis
    proof (cases xs)
      case (Cons x ys)
      with v JArr have "numerals_ok x" by simp
      then obtain c t where c: "stringify x = c # t" "\<not> json_space c" "c \<noteq> CHR '']''" by (rule value_start)
      then have "stringify_items xs = c # t @ items_tail ys" using Cons by (simp add: stringify_items_Cons)
      moreover have "parse_elements f (stringify_items xs @ CHR '']'' # r) = Some (xs, r)"
        using v JArr Cons by (intro els) auto
      ultimately show ?thesis using JArr c by (simp add: starts_with_def)
    qed (use JArr in \<open>simp add: starts_with_def\<close>)
  next
    case (JObj kvs)
    show ?thesis
    proof (cases kvs)
      case (Cons kv rest)
      then obtain k w where kv: "kv = (k, w)" by (cases kv)
      have "stringify_members kvs = CHR 0x22 # escape k @ CHR 0x22 # CHR '':'' # stringify w @ members_tail rest"
        by (simp add: Cons kv stringify_members_Cons quote_def)
      moreover have "parse_members f (stringify_members kvs @ CHR ''}'' # r) = Some (kvs, r)"
        using v JObj Cons by (intro mems) auto
      ultimately show ?thesis using JObj by (simp add: starts_with_def)
    qed (use JObj in \<open>simp add: starts_with_def\<close>)
  next
    case (JBool b)
    with v show ?thesis by (cases b) (simp_all add: read_literal_def starts_with_def)
  qed (use v in \<open>simp add: read_literal_def starts_with_def\<close>)
  have 2: "parse_elements (Suc f) (stringify_items xs @ CHR '']'' # r) = Some (xs, r)"
    if x: "xs \<noteq> []" "\<forall>v \<in> set xs. numerals_ok v" "length (stringify_items xs) < Suc f" for xs r
  proof -
    obtain y ys where xs: "xs = y # ys" using x(1) by (cases xs) auto
    have "parse_value f (stringify y @ items_tail ys @ CHR '']'' # r) = Some (y, items_tail ys @ CHR '']'' # r)"
      using x xs by (intro val) (auto simp: stringify_items_Cons delim_items_tail delim_value_end)
    moreover have "parse_elements f (stringify_items ys @ CHR '']'' # r) = Some (ys, r)" if "ys \<noteq> []"
      using x xs that by (intro els) (auto simp: stringify_items_Cons items_tail_def)
    ultimately show ?thesis by (cases "ys = []") (simp_all add: xs stringify_items_Cons items_tail_def)
  qed
  have 3: "parse_members (Suc f) (stringify_members kvs @ CHR ''}'' # r) = Some (kvs, r)"
    if x: "kvs \<noteq> []" "\<forall>kv \<in> set kvs. numerals_ok (snd kv)" "length (stringify_members kvs) < Suc f" for kvs r
  proof -
    obtain k w rest where kvs: "kvs = (k, w) # rest" using x(1) by (cases kvs) auto
    have "parse_value f (stringify w @ members_tail rest @ CHR ''}'' # r) = Some (w, members_tail rest @ CHR ''}'' # r)"
      using x kvs by (intro val) (auto simp: stringify_members_Cons delim_members_tail delim_value_end)
    moreover have "parse_members f (stringify_members rest @ CHR ''}'' # r) = Some (rest, r)" if "rest \<noteq> []"
      using x kvs that by (intro mems) (auto simp: stringify_members_Cons members_tail_def)
    ultimately show ?thesis
      by (cases "rest = []") (simp_all add: kvs stringify_members_Cons members_tail_def quote_def read_quoted)
  qed
  from 1 2 3 show ?case by blast
qed

lemma json_parse_stringify:
  assumes "numerals_ok v" "skip_ws r = []"
  shows "json_parse (stringify v @ r) = Some v"
proof -
  have "json_space c \<Longrightarrow> \<not> num_char c" for c by (auto simp: json_space_def num_char_def)
  then have "value_end r" using assms(2) by (cases r) (auto simp: skip_ws_def value_end_def split: if_splits)
  with parse_rendered [of "Suc (length (stringify v @ r))", THEN conjunct1, rule_format, of v r] assms show ?thesis
    by (simp add: json_parse_def)
qed

lemma escape_char_one_line: "CHR 0x0A \<notin> set (escape_char c)"
proof (cases "of_char c = (10::nat)")
  case False
  then have "c \<noteq> CHR 0x0A" by auto
  moreover have "hex_digit n \<noteq> CHR 0x0A" for n
    using hex_value_digit [of n] by (auto simp: hex_value_def)
  ultimately show ?thesis by (auto simp: escape_char_def Let_def dest: sym)
qed (simp add: escape_char_def)

lemma stringify_one_line: "numerals_ok v \<Longrightarrow> CHR 0x0A \<notin> set (stringify v)"
proof -
  have e: "CHR 0x0A \<notin> set (escape s)" for s by (induction s) (auto simp: escape_char_one_line)
  have q: "CHR 0x0A \<notin> set (quote s)" for s using e by (simp add: quote_def)
  have its: "(\<And>v. v \<in> set vs \<Longrightarrow> CHR 0x0A \<notin> set (stringify v)) \<Longrightarrow> CHR 0x0A \<notin> set (stringify_items vs)" for vs
    by (induction vs rule: induct_list012) auto
  have ms: "(\<forall>kv \<in> set kvs. CHR 0x0A \<notin> set (stringify (snd kv))) \<Longrightarrow> CHR 0x0A \<notin> set (stringify_members kvs)" for kvs
  proof (induction kvs)
    case (Cons kv kvs)
    then show ?case using q by (cases kv) (auto simp: stringify_members_Cons members_tail_def)
  qed simp
  show "numerals_ok v \<Longrightarrow> ?thesis"
  proof (induction v)
    case (JNum n)
    moreover have "\<not> num_char CHR 0x0A" by (simp add: num_char_def)
    ultimately show ?case by (auto simp: wf_num_def list_all_iff)
  next
    case (JArr xs)
    then show ?case using its [of xs] by simp
  next
    case (JObj kvs)
    then have "\<forall>kv \<in> set kvs. CHR 0x0A \<notin> set (stringify (snd kv))" by auto
    from ms [OF this] show ?case by simp
  qed (auto simp: q)
qed

text \<open>The numeral of a natural number is one of JSON.\<close>

lemma digit_char_digit: "is_digit (digit_char d)" "num_char (digit_char d)" "digit_char d = CHR ''0'' \<longleftrightarrow> d mod 10 = 0"
proof -
  have "\<forall>m \<in> set [0..<10]. is_digit (digit_char m) \<and> num_char (digit_char m) \<and> (digit_char m = CHR ''0'' \<longleftrightarrow> m = 0)"
    by code_simp
  then have "is_digit (digit_char (d mod 10)) \<and> num_char (digit_char (d mod 10)) \<and> (digit_char (d mod 10) = CHR ''0'' \<longleftrightarrow> d mod 10 = 0)"
    by simp
  then show "is_digit (digit_char d)" "num_char (digit_char d)" "digit_char d = CHR ''0'' \<longleftrightarrow> d mod 10 = 0"
    by (simp_all add: digit_char_def)
qed

lemma string_of_nat_digits:
  "string_of_nat n \<noteq> [] \<and> list_all is_digit (string_of_nat n) \<and> list_all num_char (string_of_nat n) \<and>
   (hd (string_of_nat n) = CHR ''0'' \<longleftrightarrow> n = 0)"
proof (induction n rule: string_of_nat.induct)
  case (1 n)
  show ?case
  proof (cases "n < 10")
    case True
    then show ?thesis by (simp add: string_of_nat.simps [of n] digit_char_digit)
  next
    case False
    with 1 show ?thesis by (simp add: string_of_nat.simps [of n] digit_char_digit div_eq_0_iff)
  qed
qed

lemma jnat_numerals: "numerals_ok (jnat n)"
proof -
  note d = string_of_nat_digits [of n]
  have "hd (string_of_nat n) \<in> set ''-0123456789''" "hd (string_of_nat n) \<noteq> CHR ''-''"
    using d by (cases "string_of_nat n"; auto simp: is_digit_def)+
  moreover from this(2) d have "(case string_of_nat n of [] \<Rightarrow> [] | c # t \<Rightarrow> if c = CHR ''-'' then t else string_of_nat n) = string_of_nat n"
    by (cases "string_of_nat n") simp_all
  moreover have "takeWhile is_digit (string_of_nat n) = string_of_nat n" "dropWhile is_digit (string_of_nat n) = []"
    using d by (simp_all add: list_all_iff)
  moreover have "length (takeWhile is_digit (string_of_nat 0)) = 1" by (simp add: string_of_nat.simps [of 0] digit_char_digit)
  ultimately show ?thesis using d by (simp add: jnat_def wf_num_def json_number_def Let_def fraction_ok_def
      del: takeWhile_eq_all_conv dropWhile_eq_Nil_conv)
qed

end
