(* ===== verification/RunStores.thy ===== *)
theory RunStores
  imports JsonParse NodeEvents
begin

text \<open>
  The host's records of agent, workflow and node runs (\<open>agent-engine/src/runs\<close>): a directory
  per run with one JSON text per line of \<open>events.jsonl\<close>. The disk maps a directory, the list of
  its path's segments, to its files. The random part of an identifier and the clock's reading
  are arguments. A write into a directory that does not exist throws.
\<close>

section \<open>The disk\<close>

type_synonym disk = "string list \<Rightarrow> (string \<Rightarrow> string option) option"

definition make_dir :: "string list \<Rightarrow> disk \<Rightarrow> disk" where
  "make_dir dir d = (case d dir of Some _ \<Rightarrow> d | None \<Rightarrow> d(dir := Some (\<lambda>_. None)))"

definition write_file :: "string list \<Rightarrow> string \<Rightarrow> string \<Rightarrow> disk \<Rightarrow> string + disk" where
  "write_file dir name text d =
     (case d dir of None \<Rightarrow> Inl ''ENOENT'' | Some fs \<Rightarrow> Inr (d(dir := Some (fs(name := Some text)))))"

definition append_file :: "string list \<Rightarrow> string \<Rightarrow> string \<Rightarrow> disk \<Rightarrow> string + disk" where
  "append_file dir name text d =
     (case d dir of
        None \<Rightarrow> Inl ''ENOENT''
      | Some fs \<Rightarrow> Inr (d(dir := Some (fs(name := Some ((case fs name of None \<Rightarrow> [] | Some old \<Rightarrow> old) @ text))))))"

definition read_file :: "string list \<Rightarrow> string \<Rightarrow> disk \<Rightarrow> string option" where
  "read_file dir name d = (case d dir of None \<Rightarrow> None | Some fs \<Rightarrow> fs name)"

text \<open>\<open>join(rootDir, id)\<close> for an absolute root.\<close>

fun walk :: "string list \<Rightarrow> string list \<Rightarrow> string list" where
  "walk at_dir [] = at_dir"
| "walk at_dir (s # ss) =
     (if s = [] \<or> s = ''.'' then walk at_dir ss
      else if s = ''..'' then walk (butlast at_dir) ss
      else walk (at_dir @ [s]) ss)"

definition join_path :: "string list \<Rightarrow> string \<Rightarrow> string list" where
  "join_path root i = walk root (split_on CHR ''/'' i)"

section \<open>Stores\<close>

text \<open>\<open>'h\<close> is the type of the handles the store keeps; nothing reads them back.\<close>

record 'h jsonl_store =
  js_root :: "string list"
  js_handles :: "(string \<times> 'h) list"
  js_disk :: disk

definition mint_agent_run_id :: "string \<Rightarrow> string" where
  "mint_agent_run_id uuid = ''agent-'' @ uuid"

definition mint_workflow_run_id :: "string \<Rightarrow> string" where
  "mint_workflow_run_id uuid = ''workflow-'' @ uuid"

definition mint_node_run_id :: "string \<Rightarrow> string" where
  "mint_node_run_id uuid = ''node-'' @ uuid"

definition run_dir :: "'h jsonl_store \<Rightarrow> string \<Rightarrow> string list" where
  "run_dir s i = join_path (js_root s) i"

definition on_disk :: "(disk \<Rightarrow> string + disk) \<Rightarrow> 'h jsonl_store \<Rightarrow> string + 'h jsonl_store" where
  "on_disk f s = and_then (f (js_disk s)) (\<lambda>d. Inr (s\<lparr>js_disk := d\<rparr>))"

text \<open>\<open>JSON.stringify(value)\<close> and a newline.\<close>

definition json_line :: "json \<Rightarrow> string" where
  "json_line j = stringify j @ [CHR 0x0A]"

definition create_run :: "string \<Rightarrow> json \<Rightarrow> 'h jsonl_store \<Rightarrow> string + 'h jsonl_store" where
  "create_run i meta s = on_disk (\<lambda>d. write_file (run_dir s i) ''meta.json'' (json_line meta) (make_dir (run_dir s i) d)) s"

definition null_or :: "string option \<Rightarrow> json" where
  "null_or x = (case x of None \<Rightarrow> JNull | Some t \<Rightarrow> JStr t)"

subsection \<open>Agent runs\<close>

definition agent_run_create ::
  "string \<Rightarrow> string \<Rightarrow> string \<Rightarrow> string option \<Rightarrow> string option \<Rightarrow> 'h jsonl_store \<Rightarrow> string + (string \<times> 'h jsonl_store)" where
  "agent_run_create uuid now name parent_workflow parent_node s =
     (let i = mint_agent_run_id uuid in
      and_then (create_run i (JObj [(''agentRunId'', JStr i), (''agentName'', JStr name), (''parentWorkflowRunId'', null_or parent_workflow),
          (''parentNodeRunId'', null_or parent_node), (''status'', JStr ''running''), (''createdAt'', JStr now)]) s)
        (\<lambda>s'. Inr (i, s')))"

definition register_handle :: "string \<Rightarrow> 'h \<Rightarrow> 'h jsonl_store \<Rightarrow> 'h jsonl_store" where
  "register_handle i h s = s\<lparr>js_handles := AList.update i h (js_handles s)\<rparr>"

definition append_event :: "string \<Rightarrow> json \<Rightarrow> 'h jsonl_store \<Rightarrow> string + 'h jsonl_store" where
  "append_event i e s = on_disk (append_file (run_dir s i) ''events.jsonl'' (json_line e)) s"

definition finish_record :: "string \<Rightarrow> string \<Rightarrow> string \<Rightarrow> json \<Rightarrow> 'h jsonl_store \<Rightarrow> string + 'h jsonl_store" where
  "finish_record member i now outcome s =
     on_disk (write_file (run_dir s i) ''outcome.json''
       (json_line (JObj [(''status'', JStr ''finished''), (''finishedAt'', JStr now), (member, outcome)]))) s"

definition agent_run_finish :: "string \<Rightarrow> string \<Rightarrow> json \<Rightarrow> 'h jsonl_store \<Rightarrow> string + 'h jsonl_store" where
  "agent_run_finish = finish_record ''outcome''"

definition fail_start :: "string \<Rightarrow> string \<Rightarrow> string \<Rightarrow> 'h jsonl_store \<Rightarrow> string + 'h jsonl_store" where
  "fail_start i now reason s =
     on_disk (write_file (run_dir s i) ''outcome.json''
       (json_line (JObj [(''status'', JStr ''start_failed''), (''finishedAt'', JStr now), (''reason'', JStr reason)]))) s"

text \<open>The \<open>catch\<close> of a start: the failure is recorded and thrown again, unless recording it throws.\<close>

definition record_failure :: "string \<Rightarrow> string \<Rightarrow> string \<Rightarrow> 'h jsonl_store \<Rightarrow> (string + 'r) \<times> 'h jsonl_store" where
  "record_failure i now err s = (case fail_start i now err s of Inl e \<Rightarrow> (Inl e, s) | Inr s' \<Rightarrow> (Inl err, s'))"

lemma record_failure_known:
  "js_disk s (run_dir s i) \<noteq> None \<Longrightarrow> record_failure i now err s = (Inl err,
     s\<lparr>js_disk := (js_disk s)(run_dir s i := Some ((the (js_disk s (run_dir s i)))(''outcome.json'' := Some
       (json_line (JObj [(''status'', JStr ''start_failed''), (''finishedAt'', JStr now), (''reason'', JStr err)])))))\<rparr>)"
  by (auto simp: record_failure_def fail_start_def on_disk_def write_file_def)

record event_page =
  pg_total :: nat
  pg_lines :: "string list"
  pg_eof :: bool

definition read_events :: "string \<Rightarrow> nat \<Rightarrow> nat \<Rightarrow> 'h jsonl_store \<Rightarrow> event_page" where
  "read_events i offset limit s =
     (case read_file (run_dir s i) ''events.jsonl'' (js_disk s) of
        None \<Rightarrow> \<lparr>pg_total = 0, pg_lines = [], pg_eof = True\<rparr>
      | Some raw \<Rightarrow>
          (let ls = filter (\<lambda>l. l \<noteq> []) (split_on CHR 0x0A raw)
           in \<lparr>pg_total = length ls, pg_lines = take limit (drop offset ls), pg_eof = (offset + limit \<ge> length ls)\<rparr>))"

subsection \<open>Workflow runs\<close>

definition workflow_run_create ::
  "string \<Rightarrow> string \<Rightarrow> string \<Rightarrow> string option \<Rightarrow> string option \<Rightarrow> 'h jsonl_store \<Rightarrow> string + (string \<times> 'h jsonl_store)" where
  "workflow_run_create uuid now name parent_workflow parent_node s =
     (let i = mint_workflow_run_id uuid in
      and_then (create_run i (JObj [(''workflowRunId'', JStr i), (''workflowName'', JStr name), (''parentWorkflowRunId'', null_or parent_workflow),
          (''parentNodeRunId'', null_or parent_node), (''status'', JStr ''running''), (''createdAt'', JStr now)]) s)
        (\<lambda>s'. Inr (i, s')))"

definition workflow_run_finish :: "string \<Rightarrow> string \<Rightarrow> json \<Rightarrow> 'h jsonl_store \<Rightarrow> string + 'h jsonl_store" where
  "workflow_run_finish = finish_record ''outcome''"

definition record_run_snapshot :: "string \<Rightarrow> json \<Rightarrow> 'h jsonl_store \<Rightarrow> string + 'h jsonl_store" where
  "record_run_snapshot i snapshot s = on_disk (write_file (run_dir s i) ''latest-snapshot.json'' (json_line snapshot)) s"

text \<open>\<open>Inr None\<close>: there is no snapshot; \<open>Inl\<close>: the parse throws.\<close>

definition read_latest_snapshot :: "string \<Rightarrow> 'h jsonl_store \<Rightarrow> string + json option" where
  "read_latest_snapshot i s =
     (case read_file (run_dir s i) ''latest-snapshot.json'' (js_disk s) of
        None \<Rightarrow> Inr None
      | Some raw \<Rightarrow> (case json_parse raw of None \<Rightarrow> Inl ''SyntaxError'' | Some j \<Rightarrow> Inr (Some j)))"

subsection \<open>Node runs\<close>

definition node_run_create ::
  "string \<Rightarrow> string \<Rightarrow> string \<Rightarrow> string \<Rightarrow> string \<Rightarrow> json_object option \<Rightarrow> 'h jsonl_store \<Rightarrow> string + (string \<times> 'h jsonl_store)" where
  "node_run_create uuid now workflow kind name metadata s =
     (let i = mint_node_run_id uuid in
      and_then (create_run i (JObj [(''nodeRunId'', JStr i), (''workflowRunId'', JStr workflow), (''nodeKind'', JStr kind), (''nodeName'', JStr name),
          (''metadata'', case metadata of None \<Rightarrow> JNull | Some m \<Rightarrow> JObj m), (''status'', JStr ''running''), (''createdAt'', JStr now)]) s)
        (\<lambda>s'. Inr (i, s')))"

definition node_run_finish :: "string \<Rightarrow> string \<Rightarrow> json \<Rightarrow> 'h jsonl_store \<Rightarrow> string + 'h jsonl_store" where
  "node_run_finish = finish_record ''settlement''"

end
