(* ===== verification/RunLog.thy ===== *)
theory RunLog
  imports RunStores
begin

text \<open>
  What the records of runs promise. A store is a log per run: appending extends it, a page is a
  slice of it. The bridges (\<open>bridgeAgentRun\<close>, \<open>bridgeWorkflowRun\<close>) record an event before they
  show it to the run's observer.
\<close>

section \<open>The log of a run\<close>

definition event_lines :: "string \<Rightarrow> string list" where
  "event_lines raw = filter (\<lambda>l. l \<noteq> []) (split_on CHR 0x0A raw)"

definition recorded :: "'h jsonl_store \<Rightarrow> string \<Rightarrow> json list option" where
  "recorded s i =
     (case js_disk s (run_dir s i) of
        None \<Rightarrow> None
      | Some fs \<Rightarrow> (case fs ''events.jsonl'' of None \<Rightarrow> Some [] | Some raw \<Rightarrow> all_some (map json_parse (event_lines raw))))"

definition log_text :: "json list \<Rightarrow> string" where
  "log_text es = concat (map json_line es)"

text \<open>The line discipline: every file of events is a sequence of rendered events.\<close>

definition log_ok :: "'h jsonl_store \<Rightarrow> bool" where
  "log_ok s = (\<forall>dir fs raw. js_disk s dir = Some fs \<longrightarrow> fs ''events.jsonl'' = Some raw \<longrightarrow>
     (\<exists>es. raw = log_text es \<and> list_all numerals_ok es))"

lemma stringify_not_Nil: "numerals_ok v \<Longrightarrow> stringify v \<noteq> []"
  by (metis list.distinct(1) value_start)

lemma event_lines_log: "list_all numerals_ok es \<Longrightarrow> event_lines (log_text es) = map stringify es"
proof (induction es)
  case (Cons e es)
  then show ?case
    by (simp add: event_lines_def log_text_def json_line_def split_on_append stringify_one_line stringify_not_Nil)
qed (simp add: event_lines_def log_text_def)

lemma recorded_log:
  assumes "js_disk s (run_dir s i) = Some fs" "fs ''events.jsonl'' = Some (log_text es)" "list_all numerals_ok es"
  shows "recorded s i = Some es"
proof -
  have "all_some (map (\<lambda>e. json_parse (stringify e)) es) = Some (map id es)"
    by (rule all_some_map) (use assms(3) json_parse_stringify [of _ "[]"] in \<open>simp add: list_all_iff skip_ws_def\<close>)
  with assms show ?thesis by (simp add: recorded_def event_lines_log comp_def)
qed

lemma recorded_Some:
  assumes "log_ok s" "recorded s i = Some es"
  obtains fs where "js_disk s (run_dir s i) = Some fs" "list_all numerals_ok es"
    "fs ''events.jsonl'' = Some (log_text es) \<or> fs ''events.jsonl'' = None \<and> es = []"
proof -
  obtain fs where fs: "js_disk s (run_dir s i) = Some fs" using assms(2) by (auto simp: recorded_def split: option.splits)
  show ?thesis
  proof (cases "fs ''events.jsonl''")
    case None
    with fs assms(2) have "es = []" by (simp add: recorded_def)
    with that fs None show ?thesis by simp
  next
    case (Some raw)
    then obtain es' where "raw = log_text es'" "list_all numerals_ok es'" using assms(1) fs unfolding log_ok_def by blast
    with that fs Some recorded_log [OF fs, of es'] assms(2) show ?thesis by auto
  qed
qed

section \<open>Each operation on the log\<close>

lemma append_known:
  assumes "log_ok s" "numerals_ok e" "recorded s i = Some es"
  obtains s' where "append_event i e s = Inr s'" "log_ok s'" "js_root s' = js_root s"
    "\<And>j. recorded s' j = (if run_dir s j = run_dir s i then Some (es @ [e]) else recorded s j)"
proof -
  from assms(1,3) obtain fs where fs: "js_disk s (run_dir s i) = Some fs" "list_all numerals_ok es"
    "fs ''events.jsonl'' = Some (log_text es) \<or> fs ''events.jsonl'' = None \<and> es = []" by (rule recorded_Some)
  let ?fs = "fs(''events.jsonl'' := Some (log_text (es @ [e])))"
  let ?s = "s\<lparr>js_disk := (js_disk s)(run_dir s i := Some ?fs)\<rparr>"
  have dir: "run_dir ?s j = run_dir s j" for j by (simp add: run_dir_def)
  have "append_event i e s = Inr ?s"
    using fs by (auto simp: append_event_def on_disk_def append_file_def log_text_def)
  moreover have ok: "list_all numerals_ok (es @ [e])" using fs(2) assms(2) by simp
  then have "log_ok ?s" using assms(1) unfolding log_ok_def by auto
  moreover have "recorded ?s j = (if run_dir s j = run_dir s i then Some (es @ [e]) else recorded s j)" for j
  proof (cases "run_dir s j = run_dir s i")
    case True
    have "recorded ?s j = Some (es @ [e])" by (rule recorded_log [of _ _ ?fs]) (use True dir ok in auto)
    with True show ?thesis by simp
  next
    case False
    then show ?thesis by (simp add: recorded_def dir)
  qed
  ultimately show ?thesis using that [of ?s] by simp
qed

lemma append_unknown: "js_disk s (run_dir s i) = None \<Longrightarrow> append_event i e s = Inl ''ENOENT''"
  by (simp add: append_event_def on_disk_def append_file_def)

lemma log_ok_recorded: "log_ok s \<Longrightarrow> recorded s i = None \<longleftrightarrow> js_disk s (run_dir s i) = None"
proof -
  assume ok: "log_ok s"
  show ?thesis
  proof (cases "js_disk s (run_dir s i)")
    case (Some fs)
    show ?thesis
    proof (cases "fs ''events.jsonl''")
      case None
      with Some show ?thesis by (simp add: recorded_def)
    next
      case (Some raw)
      then obtain es where "raw = log_text es" "list_all numerals_ok es"
        using ok \<open>js_disk s (run_dir s i) = Some fs\<close> unfolding log_ok_def by blast
      with recorded_log [OF \<open>js_disk s (run_dir s i) = Some fs\<close>, of es] Some \<open>js_disk s (run_dir s i) = Some fs\<close>
      show ?thesis by simp
    qed
  qed (simp add: recorded_def)
qed

text \<open>Writing any other file, and making a directory, leave the logs as they are.\<close>

definition same_logs :: "'h jsonl_store \<Rightarrow> 'h jsonl_store \<Rightarrow> bool" where
  "same_logs s s' = (js_root s' = js_root s \<and> (log_ok s \<longrightarrow> log_ok s') \<and> (\<forall>i. recorded s' i = recorded s i))"

lemma write_other_file:
  assumes "on_disk (write_file dir name text) s = Inr s'" "name \<noteq> ''events.jsonl''"
  shows "same_logs s s'"
proof -
  from assms(1) obtain fs where fs: "js_disk s dir = Some fs"
    and s': "s' = s\<lparr>js_disk := (js_disk s)(dir := Some (fs(name := Some text)))\<rparr>"
    by (auto simp: on_disk_def write_file_def split: option.splits)
  have "log_ok s'" if "log_ok s"
    unfolding log_ok_def
  proof (intro allI impI)
    fix d g raw
    assume g: "js_disk s' d = Some g" "g ''events.jsonl'' = Some raw"
    then obtain g' where "js_disk s d = Some g'" "g' ''events.jsonl'' = Some raw"
      using fs assms(2) by (cases "d = dir") (auto simp: s')
    with that show "\<exists>es. raw = log_text es \<and> list_all numerals_ok es" unfolding log_ok_def by blast
  qed
  moreover have "recorded s' i = recorded s i" for i
    using fs assms(2) by (cases "run_dir s i = dir") (simp_all add: recorded_def s' run_dir_def)
  ultimately show ?thesis by (simp add: same_logs_def s')
qed

lemma create_run_logs:
  assumes "create_run i meta s = Inr s'" "log_ok s"
  shows "log_ok s' \<and> js_root s' = js_root s \<and>
    (\<forall>j. recorded s' j = (if run_dir s j = run_dir s i \<and> recorded s i = None then Some [] else recorded s j))"
proof -
  let ?s = "s\<lparr>js_disk := make_dir (run_dir s i) (js_disk s)\<rparr>"
  have "on_disk (write_file (run_dir s i) ''meta.json'' (json_line meta)) ?s = Inr s'"
    using assms(1) by (auto simp: create_run_def on_disk_def and_then_def split: sum.splits)
  from write_other_file [OF this] have w: "same_logs ?s s'" by simp
  have "log_ok ?s" using assms(2) by (auto simp: log_ok_def make_dir_def split: option.splits if_splits)
  moreover have "recorded ?s j = (if run_dir s j = run_dir s i \<and> recorded s i = None then Some [] else recorded s j)" for j
    using log_ok_recorded [OF assms(2), of i]
    by (cases "js_disk s (run_dir s i)") (auto simp: recorded_def make_dir_def run_dir_def split: option.splits)
  ultimately show ?thesis using w by (simp add: same_logs_def)
qed

definition keep :: "'h jsonl_store \<Rightarrow> string + 'h jsonl_store \<Rightarrow> 'h jsonl_store" where
  "keep s r = (case r of Inl _ \<Rightarrow> s | Inr s' \<Rightarrow> s')"

text \<open>An identifier that names a directory of its own below the root; the minted ones do.\<close>

definition plain_id :: "string \<Rightarrow> bool" where
  "plain_id i = (CHR ''/'' \<notin> set i \<and> i \<noteq> [] \<and> i \<noteq> ''.'' \<and> i \<noteq> ''..'')"

lemma split_on_none: "c \<notin> set s \<Longrightarrow> split_on c s = [s]"
  by (induction s) auto

lemma plain_dir: "plain_id i \<Longrightarrow> run_dir s i = js_root s @ [i]"
  by (simp add: plain_id_def run_dir_def join_path_def split_on_none)

lemma plain_dir_eq: "plain_id i \<Longrightarrow> plain_id j \<Longrightarrow> run_dir s i = run_dir s j \<longleftrightarrow> i = j"
  by (simp add: plain_dir)

lemma append_elsewhere:
  assumes "plain_id i" "plain_id j" "i \<noteq> j" "numerals_ok e" "log_ok s"
  shows "log_ok (keep s (append_event j e s)) \<and> recorded (keep s (append_event j e s)) i = recorded s i"
proof (cases "recorded s j")
  case None
  with assms(5) show ?thesis by (simp add: log_ok_recorded append_unknown keep_def)
next
  case (Some es)
  from append_known [OF assms(5,4) Some] obtain s' where "append_event j e s = Inr s'" "log_ok s'"
    "\<And>k. recorded s' k = (if run_dir s k = run_dir s j then Some (es @ [e]) else recorded s k)" by metis
  with assms show ?thesis by (simp add: keep_def plain_dir_eq)
qed

section \<open>Snapshots\<close>

lemma run_dir_disk: "run_dir (s\<lparr>js_disk := d\<rparr>) j = run_dir s j"
  by (simp add: run_dir_def)

lemma snapshot_after_write:
  assumes "on_disk (write_file dir name text) s = Inr s'"
  shows "read_latest_snapshot j s' =
    (if run_dir s j = dir \<and> name = ''latest-snapshot.json''
     then (case json_parse text of None \<Rightarrow> Inl ''SyntaxError'' | Some v \<Rightarrow> Inr (Some v)) else read_latest_snapshot j s)"
proof -
  from assms obtain fs where fs: "js_disk s dir = Some fs"
    and s': "s' = s\<lparr>js_disk := (js_disk s)(dir := Some (fs(name := Some text)))\<rparr>"
    by (auto simp: on_disk_def write_file_def split: option.splits)
  show ?thesis
    by (cases "run_dir s j = dir"; cases "name = ''latest-snapshot.json''")
      (simp_all add: s' fs read_latest_snapshot_def read_file_def run_dir_disk)
qed

lemma snapshot_after_append:
  assumes "append_event i e s = Inr s'"
  shows "read_latest_snapshot j s' = read_latest_snapshot j s"
proof -
  from assms obtain fs t where fs: "js_disk s (run_dir s i) = Some fs"
    and s': "s' = s\<lparr>js_disk := (js_disk s)(run_dir s i := Some (fs(''events.jsonl'' := Some t)))\<rparr>"
    by (auto simp: append_event_def on_disk_def append_file_def split: option.splits)
  show ?thesis
    by (cases "run_dir s j = run_dir s i") (simp_all add: s' fs read_latest_snapshot_def read_file_def run_dir_disk)
qed

lemma read_make_dir: "read_file dir name (make_dir dir' d) = read_file dir name d"
  by (cases "d dir'"; cases "dir = dir'") (simp_all add: read_file_def make_dir_def)

lemma snapshot_after_create: "create_run i meta s = Inr s' \<Longrightarrow> read_latest_snapshot j s' = read_latest_snapshot j s"
proof -
  assume "create_run i meta s = Inr s'"
  then have "on_disk (write_file (run_dir s i) ''meta.json'' (json_line meta)) (s\<lparr>js_disk := make_dir (run_dir s i) (js_disk s)\<rparr>) = Inr s'"
    by (auto simp: create_run_def on_disk_def and_then_def split: sum.splits)
  from snapshot_after_write [OF this] show ?thesis
    by (simp add: read_latest_snapshot_def run_dir_disk read_make_dir)
qed

section \<open>A store refines a log per run\<close>

text \<open>Every method of the three stores, for runs of one of them. A failing write leaves the disk.\<close>

datatype 'h store_op =
    CreateAgentRun string string string "string option" "string option"
  | CreateWorkflowRun string string string "string option" "string option"
  | CreateNodeRun string string string string string "json_object option"
  | RegisterHandle string 'h
  | AppendEvent string json
  | RecordSnapshot string json
  | FinishAgentRun string string json
  | FinishWorkflowRun string string json
  | FinishNodeRun string string json
  | FailStart string string string

definition keep_snd :: "'h jsonl_store \<Rightarrow> string + (string \<times> 'h jsonl_store) \<Rightarrow> 'h jsonl_store" where
  "keep_snd s r = (case r of Inl _ \<Rightarrow> s | Inr (_, s') \<Rightarrow> s')"

fun store_exec :: "'h store_op \<Rightarrow> 'h jsonl_store \<Rightarrow> 'h jsonl_store" where
  "store_exec (CreateAgentRun uuid now name pw pn) s = keep_snd s (agent_run_create uuid now name pw pn s)"
| "store_exec (CreateWorkflowRun uuid now name pw pn) s = keep_snd s (workflow_run_create uuid now name pw pn s)"
| "store_exec (CreateNodeRun uuid now w k name m) s = keep_snd s (node_run_create uuid now w k name m s)"
| "store_exec (RegisterHandle i h) s = register_handle i h s"
| "store_exec (AppendEvent i e) s = keep s (append_event i e s)"
| "store_exec (RecordSnapshot i j) s = keep s (record_run_snapshot i j s)"
| "store_exec (FinishAgentRun i now out) s = keep s (agent_run_finish i now out s)"
| "store_exec (FinishWorkflowRun i now out) s = keep s (workflow_run_finish i now out s)"
| "store_exec (FinishNodeRun i now out) s = keep s (node_run_finish i now out s)"
| "store_exec (FailStart i now why) s = keep s (fail_start i now why s)"

text \<open>The specification: the events of each run, and its latest snapshot.\<close>

record run_spec =
  sp_log :: "string \<Rightarrow> json list option"
  sp_snapshot :: "string \<Rightarrow> json option"

definition spec_create :: "string \<Rightarrow> run_spec \<Rightarrow> run_spec" where
  "spec_create i a = (case sp_log a i of None \<Rightarrow> a\<lparr>sp_log := (sp_log a)(i := Some [])\<rparr> | Some _ \<Rightarrow> a)"

fun spec_exec :: "'h store_op \<Rightarrow> run_spec \<Rightarrow> run_spec" where
  "spec_exec (CreateAgentRun uuid _ _ _ _) a = spec_create (mint_agent_run_id uuid) a"
| "spec_exec (CreateWorkflowRun uuid _ _ _ _) a = spec_create (mint_workflow_run_id uuid) a"
| "spec_exec (CreateNodeRun uuid _ _ _ _ _) a = spec_create (mint_node_run_id uuid) a"
| "spec_exec (AppendEvent i e) a =
     (case sp_log a i of None \<Rightarrow> a | Some es \<Rightarrow> a\<lparr>sp_log := (sp_log a)(i := Some (es @ [e]))\<rparr>)"
| "spec_exec (RecordSnapshot i j) a =
     (case sp_log a i of None \<Rightarrow> a | Some _ \<Rightarrow> a\<lparr>sp_snapshot := (sp_snapshot a)(i := Some j)\<rparr>)"
| "spec_exec _ a = a"

definition page_of :: "json list option \<Rightarrow> nat \<Rightarrow> nat \<Rightarrow> event_page" where
  "page_of es offset limit =
     (case es of
        None \<Rightarrow> \<lparr>pg_total = 0, pg_lines = [], pg_eof = True\<rparr>
      | Some es \<Rightarrow> \<lparr>pg_total = length es, pg_lines = map stringify (take limit (drop offset es)), pg_eof = (offset + limit \<ge> length es)\<rparr>)"

fun op_ok :: "'h store_op \<Rightarrow> bool" where
  "op_ok (CreateAgentRun uuid _ _ _ _) = (CHR ''/'' \<notin> set uuid)"
| "op_ok (CreateWorkflowRun uuid _ _ _ _) = (CHR ''/'' \<notin> set uuid)"
| "op_ok (CreateNodeRun uuid _ _ _ _ _) = (CHR ''/'' \<notin> set uuid)"
| "op_ok (RegisterHandle i _) = plain_id i"
| "op_ok (AppendEvent i e) = (plain_id i \<and> numerals_ok e)"
| "op_ok (RecordSnapshot i j) = (plain_id i \<and> numerals_ok j)"
| "op_ok (FinishAgentRun i _ _) = plain_id i"
| "op_ok (FinishWorkflowRun i _ _) = plain_id i"
| "op_ok (FinishNodeRun i _ _) = plain_id i"
| "op_ok (FailStart i _ _) = plain_id i"

definition represents :: "'h jsonl_store \<Rightarrow> run_spec \<Rightarrow> bool" where
  "represents s a = (log_ok s \<and> (\<forall>i. plain_id i \<longrightarrow> recorded s i = sp_log a i \<and> read_latest_snapshot i s = Inr (sp_snapshot a i)))"

lemma minted_plain:
  "CHR ''/'' \<notin> set uuid \<Longrightarrow> plain_id (mint_agent_run_id uuid)"
  "CHR ''/'' \<notin> set uuid \<Longrightarrow> plain_id (mint_workflow_run_id uuid)"
  "CHR ''/'' \<notin> set uuid \<Longrightarrow> plain_id (mint_node_run_id uuid)"
  by (simp_all add: plain_id_def mint_agent_run_id_def mint_workflow_run_id_def mint_node_run_id_def)

lemma create_run_ok:
  "\<exists>s'. create_run i meta s = Inr s' \<and> js_root s' = js_root s \<and> js_disk s' (run_dir s i) \<noteq> None"
proof -
  obtain fs where "make_dir (run_dir s i) (js_disk s) (run_dir s i) = Some fs"
    by (cases "js_disk s (run_dir s i)") (simp_all add: make_dir_def)
  then show ?thesis by (simp add: create_run_def on_disk_def write_file_def)
qed

lemma create_represents:
  assumes "represents s a" "plain_id i" "create_run i meta s = Inr s'"
  shows "represents s' (spec_create i a)"
  using create_run_logs [OF assms(3)] assms(1,2) snapshot_after_create [OF assms(3)] plain_dir_eq [of _ i]
  by (auto simp: represents_def spec_create_def split: option.splits)

lemma created_represents:
  assumes "represents s a" "plain_id i"
  shows "represents (keep_snd s (and_then (create_run i meta s) (\<lambda>s'. Inr (i, s')))) (spec_create i a)"
proof -
  obtain s' where "create_run i meta s = Inr s'" using create_run_ok by blast
  with create_represents [OF assms this] show ?thesis by (simp add: keep_snd_def)
qed

lemma other_file_represents:
  assumes "represents s a" and r: "on_disk (write_file (run_dir s i) name text) s = r"
    and "name \<noteq> ''events.jsonl''" "name \<noteq> ''latest-snapshot.json''"
  shows "represents (keep s r) a"
proof (cases r)
  case (Inr s')
  with write_other_file [of "run_dir s i" name "text" s s'] snapshot_after_write [of "run_dir s i" name "text" s s'] assms
  show ?thesis by (simp add: represents_def same_logs_def keep_def)
qed (use assms(1) in \<open>simp add: keep_def\<close>)

lemma append_represents:
  assumes "represents s a" "plain_id i" "numerals_ok e"
  shows "represents (keep s (append_event i e s)) (spec_exec (AppendEvent i e) a)"
proof (cases "sp_log a i")
  case None
  with assms have "log_ok s" "recorded s i = None" by (simp_all add: represents_def)
  then have "append_event i e s = Inl ''ENOENT''" by (simp add: log_ok_recorded append_unknown)
  with None assms(1) show ?thesis by (simp add: keep_def)
next
  case (Some es)
  with assms have ok: "log_ok s" and r: "recorded s i = Some es" by (simp_all add: represents_def)
  obtain s' where s': "append_event i e s = Inr s'" "log_ok s'"
    "\<And>j. recorded s' j = (if run_dir s j = run_dir s i then Some (es @ [e]) else recorded s j)"
    using append_known [OF ok assms(3) r] by metis
  with Some assms snapshot_after_append [OF s'(1)] plain_dir_eq [of _ i] show ?thesis by (auto simp: represents_def keep_def)
qed

lemma snapshot_represents:
  assumes "represents s a" "plain_id i" "numerals_ok j"
  shows "represents (keep s (record_run_snapshot i j s)) (spec_exec (RecordSnapshot i j) a)"
proof (cases "sp_log a i")
  case None
  with assms have "log_ok s" "recorded s i = None" by (simp_all add: represents_def)
  then have "js_disk s (run_dir s i) = None" by (simp add: log_ok_recorded)
  with None assms(1) show ?thesis by (simp add: keep_def record_run_snapshot_def on_disk_def write_file_def)
next
  case (Some es)
  with assms have "log_ok s" "recorded s i \<noteq> None" by (simp_all add: represents_def)
  then have "js_disk s (run_dir s i) \<noteq> None" by (simp add: log_ok_recorded)
  then obtain s' where s': "record_run_snapshot i j s = Inr s'"
    by (auto simp: record_run_snapshot_def on_disk_def write_file_def)
  then have w: "on_disk (write_file (run_dir s i) ''latest-snapshot.json'' (json_line j)) s = Inr s'"
    by (simp add: record_run_snapshot_def)
  have "json_parse (json_line j) = Some j"
    unfolding json_line_def by (rule json_parse_stringify) (simp_all add: assms(3) skip_ws_def json_space_def)
  with write_other_file [OF w] snapshot_after_write [OF w] s' Some assms plain_dir_eq [of _ i]
  show ?thesis by (auto simp: represents_def same_logs_def keep_def)
qed

lemma store_exec_represents:
  assumes "represents s a" "op_ok x"
  shows "represents (store_exec x s) (spec_exec x a)"
proof (cases x)
  case (CreateAgentRun uuid now name pw pn)
  with assms created_represents [OF assms(1) minted_plain(1)] show ?thesis by (simp add: agent_run_create_def Let_def)
next
  case (CreateWorkflowRun uuid now name pw pn)
  with assms created_represents [OF assms(1) minted_plain(2)] show ?thesis by (simp add: workflow_run_create_def Let_def)
next
  case (CreateNodeRun uuid now w k name m)
  with assms created_represents [OF assms(1) minted_plain(3)] show ?thesis by (simp add: node_run_create_def Let_def)
next
  case (RegisterHandle i h)
  have "run_dir (register_handle i h s) j = run_dir s j" "js_disk (register_handle i h s) = js_disk s" for j
    by (simp_all add: register_handle_def run_dir_def)
  with RegisterHandle assms show ?thesis
    by (simp add: represents_def log_ok_def recorded_def read_latest_snapshot_def)
next
  case (AppendEvent i e)
  with append_represents [OF assms(1), of i e] assms(2) show ?thesis by simp
next
  case (RecordSnapshot i j)
  with snapshot_represents [OF assms(1), of i j] assms(2) show ?thesis by simp
qed (use other_file_represents [OF assms(1) refl, of "''outcome.json''"] in
    \<open>simp_all add: agent_run_finish_def workflow_run_finish_def node_run_finish_def finish_record_def fail_start_def\<close>)

lemma fold_represents: "represents s a \<Longrightarrow> list_all op_ok ops \<Longrightarrow> represents (fold store_exec ops s) (fold spec_exec ops a)"
proof (induction ops arbitrary: s a)
  case (Cons x ops)
  from Cons.IH [OF store_exec_represents [OF Cons.prems(1), of x]] Cons.prems(2) show ?case by simp
qed simp

lemma page_of_recorded: "log_ok s \<Longrightarrow> read_events i offset limit s = page_of (recorded s i) offset limit"
proof (cases "recorded s i")
  case None
  assume "log_ok s"
  with None have "js_disk s (run_dir s i) = None" by (simp add: log_ok_recorded)
  with None show ?thesis by (simp add: read_events_def read_file_def page_of_def)
next
  case (Some es)
  assume ok: "log_ok s"
  from recorded_Some [OF ok Some] obtain fs where fs: "js_disk s (run_dir s i) = Some fs" "list_all numerals_ok es"
    "fs ''events.jsonl'' = Some (log_text es) \<or> fs ''events.jsonl'' = None \<and> es = []" .
  then show ?thesis
    by (auto simp: Some read_events_def read_file_def page_of_def Let_def event_lines_log [unfolded event_lines_def] take_map drop_map)
qed

definition empty_store :: "string list \<Rightarrow> 'h jsonl_store" where
  "empty_store root = \<lparr>js_root = root, js_handles = [], js_disk = (\<lambda>_. None)\<rparr>"

definition empty_spec :: run_spec where
  "empty_spec = \<lparr>sp_log = (\<lambda>_. None), sp_snapshot = (\<lambda>_. None)\<rparr>"

text \<open>
  C25: the stores of run records refine a log per run. After any sequence of their operations on
  an empty disk, with minted or other plain identifiers, a page read from a run is the slice of
  exactly the events appended to that run since it was created, each on its line; every line
  parses back to its event; and the latest snapshot of a workflow run is read back as it was
  recorded. An operation on a run that was never created changes nothing.
\<close>

theorem stores_refine_logs:
  assumes "list_all op_ok ops" "plain_id i"
  shows "let s = fold store_exec ops (empty_store root); a = fold spec_exec ops empty_spec in
     read_events i offset limit s = page_of (sp_log a i) offset limit \<and>
     recorded s i = sp_log a i \<and> read_latest_snapshot i s = Inr (sp_snapshot a i)"
proof -
  have "represents (empty_store root) empty_spec"
    by (simp add: represents_def empty_store_def empty_spec_def log_ok_def recorded_def read_latest_snapshot_def read_file_def)
  from fold_represents [OF this assms(1)] assms(2) show ?thesis
    by (simp add: Let_def represents_def page_of_recorded)
qed

definition sample_ops :: "unit store_op list" where
  "sample_ops = [CreateAgentRun ''1'' ''t'' ''a'' None None, AppendEvent ''agent-1'' (JStr ''x''), AppendEvent ''agent-2'' JNull,
     AppendEvent ''agent-1'' (JNum ''-1.5e7''), RecordSnapshot ''agent-1'' (JObj [(''k'', JArr [])]), FinishAgentRun ''agent-1'' ''t'' JNull]"

theorem stores_refine_logs_witness:
  "read_events ''agent-1'' 0 1 (fold store_exec sample_ops (empty_store [''runs''])) =
     \<lparr>pg_total = 2, pg_lines = [[CHR 0x22, CHR ''x'', CHR 0x22]], pg_eof = False\<rparr> \<and>
   recorded (fold store_exec sample_ops (empty_store [''runs''])) ''agent-1'' = Some [JStr ''x'', JNum ''-1.5e7'']"
proof -
  have "list_all op_ok sample_ops" "plain_id ''agent-1''" by code_simp+
  from stores_refine_logs [OF this, where offset = 0 and limit = 1 and root = "[''runs'']"]
  have "read_events ''agent-1'' 0 1 (fold store_exec sample_ops (empty_store [''runs''])) =
      page_of (sp_log (fold spec_exec sample_ops empty_spec) ''agent-1'') 0 1 \<and>
    recorded (fold store_exec sample_ops (empty_store [''runs''])) ''agent-1'' = sp_log (fold spec_exec sample_ops empty_spec) ''agent-1''"
    by (simp add: Let_def)
  moreover have "sp_log (fold spec_exec sample_ops empty_spec) ''agent-1'' = Some [JStr ''x'', JNum ''-1.5e7'']" by code_simp
  ultimately show ?thesis by (simp add: page_of_def quote_def escape_char_def)
qed

end
