(* ===== verification/WorkflowFactory.thy ===== *)
theory WorkflowFactory
  imports RunLog RalphLoop
begin

text \<open>
  Configured workflows (\<open>agent-engine/src/agentic-workflows\<close>): the factory that builds a
  workflow from its configuration and its module and starts a run of it, the loader's choice of
  a module among the exports of a script, the composition of context stores, and the service
  behind the agents' workflow tools. A configuration's module parses its arguments and creates
  the implementation; what a start does after the implementation exists (runtime, bridge, initial
  context) is an argument.
\<close>

section \<open>Configuration\<close>

text \<open>\<open>ParticipantBinding\<close> has the fields of a node definition.\<close>

record workflow_config =
  cw_name :: string
  cw_type :: string
  cw_module :: "string option"
  cw_args :: "json option"
  cw_description :: string
  cw_docs :: string
  cw_participants :: "(string \<times> node_def) list"
  cw_tools :: "string list"

record 'm workflow_module =
  wm_type :: string
  wm_parse :: "json_object \<Rightarrow> string + json_object"
  wm_create :: "string \<Rightarrow> wf_definition \<Rightarrow> json_object \<Rightarrow> string + 'm"

text \<open>\<open>new Map(entries)\<close>.\<close>

definition new_map :: "('k \<times> 'v) list \<Rightarrow> ('k \<times> 'v) list" where
  "new_map es = fold (\<lambda>e. AList.update (fst e) (snd e)) es []"

record 'm workflow_factory =
  wff_configs :: "(string \<times> workflow_config) list"
  wff_modules :: "(string \<times> 'm workflow_module) list"

definition workflow_factory_of :: "workflow_config list \<Rightarrow> 'm workflow_module list \<Rightarrow> 'm workflow_factory" where
  "workflow_factory_of configs modules =
     \<lparr>wff_configs = new_map (map (\<lambda>c. (cw_name c, c)) configs), wff_modules = new_map (map (\<lambda>m. (wm_type m, m)) modules)\<rparr>"

definition get_workflow :: "'m workflow_factory \<Rightarrow> string \<Rightarrow> string + (workflow_config \<times> 'm workflow_module)" where
  "get_workflow f name =
     (case map_of (wff_configs f) name of
        None \<Rightarrow> Inl (''unknown workflow \"'' @ name @ ''\"'')
      | Some c \<Rightarrow>
          (case map_of (wff_modules f) (cw_type c) of
             None \<Rightarrow> Inl (''workflow \"'' @ name @ ''\" has no module for type \"'' @ cw_type c @ ''\"'')
           | Some m \<Rightarrow> Inr (c, m)))"

record workflow_description =
  wy_name :: string
  wy_type :: string
  wy_description :: string
  wy_participants :: "(string \<times> node_def) list"

definition describe :: "workflow_config \<Rightarrow> workflow_description" where
  "describe c = \<lparr>wy_name = cw_name c, wy_type = cw_type c, wy_description = cw_description c, wy_participants = cw_participants c\<rparr>"

definition factory_description :: "'m workflow_factory \<Rightarrow> string option \<Rightarrow> string + workflow_description list" where
  "factory_description f name =
     (case name of
        None \<Rightarrow> Inr (map (describe \<circ> snd) (wff_configs f))
      | Some n \<Rightarrow> and_then (get_workflow f n) (\<lambda>cm. Inr [describe (fst cm)]))"

definition factory_read_docs :: "'m workflow_factory \<Rightarrow> string \<Rightarrow> string + string" where
  "factory_read_docs f name = and_then (get_workflow f name) (\<lambda>cm. Inr (cw_docs (fst cm)))"

section \<open>Building a workflow\<close>

definition config_args :: "workflow_config \<Rightarrow> json_object" where
  "config_args c = (case cw_args c of Some (JObj kvs) \<Rightarrow> kvs | _ \<Rightarrow> [])"

text \<open>\<open>{ ...base, ...override }\<close>.\<close>

definition merge_json_objects :: "json_object \<Rightarrow> json_object \<Rightarrow> json_object" where
  "merge_json_objects base override = fold (\<lambda>e. AList.update (fst e) (snd e)) override base"

fun kind_of_node :: "node_kind \<Rightarrow> string" where
  "kind_of_node AgentKind = ''agent''"
| "kind_of_node WorkflowKind = ''workflow''"

definition binding_json :: "node_def \<Rightarrow> json" where
  "binding_json b = JObj ([(''kind'', JStr (kind_of_node (nd_kind b))), (''name'', JStr (nd_name b))] @
     optional_member ''description'' (map_option JStr (nd_description b)))"

definition node_bindings_to_json :: "(string \<times> node_def) list \<Rightarrow> json_object" where
  "node_bindings_to_json bs = fold (\<lambda>b. AList.update (fst b) (binding_json (snd b))) bs []"

definition build_workflow_definition :: "workflow_config \<Rightarrow> json_object \<Rightarrow> wf_definition" where
  "build_workflow_definition c args =
     \<lparr>wd_description = Some (cw_description c), wd_nodes = Some (map snd (cw_participants c)), wd_args = Some args,
      wd_metadata = Some [(''workflowName'', JStr (cw_name c)), (''workflowType'', JStr (cw_type c)),
        (''nodeBindings'', JObj (node_bindings_to_json (cw_participants c)))]\<rparr>"

record 'm agentic_workflow =
  aw_config :: workflow_config
  aw_module :: "'m workflow_module"
  aw_construction_args :: json_object
  aw_definition :: wf_definition

definition create_workflow :: "'m workflow_factory \<Rightarrow> string \<Rightarrow> json_object option \<Rightarrow> string + 'm agentic_workflow" where
  "create_workflow f name args =
     and_then (get_workflow f name) (\<lambda>(c, m).
       let construction = merge_json_objects (config_args c) (case args of None \<Rightarrow> [] | Some a \<Rightarrow> a) in
       and_then (wm_parse m construction) (\<lambda>parsed.
         Inr \<lparr>aw_config = c, aw_module = m, aw_construction_args = construction,
              aw_definition = build_workflow_definition c parsed\<rparr>))"

section \<open>Starting a run\<close>

record workflow_start_input =
  si_args :: "json_object option"
  si_parent_workflow :: "string option"
  si_parent_node :: "string option"

text \<open>
  \<open>launch\<close> is the rest of the start for the run's identifier: runtime, bridge and initial context,
  with what it does to the store. \<open>uuid\<close> and the clock's readings at the creation of the record
  and at a failure are arguments.
\<close>

definition start_workflow ::
  "(string \<Rightarrow> wf_definition \<Rightarrow> 'm \<Rightarrow> json_object \<Rightarrow> 'h jsonl_store \<Rightarrow> (string + 'r) \<times> 'h jsonl_store) \<Rightarrow>
   string \<Rightarrow> string \<Rightarrow> string \<Rightarrow> 'm agentic_workflow \<Rightarrow> workflow_start_input \<Rightarrow> 'h jsonl_store \<Rightarrow> (string + 'r) \<times> 'h jsonl_store" where
  "start_workflow launch uuid now later w i s =
     (let args = merge_json_objects (aw_construction_args w) (case si_args i of None \<Rightarrow> [] | Some a \<Rightarrow> a) in
      case wm_parse (aw_module w) args of
        Inl err \<Rightarrow> (Inl err, s)
      | Inr parsed \<Rightarrow>
          (let def = build_workflow_definition (aw_config w) parsed in
           case workflow_run_create uuid now (cw_name (aw_config w)) (si_parent_workflow i) (si_parent_node i) s of
             Inl err \<Rightarrow> (Inl err, s)
           | Inr (run, s1) \<Rightarrow>
               (case (case wm_create (aw_module w) (cw_name (aw_config w)) def parsed of
                        Inl err \<Rightarrow> (Inl err, s1)
                      | Inr impl \<Rightarrow> launch run def impl parsed s1) of
                  (Inr h, s2) \<Rightarrow> (Inr h, s2)
                | (Inl err, s2) \<Rightarrow> record_failure run later err s2)))"

section \<open>Loading modules\<close>

text \<open>
  A loaded script is the list of its exports; an export is a workflow module, a context store, a
  maker of context stores, or something else.
\<close>

datatype ('m, 's) script_export = ModuleExport 'm | StoreExport 's | MakerExport "'s option" | OtherExport

fun export_module :: "('m, 's) script_export \<Rightarrow> 'm option" where
  "export_module (ModuleExport m) = Some m"
| "export_module _ = None"

definition module_from_exports :: "(string \<times> ('m workflow_module, 's) script_export) list \<Rightarrow> workflow_config \<Rightarrow> string + 'm workflow_module" where
  "module_from_exports exports c =
     (let candidates = List.map_filter (map_of exports) [''default'', ''module'', ''agenticWorkflow''] @ map snd exports in
      case List.map_filter export_module candidates of
        [] \<Rightarrow> Inl (''agentic workflow \"'' @ cw_name c @ ''\" module did not export a workflow module'')
      | m # _ \<Rightarrow>
          (if wm_type m \<noteq> cw_type c then
             Inl (''agentic workflow \"'' @ cw_name c @ ''\" expected module type \"'' @ cw_type c @ ''\" but loaded \"'' @ wm_type m @ ''\"'')
           else Inr m))"

definition context_store_from_exports :: "(string \<times> ('m, 's) script_export) list \<Rightarrow> string + 's option" where
  "context_store_from_exports exports =
     (case map_of exports ''contextStore'' of
        Some (StoreExport s) \<Rightarrow> Inr (Some s)
      | _ \<Rightarrow>
          (case map_of exports ''createContextStore'' of
             Some (MakerExport (Some s)) \<Rightarrow> Inr (Some s)
           | Some (MakerExport None) \<Rightarrow> Inl ''createContextStore() did not return an agentic workflow context store''
           | _ \<Rightarrow> Inr None))"

fun load_workflow_modules ::
  "(string \<Rightarrow> string + (string \<times> ('m workflow_module, 's) script_export) list) \<Rightarrow> workflow_config list \<Rightarrow>
   string + ('m workflow_module list \<times> 's list)" where
  "load_workflow_modules import_script [] = Inr ([], [])"
| "load_workflow_modules import_script (c # cs) =
     (case cw_module c of
        None \<Rightarrow> Inl (''agentic workflow \"'' @ cw_name c @ ''\" must declare a module'')
      | Some path \<Rightarrow>
          and_then (import_script path) (\<lambda>exports.
          and_then (module_from_exports exports c) (\<lambda>m.
          and_then (context_store_from_exports exports) (\<lambda>store.
          and_then (load_workflow_modules import_script cs) (\<lambda>(ms, ss).
            Inr (m # ms, (case store of None \<Rightarrow> ss | Some s \<Rightarrow> s # ss)))))))"

section \<open>Context stores\<close>

record tool_caller =
  tc_agent :: string
  tc_run :: "string option"

record context_store =
  cx_list :: "tool_caller \<Rightarrow> string \<Rightarrow> string + json list"
  cx_query :: "tool_caller \<Rightarrow> string \<Rightarrow> string \<Rightarrow> string + json list"

definition noop_context_store :: context_store where
  "noop_context_store = \<lparr>cx_list = (\<lambda>_ _. Inr []), cx_query = (\<lambda>_ _ _. Inr [])\<rparr>"

text \<open>\<open>Promise.all\<close> of the answers: all of them, or a failure.\<close>

fun all_answers :: "(string + 'a list) list \<Rightarrow> string + 'a list" where
  "all_answers [] = Inr []"
| "all_answers (a # as) = and_then a (\<lambda>xs. and_then (all_answers as) (\<lambda>ys. Inr (xs @ ys)))"

definition compose_context_stores :: "context_store list \<Rightarrow> context_store" where
  "compose_context_stores stores =
     (if stores = [] then noop_context_store
      else \<lparr>cx_list = (\<lambda>caller i. all_answers (map (\<lambda>s. cx_list s caller i) stores)),
            cx_query = (\<lambda>caller i q. all_answers (map (\<lambda>s. cx_query s caller i q) stores))\<rparr>)"

section \<open>The service behind the workflow tools\<close>

record 'm tool_service =
  ts_factory :: "'m workflow_factory"
  ts_context :: context_store
  ts_access :: "tool_caller \<Rightarrow> string \<Rightarrow> bool"

definition allow_all_access :: "tool_caller \<Rightarrow> string \<Rightarrow> bool" where
  "allow_all_access caller i = True"

definition assert_visible :: "string list \<Rightarrow> string \<Rightarrow> string + unit" where
  "assert_visible visible name =
     (if name \<in> set visible then Inr () else Inl (''workflow \"'' @ name @ ''\" is not visible to this agent''))"

definition can_start_workflow :: "'m tool_service \<Rightarrow> string \<Rightarrow> bool" where
  "can_start_workflow sv name = is_ok (get_workflow (ts_factory sv) name)"

definition delegate_workflow :: "'m tool_service \<Rightarrow> string list \<Rightarrow> string \<Rightarrow> json_object \<Rightarrow> string + 'm agentic_workflow" where
  "delegate_workflow sv visible name args =
     and_then (assert_visible visible name) (\<lambda>_. create_workflow (ts_factory sv) name (Some args))"

definition list_description :: "'m tool_service \<Rightarrow> string list \<Rightarrow> string option \<Rightarrow> string + workflow_description list" where
  "list_description sv visible name =
     (case name of
        None \<Rightarrow> factory_description (ts_factory sv) None
      | Some n \<Rightarrow> and_then (assert_visible visible n) (\<lambda>_. factory_description (ts_factory sv) (Some n)))"

definition read_workflow_docs :: "'m tool_service \<Rightarrow> string list \<Rightarrow> string \<Rightarrow> string + string" where
  "read_workflow_docs sv visible name = and_then (assert_visible visible name) (\<lambda>_. factory_read_docs (ts_factory sv) name)"

definition assert_can_access :: "'m tool_service \<Rightarrow> tool_caller \<Rightarrow> string \<Rightarrow> string + unit" where
  "assert_can_access sv caller i =
     (if ts_access sv caller i then Inr () else Inl (''workflow record \"'' @ i @ ''\" is not visible to this caller''))"

definition list_workflow_context :: "'m tool_service \<Rightarrow> tool_caller \<Rightarrow> string \<Rightarrow> string + json list" where
  "list_workflow_context sv caller i = and_then (assert_can_access sv caller i) (\<lambda>_. cx_list (ts_context sv) caller i)"

definition query_workflow_context :: "'m tool_service \<Rightarrow> tool_caller \<Rightarrow> string \<Rightarrow> string \<Rightarrow> string + json list" where
  "query_workflow_context sv caller i q = and_then (assert_can_access sv caller i) (\<lambda>_. cx_query (ts_context sv) caller i q)"

section \<open>A role is bound as it was configured\<close>

lemma as_binding_json: "as_binding (binding_json b) = Some b"
  by (cases b; cases "nd_kind b"; cases "nd_description b")
    (auto simp: as_binding_def binding_json_def optional_member_def)

lemma map_of_bindings: "map_of (node_bindings_to_json bs) role = map_option binding_json (map_of (rev bs) role)"
  unfolding node_bindings_to_json_def
  by (induction bs rule: rev_induct) (auto simp: update_conv')

text \<open>
  C36: the participants of a workflow survive their way through the definition's metadata. From the
  definition that the factory builds, a workflow reads back for each role the very node that the
  configuration binds to it, provided the configuration binds every role that the workflow
  requires; if one of them is missing, no role is bound at all and the workflow dispatches nothing.
\<close>

theorem bindings_roundtrip:
  assumes "distinct (map fst (cw_participants c))"
  shows "binding_for roles (build_workflow_definition c args) role =
    (if set roles \<subseteq> fst ` set (cw_participants c) then map_of (cw_participants c) role else None)"
proof -
  have m: "map_of (node_bindings_to_json (cw_participants c)) r = map_option binding_json (map_of (cw_participants c) r)" for r
  proof -
    have "map_of (rev (cw_participants c)) = map_of (cw_participants c)"
      using assms by (subst map_of_inject_set) (simp_all flip: rev_map)
    then show ?thesis by (simp add: map_of_bindings)
  qed
  have "is_binding_map roles (node_bindings_to_json (cw_participants c)) \<longleftrightarrow> set roles \<subseteq> fst ` set (cw_participants c)"
  proof -
    have "(case map_of (node_bindings_to_json (cw_participants c)) r of Some j \<Rightarrow> as_binding j \<noteq> None | None \<Rightarrow> False) \<longleftrightarrow>
        r \<in> fst ` set (cw_participants c)" for r
    proof (cases "map_of (cw_participants c) r")
      case None
      then show ?thesis using map_of_eq_None_iff [of "cw_participants c" r] by (simp add: m)
    next
      case (Some b)
      then have "r \<in> fst ` set (cw_participants c)" by (force dest: map_of_SomeD)
      with Some show ?thesis by (simp add: m as_binding_json)
    qed
    then show ?thesis by (auto simp: is_binding_map_def list_all_iff)
  qed
  then show ?thesis
    by (cases "map_of (cw_participants c) role") (simp_all add: binding_for_def build_workflow_definition_def m as_binding_json)
qed

definition sample_config :: workflow_config where
  "sample_config = \<lparr>cw_name = ''ralph'', cw_type = ''ralph_loop'', cw_module = None, cw_args = None, cw_description = [], cw_docs = [],
     cw_participants = [(''planner'', \<lparr>nd_kind = AgentKind, nd_name = ''p'', nd_description = None\<rparr>),
       (''reviewer'', \<lparr>nd_kind = WorkflowKind, nd_name = ''r'', nd_description = Some ''d''\<rparr>),
       (''critic'', \<lparr>nd_kind = AgentKind, nd_name = ''c'', nd_description = None\<rparr>)], cw_tools = [''start'']\<rparr>"

theorem bindings_roundtrip_witness:
  "binding_for ralph_roles (build_workflow_definition sample_config []) ''reviewer'' =
     Some \<lparr>nd_kind = WorkflowKind, nd_name = ''r'', nd_description = Some ''d''\<rparr>"
  by (subst bindings_roundtrip) (simp_all add: sample_config_def ralph_roles_def)

section \<open>A failed start is on record\<close>

text \<open>
  A start that fails does not leave a run behind that looks alive. When the arguments do not
  parse, nothing is recorded; otherwise the run's record ends with the failure and its reason,
  wherever in the start it happened, as long as the rest of the start keeps the run's directory.
\<close>

lemma failed_start_recorded:
  assumes launch: "\<And>run def impl p s1 r s2. launch run def impl p s1 = (r, s2) \<Longrightarrow>
      js_root s2 = js_root s1 \<and> (js_disk s1 (run_dir s1 run) \<noteq> None \<longrightarrow> js_disk s2 (run_dir s1 run) \<noteq> None)"
    and failed: "start_workflow launch uuid now later w i s = (Inl err, s')"
  shows "wm_parse (aw_module w) (merge_json_objects (aw_construction_args w) (case si_args i of None \<Rightarrow> [] | Some a \<Rightarrow> a)) = Inl err \<and> s' = s \<or>
    read_file (run_dir s (mint_workflow_run_id uuid)) ''outcome.json'' (js_disk s') =
      Some (json_line (JObj [(''status'', JStr ''start_failed''), (''finishedAt'', JStr later), (''reason'', JStr err)]))"
proof (cases "wm_parse (aw_module w) (merge_json_objects (aw_construction_args w) (case si_args i of None \<Rightarrow> [] | Some a \<Rightarrow> a))")
  case (Inl e)
  with failed show ?thesis by (simp add: start_workflow_def Let_def)
next
  case (Inr parsed)
  let ?run = "mint_workflow_run_id uuid"
  let ?def = "build_workflow_definition (aw_config w) parsed"
  obtain s1 where c: "workflow_run_create uuid now (cw_name (aw_config w)) (si_parent_workflow i) (si_parent_node i) s = Inr (?run, s1)"
    and d1: "js_disk s1 (run_dir s ?run) \<noteq> None" and r1: "js_root s1 = js_root s"
  proof -
    let ?meta = "JObj [(''workflowRunId'', JStr ?run), (''workflowName'', JStr (cw_name (aw_config w))),
      (''parentWorkflowRunId'', null_or (si_parent_workflow i)), (''parentNodeRunId'', null_or (si_parent_node i)),
      (''status'', JStr ''running''), (''createdAt'', JStr now)]"
    obtain s1 where "create_run ?run ?meta s = Inr s1" "js_root s1 = js_root s" "js_disk s1 (run_dir s ?run) \<noteq> None"
      using create_run_ok by blast
    with that [of s1] show ?thesis by (simp add: workflow_run_create_def Let_def)
  qed
  obtain s2 e0 where s2: "js_root s2 = js_root s" "js_disk s2 (run_dir s ?run) \<noteq> None" "start_workflow launch uuid now later w i s = record_failure ?run later e0 s2"
  proof (cases "wm_create (aw_module w) (cw_name (aw_config w)) ?def parsed")
    case (Inl e)
    with c Inr have "start_workflow launch uuid now later w i s = record_failure ?run later e s1" by (simp add: start_workflow_def Let_def)
    from that [OF r1 d1 this] show ?thesis .
  next
    case (Inr impl)
    obtain r s2 where l: "launch ?run ?def impl parsed s1 = (r, s2)" by (cases "launch ?run ?def impl parsed s1")
    have "run_dir s1 ?run = run_dir s ?run" using r1 by (simp add: run_dir_def)
    with launch [OF l] d1 r1 have "js_root s2 = js_root s" "js_disk s2 (run_dir s ?run) \<noteq> None" by auto
    moreover from failed c \<open>wm_parse _ _ = Inr parsed\<close> Inr l obtain e0 where "r = Inl e0"
      by (auto simp: start_workflow_def Let_def split: sum.splits)
    then have "start_workflow launch uuid now later w i s = record_failure ?run later e0 s2"
      using c \<open>wm_parse _ _ = Inr parsed\<close> Inr l by (simp add: start_workflow_def Let_def)
    ultimately show ?thesis by (rule that)
  qed
  have dir: "run_dir s2 ?run = run_dir s ?run" using s2(1) by (simp add: run_dir_def)
  with s2(2) have "js_disk s2 (run_dir s2 ?run) \<noteq> None" by simp
  note known = record_failure_known [OF this]
  from trans [OF failed [symmetric] s2(3)] dir show ?thesis by (auto simp: known read_file_def)
qed

text \<open>A launch that fails at once keeps the store.\<close>

definition failing_start :: "(string + unit) \<times> unit jsonl_store" where
  "failing_start = start_workflow (\<lambda>run def (impl :: unit) p s. (Inl ''boom'', s)) ''1'' ''t'' ''u''
      \<lparr>aw_config = sample_config, aw_module = \<lparr>wm_type = ''ralph_loop'', wm_parse = Inr, wm_create = (\<lambda>_ _ _. Inr ())\<rparr>,
       aw_construction_args = [], aw_definition = build_workflow_definition sample_config []\<rparr>
      \<lparr>si_args = None, si_parent_workflow = None, si_parent_node = None\<rparr> (empty_store [''runs''])"

section \<open>What an agent sees of the workflows\<close>

definition two_workflows :: "unit tool_service" where
  "two_workflows = \<lparr>ts_factory = workflow_factory_of [sample_config, sample_config\<lparr>cw_name := ''secret''\<rparr>]
       [\<lparr>wm_type = ''ralph_loop'', wm_parse = Inr, wm_create = (\<lambda>_ _ _. Inr ())\<rparr>],
     ts_context = noop_context_store, ts_access = allow_all_access\<rparr>"

text \<open>
  The list of visible workflows is not restricted to them. An agent that may use one workflow
  gets from \<open>list_workflow_description\<close> without a name (and in its system prompt) the
  description of every configured workflow; asked for one by name, or to delegate to it or to read
  its manual, the service refuses those that are not visible.
\<close>

lemma description_lists_invisible:
  "map_sum id (map wy_name) (list_description two_workflows [''ralph''] None) = Inr [''ralph'', ''secret''] \<and>
   \<not> is_ok (list_description two_workflows [''ralph''] (Some ''secret'')) \<and>
   \<not> is_ok (delegate_workflow two_workflows [''ralph''] ''secret'' []) \<and>
   \<not> is_ok (read_workflow_docs two_workflows [''ralph''] ''secret'') \<and>
   is_ok (delegate_workflow two_workflows [''ralph''] ''ralph'' [])"
  by (simp add: two_workflows_def list_description_def delegate_workflow_def read_workflow_docs_def factory_description_def
      workflow_factory_of_def new_map_def assert_visible_def describe_def sample_config_def create_workflow_def get_workflow_def Let_def)

end
