(* ===== verification/PursuitStore.thy ===== *)
theory PursuitStore
  imports PursuitProps PursuitTree WorkflowFactory "HOL-Library.Sublist" "HOL-Library.Multiset"
begin

text \<open>
  The context store of the pursuit module (\<open>createPursuitContextStore\<close>): agents list and search the
  context of a pursuit, which is built from a snapshot of its run, live or recorded. The answers are exact
  for what \<open>PursuitTree\<close> says a pursuit holds.
\<close>

section \<open>The store\<close>

text \<open>\<open>None\<close>: the state is not one of a pursuit.\<close>

definition pursuit_state_from_snapshot :: "json_object \<Rightarrow> json_object option" where
  "pursuit_state_from_snapshot m =
     (if map_of m ''pursuit'' = None \<or> map_of m ''legs'' = None \<or> map_of m ''failures'' = None then None else Some m)"

definition snapshot_running :: "wf_snapshot \<Rightarrow> runtime_snapshot" where
  "snapshot_running sn = \<lparr>rt_running = wn_running sn, rt_finished = wn_finished sn, rt_timeline = wn_timeline sn\<rparr>"

text \<open>
  The store keeps the handle of a run that was started with it, and otherwise calls the function
  \<open>readLatestSnapshot\<close> that it took from the host's run store, if there is one. \<open>'h\<close> is the type of the
  handles and \<open>live\<close> their \<open>snapshot()\<close>. A snapshot's state that has the three members is taken for a pursuit's
  without a check: \<open>taken\<close> is the pursuit that the builder then sees in the object.
\<close>

record 'h pursuit_store =
  ps_handles :: "(string \<times> 'h) list"
  ps_latest :: "(string \<Rightarrow> string + wf_snapshot option) option"

definition project_initial_context :: "string \<Rightarrow> 'h \<Rightarrow> 'h pursuit_store \<Rightarrow> 'h pursuit_store" where
  "project_initial_context run_id h s = s\<lparr>ps_handles := AList.update run_id h (ps_handles s)\<rparr>"

definition snapshot_for :: "('h \<Rightarrow> wf_snapshot) \<Rightarrow> 'h pursuit_store \<Rightarrow> string \<Rightarrow> string + wf_snapshot option" where
  "snapshot_for live s record_id =
     (case map_of (ps_handles s) record_id of
        Some h \<Rightarrow> Inr (Some (live h))
      | None \<Rightarrow> (case ps_latest s of None \<Rightarrow> Inr None | Some latest \<Rightarrow> latest record_id))"

definition context_for_run ::
  "(json_object \<Rightarrow> pursuit_data) \<Rightarrow> ('h \<Rightarrow> wf_snapshot) \<Rightarrow> 'h pursuit_store \<Rightarrow> string \<Rightarrow> string + context_tree option" where
  "context_for_run taken live s record_id =
     and_then (snapshot_for live s record_id) (\<lambda>found. Inr
       (case found of
          None \<Rightarrow> None
        | Some sn \<Rightarrow> map_option (\<lambda>m. build_context (taken m) (running_metadata (snapshot_running sn)))
            (pursuit_state_from_snapshot (wn_state sn))))"

definition pursuit_context_store ::
  "(json_object \<Rightarrow> pursuit_data) \<Rightarrow> (string \<Rightarrow> 'k::linorder) \<Rightarrow> ('h \<Rightarrow> wf_snapshot) \<Rightarrow> 'h pursuit_store \<Rightarrow> context_store" where
  "pursuit_context_store taken collation live s =
     \<lparr>cx_list = (\<lambda>_ i. and_then (context_for_run taken live s i) (\<lambda>c. Inr (case c of None \<Rightarrow> [] | Some t \<Rightarrow> list_context_rows collation t))),
      cx_query = (\<lambda>_ i q. and_then (context_for_run taken live s i) (\<lambda>c. Inr (case c of None \<Rightarrow> [] | Some t \<Rightarrow> search_context_rows t q)))\<rparr>"

text \<open>
  The store takes \<open>readLatestSnapshot\<close> off the run store and calls it without its object. The method of
  \<open>JsonlWorkflowRunStore\<close> then fails at \<open>this.#runDir\<close>, inside its own \<open>try\<close>, and answers \<open>undefined\<close>
  whatever is on record: the context of a run of an earlier process is always empty.
\<close>

definition detached_read_latest :: "string \<Rightarrow> string + wf_snapshot option" where
  "detached_read_latest record_id = Inr None"

lemma recorded_context_is_never_found:
  "map_of (ps_handles s) i = None \<Longrightarrow> ps_latest s = None \<or> ps_latest s = Some detached_read_latest \<Longrightarrow>
   cx_list (pursuit_context_store taken collation live s) caller i = Inr []"
  by (auto simp: pursuit_context_store_def context_for_run_def snapshot_for_def detached_read_latest_def)

section \<open>The members of a row\<close>

definition row_member :: "json \<Rightarrow> string \<Rightarrow> json option" where
  "row_member r k = (case r of JObj m \<Rightarrow> map_of m k | _ \<Rightarrow> None)"

definition string_field :: "json \<Rightarrow> string \<Rightarrow> string" where
  "string_field r k = (case row_member r k of Some (JStr x) \<Rightarrow> x | _ \<Rightarrow> [])"

definition row_path :: "json \<Rightarrow> string" where
  "row_path r = string_field r ''path''"

definition row_owner :: "json \<Rightarrow> owner_view" where
  "row_owner r = (string_field r ''owner_kind'', string_field r ''owner_id'', string_field r ''status'')"

definition of_kind :: "string \<Rightarrow> json \<Rightarrow> bool" where
  "of_kind k r = (string_field r ''kind'' = k)"

lemmas row_reading = row_path_def row_owner_def of_kind_def string_field_def row_member_def owner_view_def

lemma dir_row_reads:
  "fst (dir_row root e) = row_path (snd (dir_row root e))"
  "row_path (snd (dir_row root e)) = (if fst e = [] then root else root @ ''/'' @ fst e)"
  "row_owner (snd (dir_row root e)) = owner_view (cd_owner (snd e))"
  "row_member (snd (dir_row root e)) ''superseded'' = Some (JBool (cd_superseded (snd e)))"
  "of_kind ''directory'' (snd (dir_row root e))" "\<not> of_kind ''file'' (snd (dir_row root e))"
  by (simp_all add: dir_row_def Let_def row_reading)

lemma file_row_reads:
  "fst (file_row root e) = row_path (snd (file_row root e))"
  "row_path (snd (file_row root e)) = root @ ''/'' @ fst e"
  "row_owner (snd (file_row root e)) = owner_view (cf_owner (snd e))"
  "row_member (snd (file_row root e)) ''bytes'' = Some (jnat (length (cf_content (snd e))))"
  "of_kind ''file'' (snd (file_row root e))" "\<not> of_kind ''directory'' (snd (file_row root e))"
  by (simp_all add: file_row_def Let_def row_reading)

section \<open>What the answers say\<close>

text \<open>
  A listing has one row for each directory and one for each file that the pursuit holds, with the owner
  of what it holds there, in the order of the collation.
\<close>

definition context_path :: "pursuit_data \<Rightarrow> string \<Rightarrow> string" where
  "context_path d p = ''pursuit_'' @ pt_id (pd_pursuit d) @ (if p = [] then [] else ''/'' @ p)"

definition lists_pursuit :: "(string \<Rightarrow> 'k::linorder) \<Rightarrow> pursuit_data \<Rightarrow> running_set \<Rightarrow> json list \<Rightarrow> bool" where
  "lists_pursuit collation d running rows =
     (sorted (map (\<lambda>r. collation (row_path r)) rows) \<and>
      (\<forall>r \<in> set rows. of_kind ''directory'' r \<or> of_kind ''file'' r) \<and>
      distinct (map row_path (filter (of_kind ''directory'') rows)) \<and>
      distinct (map row_path (filter (of_kind ''file'') rows)) \<and>
      row_path ` set (filter (of_kind ''directory'') rows) = {context_path d p | p. \<exists>v old. holds_dir d running p v old} \<and>
      row_path ` set (filter (of_kind ''file'') rows) = {context_path d p | p. \<exists>v c. holds_file d running p v c} \<and>
      (\<forall>r \<in> set (filter (of_kind ''directory'') rows). \<exists>p old. row_path r = context_path d p \<and>
         holds_dir d running p (row_owner r) old \<and> row_member r ''superseded'' = Some (JBool old)) \<and>
      (\<forall>r \<in> set (filter (of_kind ''file'') rows). \<exists>p c. row_path r = context_path d p \<and>
         holds_file d running p (row_owner r) c \<and> row_member r ''bytes'' = Some (jnat (length c))))"

text \<open>
  A search finds files whose content has the text in it, up to case, and shows a piece of the content with
  the text in it and at most 48 characters around it; it finds every file that has it.
\<close>

definition contains_text :: "string \<Rightarrow> string \<Rightarrow> bool" where
  "contains_text q c = sublist (map lower_char q) (map lower_char c)"

definition shows_match :: "string \<Rightarrow> string \<Rightarrow> string \<Rightarrow> bool" where
  "shows_match q c snippet =
     (\<exists>before found after. snippet = before @ found @ after \<and> map lower_char found = map lower_char q \<and>
        length before \<le> 48 \<and> length after \<le> 48 \<and> sublist snippet c)"

definition finds_in_pursuit :: "pursuit_data \<Rightarrow> running_set \<Rightarrow> string \<Rightarrow> json list \<Rightarrow> bool" where
  "finds_in_pursuit d running q rows =
     (distinct (map row_path rows) \<and>
      (\<forall>r \<in> set rows. \<exists>p c. row_path r = context_path d p \<and> holds_file d running p (row_owner r) c \<and> contains_text q c \<and>
         shows_match q c (string_field r ''snippet'')) \<and>
      (\<forall>p. (\<exists>v c. holds_file d running p v c) \<and> (\<forall>v c. holds_file d running p v c \<longrightarrow> contains_text q c) \<longrightarrow>
         context_path d p \<in> row_path ` set rows))"

section \<open>Searching a text\<close>

lemma starts_with_prefix: "starts_with p s \<longleftrightarrow> prefix p s"
  by (metis append_eq_conv_conj append_take_drop_id prefix_def starts_with_def)

lemma index_of_None: "index_of p s = None \<longleftrightarrow> \<not> sublist p s"
  by (induction s) (auto simp: sublist_Cons_right starts_with_prefix)

lemma index_of_Some: "index_of p s = Some i \<Longrightarrow> \<exists>a b. s = a @ p @ b \<and> length a = i"
proof (induction s arbitrary: i)
  case Nil
  then show ?case by (simp split: if_splits)
next
  case (Cons c cs)
  show ?case
  proof (cases "starts_with p (c # cs)")
    case True
    with Cons.prems show ?thesis by (auto simp: starts_with_prefix prefix_def)
  next
    case False
    with Cons.prems obtain j where "index_of p cs = Some j" "i = Suc j" by auto
    with Cons.IH obtain a b where "cs = a @ p @ b" "length a = j" by blast
    with \<open>i = Suc j\<close> show ?thesis by (intro exI [of _ "c # a"] exI [of _ b]) simp
  qed
qed

lemma snippet_split:
  "drop (length a - 48) (take (min (length (a @ b @ d)) (length a + length b + 48)) (a @ b @ d)) = drop (length a - 48) a @ b @ take 48 d"
proof -
  have "take (min (length (a @ b @ d)) (length a + length b + 48)) (a @ b @ d) = a @ b @ take 48 d"
    by (cases "length d \<le> 48") (simp_all add: min_def)
  then show ?thesis by simp
qed

lemma search_row_found:
  assumes "search_row root q e = Some r"
  shows "row_path r = root @ ''/'' @ fst e" and "row_owner r = owner_view (cf_owner (snd e))"
    and "contains_text q (cf_content (snd e))" and "shows_match q (cf_content (snd e)) (string_field r ''snippet'')"
proof -
  let ?c = "cf_content (snd e)"
  from assms obtain i where i: "index_of (map lower_char q) (map lower_char ?c) = Some i"
    and r: "r = JObj [(''path'', JStr (root @ ''/'' @ fst e)), (''status'', JStr (ow_status (cf_owner (snd e)))),
      (''owner_kind'', JStr (owner_text (ow_kind (cf_owner (snd e))))), (''owner_id'', JStr (ow_id (cf_owner (snd e)))),
      (''snippet'', JStr (drop (i - 48) (take (min (length ?c) (i + length q + 48)) ?c)))]"
    by (auto simp: search_row_def Let_def CONTEXT_SNIPPET_RADIUS_def split: option.splits)
  show "row_path r = root @ ''/'' @ fst e" "row_owner r = owner_view (cf_owner (snd e))" by (simp_all add: r row_reading)
  show "contains_text q ?c" using i index_of_None [of "map lower_char q" "map lower_char ?c"] by (simp add: contains_text_def)
  from index_of_Some [OF i] obtain a b where "map lower_char ?c = a @ map lower_char q @ b" "length a = i" by blast
  then obtain a' rest where "?c = a' @ rest" and rest: "map lower_char rest = map lower_char q @ b" and l: "length a' = i"
    by (metis length_map map_eq_append_conv)
  from rest obtain q' b' where "rest = q' @ b'" and q: "map lower_char q' = map lower_char q" by (metis map_eq_append_conv)
  with \<open>?c = a' @ rest\<close> have c: "?c = a' @ q' @ b'" by simp
  from q have "length q' = length q" by (rule map_eq_imp_length_eq)
  then have "string_field r ''snippet'' = drop (i - 48) a' @ q' @ take 48 b'"
    using snippet_split [of a' q' b'] by (simp add: r row_reading c l)
  moreover have "sublist (drop (i - 48) a' @ q' @ take 48 b') ?c"
  proof -
    have "?c = take (i - 48) a' @ (drop (i - 48) a' @ q' @ take 48 b') @ drop 48 b'" by (simp add: c)
    then show ?thesis by (metis sublist_appendI)
  qed
  ultimately show "shows_match q ?c (string_field r ''snippet'')"
    unfolding shows_match_def using q l by (intro exI [of _ "drop (i - 48) a'"] exI [of _ q'] exI [of _ "take 48 b'"]) simp
qed

lemma search_row_none: "search_row root q e = None \<longleftrightarrow> \<not> contains_text q (cf_content (snd e))"
  by (simp add: search_row_def Let_def contains_text_def index_of_None [symmetric] split: option.splits)

section \<open>The answers are exact\<close>

lemma context_path_file: "p \<noteq> [] \<Longrightarrow> root_path (pt_id (pd_pursuit d)) @ ''/'' @ p = context_path d p"
  by (simp add: context_path_def root_path_def)

lemma context_path_dir: "(if p = [] then root_path (pt_id (pd_pursuit d)) else root_path (pt_id (pd_pursuit d)) @ ''/'' @ p) = context_path d p"
  by (simp add: context_path_def root_path_def)

lemma context_path_eq: "context_path d p = context_path d p' \<longleftrightarrow> p = p'"
  by (simp add: context_path_def)

lemma held_file_named: "holds_file d running p v c \<Longrightarrow> p \<noteq> []"
  by (cases rule: holds_file.cases) auto

lemma distinct_context_paths: "distinct (map fst xs) \<Longrightarrow> distinct (map (\<lambda>e. context_path d (fst e)) xs)"
  by (simp add: distinct_map inj_on_def context_path_eq)

lemma fst_image_triple: "fst ` S = {p. \<exists>v x. (p, v, x) \<in> S}"
  by force

lemma tree_dir:
  assumes "e \<in> set (ct_dirs (build_context d running))"
  shows "holds_dir d running (fst e) (owner_view (cd_owner (snd e))) (cd_superseded (snd e))"
proof -
  from assms have "dir_view e \<in> pursuit_dirs d running" using filled_build [of d running] unfolding filled_def by blast
  then show ?thesis by (simp add: dir_view_def dirs_held)
qed

lemma tree_file:
  assumes "e \<in> set (ct_files (build_context d running))"
  shows "holds_file d running (fst e) (owner_view (cf_owner (snd e))) (cf_content (snd e))"
proof -
  from assms have "file_view e \<in> pursuit_puts d running" using filled_build [of d running] unfolding filled_def by blast
  then show ?thesis by (simp add: file_view_def files_held)
qed

lemma tree_paths:
  "fst ` set (ct_dirs (build_context d running)) = {p. \<exists>v old. holds_dir d running p v old}"
  "fst ` set (ct_files (build_context d running)) = {p. \<exists>v c. holds_file d running p v c}"
  "distinct (map fst (ct_dirs (build_context d running)))" "distinct (map fst (ct_files (build_context d running)))"
proof -
  note built = filled_build [of d running, unfolded filled_def fst_image_triple [of "pursuit_dirs d running"]
    fst_image_triple [of "pursuit_puts d running"] dirs_held files_held]
  show "fst ` set (ct_dirs (build_context d running)) = {p. \<exists>v old. holds_dir d running p v old}" by (rule built [THEN conjunct2, THEN conjunct2, THEN conjunct2, THEN conjunct2, THEN conjunct1])
  show "fst ` set (ct_files (build_context d running)) = {p. \<exists>v c. holds_file d running p v c}" by (rule built [THEN conjunct2, THEN conjunct2, THEN conjunct1])
  show "distinct (map fst (ct_dirs (build_context d running)))" by (rule built [THEN conjunct2, THEN conjunct1])
  show "distinct (map fst (ct_files (build_context d running)))" by (rule built [THEN conjunct1])
qed

lemma filter_sorted:
  "mset (filter P (map snd (sort_key f xs))) = mset (filter P (map snd xs))"
  by (simp only: mset_filter mset_map mset_sort)

lemma listing_is_of_pursuit: "lists_pursuit collation d running (list_context_rows collation (build_context d running))"
proof -
  let ?t = "build_context d running" and ?rows = "list_context_rows collation (build_context d running)"
  let ?root = "root_path (pt_id (pd_pursuit d))"
  define pairs where "pairs = map (dir_row ?root) (ct_dirs ?t) @ map (file_row ?root) (ct_files ?t)"
  have rows: "?rows = map snd (sort_key (\<lambda>r. collation (fst r)) pairs)" by (simp add: list_context_rows_def build_root pairs_def)
  have same: "fst r = row_path (snd r)" if "r \<in> set pairs" for r
    using that by (auto simp: pairs_def dir_row_reads(1) file_row_reads(1))
  have ordered: "sorted (map (\<lambda>r. collation (row_path r)) ?rows)"
  proof -
    have "map (\<lambda>r. collation (row_path r)) ?rows = map (\<lambda>r. collation (fst r)) (sort_key (\<lambda>r. collation (fst r)) pairs)"
      unfolding rows map_map by (rule map_cong [OF refl]) (simp add: same)
    then show ?thesis by simp
  qed
  have named: "fst e \<noteq> []" if "e \<in> set (ct_files ?t)" for e using tree_file [OF that] by (rule held_file_named)
  have filters: "filter (of_kind ''directory'') (map snd pairs) = map (\<lambda>e. snd (dir_row ?root e)) (ct_dirs ?t)"
    "filter (of_kind ''file'') (map snd pairs) = map (\<lambda>e. snd (file_row ?root e)) (ct_files ?t)"
    by (simp_all add: pairs_def filter_map comp_def dir_row_reads(5,6) file_row_reads(5,6) filter_empty_conv)
  have paths: "map row_path (filter (of_kind ''directory'') (map snd pairs)) = map (\<lambda>e. context_path d (fst e)) (ct_dirs ?t)"
    "map row_path (filter (of_kind ''file'') (map snd pairs)) = map (\<lambda>e. context_path d (fst e)) (ct_files ?t)"
    unfolding filters map_map comp_def dir_row_reads(2) file_row_reads(2) context_path_dir
    by (rule refl, rule map_cong [OF refl], rule context_path_file [OF named])
  have sets: "set (filter k ?rows) = set (filter k (map snd pairs))" for k
    unfolding rows using filter_sorted [THEN arg_cong [of _ _ set_mset]] by (simp only: set_mset_mset)
  have dist: "distinct (map row_path (filter k ?rows)) = distinct (map row_path (filter k (map snd pairs)))" for k
    unfolding rows by (rule mset_eq_imp_distinct_iff) (simp only: mset_map filter_sorted)
  have dirs: "row_path ` set (filter (of_kind ''directory'') ?rows) = {context_path d p | p. \<exists>v old. holds_dir d running p v old}"
  proof -
    have "row_path ` set (filter (of_kind ''directory'') ?rows) = context_path d ` fst ` set (ct_dirs ?t)"
      unfolding sets using paths(1) [THEN arg_cong [of _ _ set]] by (simp only: set_map image_image)
    then show ?thesis unfolding tree_paths by blast
  qed
  have files: "row_path ` set (filter (of_kind ''file'') ?rows) = {context_path d p | p. \<exists>v c. holds_file d running p v c}"
  proof -
    have "row_path ` set (filter (of_kind ''file'') ?rows) = context_path d ` fst ` set (ct_files ?t)"
      unfolding sets using paths(2) [THEN arg_cong [of _ _ set]] by (simp only: set_map image_image)
    then show ?thesis unfolding tree_paths by blast
  qed
  have dir_rows: "\<forall>r \<in> set (filter (of_kind ''directory'') ?rows). \<exists>p old. row_path r = context_path d p \<and>
      holds_dir d running p (row_owner r) old \<and> row_member r ''superseded'' = Some (JBool old)"
  proof
    fix r assume "r \<in> set (filter (of_kind ''directory'') ?rows)"
    then obtain e where e: "e \<in> set (ct_dirs ?t)" and r: "r = snd (dir_row ?root e)" unfolding sets filters by auto
    have "row_path r = context_path d (fst e)" unfolding r dir_row_reads(2) by (rule context_path_dir)
    with tree_dir [OF e] show "\<exists>p old. row_path r = context_path d p \<and> holds_dir d running p (row_owner r) old \<and> row_member r ''superseded'' = Some (JBool old)"
      unfolding r dir_row_reads(3,4) by blast
  qed
  have file_rows: "\<forall>r \<in> set (filter (of_kind ''file'') ?rows). \<exists>p c. row_path r = context_path d p \<and>
      holds_file d running p (row_owner r) c \<and> row_member r ''bytes'' = Some (jnat (length c))"
  proof
    fix r assume "r \<in> set (filter (of_kind ''file'') ?rows)"
    then obtain e where e: "e \<in> set (ct_files ?t)" and r: "r = snd (file_row ?root e)" unfolding sets filters by auto
    have "row_path r = context_path d (fst e)" unfolding r file_row_reads(2) by (rule context_path_file [OF named [OF e]])
    with tree_file [OF e] show "\<exists>p c. row_path r = context_path d p \<and> holds_file d running p (row_owner r) c \<and> row_member r ''bytes'' = Some (jnat (length c))"
      unfolding r file_row_reads(3,4) by blast
  qed
  have kinds: "\<forall>r \<in> set ?rows. of_kind ''directory'' r \<or> of_kind ''file'' r"
    by (auto simp: rows pairs_def dir_row_reads(5) file_row_reads(5))
  show ?thesis unfolding lists_pursuit_def using ordered kinds dirs files dir_rows file_rows
    by (simp only: dist paths distinct_context_paths [OF tree_paths(3)] distinct_context_paths [OF tree_paths(4)] simp_thms)
qed

lemma search_is_of_pursuit: "finds_in_pursuit d running q (search_context_rows (build_context d running) q)"
proof -
  let ?t = "build_context d running" and ?rows = "search_context_rows (build_context d running) q"
  let ?row = "search_row (root_path (pt_id (pd_pursuit d))) q"
  have rows: "?rows = List.map_filter ?row (ct_files ?t)" by (simp add: search_context_rows_def build_root)
  have named: "fst e \<noteq> []" if "e \<in> set (ct_files ?t)" for e using tree_file [OF that] by (rule held_file_named)
  have path: "row_path r = context_path d (fst e)" if "e \<in> set (ct_files ?t)" "?row e = Some r" for e r
    using search_row_found(1) [OF that(2)] context_path_file [OF named [OF that(1)]] by simp
  have paths: "map row_path ?rows = map (\<lambda>e. context_path d (fst e)) (filter (\<lambda>e. ?row e \<noteq> None) (ct_files ?t))"
    unfolding rows map_filter_def map_map
  proof (rule map_cong [OF refl])
    fix e assume "e \<in> set (filter (\<lambda>e. ?row e \<noteq> None) (ct_files ?t))"
    then obtain r where "e \<in> set (ct_files ?t)" "?row e = Some r" by auto
    with path [OF this] show "(row_path \<circ> (the \<circ> ?row)) e = context_path d (fst e)" by simp
  qed
  have "distinct (map fst (filter (\<lambda>e. ?row e \<noteq> None) (ct_files ?t)))" using tree_paths(4) by (rule distinct_map_filter)
  then have "distinct (map row_path ?rows)" unfolding paths by (rule distinct_context_paths)
  moreover have "\<exists>p c. row_path r = context_path d p \<and> holds_file d running p (row_owner r) c \<and> contains_text q c \<and>
      shows_match q c (string_field r ''snippet'')" if "r \<in> set ?rows" for r
  proof -
    from that obtain e where e: "e \<in> set (ct_files ?t)" "?row e = Some r" unfolding rows by (auto simp: map_filter_def)
    have "holds_file d running (fst e) (row_owner r) (cf_content (snd e))" using tree_file [OF e(1)] by (simp only: search_row_found(2) [OF e(2)])
    with path [OF e] search_row_found(3,4) [OF e(2)] show ?thesis by blast
  qed
  moreover have "context_path d p \<in> row_path ` set ?rows"
    if "holds_file d running p v c" and all: "\<forall>v c. holds_file d running p v c \<longrightarrow> contains_text q c" for p v c
  proof -
    from that(1) have "p \<in> fst ` set (ct_files ?t)" unfolding tree_paths by blast
    then obtain e where e: "e \<in> set (ct_files ?t)" "p = fst e" by auto
    with all tree_file [OF e(1)] have "contains_text q (cf_content (snd e))" by blast
    then have "?row e \<noteq> None" by (simp add: search_row_none)
    with e have "context_path d p \<in> set (map row_path ?rows)" unfolding paths by simp
    then show ?thesis by simp
  qed
  ultimately show ?thesis unfolding finds_in_pursuit_def by blast
qed

text \<open>
  C35: whatever the state is taken for, the context store answers for the pursuit that it is taken for. A
  listing has one row for each directory and one for each file the pursuit holds, sorted, each with the owner
  of what is held there, a superseded attempt's directories marked, a file's length told. A search finds
  files that have the text up to case, each with a piece of its content around a match, and misses none.
  Where ids repeat, a path holds one of the contents put there, as the maps of the builder do. Without a snapshot, or when the snapshot's state is of no pursuit, both answers are empty.
\<close>

theorem context_answers_exact:
  "case snapshot_for live s i of
     Inl e \<Rightarrow> cx_list (pursuit_context_store taken collation live s) caller i = Inl e \<and>
       cx_query (pursuit_context_store taken collation live s) caller i q = Inl e
   | Inr found \<Rightarrow>
       (\<exists>rows hits. cx_list (pursuit_context_store taken collation live s) caller i = Inr rows \<and>
          cx_query (pursuit_context_store taken collation live s) caller i q = Inr hits \<and>
          (case Option.bind found (\<lambda>sn. map_option (Pair sn) (pursuit_state_from_snapshot (wn_state sn))) of
             None \<Rightarrow> rows = [] \<and> hits = []
           | Some (sn, m) \<Rightarrow>
               lists_pursuit collation (taken m) (running_metadata (snapshot_running sn)) rows \<and>
               finds_in_pursuit (taken m) (running_metadata (snapshot_running sn)) q hits))"
  by (auto simp: pursuit_context_store_def context_for_run_def listing_is_of_pursuit search_is_of_pursuit
      split: sum.split option.split)

text \<open>The context of a pursuit that has just started, asked for what has a capital G in it.\<close>

lemma started_pursuit_answers:
  "(let run = wf_start sample_pursuit_config; sn = \<lparr>wn_metadata = None, wn_state = [(''pursuit'', JNull), (''legs'', JNull), (''failures'', JNull)],
        wn_running = [], wn_finished = [], wn_snapshots = [], wn_timeline = []\<rparr>;
        store = pursuit_context_store (\<lambda>_. ws_data (wr_state run)) length id (project_initial_context ''r'' sn \<lparr>ps_handles = [], ps_latest = None\<rparr>);
        caller = \<lparr>tc_agent = ''operator'', tc_run = None\<rparr>
    in (map_sum id (map row_path) (cx_list store caller ''r''), map_sum id (map (\<lambda>r. (row_path r, string_field r ''snippet''))) (cx_query store caller ''r'' ''G''))) =
   (Inr [''pursuit_0'', ''pursuit_0/leg_1'', ''pursuit_0/goal.md'', ''pursuit_0/leg_1/attempt_2'', ''pursuit_0/leg_1/leg_goal.md''],
    Inr [(''pursuit_0/goal.md'', ''g''), (''pursuit_0/leg_1/leg_goal.md'', ''a'' @ newline @ newline @ ''Provenance: predefined leg_goal[1]'')])"
  by code_simp

end
