(* ===== verification/RunBridge.thy ===== *)
theory RunBridge
  imports RunLog "HOL-Library.Sublist"
begin

text \<open>
  \<open>bridgeAgentRun\<close> and \<open>bridgeWorkflowRun\<close>: the pump that records every event of a run before
  it shows the event to the run's observer, and the outcome that is recorded before it is
  reported. Meanwhile the store serves other runs.
\<close>

section \<open>The pump\<close>

record ('s, 'v) bridge =
  br_store :: 's
  br_stream :: "'v live_stream"
  br_pumping :: bool

text \<open>\<open>put\<close> is what is awaited before the push; it may fail after part of its work.\<close>

definition pump_event :: "('e \<Rightarrow> 's \<Rightarrow> bool \<times> 's) \<Rightarrow> ('e \<Rightarrow> 'v) \<Rightarrow> 'e \<Rightarrow> ('s, 'v) bridge \<Rightarrow> ('s, 'v) bridge" where
  "pump_event put view e b =
     (if \<not> br_pumping b then b
      else case put e (br_store b) of
             (True, s) \<Rightarrow> b\<lparr>br_store := s, br_stream := ls_push (view e) (br_stream b)\<rparr>
           | (False, s) \<Rightarrow> b\<lparr>br_store := s, br_stream := ls_close (br_stream b), br_pumping := False\<rparr>)"

definition pump_end :: "('s, 'v) bridge \<Rightarrow> ('s, 'v) bridge" where
  "pump_end b = (if \<not> br_pumping b then b else b\<lparr>br_stream := ls_close (br_stream b), br_pumping := False\<rparr>)"

text \<open>What happens to a bridged run; \<open>Elsewhere\<close> is the store's work for other runs.\<close>

datatype ('e, 's) bridge_op = Pump 'e | PumpEnd | Pull nat | ObserverLeaves | Elsewhere "'s \<Rightarrow> 's"

fun bridge_exec :: "('e \<Rightarrow> 's \<Rightarrow> bool \<times> 's) \<Rightarrow> ('e \<Rightarrow> 'v) \<Rightarrow> ('e, 's) bridge_op \<Rightarrow> ('s, 'v) bridge \<Rightarrow> ('s, 'v) bridge \<times> 'v pull option" where
  "bridge_exec put view (Pump e) b = (pump_event put view e b, None)"
| "bridge_exec put view PumpEnd b = (pump_end b, None)"
| "bridge_exec put view (Pull w) b = (case ls_next w (br_stream b) of (p, l) \<Rightarrow> (b\<lparr>br_stream := l\<rparr>, Some p))"
| "bridge_exec put view ObserverLeaves b = (b\<lparr>br_stream := ls_detach (br_stream b)\<rparr>, None)"
| "bridge_exec put view (Elsewhere f) b = (b\<lparr>br_store := f (br_store b)\<rparr>, None)"

fun run_bridge :: "('e \<Rightarrow> 's \<Rightarrow> bool \<times> 's) \<Rightarrow> ('e \<Rightarrow> 'v) \<Rightarrow> ('e, 's) bridge_op list \<Rightarrow> ('s, 'v) bridge \<Rightarrow> ('s, 'v) bridge \<times> 'v list" where
  "run_bridge put view [] b = (b, [])"
| "run_bridge put view (x # xs) b =
     (case bridge_exec put view x b of
        (b1, p) \<Rightarrow> (case run_bridge put view xs b1 of
           (b2, vs) \<Rightarrow> (b2, (case p of Some (Item v) \<Rightarrow> v # vs | _ \<Rightarrow> vs))))"

definition new_bridge :: "'s \<Rightarrow> ('s, 'v) bridge" where
  "new_bridge s = \<lparr>br_store = s, br_stream = ls_init, br_pumping = True\<rparr>"

text \<open>The events pumped before the pump ends.\<close>

fun pumped :: "('e, 's) bridge_op list \<Rightarrow> 'e list" where
  "pumped [] = []"
| "pumped (Pump e # xs) = e # pumped xs"
| "pumped (PumpEnd # xs) = []"
| "pumped (_ # xs) = pumped xs"

section \<open>The contract of recording\<close>

text \<open>
  A write that succeeds adds its event to the run's log; a write that fails adds it or nothing.
\<close>

locale recording =
  fixes put :: "'e \<Rightarrow> 's \<Rightarrow> bool \<times> 's"
    and view :: "'e \<Rightarrow> 'v"
    and event_ok :: "'e \<Rightarrow> bool"
    and ok :: "'s \<Rightarrow> bool"
    and log :: "'s \<Rightarrow> 'v list"
  assumes put_law: "ok s \<Longrightarrow> event_ok e \<Longrightarrow> put e s = (done, s') \<Longrightarrow>
    ok s' \<and> (log s' = log s @ [view e] \<or> \<not> done \<and> log s' = log s)"
begin

fun op_safe :: "('e, 's) bridge_op \<Rightarrow> bool" where
  "op_safe (Pump e) = event_ok e"
| "op_safe (Elsewhere f) = (\<forall>s. ok s \<longrightarrow> ok (f s) \<and> log (f s) = log s)"
| "op_safe _ = True"

text \<open>\<open>seen\<close> is what the observer was given so far.\<close>

definition faithful :: "'v list \<Rightarrow> ('s, 'v) bridge \<Rightarrow> bool" where
  "faithful seen b =
     (ok (br_store b) \<and> (ls_detached (br_stream b) \<longrightarrow> ls_buffer (br_stream b) = []) \<and>
      (br_pumping b \<longrightarrow> \<not> ls_closed (br_stream b)) \<and>
      prefix (seen @ ls_buffer (br_stream b)) (log (br_store b)) \<and>
      (br_pumping b \<and> \<not> ls_detached (br_stream b) \<longrightarrow> seen @ ls_buffer (br_stream b) = log (br_store b)))"

lemma pump_faithful:
  assumes "faithful seen b" "event_ok e"
  shows "faithful seen (pump_event put view e b)"
proof (cases "br_pumping b")
  case True
  obtain d s' where w: "put e (br_store b) = (d, s')" by (cases "put e (br_store b)")
  from assms True have ok: "ok (br_store b)" by (simp add: faithful_def)
  note law = put_law [OF ok assms(2) w]
  show ?thesis
  proof (cases d)
    case True
    with law w assms \<open>br_pumping b\<close> show ?thesis
      by (cases "ls_detached (br_stream b)") (auto simp: faithful_def pump_event_def ls_push_def ls_wake_def prefix_def)
  next
    case False
    with law w assms \<open>br_pumping b\<close> show ?thesis
      by (auto simp: faithful_def pump_event_def ls_close_def ls_wake_def prefix_def)
  qed
qed (use assms in \<open>simp add: pump_event_def\<close>)

lemma pull_faithful:
  assumes "faithful seen b" "ls_next w (br_stream b) = (p, l)"
  shows "faithful (seen @ (case p of Item v \<Rightarrow> [v] | _ \<Rightarrow> [])) (b\<lparr>br_stream := l\<rparr>)"
  using assms
  by (cases "ls_buffer (br_stream b)") (auto simp: faithful_def ls_next_def Let_def split: if_splits dest: append_prefixD)

lemma bridge_faithful:
  "faithful seen b \<Longrightarrow> list_all op_safe xs \<Longrightarrow> run_bridge put view xs b = (b', vs) \<Longrightarrow> faithful (seen @ vs) b'"
proof (induction xs arbitrary: seen b vs)
  case (Cons x xs)
  obtain b1 p where x: "bridge_exec put view x b = (b1, p)" by (cases "bridge_exec put view x b")
  obtain ws where xs: "run_bridge put view xs b1 = (b', ws)" using Cons.prems(3) x by (auto split: prod.splits)
  let ?new = "case p of Some (Item v) \<Rightarrow> [v] | _ \<Rightarrow> []"
  have vs: "vs = ?new @ ws" using Cons.prems(3) x xs by (auto split: option.splits pull.splits)
  have "faithful (seen @ ?new) b1"
  proof (cases x)
    case (Pump e)
    with x Cons.prems pump_faithful [of seen b e] show ?thesis by auto
  next
    case (Pull w)
    obtain q l where n: "ls_next w (br_stream b) = (q, l)" by (cases "ls_next w (br_stream b)")
    with Pull x have "b1 = b\<lparr>br_stream := l\<rparr>" "p = Some q" by auto
    with pull_faithful [OF Cons.prems(1) n] show ?thesis by (cases q) auto
  next
    case PumpEnd
    with x Cons.prems(1) show ?thesis by (cases "br_pumping b") (auto simp: faithful_def pump_end_def ls_close_def ls_wake_def)
  next
    case ObserverLeaves
    with x Cons.prems(1) append_prefixD [of seen "ls_buffer (br_stream b)" "log (br_store b)"]
    show ?thesis by (auto simp: faithful_def ls_detach_def ls_wake_def)
  next
    case (Elsewhere f)
    have "ok (br_store b)" using Cons.prems(1) by (simp add: faithful_def)
    then have "ok (f (br_store b))" "log (f (br_store b)) = log (br_store b)" using Elsewhere Cons.prems(2) by auto
    moreover have "b1 = b\<lparr>br_store := f (br_store b)\<rparr>" "p = None" using Elsewhere x by auto
    ultimately show ?thesis using Cons.prems(1) by (simp add: faithful_def)
  qed
  from Cons.IH [OF this _ xs] Cons.prems(2) vs show ?case by simp
qed simp

lemma observed_is_recorded:
  assumes "ok s" "log s = []" "list_all op_safe xs" "run_bridge put view xs (new_bridge s) = (b, vs)"
  shows "prefix vs (log (br_store b))"
proof -
  have "faithful [] (new_bridge s)" using assms(1,2) by (simp add: faithful_def new_bridge_def ls_init_def)
  from bridge_faithful [OF this assms(3,4)] show ?thesis by (auto simp: faithful_def dest: append_prefixD)
qed

end

section \<open>Agent runs\<close>

definition agent_write :: "string \<Rightarrow> json \<Rightarrow> 'h jsonl_store \<Rightarrow> bool \<times> 'h jsonl_store" where
  "agent_write i e s = (case append_event i e s of Inl _ \<Rightarrow> (False, s) | Inr s' \<Rightarrow> (True, s'))"

definition run_log :: "string \<Rightarrow> 'h jsonl_store \<Rightarrow> json list" where
  "run_log i s = (case recorded s i of None \<Rightarrow> [] | Some es \<Rightarrow> es)"

lemma agent_write_law:
  assumes "log_ok s" "numerals_ok e" "agent_write i e s = (d, s')"
  shows "log_ok s' \<and> (run_log i s' = run_log i s @ [e] \<or> \<not> d \<and> run_log i s' = run_log i s)"
proof (cases "recorded s i")
  case None
  with assms(1) have "append_event i e s = Inl ''ENOENT''" by (simp add: log_ok_recorded append_unknown)
  with assms show ?thesis by (simp add: agent_write_def)
next
  case (Some es)
  from append_known [OF assms(1,2) Some] obtain s1 where "append_event i e s = Inr s1" "log_ok s1"
    "recorded s1 i = Some (es @ [e])" by metis
  with assms(3) Some show ?thesis by (simp add: agent_write_def run_log_def)
qed

interpretation ab: recording "agent_write i" "\<lambda>e. e" numerals_ok log_ok "run_log i"
  by unfold_locales (metis agent_write_law)

text \<open>\<open>outcome()\<close> of a bridged run: the recorded outcome, or the failure to record it.\<close>

definition bridged_outcome :: "('o \<Rightarrow> 's \<Rightarrow> string + 's) \<Rightarrow> 'o \<Rightarrow> 's \<Rightarrow> (string + 'o) \<times> 's" where
  "bridged_outcome finish out s = (case finish out s of Inl err \<Rightarrow> (Inl err, s) | Inr s' \<Rightarrow> (Inr out, s'))"

section \<open>Workflow runs\<close>

definition is_snapshot_event :: "json \<Rightarrow> bool" where
  "is_snapshot_event e = (case e of JObj kvs \<Rightarrow> map_of kvs ''type'' = Some (JStr ''workflow_snapshot_recorded'') | _ \<Rightarrow> False)"

text \<open>An event comes with what \<open>snapshot()\<close> returns when it is processed.\<close>

definition workflow_write :: "string \<Rightarrow> json \<times> json \<Rightarrow> 'h jsonl_store \<Rightarrow> bool \<times> 'h jsonl_store" where
  "workflow_write i es s =
     (case append_event i (fst es) s of
        Inl _ \<Rightarrow> (False, s)
      | Inr s1 \<Rightarrow>
          (if is_snapshot_event (fst es) then
             (case record_run_snapshot i (snd es) s1 of Inl _ \<Rightarrow> (False, s1) | Inr s2 \<Rightarrow> (True, s2))
           else (True, s1)))"

lemma workflow_write_law:
  assumes "log_ok s" "numerals_ok (fst e)" "workflow_write i e s = (d, s')"
  shows "log_ok s' \<and> (run_log i s' = run_log i s @ [fst e] \<or> \<not> d \<and> run_log i s' = run_log i s)"
proof (cases "append_event i (fst e) s")
  case (Inl a)
  with assms show ?thesis by (simp add: workflow_write_def)
next
  case (Inr s1)
  with agent_write_law [OF assms(1,2), of i True s1] have 1: "log_ok s1" "run_log i s1 = run_log i s @ [fst e]"
    by (simp_all add: agent_write_def)
  have "log_ok s2 \<and> run_log i s2 = run_log i s1" if "record_run_snapshot i (snd e) s1 = Inr s2" for s2
    using write_other_file [OF that [unfolded record_run_snapshot_def]] 1 by (simp add: same_logs_def run_log_def)
  with 1 Inr assms(3) show ?thesis by (auto simp: workflow_write_def split: if_splits sum.splits)
qed

interpretation wb: recording "workflow_write i" fst "\<lambda>e. numerals_ok (fst e)" log_ok "run_log i"
  by unfold_locales (metis workflow_write_law)

section \<open>What an observer may rely on\<close>

lemma outcome_recorded:
  "bridged_outcome (agent_run_finish i now) out s = (Inr res, s') \<Longrightarrow>
   res = out \<and> read_file (run_dir s' i) ''outcome.json'' (js_disk s') =
     Some (json_line (JObj [(''status'', JStr ''finished''), (''finishedAt'', JStr now), (''outcome'', out)]))"
  by (auto simp: bridged_outcome_def agent_run_finish_def finish_record_def on_disk_def write_file_def read_file_def run_dir_disk
      split: sum.splits option.splits)

text \<open>While the pump of a created run goes on, its log is all that it pumped.\<close>

lemma agent_pump_records:
  assumes "log_ok (br_store b)" "recorded (br_store b) i = Some es" "br_pumping b"
    and "\<And>e. Pump e \<in> set xs \<Longrightarrow> numerals_ok e"
    and "\<And>f s. Elsewhere f \<in> set xs \<Longrightarrow> log_ok s \<Longrightarrow> log_ok (f s) \<and> recorded (f s) i = recorded s i"
    and "PumpEnd \<notin> set xs" "run_bridge (agent_write i) (\<lambda>e. e) xs b = (b', vs)"
  shows "recorded (br_store b') i = Some (es @ pumped xs)"
  using assms
proof (induction xs arbitrary: b es vs)
  case (Cons x xs)
  obtain b1 p where x: "bridge_exec (agent_write i) (\<lambda>e. e) x b = (b1, p)" by (cases "bridge_exec (agent_write i) (\<lambda>e. e) x b")
  obtain ws where xs: "run_bridge (agent_write i) (\<lambda>e. e) xs b1 = (b', ws)" using Cons.prems(7) x by (auto split: prod.splits)
  have "log_ok (br_store b1) \<and> recorded (br_store b1) i = Some (es @ (case x of Pump e \<Rightarrow> [e] | _ \<Rightarrow> [])) \<and> br_pumping b1"
  proof (cases x)
    case (Pump e)
    with Cons.prems(4) have "numerals_ok e" by simp
    from append_known [OF Cons.prems(1) this Cons.prems(2)] obtain s' where "append_event i e (br_store b) = Inr s'"
      "log_ok s'" "recorded s' i = Some (es @ [e])" by metis
    with Pump x Cons.prems(3) show ?thesis by (auto simp: pump_event_def agent_write_def)
  next
    case (Elsewhere f)
    with x Cons.prems(1,2,3) Cons.prems(5) [of f "br_store b"] show ?thesis by auto
  qed (use x Cons.prems in \<open>auto split: prod.splits\<close>)
  then have "recorded (br_store b') i = Some ((es @ (case x of Pump e \<Rightarrow> [e] | _ \<Rightarrow> [])) @ pumped xs)"
    using Cons.prems(4,5,6) xs by (intro Cons.IH) auto
  with Cons.prems(6) show ?case by (cases x) auto
qed simp

text \<open>
  C26: an observer of an agent run sees nothing that is not on disk. Whatever other runs do with
  the store meanwhile, and wherever the observer pulls or leaves, what it was given is a prefix
  of the recorded events of its run; and as long as the pump goes on, the record is exactly what
  the run emitted, in order.
\<close>

theorem observed_events_are_recorded:
  assumes "log_ok s" "recorded s i = Some []"
    and "\<And>e. Pump e \<in> set xs \<Longrightarrow> numerals_ok e"
    and "\<And>f s. Elsewhere f \<in> set xs \<Longrightarrow> log_ok s \<Longrightarrow> log_ok (f s) \<and> recorded (f s) i = recorded s i"
    and "run_bridge (agent_write i) (\<lambda>e. e) xs (new_bridge s) = (b, vs)"
  shows "prefix vs (run_log i (br_store b)) \<and>
    (PumpEnd \<notin> set xs \<longrightarrow> recorded (br_store b) i = Some (pumped xs))"
proof
  have "ab.op_safe i x" if "x \<in> set xs" for x
    using assms(3) assms(4) that by (cases x) (auto simp: run_log_def)
  then have "list_all (ab.op_safe i) xs" by (simp add: list_all_iff)
  from ab.observed_is_recorded [OF assms(1) _ this assms(5)] assms(2)
  show "prefix vs (run_log i (br_store b))" by (simp add: run_log_def)
next
  show "PumpEnd \<notin> set xs \<longrightarrow> recorded (br_store b) i = Some (pumped xs)"
    using agent_pump_records [of "new_bridge s" i "[]" xs b vs] assms by (auto simp: new_bridge_def)
qed

definition created_store :: "unit jsonl_store" where
  "created_store = store_exec (CreateAgentRun ''2'' ''t'' ''b'' None None)
     (store_exec (CreateAgentRun ''1'' ''t'' ''a'' None None) (empty_store [''runs'']))"

definition sample_bridge_ops :: "(json, unit jsonl_store) bridge_op list" where
  "sample_bridge_ops = [Pump (JStr ''x''), Pull 0, Elsewhere (\<lambda>s. keep s (append_event ''agent-2'' JNull s)), Pump (JStr ''y'')]"

lemma created_store_ok: "log_ok created_store \<and> recorded created_store ''agent-1'' = Some []"
proof -
  have "represents (empty_store [''runs'']) empty_spec"
    by (simp add: represents_def empty_store_def empty_spec_def log_ok_def recorded_def read_latest_snapshot_def read_file_def)
  from fold_represents [OF this, of "[CreateAgentRun ''1'' ''t'' ''a'' None None, CreateAgentRun ''2'' ''t'' ''b'' None None]"]
  have "represents created_store (spec_create ''agent-2'' (spec_create ''agent-1'' empty_spec))"
    by (simp add: created_store_def mint_agent_run_id_def)
  then show ?thesis by (simp add: represents_def plain_id_def spec_create_def empty_spec_def)
qed

theorem observed_events_are_recorded_witness:
  "\<exists>b vs. run_bridge (agent_write ''agent-1'') (\<lambda>e. e) sample_bridge_ops (new_bridge created_store) = (b, vs)
     \<and> prefix vs (run_log ''agent-1'' (br_store b)) \<and> recorded (br_store b) ''agent-1'' = Some [JStr ''x'', JStr ''y'']"
proof -
  obtain b vs where r: "run_bridge (agent_write ''agent-1'') (\<lambda>e. e) sample_bridge_ops (new_bridge created_store) = (b, vs)" by (cases "run_bridge (agent_write ''agent-1'') (\<lambda>e. e) sample_bridge_ops (new_bridge created_store)")
  have other: "log_ok (f s) \<and> recorded (f s) ''agent-1'' = recorded s ''agent-1''"
    if "Elsewhere f \<in> set sample_bridge_ops" "log_ok s" for f and s :: "unit jsonl_store"
    using that append_elsewhere [of "''agent-1''" "''agent-2''" JNull s] by (simp add: sample_bridge_ops_def plain_id_def)
  have fine: "numerals_ok e" if "Pump e \<in> set sample_bridge_ops" for e using that by (auto simp: sample_bridge_ops_def)
  have "PumpEnd \<notin> set sample_bridge_ops" "pumped sample_bridge_ops = [JStr ''x'', JStr ''y'']" by (simp_all add: sample_bridge_ops_def)
  moreover have "prefix vs (run_log ''agent-1'' (br_store b)) \<and>
      (PumpEnd \<notin> set sample_bridge_ops \<longrightarrow> recorded (br_store b) ''agent-1'' = Some (pumped sample_bridge_ops))"
  proof (rule observed_events_are_recorded)
    show "log_ok created_store" "recorded created_store ''agent-1'' = Some []" using created_store_ok by blast+
    show "Pump e \<in> set sample_bridge_ops \<Longrightarrow> numerals_ok e" for e by (rule fine)
    show "Elsewhere f \<in> set sample_bridge_ops \<Longrightarrow> log_ok s \<Longrightarrow> log_ok (f s) \<and> recorded (f s) ''agent-1'' = recorded s ''agent-1''" for f s
      by (rule other)
    show "run_bridge (agent_write ''agent-1'') (\<lambda>e. e) sample_bridge_ops (new_bridge created_store) = (b, vs)" by (rule r)
  qed
  ultimately show ?thesis using r by auto
qed

end
