(* ===== verification/OutcomeAdvisory.thy ===== *)
theory OutcomeAdvisory
  imports Hooks Schemas "HOL-Library.List_Lexorder" "HOL-Library.Char_ord"
begin

text \<open>
  The advisory of terminal submissions (\<open>agent-engine/src/agents/outcome-advisory.ts\<close> and the
  host's hook \<open>.ephai/hooks/advisor-hook.ts\<close>): canonical JSON, the registry of the submissions an
  advisor passed, and the two hooks that guard a terminal tool.
\<close>

section \<open>Canonical JSON\<close>

text \<open>
  \<open>Object.fromEntries\<close>: an object enumerates its array indices first, in numeric order, and then
  its other properties in insertion order. An array index is a canonical numeral below 2^32 - 1.
\<close>

definition is_array_index :: "string \<Rightarrow> bool" where
  "is_array_index k = (k \<noteq> [] \<and> list_all (\<lambda>c. c \<in> set ''0123456789'') k \<and> (hd k = CHR ''0'' \<longrightarrow> k = ''0'') \<and> nat_of_digits k < 4294967295)"

definition from_entries :: "(string \<times> json) list \<Rightarrow> (string \<times> json) list" where
  "from_entries es =
     sort_key (\<lambda>e. nat_of_digits (fst e)) (filter (\<lambda>e. is_array_index (fst e)) es) @ filter (\<lambda>e. \<not> is_array_index (fst e)) es"

lemma size_member: "e \<in> set kvs \<Longrightarrow> size (snd e) < size (JObj kvs)"
  by (induction kvs) auto

function sort_keys :: "json \<Rightarrow> json" where
  "sort_keys (JArr xs) = JArr (map sort_keys xs)"
| "sort_keys (JObj kvs) = JObj (from_entries (map (\<lambda>e. (fst e, sort_keys (snd e))) (sort_key fst kvs)))"
| "sort_keys JNull = JNull"
| "sort_keys (JBool b) = JBool b"
| "sort_keys (JNum n) = JNum n"
| "sort_keys (JStr s) = JStr s"
  by pat_completeness auto

termination
  by (relation "measure size") (auto simp: less_Suc_eq_le size_list_estimation' dest: size_member)

definition canonical_json :: "json \<Rightarrow> string" where
  "canonical_json v = stringify (sort_keys v)"

section \<open>The registry of passes\<close>

record advisor_submission =
  av_tool_name :: string
  av_payload :: json_object

definition submission_json :: "advisor_submission \<Rightarrow> json" where
  "submission_json s = JObj [(''tool_name'', JStr (av_tool_name s)), (''payload'', JObj (av_payload s))]"

type_synonym pass_registry = "(string \<times> string list) list"

definition record_pass :: "string \<Rightarrow> advisor_submission \<Rightarrow> pass_registry \<Rightarrow> pass_registry" where
  "record_pass run s reg =
     (let key = canonical_json (submission_json s) in
      case map_of reg run of
        Some keys \<Rightarrow> AList.update run (List.insert key keys) reg
      | None \<Rightarrow> AList.update run [key] reg)"

definition has_pass :: "string \<Rightarrow> advisor_submission \<Rightarrow> pass_registry \<Rightarrow> bool" where
  "has_pass run s reg =
     (case map_of reg run of Some keys \<Rightarrow> canonical_json (submission_json s) \<in> set keys | None \<Rightarrow> False)"

section \<open>The guards of a terminal tool\<close>

definition require_no_background_tasks :: "string \<Rightarrow> hook_entry" where
  "require_no_background_tasks tool = PreToolUse (Some tool) (\<lambda>facts.
     if cf_background_task_count facts = 0 then Inr Passthrough
     else Inr (Deny (''BLOCKED: '' @ string_of_nat (cf_background_task_count facts) @ '' background task(s) still open for this run. '' @
       ''Use list_background_tasks and cancel_background_task before calling '' @ cf_tool_name facts @ '', then retry.'')))"

text \<open>The hook reads the registry when it runs: the registry is an argument.\<close>

definition require_advisory_pass :: "string \<Rightarrow> string \<Rightarrow> pass_registry \<Rightarrow> hook_entry" where
  "require_advisory_pass run tool reg = PreToolUse (Some tool) (\<lambda>facts.
     if has_pass run \<lparr>av_tool_name = cf_tool_name facts, av_payload = cf_input facts\<rparr> reg then Inr Passthrough
     else Inr (Deny (''advisor has not passed this '' @ cf_tool_name facts @
       '' submission; call ask_advisor with the intended payload first'')))"

section \<open>Equality up to the order of keys\<close>

fun keys_ok :: "json \<Rightarrow> bool" where
  "keys_ok (JArr xs) = (\<forall>v \<in> set xs. keys_ok v)"
| "keys_ok (JObj kvs) = (distinct (map fst kvs) \<and> (\<forall>e \<in> set kvs. keys_ok (snd e)))"
| "keys_ok _ = True"

text \<open>The same value as data: arrays in order, objects as maps.\<close>

inductive same_data :: "json \<Rightarrow> json \<Rightarrow> bool" where
  null: "same_data JNull JNull"
| bool: "same_data (JBool b) (JBool b)"
| num: "same_data (JNum n) (JNum n)"
| str: "same_data (JStr s) (JStr s)"
| arr: "list_all2 same_data xs ys \<Longrightarrow> same_data (JArr xs) (JArr ys)"
| obj: "fst ` set kvs = fst ` set lvs \<Longrightarrow>
    (\<And>k v w. (k, v) \<in> set kvs \<Longrightarrow> (k, w) \<in> set lvs \<Longrightarrow> same_data v w) \<Longrightarrow> same_data (JObj kvs) (JObj lvs)"

inductive_simps same_data_simps [simp]:
  "same_data JNull w" "same_data (JBool b) w" "same_data (JNum n) w" "same_data (JStr s) w"
  "same_data (JArr xs) w" "same_data (JObj kvs) w"

lemma set_from_entries: "set (from_entries es) = set es"
  by (auto simp: from_entries_def)

text \<open>With distinct keys the order in which a canonical object lists its properties is determined by their set.\<close>

lemma canonical_order:
  assumes "distinct (map fst a)" "distinct (map fst b)" "\<And>e. fst (f e) = fst e" "\<And>e. fst (g e) = fst e"
  shows "from_entries (map f (sort_key fst a)) = from_entries (map g (sort_key fst b)) \<longleftrightarrow> f ` set a = g ` set b"
proof
  assume "from_entries (map f (sort_key fst a)) = from_entries (map g (sort_key fst b))"
  then have "set (map f (sort_key fst a)) = set (map g (sort_key fst b))" by (metis set_from_entries)
  then show "f ` set a = g ` set b" by simp
next
  assume eq: "f ` set a = g ` set b"
  let ?a = "map f (sort_key fst a)" and ?b = "map g (sort_key fst b)"
  have fa: "map fst ?a = map fst (sort_key fst a)" using assms(3) by simp
  have fb: "map fst ?b = map fst (sort_key fst b)" using assms(4) by simp
  have d: "distinct (map fst ?a)" "distinct (map fst ?b)"
    unfolding fa fb using assms(1,2) by (simp_all add: distinct_map)
  have s: "sorted (map fst ?a)" "sorted (map fst ?b)" unfolding fa fb by simp_all
  have e: "set ?a = set ?b" using eq by simp
  have "inj_on fst (set ?a \<union> set ?b)" using d(1) unfolding e [symmetric] distinct_map by (simp only: Un_absorb)
  from map_sorted_distinct_set_unique [OF this s(1) d(1) s(2) d(2) e] show "from_entries ?a = from_entries ?b" by simp
qed

lemma entries_match:
  assumes "distinct (map fst a)" "distinct (map fst b)"
  shows "(\<lambda>e. (fst e, h (snd e))) ` set a = (\<lambda>e. (fst e, h (snd e))) ` set b \<longleftrightarrow>
    fst ` set a = fst ` set b \<and> (\<forall>k v w. (k, v) \<in> set a \<longrightarrow> (k, w) \<in> set b \<longrightarrow> h v = h w)" (is "?F ` _ = _ \<longleftrightarrow> ?R")
proof
  assume eq: "?F ` set a = ?F ` set b"
  have "fst ` ?F ` set a = fst ` ?F ` set b" using eq by simp
  then have keys: "fst ` set a = fst ` set b" by (simp add: image_image)
  have "h v = h w" if m: "(k, v) \<in> set a" "(k, w) \<in> set b" for k v w
  proof -
    have "(k, h v) \<in> ?F ` set b" using m(1) unfolding eq [symmetric] by force
    then obtain w' where "(k, w') \<in> set b" "h w' = h v" by auto
    with m(2) assms(2) show ?thesis by (metis eq_key_imp_eq_value)
  qed
  with keys show ?R by blast
next
  assume r: ?R
  have 1: "?F e \<in> ?F ` set b" if "e \<in> set a" for e
  proof -
    from r that have "fst e \<in> fst ` set b" by blast
    then obtain w where w: "(fst e, w) \<in> set b" by auto
    moreover have "(fst e, snd e) \<in> set a" using that by simp
    ultimately have "h (snd e) = h w" using r by blast
    with w show ?thesis by (intro image_eqI [of _ _ "(fst e, w)"]) simp_all
  qed
  moreover have "?F e \<in> ?F ` set a" if "e \<in> set b" for e
  proof -
    have "fst e \<in> fst ` set a" using r that by auto
    then obtain v where v: "(fst e, v) \<in> set a" by auto
    moreover have "(fst e, snd e) \<in> set b" using that by simp
    ultimately have "h v = h (snd e)" using r by blast
    with v show ?thesis by (intro image_eqI [of _ _ "(fst e, v)"]) simp_all
  qed
  ultimately show "?F ` set a = ?F ` set b" by blast
qed

lemma sort_keys_eq_iff: "keys_ok v \<Longrightarrow> keys_ok w \<Longrightarrow> sort_keys v = sort_keys w \<longleftrightarrow> same_data v w"
proof (induction v arbitrary: w)
  case (JArr xs)
  have "map sort_keys xs = map sort_keys ys \<longleftrightarrow> list_all2 same_data xs ys" if "\<forall>y \<in> set ys. keys_ok y" for ys
    using JArr that
  proof (induction xs arbitrary: ys)
    case (Cons x xs)
    have IH: "map sort_keys xs = map sort_keys zs \<longleftrightarrow> list_all2 same_data xs zs" if "\<forall>z \<in> set zs. keys_ok z" for zs
      using Cons.IH [OF _ _ Cons.prems(3) that] Cons.prems(1,2) by auto
    show ?case
      using IH Cons.prems by (cases ys) auto
  qed auto
  with JArr.prems show ?case by (cases w) auto
next
  case (JObj kvs)
  show ?case
  proof (cases w)
    case w: (JObj lvs)
    have IH: "sort_keys v = sort_keys u \<longleftrightarrow> same_data v u" if "(k, v) \<in> set kvs" "keys_ok u" for k v u
      using JObj.IH [of "(k, v)" v u] JObj.prems(1) that by force
    have "sort_keys (JObj kvs) = sort_keys w \<longleftrightarrow>
        fst ` set kvs = fst ` set lvs \<and> (\<forall>k v u. (k, v) \<in> set kvs \<longrightarrow> (k, u) \<in> set lvs \<longrightarrow> sort_keys v = sort_keys u)"
      using JObj.prems w by (simp add: canonical_order entries_match)
    also have "\<dots> \<longleftrightarrow> same_data (JObj kvs) w"
    proof -
      have "sort_keys v = sort_keys u \<longleftrightarrow> same_data v u" if "(k, v) \<in> set kvs" "(k, u) \<in> set lvs" for k v u
      proof (rule IH [OF that(1)])
        show "keys_ok u" using JObj.prems(2) w that(2) by auto
      qed
      then show ?thesis unfolding w same_data_simps json.inject by meson
    qed
    finally show ?thesis .
  qed auto
next
  case JNull
  show ?case by (cases w) simp_all
next
  case (JBool b)
  show ?case by (cases w) auto
next
  case (JNum n)
  show ?case by (cases w) auto
next
  case (JStr s)
  show ?case by (cases w) auto
qed

lemma sort_keys_wf: "wf_json v \<Longrightarrow> wf_json (sort_keys v)"
proof (induction v)
  case (JObj kvs)
  have "wf_json (sort_keys (snd e))" if "e \<in> set kvs" for e
    using JObj.IH [of e "snd e"] JObj.prems that by (cases e) (auto simp: wf_members_iff)
  then show ?case by (auto simp: wf_members_iff set_from_entries)
qed (auto simp: wf_items_iff)

definition well_formed :: "json \<Rightarrow> bool" where
  "well_formed v = (wf_json v \<and> keys_ok v)"

lemma canonical_json_iff:
  "well_formed v \<Longrightarrow> well_formed w \<Longrightarrow> canonical_json v = canonical_json w \<longleftrightarrow> same_data v w"
  unfolding canonical_json_def well_formed_def
  using stringify_inject [OF sort_keys_wf sort_keys_wf, of v w] sort_keys_eq_iff [of v w] by auto

lemma same_pair:
  "k \<noteq> l \<Longrightarrow> same_data (JObj [(k, a), (l, b)]) (JObj [(k, c), (l, d)]) \<longleftrightarrow> same_data a c \<and> same_data b d"
  by auto

lemma same_submission:
  "same_data (submission_json x) (submission_json y) \<longleftrightarrow>
   av_tool_name x = av_tool_name y \<and> same_data (JObj (av_payload x)) (JObj (av_payload y))"
proof -
  have "same_data (JStr s) (JStr t) \<longleftrightarrow> s = t" for s t by auto
  then show ?thesis unfolding submission_json_def by (subst same_pair) simp_all
qed

text \<open>The registry after a history of passes.\<close>

definition passes :: "(string \<times> advisor_submission) list \<Rightarrow> pass_registry" where
  "passes hist = fold (\<lambda>p. record_pass (fst p) (snd p)) hist []"

lemma has_pass_record:
  "has_pass run s (record_pass r x reg) \<longleftrightarrow>
   r = run \<and> canonical_json (submission_json x) = canonical_json (submission_json s) \<or> has_pass run s reg"
  by (auto simp: has_pass_def record_pass_def Let_def update_conv' split: option.splits)

lemma has_pass_passes:
  "has_pass run s (passes hist) \<longleftrightarrow>
   (\<exists>x. (run, x) \<in> set hist \<and> canonical_json (submission_json x) = canonical_json (submission_json s))"
proof (induction hist rule: rev_induct)
  case (snoc p hist)
  then show ?case by (cases p) (auto simp: passes_def has_pass_record)
qed (simp add: passes_def has_pass_def)

definition submission_ok :: "advisor_submission \<Rightarrow> bool" where
  "submission_ok s = well_formed (JObj (av_payload s))"

lemma submission_well_formed: "submission_ok s \<Longrightarrow> well_formed (submission_json s)"
  by (simp add: submission_ok_def well_formed_def submission_json_def)

lemma advisory_hooks:
  "pre_tool_use (make_hook_engine [require_no_background_tasks tool, require_advisory_pass run tool reg]) facts = Passthrough \<longleftrightarrow>
   (cf_tool_name facts = tool \<longrightarrow> cf_background_task_count facts = 0 \<and>
      has_pass run \<lparr>av_tool_name = cf_tool_name facts, av_payload = cf_input facts\<rparr> reg)"
  by (auto simp: pre_tool_use_def make_hook_engine_def require_no_background_tasks_def require_advisory_pass_def
      List.map_filter_def combine_Passthrough hook_matches_def guarded_def)

text \<open>
  C32: the advisory guard of a terminal tool is exact. A call of the tool passes the two guards
  precisely when no background task of the run is open and an advisor has passed, for this run
  and this tool, a payload that is the same data as the call's: equal up to the order of object
  keys at every depth, and in nothing else. Calls of other tools are not guarded.
\<close>

theorem advisory_guard_exact:
  assumes "\<And>r x. (r, x) \<in> set hist \<Longrightarrow> submission_ok x" "well_formed (JObj (cf_input facts))"
  shows "pre_tool_use (make_hook_engine [require_no_background_tasks tool, require_advisory_pass run tool (passes hist)]) facts = Passthrough \<longleftrightarrow>
    (cf_tool_name facts = tool \<longrightarrow> cf_background_task_count facts = 0 \<and>
      (\<exists>x. (run, x) \<in> set hist \<and> av_tool_name x = tool \<and> same_data (JObj (av_payload x)) (JObj (cf_input facts))))"
proof -
  let ?s = "\<lparr>av_tool_name = cf_tool_name facts, av_payload = cf_input facts\<rparr>"
  have "submission_ok ?s" using assms(2) by (simp add: submission_ok_def)
  then have "canonical_json (submission_json x) = canonical_json (submission_json ?s) \<longleftrightarrow>
      av_tool_name x = cf_tool_name facts \<and> same_data (JObj (av_payload x)) (JObj (cf_input facts))" if "(run, x) \<in> set hist" for x
    using canonical_json_iff [OF submission_well_formed submission_well_formed] assms(1) that same_submission by simp
  then show ?thesis unfolding advisory_hooks has_pass_passes by blast
qed

theorem advisory_guard_exact_witness:
  "pre_tool_use (make_hook_engine [require_no_background_tasks ''submit'', require_advisory_pass ''agent-1'' ''submit''
      (passes [(''agent-1'', \<lparr>av_tool_name = ''submit'', av_payload = [(''b'', JNull), (''a'', JStr ''x'')]\<rparr>)])])
    \<lparr>cf_tool_use_id = ''u'', cf_tool_name = ''submit'', cf_input = [(''a'', JStr ''x''), (''b'', JNull)], cf_background_task_count = 0\<rparr>
    = Passthrough"
  by (subst advisory_guard_exact) (auto simp: submission_ok_def well_formed_def)

end
