(* ===== verification/EngineTools.thy ===== *)
theory EngineTools
  imports Pipeline RunLog OutcomeAdvisory WorkflowFactory Supervisor
begin

text \<open>
  The tools that the engine installs (\<open>agent-engine/src/tools\<close>): their names, the parsing of their
  inputs, what they answer, and what they register or record. Runs that a tool starts are seen
  through the outcome they end with. The issues that zod reports and the JSON schemas it derives
  are parameters; a schema without \<open>strict\<close> drops the keys it does not know.
\<close>

record zod_host =
  zh_issues :: "string \<Rightarrow> json_object \<Rightarrow> zod_issue list"
  zh_schema :: "string \<Rightarrow> json_object"

definition engine_tool :: "zod_host \<Rightarrow> string \<Rightarrow> string \<Rightarrow> (json_object \<Rightarrow> json_object option) \<Rightarrow> tool_def" where
  "engine_tool zh name description parse =
     \<lparr>td_name = name, td_description = description, td_input_schema = zh_schema zh name,
      td_parse = (\<lambda>i. case parse i of None \<Rightarrow> Inl (zh_issues zh name i) | Some kvs \<Rightarrow> Inr (JObj kvs))\<rparr>"

section \<open>Background tasks\<close>

definition list_background_tasks :: "zod_host \<Rightarrow> tool_def" where
  "list_background_tasks zh = engine_tool zh ''list_background_tasks'' ''List this run's active background tasks.'' (\<lambda>_. Some [])"

text \<open>\<open>dash\<close> is the dash between a row's tag and its title, which is not below 256.\<close>

definition render_background_task_rows :: "string \<Rightarrow> task_row list \<Rightarrow> string" where
  "render_background_task_rows dash rows =
     (if rows = [] then ''no active background tasks''
      else join_with newline (map (\<lambda>r. tag_type (row_tag r) @ ''/'' @ tag_id (row_tag r) @ '' '' @ dash @ '' '' @ row_title r @
        '' (started '' @ string_of_nat (row_started r) @ '')'') rows))"

definition parse_cancel_input :: "json_object \<Rightarrow> json_object option" where
  "parse_cancel_input i =
     (case (parse_text (map_of i ''type''), parse_text (map_of i ''id''), parse_text (map_of i ''reason'')) of
        (Some t, Some k, Some r) \<Rightarrow> Some [(''type'', JStr t), (''id'', JStr k), (''reason'', JStr r)]
      | _ \<Rightarrow> None)"

definition cancel_background_task :: "zod_host \<Rightarrow> tool_def" where
  "cancel_background_task zh = engine_tool zh ''cancel_background_task''
     ''Cancel one active background task in this run, addressed by its {type, id} tag.'' parse_cancel_input"

definition execute_cancel :: "string \<Rightarrow> string \<Rightarrow> string \<Rightarrow> supervisor \<Rightarrow> tool_result \<times> sup_effect list \<times> supervisor" where
  "execute_cancel ty i reason s =
     (case cancel_task \<lparr>tag_type = ty, tag_id = i\<rparr> (Some reason) s of
        (found, es, s') \<Rightarrow> (ToolOutput (JStr (if found then ''cancelled'' else ''not found'')) None, es, s'))"

section \<open>Reading a run\<close>

definition parse_read_run_input :: "json_object \<Rightarrow> json_object option" where
  "parse_read_run_input i =
     (case (parse_text (map_of i ''run_id''),
            (case map_of i ''offset'' of None \<Rightarrow> Some 0 | Some j \<Rightarrow> parse_natural j),
            (case map_of i ''limit'' of None \<Rightarrow> Some 100 | Some j \<Rightarrow> parse_positive j)) of
        (Some r, Some off, Some n) \<Rightarrow>
          (if n \<le> 500 then Some [(''run_id'', JStr r), (''offset'', jnat off), (''limit'', jnat n)] else None)
      | _ \<Rightarrow> None)"

definition read_agent_run :: "zod_host \<Rightarrow> tool_def" where
  "read_agent_run zh = engine_tool zh ''read_agent_run'' ''Read an agent run's recorded events by run id.'' parse_read_run_input"

definition execute_read_run :: "string \<Rightarrow> nat \<Rightarrow> nat \<Rightarrow> 'h jsonl_store \<Rightarrow> tool_result" where
  "execute_read_run i offset limit s =
     (let p = read_events i offset limit s in
      if pg_total p = 0 then ToolError (''no records for run \"'' @ i @ ''\"'')
      else ToolOutput (JObj [(''total'', jnat (pg_total p)), (''offset'', jnat offset), (''lines'', JArr (map JStr (pg_lines p))),
        (''eof'', JBool (pg_eof p))]) None)"

section \<open>Subagents\<close>

definition parse_subagent_input :: "string list \<Rightarrow> json_object \<Rightarrow> json_object option" where
  "parse_subagent_input names i =
     (case (parse_enum names (map_of i ''agent_name''), parse_text (map_of i ''prompt''), parse_flag True (map_of i ''wait'')) of
        (Some a, Some p, Some w) \<Rightarrow> Some [(''agent_name'', JStr a), (''prompt'', JStr p), (''wait'', JBool w)]
      | _ \<Rightarrow> None)"

definition run_subagent :: "zod_host \<Rightarrow> string list \<Rightarrow> tool_def" where
  "run_subagent zh names = engine_tool zh ''run_subagent'' ''Run another configured agent.'' (parse_subagent_input names)"

definition render_agent_outcome :: "string agent_outcome \<Rightarrow> string" where
  "render_agent_outcome out =
     (case out_status out of
        Completed t \<Rightarrow> t
      | Cancelled \<Rightarrow> ''subagent cancelled''
      | Failed e \<Rightarrow> ''subagent failed: '' @ err_message e)"

definition subagent_task_outcome :: "string agent_outcome \<Rightarrow> task_outcome" where
  "subagent_task_outcome out =
     (case out_status out of
        Completed t \<Rightarrow> \<lparr>to_status = TaskSuccess, to_outcome = take 280 t\<rparr>
      | Cancelled \<Rightarrow> \<lparr>to_status = TaskCancelled, to_outcome = ''cancelled''\<rparr>
      | Failed e \<Rightarrow> \<lparr>to_status = TaskFailed, to_outcome = err_message e\<rparr>)"

fun task_status_text :: "task_status \<Rightarrow> string" where
  "task_status_text TaskSuccess = ''success''"
| "task_status_text TaskFailed = ''failed''"
| "task_status_text TaskCancelled = ''cancelled''"

definition render_subagent_completion :: "string \<Rightarrow> string \<Rightarrow> task_outcome \<Rightarrow> string" where
  "render_subagent_completion name run out =
     ''subagent '' @ name @ '' ('' @ run @ '') '' @ task_status_text (to_status out) @ '': '' @ to_outcome out"

text \<open>The background branch, once the child run has started: one registered task, and the answer.\<close>

definition execute_subagent_background ::
  "background_task_id \<Rightarrow> nat \<Rightarrow> string \<Rightarrow> string \<Rightarrow> string \<Rightarrow> supervisor \<Rightarrow> (register_error + (background_task_id \<times> sup_effect list \<times> supervisor)) \<times> string" where
  "execute_subagent_background task now name prompt run s =
     (register task now \<lparr>tag_type = ''subagent'', tag_id = run\<rparr> (name @ '': '' @ take 80 prompt) False s,
      ''subagent started: '' @ run)"

section \<open>The advisor\<close>

definition ADVISOR_AGENT_NAME :: string where
  "ADVISOR_AGENT_NAME = ''advisor''"

definition SUBMIT_ADVISOR_OUTCOME :: string where
  "SUBMIT_ADVISOR_OUTCOME = ''submit_advisor_outcome''"

record advisor_verdict =
  ad_pass :: bool
  ad_reason :: string

definition parse_verdict :: "json_object \<Rightarrow> advisor_verdict option" where
  "parse_verdict i =
     (case (parse_enum [''pass'', ''fail''] (map_of i ''verdict''), parse_text (map_of i ''reason'')) of
        (Some v, Some r) \<Rightarrow> Some \<lparr>ad_pass = (v = ''pass''), ad_reason = r\<rparr>
      | _ \<Rightarrow> None)"

definition parse_ask_input :: "json_object \<Rightarrow> json_object option" where
  "parse_ask_input i =
     (case (parse_text (map_of i ''tool_name''), map_of i ''payload'') of
        (Some t, Some (JObj p)) \<Rightarrow> Some [(''tool_name'', JStr t), (''payload'', JObj p)]
      | _ \<Rightarrow> None)"

definition ask_advisor :: "zod_host \<Rightarrow> tool_def" where
  "ask_advisor zh = engine_tool zh ''ask_advisor'' ''Ask the configured advisor to review a terminal submission.'' parse_ask_input"

fun role_text :: "message_role \<Rightarrow> string" where
  "role_text User = ''user''"
| "role_text Assistant = ''assistant''"

fun render_block :: "content_block \<Rightarrow> string option" where
  "render_block (TextBlock t) = Some t"
| "render_block (ToolUseBlock _ n i) = Some (''[calls '' @ n @ '' '' @ stringify (JObj i) @ '']'')"
| "render_block (ToolResultBlock _ c _) = Some (''[result] '' @ c)"
| "render_block (ReasoningBlock _) = None"

definition render_message :: "message \<Rightarrow> string" where
  "render_message m =
     (let body = join_with newline (List.map_filter render_block (msg_content m))
      in if body = [] then [] else ''## '' @ role_text (msg_role m) @ newline @ body)"

definition render_caller_messages :: "message list \<Rightarrow> string" where
  "render_caller_messages ms = join_with (newline @ newline) (filter (\<lambda>l. l \<noteq> []) (map render_message ms))"

definition advisor_messages :: "message list \<Rightarrow> string \<Rightarrow> advisor_submission \<Rightarrow> message list" where
  "advisor_messages transcript prompt target =
     [user_text (render_caller_messages transcript),
      user_text (prompt @ '' Verify against the exact target below.'' @ newline @ canonical_json (submission_json target))]"

definition render_advisor_verdict :: "advisor_verdict agent_outcome \<Rightarrow> string" where
  "render_advisor_verdict out =
     (case out_status out of
        Completed v \<Rightarrow> (if ad_pass v then ''pass'' else ''fail'') @ '': '' @ ad_reason v
      | Failed _ \<Rightarrow> ''advisor did not complete (failed)''
      | Cancelled \<Rightarrow> ''advisor did not complete (cancelled)'')"

definition advisor_passed :: "advisor_verdict agent_outcome \<Rightarrow> bool" where
  "advisor_passed out = (case out_status out of Completed v \<Rightarrow> ad_pass v | _ \<Rightarrow> False)"

text \<open>What \<open>ask_advisor\<close> does when the advisor's run has ended.\<close>

definition conclude_advice :: "string \<Rightarrow> advisor_submission \<Rightarrow> advisor_verdict agent_outcome \<Rightarrow> pass_registry \<Rightarrow> tool_result \<times> pass_registry" where
  "conclude_advice caller target out reg =
     (ToolOutput (JStr (render_advisor_verdict out)) None, if advisor_passed out then record_pass caller target reg else reg)"

section \<open>Workflow tools\<close>

definition parse_delegate_input :: "string list \<Rightarrow> json_object \<Rightarrow> json_object option" where
  "parse_delegate_input visible i =
     (case (parse_enum visible (map_of i ''name''),
            (case map_of i ''args'' of None \<Rightarrow> Some [] | Some (JObj a) \<Rightarrow> Some a | Some _ \<Rightarrow> None)) of
        (Some n, Some a) \<Rightarrow> Some [(''name'', JStr n), (''args'', JObj a)]
      | _ \<Rightarrow> None)"

definition delegate_workflow_tool :: "zod_host \<Rightarrow> string list \<Rightarrow> tool_def" where
  "delegate_workflow_tool zh visible = engine_tool zh ''delegate_workflow'' ''Delegate one visible workflow as a background task.''
     (parse_delegate_input visible)"

definition workflow_task_outcome :: "wf_outcome \<Rightarrow> task_outcome" where
  "workflow_task_outcome out =
     (case out of
        OutcomeSuccess v \<Rightarrow> \<lparr>to_status = TaskSuccess, to_outcome = stringify (case v of None \<Rightarrow> JObj [] | Some JNull \<Rightarrow> JObj [] | Some j \<Rightarrow> j)\<rparr>
      | OutcomeCancelled r \<Rightarrow> \<lparr>to_status = TaskCancelled, to_outcome = r\<rparr>
      | OutcomeDeadlocked r _ \<Rightarrow> \<lparr>to_status = TaskFailed, to_outcome = r\<rparr>
      | OutcomeFailure r _ \<Rightarrow> \<lparr>to_status = TaskFailed, to_outcome = or_default r ''failure''\<rparr>)"

definition execute_delegate :: "background_task_id \<Rightarrow> nat \<Rightarrow> string \<Rightarrow> string \<Rightarrow> supervisor \<Rightarrow>
    (register_error + (background_task_id \<times> sup_effect list \<times> supervisor)) \<times> string" where
  "execute_delegate task now name run s =
     (register task now \<lparr>tag_type = ''workflow'', tag_id = run\<rparr> (''workflow '' @ name @ '': '' @ run) False s,
      ''workflow delegated: '' @ run)"

definition list_description_tool :: "zod_host \<Rightarrow> string list \<Rightarrow> tool_def" where
  "list_description_tool zh visible = engine_tool zh ''list_workflow_description''
     ''List visible workflow names, descriptions, and participant targets.''
     (\<lambda>i. case map_of i ''name'' of None \<Rightarrow> Some [] | Some j \<Rightarrow> map_option (\<lambda>n. [(''name'', JStr n)]) (parse_enum visible (Some j)))"

definition participants_output :: "(string \<times> node_def) list \<Rightarrow> json" where
  "participants_output bs = JObj (new_map (map (\<lambda>b. (fst b, binding_json (snd b))) bs))"

definition description_output :: "workflow_description list \<Rightarrow> json" where
  "description_output ds = JArr (map (\<lambda>d. JObj [(''name'', JStr (wy_name d)), (''type'', JStr (wy_type d)),
     (''description'', JStr (wy_description d)), (''participants'', participants_output (wy_participants d))]) ds)"

definition read_docs_tool :: "zod_host \<Rightarrow> string list \<Rightarrow> tool_def" where
  "read_docs_tool zh visible = engine_tool zh ''read_workflow_docs'' ''Read the full manual for one visible workflow.''
     (\<lambda>i. map_option (\<lambda>n. [(''name'', JStr n)]) (parse_enum visible (map_of i ''name'')))"

definition list_context_tool :: "zod_host \<Rightarrow> tool_def" where
  "list_context_tool zh = engine_tool zh ''list_workflow_context'' ''List context entries for a visible workflow run record.''
     (\<lambda>i. map_option (\<lambda>r. [(''workflow_record_id'', JStr r)]) (parse_text (map_of i ''workflow_record_id'')))"

definition query_context_tool :: "zod_host \<Rightarrow> tool_def" where
  "query_context_tool zh = engine_tool zh ''query_workflow_context'' ''Query context for a visible workflow run record.''
     (\<lambda>i. case (parse_text (map_of i ''workflow_record_id''), map_of i ''query'') of
            (Some r, Some (JObj q)) \<Rightarrow>
              (if \<not> strict_keys [''text''] q then None
               else map_option (\<lambda>t. [(''workflow_record_id'', JStr r), (''query'', JObj [(''text'', JStr t)])]) (parse_text (map_of q ''text'')))
          | _ \<Rightarrow> None)"

definition tools_for_agent :: "zod_host \<Rightarrow> string list \<Rightarrow> tool_def list" where
  "tools_for_agent zh visible =
     [delegate_workflow_tool zh visible, list_description_tool zh visible, read_docs_tool zh visible,
      list_context_tool zh, query_context_tool zh]"

section \<open>Reading outside the store\<close>

text \<open>A disk with two stores: a node run recorded under \<open>/data/nodes\<close>, seen from the agents' store \<open>/data/agents\<close>.\<close>

definition other_store :: "unit jsonl_store" where
  "other_store = (fold store_exec [CreateNodeRun ''1'' ''t'' ''w'' ''agent'' ''a'' None, AppendEvent ''node-1'' (JStr ''x'')]
     (empty_store [''data'', ''nodes'']))\<lparr>js_root := [''data'', ''agents'']\<rparr>"

text \<open>
  \<open>read_agent_run\<close> reads outside its store. The run id of a call is joined to the store's
  directory as it is, so an id with \<open>..\<close> names any directory of the host that has an
  \<open>events.jsonl\<close>: here an agent is shown the events of a node run that its store does not hold.
\<close>

lemma read_run_escapes_store:
  "recorded other_store ''node-1'' = None \<and>
   is_ok (td_parse (read_agent_run \<lparr>zh_issues = \<lambda>_ _. [], zh_schema = \<lambda>_. []\<rparr>) [(''run_id'', JStr ''../nodes/node-1'')]) \<and>
   pg_lines (read_events ''../nodes/node-1'' 0 100 other_store) = [stringify (JStr ''x'')]"
  by code_simp

end
