(* ===== verification/AgentFactory.thy ===== *)
theory AgentFactory
  imports AgentRuntime EngineTools
begin

text \<open>
  \<open>agent-engine/src/agents/agent-factory.ts\<close>: how a profile, an outcome binding and the dynamic
  tools of a caller become the agent that the runtime runs, with every check on the way. Profiles
  and the runtime come from the host; the tools it adds (\<open>extraTools\<close>) are an argument.
\<close>

section \<open>Profiles and inputs\<close>

record agent_profile =
  ap_name :: string
  ap_llm :: string
  ap_description :: "string option"
  ap_max_turns :: "nat option"
  ap_allowed_tools :: "string list"
  ap_workflows :: "string list"
  ap_subagents :: "string list"
  ap_system_prompt :: string
  ap_source_path :: string

text \<open>The registry of profiles in configuration order.\<close>

type_synonym profile_registry = "(string \<times> agent_profile) list"

definition require_profile :: "profile_registry \<Rightarrow> string \<Rightarrow> string + agent_profile" where
  "require_profile ps name =
     (case map_of ps name of
        Some p \<Rightarrow> Inr p
      | None \<Rightarrow> Inl (''unknown agent profile \"'' @ name @ ''\" (configured: '' @
          (if ps = [] then ''none'' else join_with '', '' (map fst ps)) @ '')''))"

datatype 'o outcome_binding = PlainOutcome "'o outcome_fn" | AdvisedOutcome "'o outcome_fn" string

record dynamic_tools =
  dy_workflows :: "string list option"
  dy_subagents :: "string list option"
  dy_advisor :: "string option"

section \<open>Checks\<close>

definition injected_tool_names :: "string list" where
  "injected_tool_names = [''ask_advisor'', ''run_subagent'', ''delegate_workflow'', ''list_workflow_description'',
     ''read_workflow_docs'', ''list_workflow_context'', ''query_workflow_context'']"

fun check_unique :: "string \<Rightarrow> string list \<Rightarrow> string list \<Rightarrow> string + unit" where
  "check_unique kind seen [] = Inr ()"
| "check_unique kind seen (n # ns) =
     (if n \<in> set seen then Inl (''duplicate '' @ kind @ '' \"'' @ n @ ''\"'') else check_unique kind (n # seen) ns)"

definition assert_unique :: "string \<Rightarrow> string list \<Rightarrow> string + unit" where
  "assert_unique kind names = check_unique kind [] names"

definition profile_error :: "agent_profile \<Rightarrow> string \<Rightarrow> string \<Rightarrow> string \<Rightarrow> string" where
  "profile_error p what tool rest = ''profile \"'' @ ap_name p @ ''\" lists '' @ what @ '' \"'' @ tool @ ''\"'' @ rest"

fun check_selection :: "agent_profile \<Rightarrow> string list \<Rightarrow> string list \<Rightarrow> string + unit" where
  "check_selection p seen [] = Inr ()"
| "check_selection p seen (n # ns) =
     (if n \<in> set injected_tool_names then Inl (profile_error p ''factory-injected tool'' n '' in allowed_tools'')
      else if n \<in> set seen then Inl (profile_error p ''duplicate tool'' n [])
      else check_selection p (n # seen) ns)"

definition validate_tool_selection :: "agent_profile \<Rightarrow> string + unit" where
  "validate_tool_selection p = check_selection p [] (ap_allowed_tools p)"

definition validate_advisor_profile :: "profile_registry \<Rightarrow> string + unit" where
  "validate_advisor_profile ps =
     (if ADVISOR_AGENT_NAME \<in> set (map (ap_name \<circ> snd) ps) then Inr ()
      else Inl (''advisory requires an \"'' @ ADVISOR_AGENT_NAME @ ''\" profile, which is not configured''))"

text \<open>\<open>buildAgentFactory\<close> refuses profiles without an advisor; the factory is its profiles.\<close>

definition build_agent_factory :: "profile_registry \<Rightarrow> string + profile_registry" where
  "build_agent_factory ps = and_then (validate_advisor_profile ps) (\<lambda>_. Inr ps)"

section \<open>Dynamic tools\<close>

definition bind_dynamic_advisor :: "'o outcome_binding option \<Rightarrow> dynamic_tools option \<Rightarrow> string + 'o outcome_binding option" where
  "bind_dynamic_advisor outcome dyn =
     (case (case dyn of None \<Rightarrow> None | Some d \<Rightarrow> dy_advisor d) of
        None \<Rightarrow> Inr outcome
      | Some prompt \<Rightarrow>
          (case outcome of
             None \<Rightarrow> Inl ''dynamic advisor tool requires an outcome binding''
           | Some (AdvisedOutcome _ _) \<Rightarrow> Inl ''dynamic advisor tool cannot wrap an advisory outcome binding''
           | Some (PlainOutcome f) \<Rightarrow> Inr (Some (AdvisedOutcome f prompt))))"

record resolved_tools =
  rv_workflows :: "string list"
  rv_subagents :: "string list"

fun check_all :: "('a \<Rightarrow> string + unit) \<Rightarrow> 'a list \<Rightarrow> string + unit" where
  "check_all f [] = Inr ()"
| "check_all f (x # xs) = and_then (f x) (\<lambda>_. check_all f xs)"

definition resolve_dynamic_tools ::
  "agent_profile \<Rightarrow> profile_registry \<Rightarrow> 'm tool_service option \<Rightarrow> dynamic_tools option \<Rightarrow> string + resolved_tools" where
  "resolve_dynamic_tools p ps service dyn =
     (let dw = (case dyn of None \<Rightarrow> None | Some d \<Rightarrow> dy_workflows d);
          workflows = or_default dw (ap_workflows p);
          subagents = or_default (case dyn of None \<Rightarrow> None | Some d \<Rightarrow> dy_subagents d) (ap_subagents p)
      in and_then (assert_unique ''agentic workflow'' workflows) (\<lambda>_.
         and_then (assert_unique ''subagent'' subagents) (\<lambda>_.
         and_then
           (if dw = None then Inr ()
            else if service = None \<and> workflows \<noteq> [] then Inl ''dynamic agentic workflow tools require AgenticWorkflowToolService''
            else check_all (\<lambda>w. if (case service of None \<Rightarrow> False | Some sv \<Rightarrow> can_start_workflow sv w) then Inr ()
                   else Inl (''dynamic agentic workflow \"'' @ w @ ''\" is not registered'')) workflows) (\<lambda>_.
         and_then (check_all (\<lambda>n. and_then (require_profile ps n) (\<lambda>_. Inr ())) subagents) (\<lambda>_.
           Inr \<lparr>rv_workflows = workflows, rv_subagents = subagents\<rparr>)))))"

section \<open>The tools of an agent\<close>

definition available_tools :: "zod_host \<Rightarrow> tool_def list \<Rightarrow> (string \<times> tool_def) list" where
  "available_tools zh extra =
     new_map (map (\<lambda>t. (td_name t, t)) ([list_background_tasks zh, cancel_background_task zh, read_agent_run zh] @ extra))"

fun select_tools :: "agent_profile \<Rightarrow> (string \<times> tool_def) list \<Rightarrow> string list \<Rightarrow> string list \<Rightarrow> string + tool_def list" where
  "select_tools p available seen [] = Inr []"
| "select_tools p available seen (n # ns) =
     (if n \<in> set injected_tool_names then Inl (profile_error p ''factory-injected tool'' n '' in allowed_tools'')
      else if n \<in> set seen then Inl (profile_error p ''duplicate tool'' n [])
      else case map_of available n of
             None \<Rightarrow> Inl (profile_error p ''unknown tool'' n [])
           | Some t \<Rightarrow> and_then (select_tools p available (n # seen) ns) (\<lambda>ts. Inr (t # ts)))"

definition select_ordinary_tools :: "zod_host \<Rightarrow> agent_profile \<Rightarrow> string list \<Rightarrow> tool_def list \<Rightarrow> string + tool_def list" where
  "select_ordinary_tools zh p subagents extra =
     and_then (select_tools p (available_tools zh extra) [] (ap_allowed_tools p)) (\<lambda>ts.
       Inr (ts @ (if subagents \<noteq> [] then [run_subagent zh subagents] else [])))"

definition render_workflow_prompt :: "'m tool_service \<Rightarrow> string list \<Rightarrow> string + string" where
  "render_workflow_prompt sv names =
     and_then (list_description sv names None) (\<lambda>ds. Inr (join_with newline
       ([''## Available agentic workflows'',
         ''Drive these configured agentic workflows through delegate_workflow and inspect them with workflow description, docs, and context tools.''] @
        map (\<lambda>d. ''### '' @ wy_name d @ '' - '' @ wy_description d @ newline @
          ''Tools: delegate_workflow, list_workflow_description, read_workflow_docs, list_workflow_context, query_workflow_context'') ds)))"

text \<open>\<open>approval\<close> is the host's \<open>advisorApproval\<close> factory, applied to the run's registry of passes.\<close>

record engine_host =
  eh_zod :: zod_host
  eh_approval :: "(string \<Rightarrow> string \<Rightarrow> hook_entry) option"
  eh_extra :: "tool_def list"

definition workflow_part :: "engine_host \<Rightarrow> agent_profile \<Rightarrow> 'm tool_service option \<Rightarrow> string list \<Rightarrow> string + (tool_def list \<times> string)" where
  "workflow_part eh p service names =
     (if names = [] then Inr ([], ap_system_prompt p)
      else case service of
             None \<Rightarrow> Inl ''agentic workflow tools require AgenticWorkflowToolService''
           | Some sv \<Rightarrow> and_then (render_workflow_prompt sv names) (\<lambda>prompt.
               Inr (tools_for_agent (eh_zod eh) names, prompt @ newline @ newline @ ap_system_prompt p)))"

definition outcome_part :: "engine_host \<Rightarrow> string \<Rightarrow> 'o outcome_binding option \<Rightarrow> string + (tool_def list \<times> 'o outcome_fn option \<times> hook_entry list)" where
  "outcome_part eh run binding =
     (case binding of
        None \<Rightarrow> Inr ([], None, [])
      | Some (PlainOutcome f) \<Rightarrow> Inr ([], Some f, [require_no_background_tasks (of_name f)])
      | Some (AdvisedOutcome f prompt) \<Rightarrow>
          (case eh_approval eh of
             None \<Rightarrow> Inl ''advisory binding requires advisor_approval in hooks.json''
           | Some approval \<Rightarrow>
               Inr ([ask_advisor (eh_zod eh)], Some f, [require_no_background_tasks (of_name f), approval run (of_name f)])))"

definition build_agent_spec ::
  "engine_host \<Rightarrow> agent_profile \<Rightarrow> 'm tool_service option \<Rightarrow> string \<Rightarrow> 'o outcome_binding option \<Rightarrow> resolved_tools \<Rightarrow> string + 'o agent_spec" where
  "build_agent_spec eh p service run binding rv =
     and_then (select_ordinary_tools (eh_zod eh) p (rv_subagents rv) (eh_extra eh)) (\<lambda>ordinary.
     and_then (workflow_part eh p service (rv_workflows rv)) (\<lambda>(wtools, prompt).
     and_then (outcome_part eh run binding) (\<lambda>(otools, outcome, hooks).
       Inr \<lparr>as_name = ap_name p, as_llm = ap_llm p, as_system_prompt = prompt, as_tools = ordinary @ wtools @ otools,
            as_outcome = outcome, as_max_turns = ap_max_turns p, as_hooks = hooks\<rparr>)))"

section \<open>Agents\<close>

record 'o bound_agent =
  ba_profile :: agent_profile
  ba_outcome :: "'o outcome_binding option"
  ba_tools :: resolved_tools

definition create_bound_agent ::
  "profile_registry \<Rightarrow> 'm tool_service option \<Rightarrow> string \<Rightarrow> 'o outcome_binding option \<Rightarrow> dynamic_tools option \<Rightarrow> string + 'o bound_agent" where
  "create_bound_agent ps service name outcome dyn =
     and_then (require_profile ps name) (\<lambda>p.
     and_then (resolve_dynamic_tools p ps service dyn) (\<lambda>rv.
     and_then (validate_tool_selection p) (\<lambda>_.
       Inr \<lparr>ba_profile = p, ba_outcome = outcome, ba_tools = rv\<rparr>)))"

text \<open>\<open>createAgent\<close> and \<open>create\<close> of the factory.\<close>

definition factory_create_agent ::
  "profile_registry \<Rightarrow> 'm tool_service option \<Rightarrow> string \<Rightarrow> 'o outcome_binding option \<Rightarrow> dynamic_tools option \<Rightarrow> string + 'o bound_agent" where
  "factory_create_agent ps service name outcome dyn =
     and_then (bind_dynamic_advisor outcome dyn) (\<lambda>o1. create_bound_agent ps service name o1 dyn)"

definition factory_create ::
  "profile_registry \<Rightarrow> 'm tool_service option \<Rightarrow> string \<Rightarrow> 'o outcome_binding option \<Rightarrow> string + 'o bound_agent" where
  "factory_create ps service name outcome = create_bound_agent ps service name outcome None"

text \<open>
  \<open>start\<close>: the record is created first; whatever fails after that is recorded as the run's failed
  start. \<open>launch\<close> starts the created agent's run and bridges it.
\<close>

definition start_agent ::
  "engine_host \<Rightarrow> 'c agent_runtime \<Rightarrow> 'm tool_service option \<Rightarrow> (('o, 'c) agent \<Rightarrow> 'h jsonl_store \<Rightarrow> (string + 'r) \<times> 'h jsonl_store) \<Rightarrow>
   string \<Rightarrow> string \<Rightarrow> string \<Rightarrow> string option \<Rightarrow> string option \<Rightarrow> 'o bound_agent \<Rightarrow> 'h jsonl_store \<Rightarrow> (string + 'r) \<times> 'h jsonl_store" where
  "start_agent eh rt service launch uuid now later parent_workflow parent_node b s =
     (case agent_run_create uuid now (ap_name (ba_profile b)) parent_workflow parent_node s of
        Inl err \<Rightarrow> (Inl err, s)
      | Inr (run, s1) \<Rightarrow>
          (case (case and_then (build_agent_spec eh (ba_profile b) service run (ba_outcome b) (ba_tools b)) (create_agent rt) of
                   Inl err \<Rightarrow> (Inl err, s1)
                 | Inr a \<Rightarrow> launch a s1) of
             (Inr h, s2) \<Rightarrow> (Inr h, s2)
           | (Inl err, s2) \<Rightarrow> record_failure run later err s2))"

section \<open>The agents that the factory builds\<close>

lemma new_map_snoc: "map_of (new_map (kvs @ [(k, v)])) = (map_of (new_map kvs))(k \<mapsto> v)"
  by (simp add: new_map_def update_conv')

lemma new_map_self: "map_of (new_map (map (\<lambda>t. (f t, t)) ts)) n = Some t \<Longrightarrow> f t = n \<and> t \<in> set ts"
proof (induction ts rule: rev_induct)
  case (snoc u ts)
  then show ?case by (cases "n = f u") (auto simp: new_map_snoc)
qed (simp add: new_map_def)

lemma select_tools_names:
  "select_tools p (available_tools zh extra) seen ns = Inr ts \<Longrightarrow>
   map td_name ts = ns \<and> distinct ns \<and> set ns \<inter> (set seen \<union> set injected_tool_names) = {}"
proof (induction ns arbitrary: seen ts)
  case (Cons n ns)
  from Cons.prems obtain t us where t: "map_of (available_tools zh extra) n = Some t" "n \<notin> set injected_tool_names" "n \<notin> set seen"
    and us: "select_tools p (available_tools zh extra) (n # seen) ns = Inr us" "ts = t # us"
    by (auto simp: and_then_Inr_iff split: if_splits option.splits)
  have "td_name t = n" using new_map_self [OF t(1) [unfolded available_tools_def]] by blast
  with Cons.IH [OF us(1)] t us(2) show ?case by auto
qed simp

lemma engine_tool_name [simp]: "td_name (engine_tool zh n d p) = n"
  by (simp add: engine_tool_def)

text \<open>The names of the tools of a built agent, in order.\<close>

definition expected_tools :: "agent_profile \<Rightarrow> resolved_tools \<Rightarrow> 'o outcome_binding option \<Rightarrow> string list" where
  "expected_tools p rv binding =
     ap_allowed_tools p @ (if rv_subagents rv \<noteq> [] then [''run_subagent''] else []) @
     (if rv_workflows rv \<noteq> [] then [''delegate_workflow'', ''list_workflow_description'', ''read_workflow_docs'',
        ''list_workflow_context'', ''query_workflow_context''] else []) @
     (case binding of Some (AdvisedOutcome _ _) \<Rightarrow> [''ask_advisor''] | _ \<Rightarrow> [])"

fun binding_fn :: "'o outcome_binding \<Rightarrow> 'o outcome_fn" where
  "binding_fn (PlainOutcome f) = f"
| "binding_fn (AdvisedOutcome f _) = f"

lemma outcome_part_Inr:
  "outcome_part eh run binding = Inr (ts, outcome, hooks) \<Longrightarrow>
   outcome = map_option binding_fn binding \<and>
   map td_name ts = (case binding of Some (AdvisedOutcome _ _) \<Rightarrow> [''ask_advisor''] | _ \<Rightarrow> []) \<and>
   (\<forall>f. outcome = Some f \<longrightarrow> require_no_background_tasks (of_name f) \<in> set hooks) \<and>
   (\<forall>f prompt. binding = Some (AdvisedOutcome f prompt) \<longrightarrow>
      (\<exists>approval. eh_approval eh = Some approval \<and> approval run (of_name f) \<in> set hooks))"
  by (auto simp: outcome_part_def ask_advisor_def split: option.splits outcome_binding.splits)

lemma workflow_part_Inr:
  "workflow_part eh p service names = Inr (ts, prompt) \<Longrightarrow>
   map td_name ts = (if names \<noteq> [] then [''delegate_workflow'', ''list_workflow_description'', ''read_workflow_docs'',
     ''list_workflow_context'', ''query_workflow_context''] else [])"
  by (auto simp: workflow_part_def and_then_Inr_iff tools_for_agent_def delegate_workflow_tool_def list_description_tool_def
      read_docs_tool_def list_context_tool_def query_context_tool_def split: if_splits option.splits)

lemma built_spec:
  assumes "build_agent_spec eh p service run binding rv = Inr spec"
  shows "map td_name (as_tools spec) = expected_tools p rv binding \<and> distinct (expected_tools p rv binding) \<and>
    as_llm spec = ap_llm p \<and> as_outcome spec = map_option binding_fn binding \<and>
    (\<forall>f. as_outcome spec = Some f \<longrightarrow> require_no_background_tasks (of_name f) \<in> set (as_hooks spec)) \<and>
    (\<forall>f prompt. binding = Some (AdvisedOutcome f prompt) \<longrightarrow>
      (\<exists>approval. eh_approval eh = Some approval \<and> approval run (of_name f) \<in> set (as_hooks spec)))"
proof -
  from assms obtain ordinary wtools prompt otools outcome hooks where
    o: "select_ordinary_tools (eh_zod eh) p (rv_subagents rv) (eh_extra eh) = Inr ordinary"
    and w: "workflow_part eh p service (rv_workflows rv) = Inr (wtools, prompt)"
    and b: "outcome_part eh run binding = Inr (otools, outcome, hooks)"
    and spec: "as_tools spec = ordinary @ wtools @ otools" "as_llm spec = ap_llm p" "as_outcome spec = outcome" "as_hooks spec = hooks"
    by (auto simp: build_agent_spec_def and_then_Inr_iff)
  from o obtain ts where ts: "select_tools p (available_tools (eh_zod eh) (eh_extra eh)) [] (ap_allowed_tools p) = Inr ts"
    "ordinary = ts @ (if rv_subagents rv \<noteq> [] then [run_subagent (eh_zod eh) (rv_subagents rv)] else [])"
    by (auto simp: select_ordinary_tools_def and_then_Inr_iff)
  note names = select_tools_names [OF ts(1)]
  have tools: "map td_name (as_tools spec) = expected_tools p rv binding"
    using names ts(2) workflow_part_Inr [OF w] outcome_part_Inr [OF b]
    by (simp add: spec expected_tools_def run_subagent_def)
  have "distinct (expected_tools p rv binding)"
    using names by (auto simp: expected_tools_def injected_tool_names_def split: option.splits outcome_binding.splits)
  with tools outcome_part_Inr [OF b] spec show ?thesis by auto
qed

text \<open>
  C29: agents that the factory builds are well formed. Their tools are the profile's allowed tools
  in order, then the tools the factory injects, all with distinct names; a profile cannot name an
  injected tool. The runtime therefore refuses such an agent only for an unknown model or for a
  terminal tool that shares a name with one of the tools; and the terminal tool always has the
  guard against open background tasks, an advised one also the host's approval hook.
\<close>

theorem factory_agents_well_formed:
  assumes "build_agent_spec eh p service run binding rv = Inr spec"
  shows "map td_name (as_tools spec) = expected_tools p rv binding \<and> distinct (expected_tools p rv binding) \<and>
    (is_ok (create_agent rt spec) \<longleftrightarrow> map_of (ar_registry rt) (ap_llm p) \<noteq> None \<and>
       (\<forall>b. binding = Some b \<longrightarrow> of_name (binding_fn b) \<notin> set (expected_tools p rv binding))) \<and>
    (\<forall>b. binding = Some b \<longrightarrow> require_no_background_tasks (of_name (binding_fn b)) \<in> set (as_hooks spec)) \<and>
    (\<forall>f prompt. binding = Some (AdvisedOutcome f prompt) \<longrightarrow>
      (\<exists>approval. eh_approval eh = Some approval \<and> approval run (of_name f) \<in> set (as_hooks spec)))"
  using built_spec [OF assms] creatable [of rt spec]
  by (cases binding) (auto simp: bound_names)

definition sample_profile :: agent_profile where
  "sample_profile = \<lparr>ap_name = ''reader'', ap_llm = ''fast'', ap_description = None, ap_max_turns = None,
     ap_allowed_tools = [''read_agent_run''], ap_workflows = [], ap_subagents = [''helper''], ap_system_prompt = ''Read.'',
     ap_source_path = ''agents/reader.md''\<rparr>"

definition sample_host :: engine_host where
  "sample_host = \<lparr>eh_zod = \<lparr>zh_issues = (\<lambda>_ _. []), zh_schema = (\<lambda>_. [])\<rparr>,
     eh_approval = Some (\<lambda>_ tool. require_no_background_tasks tool), eh_extra = []\<rparr>"

definition sample_binding :: "json outcome_binding" where
  "sample_binding = AdvisedOutcome \<lparr>of_name = ''submit'', of_description = [], of_input_schema = [], of_parse = (\<lambda>kvs. Inr (JObj kvs))\<rparr> ''Check it.''"

theorem factory_agents_well_formed_witness:
  "\<exists>spec. build_agent_spec sample_host sample_profile (None :: unit tool_service option) ''agent-1'' (Some sample_binding)
       \<lparr>rv_workflows = [], rv_subagents = [''helper'']\<rparr> = Inr spec \<and>
     map td_name (as_tools spec) = [''read_agent_run'', ''run_subagent'', ''ask_advisor''] \<and>
     require_no_background_tasks ''submit'' \<in> set (as_hooks spec)"
proof -
  have "is_ok (build_agent_spec sample_host sample_profile (None :: unit tool_service option) ''agent-1'' (Some sample_binding)
       \<lparr>rv_workflows = [], rv_subagents = [''helper'']\<rparr>)"
    by code_simp
  then obtain spec where spec: "build_agent_spec sample_host sample_profile (None :: unit tool_service option) ''agent-1'' (Some sample_binding)
       \<lparr>rv_workflows = [], rv_subagents = [''helper'']\<rparr> = Inr spec"
    by (rule is_okE)
  from factory_agents_well_formed [OF spec, where rt = "\<lparr>ar_registry = [] :: (string \<times> unit resolved_llm) list, ar_hooks = [], ar_task_timeout = 0\<rparr>"]
  have tools: "map td_name (as_tools spec) = expected_tools sample_profile \<lparr>rv_workflows = [], rv_subagents = [''helper'']\<rparr> (Some sample_binding)"
    and guard: "require_no_background_tasks (of_name (binding_fn sample_binding)) \<in> set (as_hooks spec)" by blast+
  have names: "expected_tools sample_profile \<lparr>rv_workflows = [], rv_subagents = [''helper'']\<rparr> (Some sample_binding) =
      [''read_agent_run'', ''run_subagent'', ''ask_advisor'']"
    by (simp add: expected_tools_def sample_profile_def sample_binding_def)
  have submit: "of_name (binding_fn sample_binding) = ''submit''" by (simp add: sample_binding_def)
  show ?thesis
    by (intro exI conjI, rule spec, rule trans [OF tools names], rule guard [unfolded submit])
qed

end
