(* ===== verification/NodeRunner.thy ===== *)
theory NodeRunner
  imports AgentFactory RunBridge WorkflowExamples
begin

text \<open>
  \<open>agent-engine/src/nodes/node-runner.ts\<close>: how the engine runs a node of a workflow as an agent
  run or a delegated workflow run. A node handle is a transition system: its events are pushed to
  the observer at once and appended to the run's record one after the other; what the delegated
  run settled with is mapped to the node's settlement, which is reported after it is recorded.
\<close>

section \<open>The settlement of a node\<close>

text \<open>
  \<open>submitWorkflowDelegationOutcome\<close>: the contract of an agent node, whose \<open>onSubmit\<close> is the
  workflow's answer. \<open>schema\<close> is the JSON schema that zod makes of the contract.
\<close>

definition submit_workflow_delegation_outcome :: "json_object \<Rightarrow> outcome_contract \<Rightarrow> outcome_error + json outcome_fn" where
  "submit_workflow_delegation_outcome schema c =
     create_agent_outcome_fn (oc_name c) (Some (oc_description c)) None schema (\<lambda>i. oc_parse c (JObj i))"

fun delegation_verdict :: "submission_result \<Rightarrow> string + json verdict" where
  "delegation_verdict (SubmissionAccepted out) = Inr (Accept (no_payload out))"
| "delegation_verdict (SubmissionRejected why) = Inr (Reject why)"
| "delegation_verdict (SubmissionThrew err) = Inl err"

text \<open>\<open>submit\<close> is the workflow's completion port; it is called with the outcome of a completed run only.\<close>

definition settle_agent_node :: "outcome_contract \<Rightarrow> (json \<Rightarrow> submission_result) \<Rightarrow> json run_status \<Rightarrow> string + node_settlement" where
  "settle_agent_node c submit out =
     (case out of
        Completed v \<Rightarrow>
          (case submit v of
             SubmissionThrew err \<Rightarrow> Inl err
           | SubmissionRejected why \<Rightarrow>
               (if why = ''node run is already finished''
                then Inr (NodeCompleted \<lparr>no_name = oc_name c, no_payload = v\<rparr>) else Inr (NodeRejected why))
           | SubmissionAccepted acc \<Rightarrow> Inr (NodeCompleted acc))
      | Cancelled \<Rightarrow> Inr (NodeCancelled (Some ''agent run cancelled''))
      | Failed err \<Rightarrow> Inr (NodeFailed (err_message err)))"

text \<open>\<open>missing\<close> is what the schema makes of an output that is undefined.\<close>

definition settle_workflow_node ::
  "outcome_contract \<Rightarrow> (zod_issue list + json) \<Rightarrow> (json \<Rightarrow> submission_result) \<Rightarrow> wf_outcome \<Rightarrow> string + node_settlement" where
  "settle_workflow_node c missing submit out =
     (case out of
        OutcomeCancelled why \<Rightarrow> Inr (NodeCancelled (Some why))
      | OutcomeFailure why _ \<Rightarrow> Inr (NodeFailed (or_default why ''workflow ended with failure''))
      | OutcomeDeadlocked why _ \<Rightarrow> Inr (NodeFailed why)
      | OutcomeSuccess v \<Rightarrow>
          (case (case v of None \<Rightarrow> missing | Some j \<Rightarrow> oc_parse c j) of
             Inl _ \<Rightarrow> Inr (NodeRejected (''delegated workflow output did not satisfy '' @ oc_name c))
           | Inr parsed \<Rightarrow>
               (case submit parsed of
                  SubmissionThrew err \<Rightarrow> Inl err
                | SubmissionRejected why \<Rightarrow> Inr (NodeRejected why)
                | SubmissionAccepted acc \<Rightarrow> Inr (NodeCompleted acc))))"

section \<open>Events and their records\<close>

record node_request =
  nq_start :: start_spec
  nq_metadata :: "json_object option"

fun input_metadata :: "node_input \<Rightarrow> json_object option" where
  "input_metadata (AgentInput _ m) = m"
| "input_metadata (WorkflowInput _ m) = m"

fun kind_text :: "node_kind \<Rightarrow> string" where
  "kind_text AgentKind = ''agent''"
| "kind_text WorkflowKind = ''workflow''"

definition node_start_spec_record :: "node_request \<Rightarrow> json_object" where
  "node_start_spec_record q =
     (let node = ss_node (nq_start q); c = ss_outcome (nq_start q) in
      [(''node'', JObj ([(''kind'', JStr (kind_text (nd_kind node))), (''name'', JStr (nd_name node))] @
          optional_member ''description'' (map_option JStr (nd_description node)))),
       (''outcome'', JObj [(''name'', JStr (oc_name c)), (''description'', JStr (oc_description c))])] @
      optional_member ''metadata'' (map_option JObj (nq_metadata q)) @
      optional_member ''inputMetadata'' (map_option JObj (input_metadata (ss_input (nq_start q)))))"

datatype node_event_body =
    NodeStarted json_object
  | NodeOutcomeSubmitted node_outcome
  | NodeOutcomeRejected string
  | NodeSettled node_settlement

record node_event =
  ne_body :: node_event_body
  ne_node :: string
  ne_seq :: nat
  ne_time :: string

definition node_outcome_json :: "node_outcome \<Rightarrow> json" where
  "node_outcome_json out = JObj [(''outcomeName'', JStr (no_name out)), (''outcome'', no_payload out)]"

fun settlement_json :: "node_settlement \<Rightarrow> json" where
  "settlement_json (NodeCompleted out) = JObj [(''status'', JStr ''completed''), (''outcome'', node_outcome_json out)]"
| "settlement_json (NodeRejected why) = JObj [(''status'', JStr ''rejected''), (''reason'', JStr why)]"
| "settlement_json (NodeFailed why) = JObj [(''status'', JStr ''failed''), (''reason'', JStr why)]"
| "settlement_json (NodeCancelled why) = JObj ((''status'', JStr ''cancelled'') # optional_member ''reason'' (map_option JStr why))"

fun body_members :: "node_event_body \<Rightarrow> json_object" where
  "body_members (NodeStarted spec) = [(''type'', JStr ''node_started''), (''spec'', JObj spec)]"
| "body_members (NodeOutcomeSubmitted out) = [(''type'', JStr ''node_outcome_submitted''), (''outcome'', node_outcome_json out)]"
| "body_members (NodeOutcomeRejected why) = [(''type'', JStr ''node_outcome_rejected''), (''reason'', JStr why)]"
| "body_members (NodeSettled st) = [(''type'', JStr ''node_settled''), (''settlement'', settlement_json st)]"

definition node_event_json :: "node_event \<Rightarrow> json" where
  "node_event_json e = JObj (body_members (ne_body e) @
     [(''nodeName'', JStr (ne_node e)), (''seq'', jnat (ne_seq e)), (''time'', JStr (ne_time e))])"

section \<open>The handle\<close>

text \<open>
  \<open>nh_writes\<close> are the events whose append is still chained, \<open>nh_write_error\<close> what the chain
  rejected with; \<open>nh_conclusion\<close> what the delegated run's end was mapped to, \<open>nh_result\<close> how the
  settlement promise settled; \<open>nh_asked\<close> the calls of \<open>onInterrupt\<close>.
\<close>

record 'h node_handle =
  nh_store :: "'h jsonl_store"
  nh_stream :: "node_event live_stream"
  nh_status :: node_status
  nh_started :: string
  nh_completed :: "string option"
  nh_seq :: nat
  nh_writes :: "node_event list"
  nh_write_error :: "string option"
  nh_conclusion :: "node_settlement option"
  nh_result :: "(string + node_settlement) option"
  nh_listening :: bool
  nh_asked :: "string list"

record node_config =
  nc_request :: node_request
  nc_run :: string

text \<open>The request's signal; a reason that is not a string is \<open>None\<close>.\<close>

datatype abort_signal = NoSignal | LiveSignal | AbortedSignal "string option"

definition abort_reason :: "string option \<Rightarrow> string" where
  "abort_reason why = or_default why ''interrupted''"

definition node_emit :: "node_config \<Rightarrow> string \<Rightarrow> node_event_body \<Rightarrow> 'h node_handle \<Rightarrow> 'h node_handle" where
  "node_emit cfg time body h =
     (let e = \<lparr>ne_body = body, ne_node = nd_name (ss_node (nq_start (nc_request cfg))), ne_seq = nh_seq h, ne_time = time\<rparr>
      in h\<lparr>nh_seq := nh_seq h + 1, nh_stream := ls_push e (nh_stream h), nh_writes := nh_writes h @ [e]\<rparr>)"

definition create_node_handle :: "node_config \<Rightarrow> string \<Rightarrow> string \<Rightarrow> abort_signal \<Rightarrow> 'h jsonl_store \<Rightarrow> 'h node_handle" where
  "create_node_handle cfg now time signal s =
     (let h = node_emit cfg time (NodeStarted (node_start_spec_record (nc_request cfg)))
            \<lparr>nh_store = s, nh_stream = ls_init, nh_status = RunningNode, nh_started = now, nh_completed = None, nh_seq = 0,
             nh_writes = [], nh_write_error = None, nh_conclusion = None, nh_result = None, nh_listening = False, nh_asked = []\<rparr>
      in case signal of
           NoSignal \<Rightarrow> h
         | LiveSignal \<Rightarrow> h\<lparr>nh_listening := True\<rparr>
         | AbortedSignal why \<Rightarrow> h\<lparr>nh_asked := [abort_reason why]\<rparr>)"

fun settled_status :: "node_settlement \<Rightarrow> node_status" where
  "settled_status (NodeCompleted _) = CompletedNode"
| "settled_status (NodeRejected _) = RejectedNode"
| "settled_status (NodeFailed _) = FailedNode"
| "settled_status (NodeCancelled _) = CancelledNode"

text \<open>\<open>settle()\<close> has settled; one that threw is a failure.\<close>

definition node_concludes :: "node_config \<Rightarrow> string \<Rightarrow> string \<Rightarrow> string \<Rightarrow> string + node_settlement \<Rightarrow> 'h node_handle \<Rightarrow> 'h node_handle" where
  "node_concludes cfg now t1 t2 outcome h =
     (let st = (case outcome of Inl err \<Rightarrow> NodeFailed err | Inr st \<Rightarrow> st);
          h1 = h\<lparr>nh_status := settled_status st, nh_completed := Some now, nh_conclusion := Some st\<rparr>;
          h2 = (case st of
                  NodeCompleted out \<Rightarrow> node_emit cfg t1 (NodeOutcomeSubmitted out) h1
                | NodeRejected why \<Rightarrow> node_emit cfg t1 (NodeOutcomeRejected why) h1
                | _ \<Rightarrow> h1)
      in node_emit cfg t2 (NodeSettled st) h2)"

text \<open>The chained writes: after one has failed the others are skipped.\<close>

definition node_write :: "node_config \<Rightarrow> 'h node_handle \<Rightarrow> 'h node_handle option" where
  "node_write cfg h =
     (case nh_writes h of
        [] \<Rightarrow> None
      | e # es \<Rightarrow>
          Some (if nh_write_error h \<noteq> None then h\<lparr>nh_writes := es\<rparr>
                else case append_event (nc_run cfg) (node_event_json e) (nh_store h) of
                       Inl err \<Rightarrow> h\<lparr>nh_writes := es, nh_write_error := Some err\<rparr>
                     | Inr s \<Rightarrow> h\<lparr>nh_writes := es, nh_store := s\<rparr>))"

text \<open>After the writes the settlement is recorded; the stream is closed and the listener removed in any case.\<close>

definition node_records :: "node_config \<Rightarrow> string \<Rightarrow> 'h node_handle \<Rightarrow> 'h node_handle option" where
  "node_records cfg now h =
     (case (nh_conclusion h, nh_result h, nh_writes h) of
        (Some st, None, []) \<Rightarrow>
          (let closed = h\<lparr>nh_stream := ls_close (nh_stream h), nh_listening := False\<rparr> in
           Some (case nh_write_error h of
                   Some err \<Rightarrow> closed\<lparr>nh_result := Some (Inl err)\<rparr>
                 | None \<Rightarrow>
                     (case node_run_finish (nc_run cfg) now (settlement_json st) (nh_store h) of
                        Inl err \<Rightarrow> closed\<lparr>nh_result := Some (Inl err)\<rparr>
                      | Inr s \<Rightarrow> closed\<lparr>nh_store := s, nh_result := Some (Inr st)\<rparr>)))
      | _ \<Rightarrow> None)"

datatype 'h node_label =
    NodeConcludes string string string "string + node_settlement"
  | NodeWrites
  | NodeRecords string
  | SignalAborts "string option"
  | HandleInterrupts string
  | NodePulls nat
  | NodeObserverLeaves
  | StoreElsewhere "'h jsonl_store \<Rightarrow> 'h jsonl_store"

definition node_exec :: "node_config \<Rightarrow> 'h node_label \<Rightarrow> 'h node_handle \<Rightarrow> 'h node_handle option" where
  "node_exec cfg x h =
     (case x of
        NodeConcludes now t1 t2 outcome \<Rightarrow>
          (if nh_conclusion h = None then Some (node_concludes cfg now t1 t2 outcome h) else None)
      | NodeWrites \<Rightarrow> node_write cfg h
      | NodeRecords now \<Rightarrow> node_records cfg now h
      | SignalAborts why \<Rightarrow>
          (if nh_listening h then Some (h\<lparr>nh_listening := False, nh_asked := nh_asked h @ [abort_reason why]\<rparr>) else None)
      | HandleInterrupts why \<Rightarrow> Some (h\<lparr>nh_asked := nh_asked h @ [why]\<rparr>)
      | NodePulls w \<Rightarrow> Some (h\<lparr>nh_stream := snd (ls_next w (nh_stream h))\<rparr>)
      | NodeObserverLeaves \<Rightarrow> Some (h\<lparr>nh_stream := ls_detach (nh_stream h)\<rparr>)
      | StoreElsewhere f \<Rightarrow> Some (h\<lparr>nh_store := f (nh_store h)\<rparr>))"

fun node_execs :: "node_config \<Rightarrow> 'h node_label list \<Rightarrow> 'h node_handle \<Rightarrow> 'h node_handle option" where
  "node_execs cfg [] h = Some h"
| "node_execs cfg (x # xs) h = Option.bind (node_exec cfg x h) (node_execs cfg xs)"

definition node_handle_snapshot :: "node_config \<Rightarrow> 'h node_handle \<Rightarrow> node_run_snapshot" where
  "node_handle_snapshot cfg h =
     \<lparr>sn_name = nd_name (ss_node (nq_start (nc_request cfg))), sn_metadata = nq_metadata (nc_request cfg),
      sn_status = nh_status h, sn_started = nh_started h, sn_completed = nh_completed h\<rparr>"

definition node_handle_steer :: steer_result where
  "node_handle_steer = SteerRefused ''unsupported''"

section \<open>Launching\<close>

text \<open>
  The engine's factories start the delegated run; what they do beside it is the host's. An
  agent's contract needs a name that is not blank. The types tie a node's input to its kind.
\<close>

fun input_messages :: "node_input \<Rightarrow> message list" where
  "input_messages (AgentInput ms _) = ms"
| "input_messages (WorkflowInput _ _) = []"

definition prepare_agent_node ::
  "profile_registry \<Rightarrow> 'm tool_service option \<Rightarrow> json_object \<Rightarrow> start_spec \<Rightarrow> string + json bound_agent" where
  "prepare_agent_node ps service schema start =
     (case submit_workflow_delegation_outcome schema (ss_outcome start) of
        Inl _ \<Rightarrow> Inl ''createAgentOutcomeFn requires a non-empty name''
      | Inr f \<Rightarrow> factory_create_agent ps service (nd_name (ss_node start)) (Some (PlainOutcome f)) None)"

definition prepare_workflow_node :: "'m workflow_factory \<Rightarrow> start_spec \<Rightarrow> string + 'm agentic_workflow" where
  "prepare_workflow_node factory start =
     create_workflow factory (nd_name (ss_node start)) (case ss_input start of WorkflowInput args _ \<Rightarrow> Some args | AgentInput _ _ \<Rightarrow> None)"

record ('m, 'd, 'h) node_runner =
  nr_workflow :: string
  nr_profiles :: profile_registry
  nr_service :: "'m tool_service option"
  nr_factory :: "'m workflow_factory"
  nr_schema :: "outcome_contract \<Rightarrow> json_object"
  nr_start_agent :: "json bound_agent \<Rightarrow> message list \<Rightarrow> string \<Rightarrow> string \<Rightarrow> 'h jsonl_store \<Rightarrow> (string + 'd) \<times> 'h jsonl_store"
  nr_start_workflow :: "'m agentic_workflow \<Rightarrow> string \<Rightarrow> string \<Rightarrow> 'h jsonl_store \<Rightarrow> (string + 'd) \<times> 'h jsonl_store"

definition start_delegated :: "('m, 'd, 'h) node_runner \<Rightarrow> node_request \<Rightarrow> string \<Rightarrow> 'h jsonl_store \<Rightarrow> (string + 'd) \<times> 'h jsonl_store" where
  "start_delegated nr q run s =
     (case nd_kind (ss_node (nq_start q)) of
        AgentKind \<Rightarrow>
          (case prepare_agent_node (nr_profiles nr) (nr_service nr) (nr_schema nr (ss_outcome (nq_start q))) (nq_start q) of
             Inl err \<Rightarrow> (Inl err, s) | Inr b \<Rightarrow> nr_start_agent nr b (input_messages (ss_input (nq_start q))) (nr_workflow nr) run s)
      | WorkflowKind \<Rightarrow>
          (case prepare_workflow_node (nr_factory nr) (nq_start q) of
             Inl err \<Rightarrow> (Inl err, s) | Inr w \<Rightarrow> nr_start_workflow nr w (nr_workflow nr) run s))"

text \<open>\<open>launch\<close>: the registered handle is what \<open>keep_handle\<close> makes of the delegated run.\<close>

definition launch_node ::
  "('m, 'd, 'h) node_runner \<Rightarrow> string \<Rightarrow> string \<Rightarrow> string \<Rightarrow> string \<Rightarrow> string \<Rightarrow> abort_signal \<Rightarrow> ('d \<Rightarrow> 'h) \<Rightarrow> node_request \<Rightarrow>
   'h jsonl_store \<Rightarrow> (string + ('d \<times> 'h node_handle)) \<times> 'h jsonl_store" where
  "launch_node nr uuid created started time later signal keep_handle q s =
     (case node_run_create uuid created (nr_workflow nr) (kind_text (nd_kind (ss_node (nq_start q)))) (nd_name (ss_node (nq_start q)))
             (nq_metadata q) s of
        Inl err \<Rightarrow> (Inl err, s)
      | Inr (run, s1) \<Rightarrow>
          (case start_delegated nr q run s1 of
             (Inl err, s2) \<Rightarrow> record_failure run later err s2
           | (Inr d, s2) \<Rightarrow>
               (let s3 = register_handle run (keep_handle d) s2
                in (Inr (d, create_node_handle \<lparr>nc_request = q, nc_run = run\<rparr> started time signal s3), s3))))"

section \<open>A node run settles once, and on record\<close>

definition node_ending :: "node_settlement \<Rightarrow> node_event_body list" where
  "node_ending st =
     (case st of NodeCompleted out \<Rightarrow> [NodeOutcomeSubmitted out] | NodeRejected why \<Rightarrow> [NodeOutcomeRejected why] | _ \<Rightarrow> []) @ [NodeSettled st]"

definition settlement_record :: "string \<Rightarrow> node_settlement \<Rightarrow> string" where
  "settlement_record now st = json_line (JObj [(''status'', JStr ''finished''), (''finishedAt'', JStr now), (''settlement'', settlement_json st)])"

text \<open>\<open>written\<close> are the events on record; the clauses hold in every state of a handle with a sound disk.\<close>

definition node_inv :: "node_config \<Rightarrow> node_event list \<Rightarrow> 'h node_handle \<Rightarrow> bool" where
  "node_inv cfg written h =
     (let es = written @ nh_writes h in
      map ne_body es = NodeStarted (node_start_spec_record (nc_request cfg)) #
        (case nh_conclusion h of None \<Rightarrow> [] | Some st \<Rightarrow> node_ending st) \<and>
      map ne_seq es = [0..<nh_seq h] \<and> list_all (\<lambda>e. numerals_ok (node_event_json e)) es \<and>
      log_ok (nh_store h) \<and> recorded (nh_store h) (nc_run cfg) = Some (map node_event_json written) \<and>
      nh_write_error h = None \<and>
      nh_status h = (case nh_conclusion h of None \<Rightarrow> RunningNode | Some st \<Rightarrow> settled_status st) \<and>
      (\<forall>r. nh_result h = Some r \<longrightarrow> (\<exists>st now. r = Inr st \<and> nh_conclusion h = Some st \<and> nh_writes h = [] \<and>
         read_file (run_dir (nh_store h) (nc_run cfg)) ''outcome.json'' (js_disk (nh_store h)) = Some (settlement_record now st))))"

text \<open>What the rest of the host may do to the store: anything that keeps this run's directory.\<close>

fun node_label_ok :: "node_config \<Rightarrow> 'h node_label \<Rightarrow> bool" where
  "node_label_ok cfg (NodeConcludes _ _ _ (Inr (NodeCompleted out))) = numerals_ok (no_payload out)"
| "node_label_ok cfg (StoreElsewhere f) =
     (\<forall>s. log_ok s \<longrightarrow> log_ok (f s) \<and> js_root (f s) = js_root s \<and>
        js_disk (f s) (run_dir s (nc_run cfg)) = js_disk s (run_dir s (nc_run cfg)))"
| "node_label_ok cfg _ = True"

lemma event_numerals:
  "numerals_ok (node_event_json e) \<longleftrightarrow> (\<forall>kv \<in> set (body_members (ne_body e)). numerals_ok (snd kv))"
  by (auto simp: node_event_json_def jnat_numerals)

lemma settlement_numerals: "numerals_ok (settlement_json st) \<longleftrightarrow> (\<forall>out. st = NodeCompleted out \<longrightarrow> numerals_ok (no_payload out))"
  by (cases st) (auto simp: node_outcome_json_def optional_member_def split: option.splits)

lemma node_emit_inv:
  assumes "map ne_body (written @ nh_writes h) = bodies" "map ne_seq (written @ nh_writes h) = [0..<nh_seq h]"
  shows "map ne_body (written @ nh_writes (node_emit cfg t b h)) = bodies @ [b]"
    "map ne_seq (written @ nh_writes (node_emit cfg t b h)) = [0..<nh_seq (node_emit cfg t b h)]"
  using assms by (simp_all add: node_emit_def Let_def)

lemma node_emit_fields [simp]:
  "nh_store (node_emit cfg t b h) = nh_store h" "nh_conclusion (node_emit cfg t b h) = nh_conclusion h"
  "nh_write_error (node_emit cfg t b h) = nh_write_error h" "nh_status (node_emit cfg t b h) = nh_status h"
  "nh_result (node_emit cfg t b h) = nh_result h" "nh_seq (node_emit cfg t b h) = nh_seq h + 1"
  by (simp_all add: node_emit_def Let_def)

lemma node_emit_writes:
  "nh_writes (node_emit cfg t b h) = nh_writes h @
     [\<lparr>ne_body = b, ne_node = nd_name (ss_node (nq_start (nc_request cfg))), ne_seq = nh_seq h, ne_time = t\<rparr>]"
  by (simp add: node_emit_def Let_def)

lemma create_inv:
  assumes "log_ok s" "recorded s (nc_run cfg) = Some []" "numerals_ok (JObj (node_start_spec_record (nc_request cfg)))"
  shows "node_inv cfg [] (create_node_handle cfg now t signal s)"
  using assms by (cases signal) (auto simp: node_inv_def create_node_handle_def Let_def node_emit_writes event_numerals)

lemma concludes_inv:
  assumes inv: "node_inv cfg written h" and open_h: "nh_conclusion h = None" and ok: "node_label_ok cfg (NodeConcludes now t1 t2 outcome)"
  shows "node_inv cfg written (node_concludes cfg now t1 t2 outcome h)"
proof -
  have "nh_result h = None"
    using inv open_h by (cases "nh_result h") (auto simp: node_inv_def Let_def)
  then show ?thesis
    using inv open_h ok
    by (cases "case outcome of Inl err \<Rightarrow> NodeFailed err | Inr st \<Rightarrow> st"; cases outcome)
      (auto simp: node_inv_def node_concludes_def Let_def node_emit_writes node_ending_def event_numerals settlement_numerals
        node_outcome_json_def optional_member_def split: option.splits)
qed

lemma write_inv:
  assumes "node_inv cfg written h" "node_write cfg h = Some h'"
  shows "\<exists>written. node_inv cfg written h'"
proof -
  from assms(2) obtain e es where w: "nh_writes h = e # es" by (auto simp: node_write_def split: list.splits)
  with assms(1) have ok: "log_ok (nh_store h)" "numerals_ok (node_event_json e)" "nh_write_error h = None"
    "recorded (nh_store h) (nc_run cfg) = Some (map node_event_json written)" "nh_result h = None"
    by (auto simp: node_inv_def Let_def)
  from append_known [OF ok(1,2,4)] obtain s where s: "append_event (nc_run cfg) (node_event_json e) (nh_store h) = Inr s" "log_ok s"
    "recorded s (nc_run cfg) = Some (map node_event_json (written @ [e]))" by (metis list.simps(8,9) map_append)
  with assms w ok have "node_inv cfg (written @ [e]) h'" by (auto simp: node_write_def node_inv_def Let_def)
  then show ?thesis by blast
qed

lemma records_inv:
  assumes inv: "node_inv cfg written h" and "node_records cfg now h = Some h'"
  shows "node_inv cfg written h'"
proof -
  from assms(2) obtain st where st: "nh_conclusion h = Some st" "nh_result h = None" "nh_writes h = []"
    by (auto simp: node_records_def split: option.splits list.splits)
  from inv have ok: "log_ok (nh_store h)" "recorded (nh_store h) (nc_run cfg) \<noteq> None" "nh_write_error h = None"
    by (simp_all add: node_inv_def Let_def)
  then obtain fs where fs: "js_disk (nh_store h) (run_dir (nh_store h) (nc_run cfg)) = Some fs"
    using log_ok_recorded by (metis option.exhaust)
  let ?s = "(nh_store h)\<lparr>js_disk := (js_disk (nh_store h))(run_dir (nh_store h) (nc_run cfg) := Some (fs(''outcome.json'' := Some (settlement_record now st))))\<rparr>"
  have f: "node_run_finish (nc_run cfg) now (settlement_json st) (nh_store h) = Inr ?s"
    by (simp add: node_run_finish_def finish_record_def on_disk_def write_file_def fs settlement_record_def)
  then have "same_logs (nh_store h) ?s"
    unfolding node_run_finish_def finish_record_def by (rule write_other_file) simp
  moreover have "h' = h\<lparr>nh_stream := ls_close (nh_stream h), nh_listening := False, nh_store := ?s, nh_result := Some (Inr st)\<rparr>"
    using assms(2) st ok(3) f by (simp add: node_records_def Let_def)
  ultimately show ?thesis
    using inv st by (auto simp: node_inv_def Let_def same_logs_def read_file_def run_dir_def)
qed

lemma node_exec_inv:
  assumes inv: "node_inv cfg written h" and "node_label_ok cfg x" "node_exec cfg x h = Some h'"
  shows "\<exists>written. node_inv cfg written h'"
proof (cases x)
  case (StoreElsewhere f)
  with assms(2) inv have same: "log_ok (f (nh_store h))" "js_root (f (nh_store h)) = js_root (nh_store h)"
    "js_disk (f (nh_store h)) (run_dir (nh_store h) (nc_run cfg)) = js_disk (nh_store h) (run_dir (nh_store h) (nc_run cfg))"
    by (simp_all add: node_inv_def Let_def)
  have "node_inv cfg written h'"
    using StoreElsewhere assms(3) inv same by (auto simp: node_exec_def node_inv_def Let_def recorded_def read_file_def run_dir_def)
  then show ?thesis by blast
next
  case (NodeConcludes now t1 t2 outcome)
  with assms(3) have h: "nh_conclusion h = None" "h' = node_concludes cfg now t1 t2 outcome h"
    by (auto simp: node_exec_def split: if_splits)
  from concludes_inv [OF inv h(1)] NodeConcludes assms(2) h(2) show ?thesis by blast
next
  case NodeWrites
  with assms write_inv [OF inv] show ?thesis by (auto simp: node_exec_def)
next
  case (NodeRecords now)
  with assms records_inv [OF inv] show ?thesis by (auto simp: node_exec_def)
qed (use assms in \<open>auto simp: node_exec_def node_inv_def Let_def split: if_splits\<close>)

lemma node_execs_inv:
  "node_inv cfg written h \<Longrightarrow> list_all (node_label_ok cfg) xs \<Longrightarrow> node_execs cfg xs h = Some h' \<Longrightarrow> \<exists>written. node_inv cfg written h'"
proof (induction xs arbitrary: h written)
  case (Cons x xs)
  then obtain h1 where x: "node_exec cfg x h = Some h1" "node_execs cfg xs h1 = Some h'" by (auto simp: bind_eq_Some_conv)
  from node_exec_inv [OF Cons.prems(1) _ x(1)] Cons.prems(2) obtain w where "node_inv cfg w h1" by auto
  from Cons.IH [OF this _ x(2)] Cons.prems(2) show ?case by simp
qed auto

text \<open>What is concluded stays, and a concluded handle settles.\<close>

lemma execs_stable:
  "node_execs cfg xs h = Some h' \<Longrightarrow> nh_conclusion h = Some st \<Longrightarrow>
   nh_conclusion h' = Some st \<and> (\<forall>r. nh_result h = Some r \<longrightarrow> nh_result h' = Some r)"
proof (induction xs arbitrary: h)
  case (Cons x xs)
  then obtain h1 where x: "node_exec cfg x h = Some h1" "node_execs cfg xs h1 = Some h'" by (auto simp: bind_eq_Some_conv)
  have "nh_conclusion h1 = Some st \<and> (\<forall>r. nh_result h = Some r \<longrightarrow> nh_result h1 = Some r)"
    using x(1) Cons.prems(2)
    by (auto simp: node_exec_def node_write_def node_records_def Let_def split: node_label.splits list.splits if_splits sum.splits option.splits)
  with Cons.IH [OF x(2)] show ?case by blast
qed simp

lemma writes_drain:
  "node_inv cfg written h \<Longrightarrow> \<exists>h' written'. node_execs cfg (replicate (length (nh_writes h)) NodeWrites) h = Some h' \<and>
     nh_writes h' = [] \<and> node_inv cfg written' h' \<and> nh_conclusion h' = nh_conclusion h \<and> nh_result h' = nh_result h"
proof (induction "nh_writes h" arbitrary: h written)
  case (Cons e es)
  have w: "nh_writes h = e # es" using Cons.hyps(2) by simp
  have "nh_write_error h = None" using Cons.prems by (simp add: node_inv_def Let_def)
  then obtain h1 where h1: "node_write cfg h = Some h1" "nh_writes h1 = es" "nh_conclusion h1 = nh_conclusion h" "nh_result h1 = nh_result h"
    by (cases "append_event (nc_run cfg) (node_event_json e) (nh_store h)") (auto simp: node_write_def w)
  from write_inv [OF Cons.prems h1(1)] obtain w where "node_inv cfg w h1" by blast
  from Cons.hyps(1) [OF h1(2) [symmetric] this] h1 Cons.hyps(2) show ?case
    by (auto simp: node_exec_def w)
qed auto

lemma concluded_settles:
  assumes "node_inv cfg written h" "nh_conclusion h = Some st" "nh_result h = None"
  shows "\<exists>h'. node_execs cfg (replicate (length (nh_writes h)) NodeWrites @ [NodeRecords now]) h = Some h' \<and> nh_result h' = Some (Inr st)"
proof -
  from writes_drain [OF assms(1)] obtain h1 w where h1: "node_execs cfg (replicate (length (nh_writes h)) NodeWrites) h = Some h1"
    "nh_writes h1 = []" "node_inv cfg w h1" "nh_conclusion h1 = Some st" "nh_result h1 = None" using assms by auto
  then obtain h2 where h2: "node_records cfg now h1 = Some h2" "nh_result h2 \<noteq> None" "nh_conclusion h2 = Some st"
    by (auto simp: node_records_def Let_def split: option.splits sum.splits)
  from records_inv [OF h1(3) h2(1)] h2 have "nh_result h2 = Some (Inr st)" by (auto simp: node_inv_def Let_def)
  moreover have "node_execs cfg (xs @ [x]) h = Option.bind (node_execs cfg xs h) (node_exec cfg x)" for xs x
    by (induction xs arbitrary: h) (auto simp: Option.bind_assoc split: bind_splits)
  ultimately show ?thesis using h1(1) h2(1) by (simp add: node_exec_def)
qed

text \<open>
  C27: a node run settles once, and what it reports is on record. Whatever happens around it, its
  events are numbered from 0, the first says what was started, and the last, once the delegated
  run has ended, its settlement (preceded by the outcome, submitted or rejected). The run's record
  is a prefix of them; the settlement is reported only when all of them and the settlement itself
  are recorded; it never changes, and a run that has concluded gets there by its own writes.
\<close>

theorem node_run_settles_once:
  assumes "log_ok s" "recorded s (nc_run cfg) = Some []" "numerals_ok (JObj (node_start_spec_record (nc_request cfg)))"
    and "list_all (node_label_ok cfg) xs" "node_execs cfg xs (create_node_handle cfg now t signal s) = Some h"
  shows "(\<exists>written. recorded (nh_store h) (nc_run cfg) = Some (map node_event_json written) \<and>
      map ne_seq (written @ nh_writes h) = [0..<nh_seq h] \<and>
      map ne_body (written @ nh_writes h) = NodeStarted (node_start_spec_record (nc_request cfg)) #
        (case nh_conclusion h of None \<Rightarrow> [] | Some st \<Rightarrow> node_ending st)) \<and>
    (\<forall>r. nh_result h = Some r \<longrightarrow> (\<exists>st now. r = Inr st \<and> nh_conclusion h = Some st \<and> nh_status h = settled_status st \<and>
      nh_writes h = [] \<and>
      read_file (run_dir (nh_store h) (nc_run cfg)) ''outcome.json'' (js_disk (nh_store h)) = Some (settlement_record now st))) \<and>
    (\<forall>st. nh_conclusion h = Some st \<longrightarrow>
      (nh_result h = None \<longrightarrow> (\<exists>h'. node_execs cfg (replicate (length (nh_writes h)) NodeWrites @ [NodeRecords t]) h = Some h' \<and>
         nh_result h' = Some (Inr st))) \<and>
      (\<forall>ys h'. node_execs cfg ys h = Some h' \<longrightarrow> nh_conclusion h' = Some st \<and> (\<forall>r. nh_result h = Some r \<longrightarrow> nh_result h' = Some r)))"
proof -
  from node_execs_inv [OF create_inv [OF assms(1-3)] assms(4,5)] obtain written where inv: "node_inv cfg written h" by blast
  show ?thesis
  proof (intro conjI)
    show "\<exists>written. recorded (nh_store h) (nc_run cfg) = Some (map node_event_json written) \<and>
      map ne_seq (written @ nh_writes h) = [0..<nh_seq h] \<and>
      map ne_body (written @ nh_writes h) = NodeStarted (node_start_spec_record (nc_request cfg)) #
        (case nh_conclusion h of None \<Rightarrow> [] | Some st \<Rightarrow> node_ending st)"
      using inv by (intro exI [of _ written]) (simp add: node_inv_def Let_def)
  next
    show "\<forall>r. nh_result h = Some r \<longrightarrow> (\<exists>st now. r = Inr st \<and> nh_conclusion h = Some st \<and> nh_status h = settled_status st \<and>
      nh_writes h = [] \<and>
      read_file (run_dir (nh_store h) (nc_run cfg)) ''outcome.json'' (js_disk (nh_store h)) = Some (settlement_record now st))"
    proof (intro allI impI)
      fix r
      assume "nh_result h = Some r"
      with inv obtain st now where "r = Inr st" "nh_conclusion h = Some st" "nh_writes h = []"
        "read_file (run_dir (nh_store h) (nc_run cfg)) ''outcome.json'' (js_disk (nh_store h)) = Some (settlement_record now st)"
        unfolding node_inv_def Let_def by blast
      moreover from this(2) inv have "nh_status h = settled_status st" by (simp add: node_inv_def Let_def)
      ultimately show "\<exists>st now. r = Inr st \<and> nh_conclusion h = Some st \<and> nh_status h = settled_status st \<and> nh_writes h = [] \<and>
          read_file (run_dir (nh_store h) (nc_run cfg)) ''outcome.json'' (js_disk (nh_store h)) = Some (settlement_record now st)"
        by blast
    qed
  qed (use concluded_settles [OF inv] execs_stable in blast)
qed

definition sample_node_config :: node_config where
  "sample_node_config = \<lparr>nc_request = \<lparr>nq_start = dp_start (planned ''a''), nq_metadata = Some [(''round'', jnat 1)]\<rparr>, nc_run = ''agent-1''\<rparr>"

definition sample_node_labels :: "unit node_label list" where
  "sample_node_labels = [NodeWrites, SignalAborts None, NodeConcludes ''t1'' ''t2'' ''t3'' (Inr (NodeCompleted \<lparr>no_name = ''done'', no_payload = JBool True\<rparr>)),
     StoreElsewhere (\<lambda>s. s), NodeWrites, NodeWrites, NodeRecords ''t4'']"

theorem node_run_settles_once_witness:
  "\<exists>h. node_execs sample_node_config sample_node_labels (create_node_handle sample_node_config ''n'' ''t'' LiveSignal created_store) = Some h \<and>
     nh_result h = Some (Inr (NodeCompleted \<lparr>no_name = ''done'', no_payload = JBool True\<rparr>)) \<and> nh_asked h = [''interrupted''] \<and>
     (\<exists>now. read_file (run_dir (nh_store h) ''agent-1'') ''outcome.json'' (js_disk (nh_store h)) =
        Some (settlement_record now (NodeCompleted \<lparr>no_name = ''done'', no_payload = JBool True\<rparr>)))"
proof -
  have run: "map_option (\<lambda>h. (nh_result h, nh_asked h))
      (node_execs sample_node_config sample_node_labels (create_node_handle sample_node_config ''n'' ''t'' LiveSignal created_store)) =
    Some (Some (Inr (NodeCompleted \<lparr>no_name = ''done'', no_payload = JBool True\<rparr>)), [''interrupted''])"
    by code_simp
  then obtain h where h: "node_execs sample_node_config sample_node_labels (create_node_handle sample_node_config ''n'' ''t'' LiveSignal created_store) = Some h"
    "nh_result h = Some (Inr (NodeCompleted \<lparr>no_name = ''done'', no_payload = JBool True\<rparr>))" "nh_asked h = [''interrupted'']" by auto
  have spec: "numerals_ok (JObj (node_start_spec_record (nc_request sample_node_config)))" by code_simp
  have ok: "list_all (node_label_ok sample_node_config) sample_node_labels" by (simp add: sample_node_labels_def)
  have "log_ok created_store" "recorded created_store (nc_run sample_node_config) = Some []"
    using created_store_ok by (simp_all add: sample_node_config_def)
  from node_run_settles_once [OF this spec ok h(1)] h(2) have "\<exists>now. read_file (run_dir (nh_store h) (nc_run sample_node_config)) ''outcome.json'' (js_disk (nh_store h)) =
        Some (settlement_record now (NodeCompleted \<lparr>no_name = ''done'', no_payload = JBool True\<rparr>))" by auto
  with h show ?thesis by (auto simp: sample_node_config_def)
qed

section \<open>The node and its workflow\<close>

text \<open>
  C28: the two submissions of an agent node agree. The node's agent submits to the workflow before
  it may end its run, and the node runner submits the run's outcome again. Once the workflow has
  accepted a submission of the node, the second answer is the refusal that the runner reads as
  completion: the node settles as completed with the run's outcome, the workflow only gains that
  answer, and the settlement it is then told changes nothing.
\<close>

theorem accepted_node_settles_completed:
  assumes "wf_reach cfg r" "(i, SubmissionAccepted out) \<in> set (wr_answers r)" "i < length (wr_nodes r)"
  shows "\<exists>a. run_op cfg (OpSubmit i v) r = answer i a r \<and>
     settle_agent_node c (\<lambda>_. a) (Completed v) = Inr (NodeCompleted \<lparr>no_name = oc_name c, no_payload = v\<rparr>) \<and>
     (en_handle (wr_nodes r ! i) \<longrightarrow>
        wf_exec cfg (NodeSettles i (NodeCompleted \<lparr>no_name = oc_name c, no_payload = v\<rparr>)) (answer i a r) = Some (answer i a r))"
proof (intro exI conjI)
  have "accepted_at (wr_nodes r) i out" using reach_inv [OF assms(1)] assms(2) by (simp add: wf_inv_def core_ok_def)
  then have "en_status (wr_nodes r ! i) \<noteq> RunningNode" by (simp add: accepted_at_def)
  then show "run_op cfg (OpSubmit i v) r = answer i (SubmissionRejected ''node run is already finished'') r"
    by (simp add: run_op_def submit_node_completion_def Let_def)
  show "settle_agent_node c (\<lambda>_. SubmissionRejected ''node run is already finished'') (Completed v) =
      Inr (NodeCompleted \<lparr>no_name = oc_name c, no_payload = v\<rparr>)"
    by (simp add: settle_agent_node_def)
  show "en_handle (wr_nodes r ! i) \<longrightarrow> wf_exec cfg (NodeSettles i (NodeCompleted \<lparr>no_name = oc_name c, no_payload = v\<rparr>))
      (answer i (SubmissionRejected ''node run is already finished'') r) = Some (answer i (SubmissionRejected ''node run is already finished'') r)"
    using assms(3) by (simp add: wf_exec_def)
qed

theorem accepted_node_settles_completed_witness:
  "\<exists>r a. plan_run whole_run = Some r \<and> run_op plan_config (OpSubmit 0 (JBool True)) r = answer 0 a r \<and>
     settle_agent_node (ss_outcome (dp_start (planned ''a''))) (\<lambda>_. a) (Completed (JBool True)) =
       Inr (NodeCompleted \<lparr>no_name = ''done'', no_payload = JBool True\<rparr>)"
proof -
  obtain r where r: "plan_run whole_run = Some r"
    and m: "(0, SubmissionAccepted \<lparr>no_name = ''done'', no_payload = JBool True\<rparr>) \<in> set (wr_answers r)"
    using whole_answers by auto
  have "0 < length (wr_nodes r)" using whole_digest r by (auto simp: digest_def)
  from accepted_node_settles_completed [OF plan_reach [OF r] m this, of "JBool True" "ss_outcome (dp_start (planned ''a''))"] r
  show ?thesis by (auto simp: planned_def)
qed

text \<open>
  A node whose settlement cannot be recorded is never settled for its workflow. The write
  fails, so the settlement's promise rejects although the handle's snapshot says how the node
  ended; the runtime ignores the rejection. From then on the workflow only moves if some node
  submits or settles or the host interrupts it: it neither fails nor counts as deadlocked.
\<close>

lemma unrecorded_settlement_is_lost:
  "map_option (\<lambda>h. (nh_status h, nh_result h)) (node_execs sample_node_config
      [StoreElsewhere (\<lambda>s. s\<lparr>js_disk := \<lambda>_. None\<rparr>), NodeConcludes ''t1'' ''t2'' ''t3'' (Inr (NodeFailed ''boom'')), NodeWrites, NodeWrites, NodeRecords ''t4'']
      (create_node_handle sample_node_config ''n'' ''t'' LiveSignal created_store)) = Some (FailedNode, Some (Inl ''ENOENT'')) \<and>
   map_option digest (plan_run launches) = Some ([(''a'', RunningNode), (''b'', RunningNode)], None, 3) \<and>
   map_option (\<lambda>r. map (\<lambda>x. \<not> Option.is_none (wf_exec plan_config x r)) [Dequeue, LaunchSettles None, StartLaunchSettles None, HandlesInterrupted])
     (plan_run launches) = Some [False, False, False, False]"
  by (intro conjI; code_simp)

end
