(* ===== verification/Gateway.thy ===== *)
theory Gateway
  imports JsonParse LlmTypes "HOL-Library.AList"
begin

text \<open>
  The client of the sandbox gateway (\<open>coding-agent/src/sandbox/gateway-client.ts\<close>): the wire line
  and the reply envelope, one request as a transition system over its socket, the retry of refused
  connections; and the sandboxes that runs hold (\<open>run-sandbox-registry.ts\<close>, \<open>run-binding.ts\<close>,
  \<open>service.ts\<close>). What the gateway and the timers do is an argument.
\<close>

section \<open>The envelope\<close>

definition CONNECT_RETRY_DELAYS_MS :: "nat list" where
  "CONNECT_RETRY_DELAYS_MS = [100, 250, 500]"

record gateway_request =
  gq_op :: string
  gq_sandbox :: string
  gq_invocation :: "string option"
  gq_args :: json_object

datatype carrying_status = GatewayOk | GatewayRunning | GatewayCancelled | GatewayTimedOut

datatype gateway_response =
    ResultCarrying carrying_status "json option"
  | ErrorCarrying bool string string "json option"

text \<open>\<open>ErrorCarrying rejected kind message result\<close>. \<open>uuid\<close> is a fresh identifier without dashes.\<close>

definition wire_line :: "json_object \<Rightarrow> string" where
  "wire_line members = stringify (JObj members) @ [CHR 0x0A]"

definition request_members :: "string \<Rightarrow> gateway_request \<Rightarrow> json_object" where
  "request_members uuid q =
     [(''op'', JStr (gq_op q)), (''sandbox_id'', JStr (gq_sandbox q)),
      (''invocation_id'', JStr (or_default (gq_invocation q) uuid)), (''args'', JObj (gq_args q))]"

definition encode_request :: "string \<Rightarrow> gateway_request \<Rightarrow> string" where
  "encode_request uuid q = wire_line (request_members uuid q)"

fun carrying_of :: "string \<Rightarrow> carrying_status option" where
  "carrying_of s =
     (if s = ''ok'' then Some GatewayOk else if s = ''running'' then Some GatewayRunning
      else if s = ''cancelled'' then Some GatewayCancelled else if s = ''timed_out'' then Some GatewayTimedOut else None)"

definition parse_response :: "json \<Rightarrow> gateway_response option" where
  "parse_response j =
     (case j of
        JObj kvs \<Rightarrow>
          (case map_of kvs ''status'' of
             Some (JStr s) \<Rightarrow>
               (if s = ''rejected'' \<or> s = ''error'' then
                  (case map_of kvs ''error'' of
                     Some (JObj err) \<Rightarrow>
                       (case (map_of err ''kind'', map_of err ''message'') of
                          (Some (JStr k), Some (JStr m)) \<Rightarrow> Some (ErrorCarrying (s = ''rejected'') k m (map_of kvs ''result''))
                        | _ \<Rightarrow> None)
                   | _ \<Rightarrow> None)
                else map_option (\<lambda>c. ResultCarrying c (map_of kvs ''result'')) (carrying_of s))
           | _ \<Rightarrow> None)
      | _ \<Rightarrow> None)"

text \<open>How a call fails: \<open>SocketFault code message\<close> is what the socket reported.\<close>

datatype gateway_fault = AbortedFault | ConnectTimeoutFault | SocketFault string string | ReplyFault

definition decode_response :: "string \<Rightarrow> gateway_fault + gateway_response" where
  "decode_response raw =
     (case json_parse raw of
        None \<Rightarrow> Inl ReplyFault
      | Some j \<Rightarrow> (case parse_response j of None \<Rightarrow> Inl ReplyFault | Some r \<Rightarrow> Inr r))"

definition is_retryable_fault :: "string \<Rightarrow> bool" where
  "is_retryable_fault kind = (kind = ''sandbox_unavailable'')"

section \<open>One request\<close>

record gateway_call =
  gc_written :: bool
  gc_buffer :: string
  gc_result :: "(gateway_fault + gateway_response) option"
  gc_timer :: bool
  gc_listening :: bool
  gc_destroyed :: bool

datatype socket_event = SocketConnects | SocketData string | SocketErrors string string | SocketCloses | CallAborted | TimerFires

text \<open>\<open>finish\<close>: the first settlement counts; it removes the listener and clears the timer.\<close>

definition call_finish :: "gateway_fault + gateway_response \<Rightarrow> gateway_call \<Rightarrow> gateway_call" where
  "call_finish res c =
     (if gc_result c \<noteq> None then c else c\<lparr>gc_result := Some res, gc_timer := False, gc_listening := False\<rparr>)"

definition open_call :: "bool \<Rightarrow> bool \<Rightarrow> gateway_call" where
  "open_call aborted has_signal =
     (if aborted
      then \<lparr>gc_written = False, gc_buffer = [], gc_result = Some (Inl AbortedFault), gc_timer = False, gc_listening = False, gc_destroyed = False\<rparr>
      else \<lparr>gc_written = False, gc_buffer = [], gc_result = None, gc_timer = True, gc_listening = has_signal, gc_destroyed = False\<rparr>)"

definition call_step :: "socket_event \<Rightarrow> gateway_call \<Rightarrow> gateway_call" where
  "call_step x c =
     (case x of
        SocketConnects \<Rightarrow> c\<lparr>gc_written := True\<rparr>
      | SocketData chunk \<Rightarrow> c\<lparr>gc_buffer := gc_buffer c @ chunk\<rparr>
      | SocketErrors code msg \<Rightarrow> call_finish (Inl (SocketFault code msg)) c
      | SocketCloses \<Rightarrow> call_finish (decode_response (gc_buffer c)) c
      | CallAborted \<Rightarrow> if gc_listening c then call_finish (Inl AbortedFault) (c\<lparr>gc_destroyed := True\<rparr>) else c
      | TimerFires \<Rightarrow> if gc_timer c then call_finish (Inl ConnectTimeoutFault) (c\<lparr>gc_destroyed := True\<rparr>) else c)"

definition call_once :: "bool \<Rightarrow> bool \<Rightarrow> socket_event list \<Rightarrow> gateway_call" where
  "call_once aborted has_signal xs = fold call_step xs (open_call aborted has_signal)"

section \<open>Retries\<close>

fun is_connection_refused :: "gateway_fault \<Rightarrow> bool" where
  "is_connection_refused (SocketFault code _) = (code = ''ECONNREFUSED'')"
| "is_connection_refused _ = False"

text \<open>\<open>once k\<close> is how attempt \<open>k\<close> settles. The result, the number of attempts and the delays slept.\<close>

fun with_retry :: "nat list \<Rightarrow> (nat \<Rightarrow> gateway_fault + gateway_response) \<Rightarrow> nat \<Rightarrow> (gateway_fault + gateway_response) \<times> nat \<times> nat list" where
  "with_retry [] once k = (once k, k + 1, [])"
| "with_retry (d # ds) once k =
     (case once k of
        Inl f \<Rightarrow>
          (if is_connection_refused f
           then (case with_retry ds once (k + 1) of (r, n, ws) \<Rightarrow> (r, n, d # ws))
           else (Inl f, k + 1, []))
      | Inr r \<Rightarrow> (Inr r, k + 1, []))"

definition gateway_send :: "(nat \<Rightarrow> gateway_fault + gateway_response) \<Rightarrow> (gateway_fault + gateway_response) \<times> nat \<times> nat list" where
  "gateway_send once = with_retry CONNECT_RETRY_DELAYS_MS once 0"

section \<open>The sandboxes of the runs\<close>

type_synonym run_sandboxes = "(string \<times> string) list"

definition bind_sandbox :: "string \<Rightarrow> string \<Rightarrow> run_sandboxes \<Rightarrow> run_sandboxes" where
  "bind_sandbox run sandbox reg = AList.update run sandbox reg"

definition release_binding :: "string \<Rightarrow> run_sandboxes \<Rightarrow> string option \<times> run_sandboxes" where
  "release_binding run reg = (map_of reg run, AList.delete run reg)"

definition require_sandbox :: "run_sandboxes \<Rightarrow> string \<Rightarrow> string + string" where
  "require_sandbox reg run =
     (case map_of reg run of
        Some s \<Rightarrow> Inr s
      | None \<Rightarrow> Inl (''no sandbox bound for run \"'' @ run @ ''\"''))"

text \<open>A call of the gateway: its line, and the reply the environment gives.\<close>

type_synonym gateway = "string \<Rightarrow> gateway_fault + gateway_response"

datatype binding_error = GatewayFault gateway_fault | EnvelopeError string | NoSandboxId

definition acquire_line :: "string \<Rightarrow> string" where
  "acquire_line uuid = wire_line [(''op'', JStr ''sandbox.acquire''), (''invocation_id'', JStr uuid), (''args'', JObj [])]"

definition result_of :: "gateway_response \<Rightarrow> binding_error + json option" where
  "result_of res =
     (case res of
        ErrorCarrying _ kind msg _ \<Rightarrow> Inl (EnvelopeError (kind @ '': '' @ msg))
      | ResultCarrying _ r \<Rightarrow> Inr r)"

definition parse_acquire :: "json option \<Rightarrow> binding_error + string" where
  "parse_acquire r =
     (case r of
        Some (JObj kvs) \<Rightarrow> (case map_of kvs ''sandbox_id'' of Some (JStr s) \<Rightarrow> if s = [] then Inl NoSandboxId else Inr s | _ \<Rightarrow> Inl NoSandboxId)
      | _ \<Rightarrow> Inl NoSandboxId)"

definition map_fault :: "gateway_fault + 'a \<Rightarrow> binding_error + 'a" where
  "map_fault r = map_sum GatewayFault (\<lambda>x. x) r"

definition acquire_sandbox :: "gateway \<Rightarrow> string \<Rightarrow> string \<Rightarrow> run_sandboxes \<Rightarrow> (binding_error + unit) \<times> run_sandboxes" where
  "acquire_sandbox g uuid run reg =
     (case and_then (map_fault (g (acquire_line uuid))) (\<lambda>res. and_then (result_of res) parse_acquire) of
        Inl err \<Rightarrow> (Inl err, reg)
      | Inr s \<Rightarrow> (Inr (), bind_sandbox run s reg))"

definition run_end_request :: "string \<Rightarrow> string \<Rightarrow> gateway_request" where
  "run_end_request run sandbox =
     \<lparr>gq_op = ''sandbox.run.end'', gq_sandbox = sandbox, gq_invocation = None, gq_args = [(''caller_id'', JStr run)]\<rparr>"

definition release_request :: "string \<Rightarrow> gateway_request" where
  "release_request sandbox = \<lparr>gq_op = ''sandbox.release'', gq_sandbox = sandbox, gq_invocation = None, gq_args = []\<rparr>"

text \<open>The result, the lines that were sent, and the bindings.\<close>

definition end_sandbox :: "gateway \<Rightarrow> string \<Rightarrow> string \<Rightarrow> string \<Rightarrow> run_sandboxes \<Rightarrow> (binding_error + unit) \<times> string list \<times> run_sandboxes" where
  "end_sandbox g u1 u2 run reg =
     (case release_binding run reg of
        (None, reg') \<Rightarrow> (Inr (), [], reg')
      | (Some sandbox, reg') \<Rightarrow>
          (let l1 = encode_request u1 (run_end_request run sandbox); l2 = encode_request u2 (release_request sandbox) in
           case g l1 of
             Inl f \<Rightarrow> (Inl (GatewayFault f), [l1], reg')
           | Inr _ \<Rightarrow> (case g l2 of Inl f \<Rightarrow> (Inl (GatewayFault f), [l1, l2], reg') | Inr _ \<Rightarrow> (Inr (), [l1, l2], reg'))))"

section \<open>What the client promises\<close>

lemma with_retry_bounded:
  "with_retry ds once k = (r, n, ws) \<Longrightarrow>
   k < n \<and> n \<le> k + length ds + 1 \<and> ws = take (n - k - 1) ds \<and> r = once (n - 1) \<and>
   (\<forall>j. k \<le> j \<and> j < n - 1 \<longrightarrow> (\<exists>f. once j = Inl f \<and> is_connection_refused f)) \<and>
   (n < k + length ds + 1 \<longrightarrow> \<not> (\<exists>f. r = Inl f \<and> is_connection_refused f))"
proof (induction ds arbitrary: k r n ws)
  case (Cons d ds)
  show ?case
  proof (cases "\<exists>f. once k = Inl f \<and> is_connection_refused f")
    case True
    then obtain f where f: "once k = Inl f" "is_connection_refused f" by blast
    obtain r' n' ws' where rec: "with_retry ds once (k + 1) = (r', n', ws')" by (cases "with_retry ds once (k + 1)")
    with f Cons.prems have eq: "r = r'" "n = n'" "ws = d # ws'" by simp_all
    note ih = Cons.IH [OF rec]
    have "k + 1 < n'" using ih by blast
    then have "n' - k - 1 = Suc (n' - (k + 1) - 1)" by linarith
    moreover have "\<exists>f. once j = Inl f \<and> is_connection_refused f" if "k \<le> j" "j < n' - 1" for j
      using ih that f by (cases "j = k") auto
    ultimately show ?thesis using ih eq by auto
  next
    case False
    then have "r = once k \<and> n = k + 1 \<and> ws = []" using Cons.prems by (auto split: sum.splits if_splits)
    with False show ?thesis by auto
  qed
qed auto

text \<open>
  C34: a call of the gateway makes at most four attempts. It tries again only after a refused
  connection, after 100, 250 and 500 ms; it returns what its last attempt returned, and gives up
  on a refused connection only after the fourth.
\<close>

theorem gateway_retries_bounded:
  assumes "gateway_send once = (r, n, ws)"
  shows "0 < n \<and> n \<le> 4 \<and> ws = take (n - 1) [100, 250, 500] \<and> r = once (n - 1) \<and>
    (\<forall>j < n - 1. \<exists>msg. once j = Inl (SocketFault ''ECONNREFUSED'' msg)) \<and>
    (n < 4 \<longrightarrow> (\<forall>msg. r \<noteq> Inl (SocketFault ''ECONNREFUSED'' msg)))"
proof -
  have refused: "is_connection_refused f \<longleftrightarrow> (\<exists>msg. f = SocketFault ''ECONNREFUSED'' msg)" for f by (cases f) auto
  from with_retry_bounded [OF assms [unfolded gateway_send_def]] show ?thesis
    by (auto simp: CONNECT_RETRY_DELAYS_MS_def refused)
qed

theorem gateway_retries_bounded_witness:
  "\<exists>r ws. gateway_send (\<lambda>k. if k < 2 then Inl (SocketFault ''ECONNREFUSED'' ''down'') else Inr (ResultCarrying GatewayOk None)) = (r, 3, ws)
     \<and> ws = [100, 250] \<and> r = Inr (ResultCarrying GatewayOk None)"
proof -
  obtain r n ws where s: "gateway_send (\<lambda>k. if k < 2 then Inl (SocketFault ''ECONNREFUSED'' ''down'') else Inr (ResultCarrying GatewayOk None)) = (r, n, ws)"
    by (cases "gateway_send (\<lambda>k. if k < 2 then Inl (SocketFault ''ECONNREFUSED'' ''down'') else Inr (ResultCarrying GatewayOk None))") auto
  then have "n = 3" by (simp add: gateway_send_def CONNECT_RETRY_DELAYS_MS_def)
  with gateway_retries_bounded [OF s] s show ?thesis by simp
qed

lemma call_settled: "gc_result c = Some r \<Longrightarrow> gc_result (fold call_step xs c) = Some r"
proof (induction xs arbitrary: c)
  case (Cons x xs)
  have "gc_result (call_step x c) = Some r" using Cons.prems by (cases x) (auto simp: call_step_def call_finish_def)
  from Cons.IH [OF this] show ?case by simp
qed simp

text \<open>A request line is one line, and the gateway reads the request back from it.\<close>

lemma request_line_read:
  assumes "\<forall>kv \<in> set (gq_args q). numerals_ok (snd kv)"
  shows "json_parse (encode_request uuid q) = Some (JObj (request_members uuid q)) \<and>
    (\<exists>l. encode_request uuid q = l @ [CHR 0x0A] \<and> CHR 0x0A \<notin> set l)"
proof -
  have "numerals_ok (JObj (request_members uuid q))" using assms by (auto simp: request_members_def)
  with json_parse_stringify [OF this, of "[CHR 0x0A]"] stringify_one_line [OF this] show ?thesis
    by (auto simp: encode_request_def wire_line_def skip_ws_def json_space_def)
qed

text \<open>
  A request over its connection settles once: whatever the socket, the timer and the caller
  do, the first settlement stays. A reply that arrives whole and in time, in any number of
  chunks, is decoded from exactly what was received.
\<close>

lemma gateway_call_settles_once:
  "(gc_result (call_once aborted sg xs) = Some r \<longrightarrow> gc_result (call_once aborted sg (xs @ ys)) = Some r) \<and>
   gc_result (call_once False sg (SocketConnects # map SocketData chunks @ [SocketCloses])) = Some (decode_response (concat chunks))"
proof
  show "gc_result (call_once aborted sg xs) = Some r \<longrightarrow> gc_result (call_once aborted sg (xs @ ys)) = Some r"
    using call_settled by (simp add: call_once_def)
  have "fold call_step (map SocketData cs) c = c\<lparr>gc_buffer := gc_buffer c @ concat cs\<rparr>" for cs c
    by (induction cs arbitrary: c) (simp_all add: call_step_def)
  then show "gc_result (call_once False sg (SocketConnects # map SocketData chunks @ [SocketCloses])) = Some (decode_response (concat chunks))"
    by (simp add: call_once_def open_call_def call_step_def call_finish_def)
qed

text \<open>
  The timeout that is meant for connecting bounds the whole request. The timer is cleared only
  when the call settles, so a call that connected at once fails with the connect timeout when its
  answer takes longer, whatever the answer is and however it comes.
\<close>

lemma connect_timeout_cuts_replies:
  "gc_result (call_once False sg (SocketConnects # map SocketData early @ TimerFires # late)) = Some (Inl ConnectTimeoutFault)"
proof -
  have "gc_timer (fold call_step (map SocketData cs) c) = gc_timer c \<and> gc_result (fold call_step (map SocketData cs) c) = gc_result c" for cs c
    by (induction cs arbitrary: c) (simp_all add: call_step_def)
  then show ?thesis
    by (simp add: call_once_def open_call_def call_step_def call_finish_def call_settled)
qed

text \<open>
  Ending a run's sandbox gives up the binding before the gateway is told. If the message that
  the run has ended cannot be delivered, the sandbox is never released: the release is not sent,
  and a second \<open>end\<close> finds no binding and sends nothing.
\<close>

lemma failed_end_leaks_sandbox:
  assumes "map_of reg run = Some sandbox" "g (encode_request u1 (run_end_request run sandbox)) = Inl f"
  shows "\<exists>reg'. end_sandbox g u1 u2 run reg = (Inl (GatewayFault f), [encode_request u1 (run_end_request run sandbox)], reg') \<and>
    map_of reg' run = None \<and> end_sandbox g u3 u4 run reg' = (Inr (), [], reg')"
  using assms
  by (simp add: end_sandbox_def release_binding_def Let_def delete_conv' delete_idem flip: map_of_eq_None_iff)

definition down :: gateway where
  "down line = Inl (SocketFault ''ECONNREFUSED'' ''down'')"

end
