(* ===== verification/SandboxTools.thy ===== *)
theory SandboxTools
  imports Gateway EngineTools
begin

text \<open>
  The sandbox tools of an agent run (\<open>coding-agent/src/tools/sandbox\<close>) on the gateway client: the
  schema of each input, the request it sends and what it makes of the reply. A tool that throws
  is \<open>Inl\<close>. \<open>g\<close> answers request lines, \<open>use\<close> is the id of the tool call.
\<close>

section \<open>Calls and replies\<close>

datatype tool_throw = UnboundRun string | CallFault gateway_fault

type_synonym sandbox_call = "string \<Rightarrow> json_object \<Rightarrow> tool_throw + gateway_response"

definition call_context :: "run_sandboxes \<Rightarrow> gateway \<Rightarrow> string \<Rightarrow> string \<Rightarrow> tool_throw + sandbox_call" where
  "call_context reg g run use =
     (case require_sandbox reg run of
        Inl msg \<Rightarrow> Inl (UnboundRun msg)
      | Inr sandbox \<Rightarrow> Inr (\<lambda>op args. map_sum CallFault (\<lambda>r. r)
          (g (encode_request use \<lparr>gq_op = op, gq_sandbox = sandbox, gq_invocation = Some use, gq_args = args\<rparr>))))"

definition envelope_result :: "gateway_response \<Rightarrow> string + json" where
  "envelope_result res =
     (case res of
        ErrorCarrying _ kind msg _ \<Rightarrow> Inl (kind @ '': '' @ msg)
      | ResultCarrying c r \<Rightarrow>
          (case c of
             GatewayOk \<Rightarrow> Inr (or_default r JNull)
           | GatewayRunning \<Rightarrow> Inr (or_default r JNull)
           | GatewayCancelled \<Rightarrow> Inl ''command cancelled''
           | GatewayTimedOut \<Rightarrow> Inl ''command timed_out''))"

definition parse_optional_string :: "json option \<Rightarrow> string option option" where
  "parse_optional_string j = (case j of None \<Rightarrow> Some None | Some (JStr s) \<Rightarrow> Some (Some s) | _ \<Rightarrow> None)"

definition parse_optional_number :: "json option \<Rightarrow> json option option" where
  "parse_optional_number j = (case j of None \<Rightarrow> Some None | Some (JNum n) \<Rightarrow> Some (Some (JNum n)) | _ \<Rightarrow> None)"

record command_reply =
  cr_status :: string
  cr_command :: "string option"
  cr_exit :: "json option"
  cr_stdout :: string
  cr_stderr :: string

text \<open>\<open>CommandResult\<close>; a missing output or stream reads as the empty string.\<close>

definition parse_streams :: "json option \<Rightarrow> (string \<times> string) option" where
  "parse_streams j =
     (case j of
        None \<Rightarrow> Some ([], [])
      | Some (JObj kvs) \<Rightarrow>
          (case (parse_optional_string (map_of kvs ''stdout''), parse_optional_string (map_of kvs ''stderr'')) of
             (Some out, Some err) \<Rightarrow> Some (or_default out [], or_default err [])
           | _ \<Rightarrow> None)
      | _ \<Rightarrow> None)"

definition parse_command_result :: "json \<Rightarrow> command_reply option" where
  "parse_command_result j =
     (case j of
        JObj kvs \<Rightarrow>
          (case (parse_enum [''running'', ''ok'', ''cancelled'', ''error'', ''timed_out''] (map_of kvs ''status''),
                 parse_optional_string (map_of kvs ''command_id''), parse_optional_number (map_of kvs ''exit_code''),
                 parse_streams (map_of kvs ''output'')) of
             (Some s, Some c, Some x, Some (out, err)) \<Rightarrow>
               Some \<lparr>cr_status = s, cr_command = c, cr_exit = x, cr_stdout = out, cr_stderr = err\<rparr>
           | _ \<Rightarrow> None)
      | _ \<Rightarrow> None)"

definition streams_json :: "command_reply \<Rightarrow> json" where
  "streams_json c = JObj [(''stdout'', JStr (cr_stdout c)), (''stderr'', JStr (cr_stderr c))]"

definition command_result :: "gateway_response \<Rightarrow> tool_result" where
  "command_result res =
     (case envelope_result res of
        Inl err \<Rightarrow> ToolError err
      | Inr j \<Rightarrow>
          (case parse_command_result j of
             None \<Rightarrow> ToolError ''malformed command result''
           | Some c \<Rightarrow>
               (if cr_status c = ''running'' then
                  ToolOutput (JObj [(''status'', JStr ''running''), (''command_id'', null_or (cr_command c)), (''output'', streams_json c)]) None
                else if cr_status c = ''ok'' then
                  ToolOutput (JObj [(''status'', JStr ''ok''), (''exit_code'', or_default (cr_exit c) JNull), (''output'', streams_json c)]) None
                else ToolError (''command '' @ cr_status c @ '': '' @
                  (if cr_stderr c \<noteq> [] then cr_stderr c else if cr_stdout c \<noteq> [] then cr_stdout c else cr_status c)))))"

text \<open>\<open>FileReadResult\<close>: the content and whether the file exists.\<close>

definition parse_file_read :: "json \<Rightarrow> (string \<times> bool option) option" where
  "parse_file_read j =
     (case j of
        JObj kvs \<Rightarrow>
          (case (parse_optional_string (map_of kvs ''content''),
                 (case map_of kvs ''exists'' of None \<Rightarrow> Some None | Some (JBool b) \<Rightarrow> Some (Some b) | _ \<Rightarrow> None)) of
             (Some c, Some e) \<Rightarrow> Some (or_default c [], e)
           | _ \<Rightarrow> None)
      | _ \<Rightarrow> None)"

definition slice_lines :: "string \<Rightarrow> nat option \<Rightarrow> nat option \<Rightarrow> string" where
  "slice_lines content offset limit =
     (if offset = None \<and> limit = None then content
      else let ls = split_on CHR 0x0A content; start = or_default offset 0;
               stop = (case limit of None \<Rightarrow> length ls | Some n \<Rightarrow> start + n)
           in join_with newline (take (stop - start) (drop start ls)))"

section \<open>The tools\<close>

record read_input =
  ri_path :: string
  ri_offset :: "nat option"
  ri_limit :: "nat option"

definition optional_nat :: "(json \<Rightarrow> nat option) \<Rightarrow> json option \<Rightarrow> nat option option" where
  "optional_nat p j = (case j of None \<Rightarrow> Some None | Some v \<Rightarrow> map_option Some (p v))"

definition parse_read :: "json_object \<Rightarrow> read_input option" where
  "parse_read i =
     (case (parse_text (map_of i ''path''), optional_nat parse_natural (map_of i ''offset''), optional_nat parse_positive (map_of i ''limit'')) of
        (Some p, Some ofs, Some n) \<Rightarrow> Some \<lparr>ri_path = p, ri_offset = ofs, ri_limit = n\<rparr>
      | _ \<Rightarrow> None)"

definition execute_read :: "sandbox_call \<Rightarrow> string \<Rightarrow> read_input \<Rightarrow> tool_throw + tool_result" where
  "execute_read call run i =
     and_then (call ''sandbox.file.read'' [(''path'', JStr (ri_path i)), (''caller_id'', JStr run)]) (\<lambda>res. Inr
       (case envelope_result res of
          Inl err \<Rightarrow> ToolError err
        | Inr j \<Rightarrow>
            (case parse_file_read j of
               None \<Rightarrow> ToolError ''malformed file read result''
             | Some (content, found) \<Rightarrow>
                 ToolOutput (JObj ((''content'', JStr (slice_lines content (ri_offset i) (ri_limit i))) #
                   optional_member ''exists'' (map_option JBool found))) None)))"

fun parse_paths :: "json list \<Rightarrow> string list option" where
  "parse_paths [] = Some []"
| "parse_paths (j # js) =
     (case (parse_text (Some j), parse_paths js) of (Some p, Some ps) \<Rightarrow> Some (p # ps) | _ \<Rightarrow> None)"

definition parse_multi_read :: "json_object \<Rightarrow> string list option" where
  "parse_multi_read i =
     (case map_of i ''paths'' of
        Some (JArr js) \<Rightarrow> (if js = [] then None else parse_paths js)
      | _ \<Rightarrow> None)"

definition read_one :: "sandbox_call \<Rightarrow> string \<Rightarrow> string \<Rightarrow> tool_throw + json" where
  "read_one call run path =
     and_then (call ''sandbox.file.read'' [(''path'', JStr path), (''caller_id'', JStr run)]) (\<lambda>res. Inr
       (case envelope_result res of
          Inl err \<Rightarrow> JObj [(''path'', JStr path), (''error'', JStr err)]
        | Inr j \<Rightarrow>
            (case parse_file_read j of
               Some (content, _) \<Rightarrow> JObj [(''path'', JStr path), (''content'', JStr content)]
             | None \<Rightarrow> JObj [(''path'', JStr path), (''error'', JStr ''malformed file read result'')])))"

text \<open>The reads run at once; the failure of one is thrown, here the first in the order of the paths.\<close>

fun read_all :: "sandbox_call \<Rightarrow> string \<Rightarrow> string list \<Rightarrow> tool_throw + json list" where
  "read_all call run [] = Inr []"
| "read_all call run (p # ps) = and_then (read_one call run p) (\<lambda>j. and_then (read_all call run ps) (\<lambda>js. Inr (j # js)))"

definition execute_multi_read :: "sandbox_call \<Rightarrow> string \<Rightarrow> string list \<Rightarrow> tool_throw + tool_result" where
  "execute_multi_read call run paths = and_then (read_all call run paths) (\<lambda>fs. Inr (ToolOutput (JObj [(''files'', JArr fs)]) None))"

text \<open>Writing and editing hand the gateway's result through.\<close>

definition passed_result :: "gateway_response \<Rightarrow> tool_result" where
  "passed_result res = (case envelope_result res of Inl err \<Rightarrow> ToolError err | Inr j \<Rightarrow> ToolOutput j None)"

definition parse_string :: "json option \<Rightarrow> string option" where
  "parse_string j = (case j of Some (JStr s) \<Rightarrow> Some s | _ \<Rightarrow> None)"

definition parse_write :: "json_object \<Rightarrow> (string \<times> string) option" where
  "parse_write i =
     (case (parse_text (map_of i ''path''), parse_string (map_of i ''content'')) of (Some p, Some c) \<Rightarrow> Some (p, c) | _ \<Rightarrow> None)"

definition execute_write :: "sandbox_call \<Rightarrow> string \<Rightarrow> string \<times> string \<Rightarrow> tool_throw + tool_result" where
  "execute_write call run i =
     and_then (call ''sandbox.file.write'' [(''path'', JStr (fst i)), (''content'', JStr (snd i)), (''caller_id'', JStr run)])
       (\<lambda>res. Inr (passed_result res))"

record edit_input =
  ei_path :: string
  ei_old :: string
  ei_new :: string
  ei_all :: bool

definition parse_edit :: "json_object \<Rightarrow> edit_input option" where
  "parse_edit i =
     (case (parse_text (map_of i ''path''), parse_string (map_of i ''old_string''), parse_string (map_of i ''new_string''),
            parse_flag False (map_of i ''replace_all'')) of
        (Some p, Some a, Some b, Some r) \<Rightarrow> Some \<lparr>ei_path = p, ei_old = a, ei_new = b, ei_all = r\<rparr>
      | _ \<Rightarrow> None)"

definition execute_edit :: "sandbox_call \<Rightarrow> string \<Rightarrow> edit_input \<Rightarrow> tool_throw + tool_result" where
  "execute_edit call run i =
     and_then (call ''sandbox.file.edit'' [(''path'', JStr (ei_path i)),
         (''edits'', JArr [JObj [(''old_text'', JStr (ei_old i)), (''new_text'', JStr (ei_new i)), (''replace_all'', JBool (ei_all i))]]),
         (''caller_id'', JStr run)])
       (\<lambda>res. Inr (passed_result res))"

record exec_input =
  xi_command :: string
  xi_cwd :: "string option"
  xi_timeout_ms :: "nat option"

definition parse_exec :: "json_object \<Rightarrow> exec_input option" where
  "parse_exec i =
     (case (parse_text (map_of i ''command''), parse_optional_string (map_of i ''cwd''), optional_nat parse_positive (map_of i ''timeout_ms'')) of
        (Some c, Some d, Some t) \<Rightarrow> Some \<lparr>xi_command = c, xi_cwd = d, xi_timeout_ms = t\<rparr>
      | _ \<Rightarrow> None)"

definition exec_line :: "exec_input \<Rightarrow> string" where
  "exec_line i = (if or_default (xi_cwd i) [] \<noteq> [] then ''cd '' @ the (xi_cwd i) @ '' && '' @ xi_command i else xi_command i)"

definition execute_command :: "sandbox_call \<Rightarrow> string \<Rightarrow> exec_input \<Rightarrow> tool_throw + tool_result" where
  "execute_command call run i =
     and_then (call ''sandbox.command.exec'' ([(''cmd'', JStr (exec_line i)), (''caller_id'', JStr run)] @
         optional_member ''timeout'' (map_option (\<lambda>t. jnat ((t + 999) div 1000)) (xi_timeout_ms i))))
       (\<lambda>res. Inr (command_result res))"

definition parse_stdin :: "json_object \<Rightarrow> (string \<times> string) option" where
  "parse_stdin i =
     (case (parse_text (map_of i ''command_id''), parse_string (map_of i ''input'')) of (Some c, Some x) \<Rightarrow> Some (c, x) | _ \<Rightarrow> None)"

definition execute_stdin :: "sandbox_call \<Rightarrow> string \<Rightarrow> string \<times> string \<Rightarrow> tool_throw + tool_result" where
  "execute_stdin call run i =
     and_then (call ''sandbox.command.write_stdin'' [(''command_id'', JStr (fst i)), (''chars'', JStr (snd i)), (''caller_id'', JStr run)])
       (\<lambda>res. Inr (command_result res))"

record transcript_input =
  ti_command :: string
  ti_offset :: "nat option"
  ti_limit :: "nat option"

definition parse_transcript :: "json_object \<Rightarrow> transcript_input option" where
  "parse_transcript i =
     (case (parse_text (map_of i ''command_id''), optional_nat parse_natural (map_of i ''offset''), optional_nat parse_positive (map_of i ''limit'')) of
        (Some c, Some ofs, Some n) \<Rightarrow> Some \<lparr>ti_command = c, ti_offset = ofs, ti_limit = n\<rparr>
      | _ \<Rightarrow> None)"

definition execute_transcript :: "sandbox_call \<Rightarrow> string \<Rightarrow> transcript_input \<Rightarrow> tool_throw + tool_result" where
  "execute_transcript call run i =
     and_then (call ''sandbox.command.poll'' ([(''command_id'', JStr (ti_command i)), (''caller_id'', JStr run)] @
         optional_member ''last_n_lines'' (map_option jnat (ti_limit i))))
       (\<lambda>res. Inr (command_result res))"

section \<open>The bundle\<close>

text \<open>\<open>createSandboxTools\<close>: a call of a tool, its input parsed.\<close>

datatype sandbox_tool_call =
    ReadCall read_input
  | MultiReadCall "string list"
  | WriteCall "string \<times> string"
  | EditCall edit_input
  | ExecCall exec_input
  | StdinCall "string \<times> string"
  | TranscriptCall transcript_input

definition parse_sandbox_call :: "string \<Rightarrow> json_object \<Rightarrow> sandbox_tool_call option" where
  "parse_sandbox_call name i =
     (if name = ''read'' then map_option ReadCall (parse_read i)
      else if name = ''multi_read'' then map_option MultiReadCall (parse_multi_read i)
      else if name = ''write'' then map_option WriteCall (parse_write i)
      else if name = ''edit'' then map_option EditCall (parse_edit i)
      else if name = ''exec_command'' then map_option ExecCall (parse_exec i)
      else if name = ''command_stdin'' then map_option StdinCall (parse_stdin i)
      else if name = ''read_command_transcript'' then map_option TranscriptCall (parse_transcript i)
      else None)"

fun execute_sandbox_call :: "sandbox_call \<Rightarrow> string \<Rightarrow> sandbox_tool_call \<Rightarrow> tool_throw + tool_result" where
  "execute_sandbox_call call run (ReadCall i) = execute_read call run i"
| "execute_sandbox_call call run (MultiReadCall ps) = execute_multi_read call run ps"
| "execute_sandbox_call call run (WriteCall i) = execute_write call run i"
| "execute_sandbox_call call run (EditCall i) = execute_edit call run i"
| "execute_sandbox_call call run (ExecCall i) = execute_command call run i"
| "execute_sandbox_call call run (StdinCall i) = execute_stdin call run i"
| "execute_sandbox_call call run (TranscriptCall i) = execute_transcript call run i"

definition run_sandbox_tool :: "run_sandboxes \<Rightarrow> gateway \<Rightarrow> string \<Rightarrow> string \<Rightarrow> sandbox_tool_call \<Rightarrow> tool_throw + tool_result" where
  "run_sandbox_tool reg g run use i = and_then (call_context reg g run use) (\<lambda>call. execute_sandbox_call call run i)"

text \<open>A new \<open>SandboxService\<close>, as \<open>bootstrap\<close> makes it; nothing there binds a run.\<close>

definition new_sandbox_service :: run_sandboxes where
  "new_sandbox_service = []"

section \<open>A run reaches its own sandbox only\<close>

text \<open>The lines a run's tools may send: to its sandbox, in its name, under the id of the tool call.\<close>

definition own_line :: "string \<Rightarrow> string \<Rightarrow> string \<Rightarrow> string \<Rightarrow> bool" where
  "own_line sandbox run use l =
     (\<exists>op args. l = encode_request use \<lparr>gq_op = op, gq_sandbox = sandbox, gq_invocation = Some use, gq_args = args\<rparr> \<and>
        map_of args ''caller_id'' = Some (JStr run) \<and> (\<forall>kv \<in> set args. numerals_ok (snd kv)))"

lemma own_line_read:
  assumes "own_line sandbox run use l"
  shows "\<exists>m args. json_parse l = Some (JObj m) \<and> map_of m ''sandbox_id'' = Some (JStr sandbox) \<and>
    map_of m ''invocation_id'' = Some (JStr use) \<and> map_of m ''args'' = Some (JObj args) \<and> map_of args ''caller_id'' = Some (JStr run)"
proof -
  from assms obtain op args where l: "l = encode_request use \<lparr>gq_op = op, gq_sandbox = sandbox, gq_invocation = Some use, gq_args = args\<rparr>"
    "map_of args ''caller_id'' = Some (JStr run)" "\<forall>kv \<in> set args. numerals_ok (snd kv)" by (auto simp: own_line_def)
  with request_line_read [of "\<lparr>gq_op = op, gq_sandbox = sandbox, gq_invocation = Some use, gq_args = args\<rparr>" use]
  have "json_parse l = Some (JObj (request_members use \<lparr>gq_op = op, gq_sandbox = sandbox, gq_invocation = Some use, gq_args = args\<rparr>))"
    by simp
  with l(2) show ?thesis by (auto simp: request_members_def)
qed

text \<open>Two calls that agree on the requests in the name of a run.\<close>

definition agree_for :: "string \<Rightarrow> sandbox_call \<Rightarrow> sandbox_call \<Rightarrow> bool" where
  "agree_for run call call' =
     (\<forall>op args. map_of args ''caller_id'' = Some (JStr run) \<longrightarrow> (\<forall>kv \<in> set args. numerals_ok (snd kv)) \<longrightarrow> call op args = call' op args)"

lemma agree_call: "agree_for run call call' \<Longrightarrow> map_of args ''caller_id'' = Some (JStr run) \<Longrightarrow>
    \<forall>kv \<in> set args. numerals_ok (snd kv) \<Longrightarrow> call op args = call' op args"
  by (simp add: agree_for_def)

lemma read_all_agree: "agree_for run call call' \<Longrightarrow> read_all call run ps = read_all call' run ps"
  by (induction ps) (simp_all add: read_one_def agree_call [of run call call'])

lemma execute_agree: "agree_for run call call' \<Longrightarrow> execute_sandbox_call call run i = execute_sandbox_call call' run i"
  by (cases i)
    (auto simp: execute_read_def execute_multi_read_def execute_write_def execute_edit_def execute_command_def execute_stdin_def
      execute_transcript_def optional_member_def jnat_numerals agree_call [of run call call'] read_all_agree [of run call call']
      split: option.splits)

text \<open>
  C33: a run reaches its own sandbox only. What a sandbox tool does in a run depends on the gateway
  only through requests that name the run's sandbox, carry the run as the caller and the id of
  the tool call; the gateway reads exactly these members from the line.
\<close>

theorem sandbox_calls_stay_inside:
  assumes "map_of reg run = Some sandbox" "\<And>l. own_line sandbox run use l \<Longrightarrow> g l = g' l"
  shows "run_sandbox_tool reg g run use i = run_sandbox_tool reg g' run use i \<and>
    (\<forall>l. own_line sandbox run use l \<longrightarrow> (\<exists>m args. json_parse l = Some (JObj m) \<and> map_of m ''sandbox_id'' = Some (JStr sandbox) \<and>
       map_of m ''invocation_id'' = Some (JStr use) \<and> map_of m ''args'' = Some (JObj args) \<and> map_of args ''caller_id'' = Some (JStr run)))"
proof
  obtain call call' where c: "call_context reg g run use = Inr call" "call_context reg g' run use = Inr call'"
    and def: "call = (\<lambda>op args. map_sum CallFault (\<lambda>r. r)
          (g (encode_request use \<lparr>gq_op = op, gq_sandbox = sandbox, gq_invocation = Some use, gq_args = args\<rparr>)))"
      "call' = (\<lambda>op args. map_sum CallFault (\<lambda>r. r)
          (g' (encode_request use \<lparr>gq_op = op, gq_sandbox = sandbox, gq_invocation = Some use, gq_args = args\<rparr>)))"
    using assms(1) by (simp add: call_context_def require_sandbox_def)
  have "agree_for run call call'"
    unfolding agree_for_def
  proof (intro allI impI)
    fix op args
    assume "map_of args ''caller_id'' = Some (JStr run)" "\<forall>kv \<in> set args. numerals_ok (snd kv)"
    then have "own_line sandbox run use (encode_request use \<lparr>gq_op = op, gq_sandbox = sandbox, gq_invocation = Some use, gq_args = args\<rparr>)"
      by (auto simp: own_line_def)
    from assms(2) [OF this] show "call op args = call' op args" by (simp add: def)
  qed
  from execute_agree [OF this] c show "run_sandbox_tool reg g run use i = run_sandbox_tool reg g' run use i"
    by (simp add: run_sandbox_tool_def)
qed (use own_line_read in blast)

definition one_box :: gateway where
  "one_box l = (if l = encode_request ''t1'' \<lparr>gq_op = ''sandbox.file.read'', gq_sandbox = ''box'', gq_invocation = Some ''t1'',
       gq_args = [(''path'', JStr ''a''), (''caller_id'', JStr ''agent-1'')]\<rparr>
     then Inr (ResultCarrying GatewayOk (Some (JObj [(''content'', JStr ''x'')]))) else Inl ReplyFault)"

definition other_gateway :: gateway where
  "other_gateway l = (if l = ''other'' then Inl AbortedFault else one_box l)"

theorem sandbox_calls_stay_inside_witness:
  "run_sandbox_tool [(''agent-1'', ''box'')] other_gateway ''agent-1'' ''t1'' (MultiReadCall [''a'']) =
     Inr (ToolOutput (JObj [(''files'', JArr [JObj [(''path'', JStr ''a''), (''content'', JStr ''x'')]])]) None)"
proof -
  have "json_parse ''other'' = None" by code_simp
  then have same: "one_box l = other_gateway l" if "own_line ''box'' ''agent-1'' ''t1'' l" for l
    using own_line_read [OF that] by (auto simp: other_gateway_def)
  have "run_sandbox_tool [(''agent-1'', ''box'')] one_box ''agent-1'' ''t1'' (MultiReadCall [''a'']) =
      Inr (ToolOutput (JObj [(''files'', JArr [JObj [(''path'', JStr ''a''), (''content'', JStr ''x'')]])]) None)"
    by code_simp
  with sandbox_calls_stay_inside [of "[(''agent-1'', ''box'')]" "''agent-1''" "''box''" "''t1''" one_box other_gateway, OF _ same] show ?thesis by simp
qed

section \<open>What the tools report\<close>

text \<open>
  A command tool reports a success exactly when the gateway's envelope is ok or running and
  the command in it is well formed and itself ok or running; every other reply is an error.
\<close>

lemma command_result_exact:
  "(\<exists>out. command_result res = ToolOutput out None) \<longleftrightarrow>
     (\<exists>c r. res = ResultCarrying c r \<and> c \<in> {GatewayOk, GatewayRunning} \<and>
        (\<exists>cr. parse_command_result (or_default r JNull) = Some cr \<and> cr_status cr \<in> {''running'', ''ok''}))"
  by (cases res) (auto simp: command_result_def envelope_result_def split: carrying_status.splits option.splits if_splits)

lemma join_with_Cons_first: "join_with sep ((a # x) # xs) = a # join_with sep (x # xs)"
  by (cases xs) simp_all

lemma join_split: "join_with newline (split_on CHR 0x0A s) = s"
  by (induction s) (auto simp: newline_def join_with_Cons_first split: list.splits)

text \<open>Reading a file in two pages, at any line, gives the file.\<close>

lemma join_with_append: "xs \<noteq> [] \<Longrightarrow> ys \<noteq> [] \<Longrightarrow> join_with sep (xs @ ys) = join_with sep xs @ sep @ join_with sep ys"
proof (induction sep xs rule: join_with.induct)
  case (2 sep x)
  then show ?case by (cases ys) simp_all
qed simp_all

lemma pages_make_the_file:
  assumes "0 < n" "n < length (split_on CHR 0x0A content)"
  shows "slice_lines content None (Some n) @ newline @ slice_lines content (Some n) None = content"
proof -
  let ?ls = "split_on CHR 0x0A content"
  have "take n ?ls \<noteq> []" "drop n ?ls \<noteq> []" using assms by auto
  then have "join_with newline (take n ?ls) @ newline @ join_with newline (drop n ?ls) = join_with newline ?ls"
    using join_with_append [of "take n ?ls" "drop n ?ls" newline] by simp
  then show ?thesis by (simp add: slice_lines_def Let_def join_split)
qed

text \<open>
  With the sandbox service that \<open>bootstrap\<close> makes, every sandbox tool of every run fails before
  it reaches the gateway. Runs are bound to sandboxes by \<open>acquire\<close> of the run binding alone, and
  nothing in the program calls it.
\<close>

lemma unbound_sandbox_tools_fail:
  "run_sandbox_tool new_sandbox_service g run use i = Inl (UnboundRun (''no sandbox bound for run \"'' @ run @ ''\"''))"
  by (simp add: run_sandbox_tool_def call_context_def require_sandbox_def new_sandbox_service_def and_then_def)

text \<open>
  \<open>read_command_transcript\<close> takes an offset and ignores it: the request and the result are the
  same for every offset.
\<close>

lemma transcript_offset_ignored:
  "execute_transcript call run (i\<lparr>ti_offset := a\<rparr>) = execute_transcript call run (i\<lparr>ti_offset := b\<rparr>)"
  by (simp add: execute_transcript_def)

end
