(* ===== verification/HookConfig.thy ===== *)
theory HookConfig
  imports OutcomeAdvisory SandboxTools
begin

text \<open>
  The host's hooks (\<open>coding-agent/src/config/hook-config.ts\<close>, \<open>entries-file.ts\<close>): the entries
  of \<open>hooks.json\<close>, and the commands (\<open>scripts/execute-json-command.ts\<close>) that they become hooks
  of. How a child process behaves is an argument, the texts of zod's issues are another.
\<close>

section \<open>Commands with a JSON payload\<close>

datatype command_outcome = ExecuteError string | CommandAborted | CommandExited "nat option" string string

record child_process =
  ch_stdout :: string
  ch_stderr :: string
  ch_aborted :: bool
  ch_result :: "command_outcome option"

datatype child_event = ChildStdout string | ChildStderr string | ChildErrors string | ChildCloses "nat option" | CommandSignal

definition child_resolve :: "command_outcome \<Rightarrow> child_process \<Rightarrow> child_process" where
  "child_resolve x c = (if ch_result c = None then c\<lparr>ch_result := Some x\<rparr> else c)"

definition child_step :: "child_event \<Rightarrow> child_process \<Rightarrow> child_process" where
  "child_step e c =
     (case e of
        ChildStdout t \<Rightarrow> c\<lparr>ch_stdout := ch_stdout c @ t\<rparr>
      | ChildStderr t \<Rightarrow> c\<lparr>ch_stderr := ch_stderr c @ t\<rparr>
      | CommandSignal \<Rightarrow> c\<lparr>ch_aborted := True\<rparr>
      | ChildErrors msg \<Rightarrow> child_resolve (if ch_aborted c then CommandAborted else ExecuteError msg) c
      | ChildCloses code \<Rightarrow>
          child_resolve (if ch_aborted c then CommandAborted else CommandExited code (ch_stdout c) (ch_stderr c)) c)"

definition DEFAULT_COMMAND_TIMEOUT_MS :: nat where
  "DEFAULT_COMMAND_TIMEOUT_MS = 60000"

text \<open>The child's events until its promise settles; \<open>command_input\<close> is what it reads.\<close>

definition execute_json_command :: "child_event list \<Rightarrow> command_outcome option" where
  "execute_json_command es = ch_result (fold child_step es \<lparr>ch_stdout = [], ch_stderr = [], ch_aborted = False, ch_result = None\<rparr>)"

definition command_input :: "json \<Rightarrow> string" where
  "command_input payload = json_line payload"

section \<open>Configuration files with entries\<close>

datatype file_read = FileText string | FileMissing | FileUnreadable

text \<open>The path's segments; a directory named \<open>.ephai\<close> stands for its parent.\<close>

definition command_cwd_for :: "string list \<Rightarrow> string list" where
  "command_cwd_for path =
     (let dir = butlast path in if dir \<noteq> [] \<and> last dir = ''.ephai'' then butlast dir else dir)"

definition show_path :: "string list \<Rightarrow> string" where
  "show_path p = concat (map (\<lambda>s. CHR ''/'' # s) p)"

definition load_entries_file ::
  "file_read \<Rightarrow> string list \<Rightarrow> string \<Rightarrow> (json \<Rightarrow> string + 'e list) \<Rightarrow> ('e \<Rightarrow> string \<Rightarrow> 'e) \<Rightarrow> string + 'e list" where
  "load_entries_file file path label schema fill =
     (case file of
        FileMissing \<Rightarrow> Inr []
      | FileUnreadable \<Rightarrow> Inl (label @ '' '' @ show_path path @ '' is not readable'')
      | FileText raw \<Rightarrow>
          (case json_parse raw of
             None \<Rightarrow> Inl (label @ '' '' @ show_path path @ '' is not valid JSON'')
           | Some j \<Rightarrow>
               (case schema j of
                  Inl issues \<Rightarrow> Inl (label @ '' '' @ show_path path @ '' is invalid: '' @ issues)
                | Inr es \<Rightarrow> Inr (map (\<lambda>e. fill e (show_path (command_cwd_for path))) es))))"

section \<open>Hook entries\<close>

record hook_command =
  hc_command :: string
  hc_cwd :: "string option"
  hc_timeout_ms :: "nat option"

definition with_default_cwd :: "hook_command \<Rightarrow> string \<Rightarrow> hook_command" where
  "with_default_cwd c cwd = (if hc_cwd c = None then c\<lparr>hc_cwd := Some cwd\<rparr> else c)"

datatype hook_config_entry =
    CommandPre "string option" hook_command
  | CommandPost "string option" hook_command
  | CommandBoundary hook_command
  | AdvisorApproval

fun fill_cwd :: "hook_config_entry \<Rightarrow> string \<Rightarrow> hook_config_entry" where
  "fill_cwd (CommandPre m c) cwd = CommandPre m (with_default_cwd c cwd)"
| "fill_cwd (CommandPost m c) cwd = CommandPost m (with_default_cwd c cwd)"
| "fill_cwd (CommandBoundary c) cwd = CommandBoundary (with_default_cwd c cwd)"
| "fill_cwd AdvisorApproval cwd = AdvisorApproval"

definition parse_hook_command :: "json option \<Rightarrow> hook_command option" where
  "parse_hook_command j =
     (case j of
        Some (JObj kvs) \<Rightarrow>
          (case (parse_text (map_of kvs ''command''), parse_optional_string (map_of kvs ''cwd''),
                 optional_nat parse_positive (map_of kvs ''timeout_ms'')) of
             (Some c, Some d, Some t) \<Rightarrow> Some \<lparr>hc_command = c, hc_cwd = d, hc_timeout_ms = t\<rparr>
           | _ \<Rightarrow> None)
      | _ \<Rightarrow> None)"

definition parse_tool_matcher :: "json option \<Rightarrow> string option option" where
  "parse_tool_matcher j =
     (case j of
        None \<Rightarrow> Some None
      | Some (JObj kvs) \<Rightarrow> map_option Some (parse_text (map_of kvs ''toolName''))
      | _ \<Rightarrow> None)"

definition parse_advisor_module :: "json option \<Rightarrow> bool" where
  "parse_advisor_module j =
     (case j of
        Some (JObj kvs) \<Rightarrow> map_of kvs ''path'' = Some (JStr ''advisor-hook.ts'') \<and>
          map_of kvs ''export'' \<in> {None, Some (JStr ''requireAdvisoryPass'')}
      | _ \<Rightarrow> False)"

text \<open>The union takes the first alternative that matches.\<close>

definition parse_hook_entry :: "json \<Rightarrow> hook_config_entry option" where
  "parse_hook_entry j =
     (case j of
        JObj kvs \<Rightarrow>
          (let event = map_of kvs ''event''; matcher = parse_tool_matcher (map_of kvs ''matcher'');
               command = parse_hook_command (map_of kvs ''command'') in
           if event = Some (JStr ''preToolUse'') then
             (case (matcher, command) of
                (Some m, Some c) \<Rightarrow> Some (CommandPre m c)
              | _ \<Rightarrow> if map_of kvs ''hook'' = Some (JStr ''advisor_approval'') \<and> parse_advisor_module (map_of kvs ''module'')
                    then Some AdvisorApproval else None)
           else if event = Some (JStr ''postToolUse'') then
             (case (matcher, command) of (Some m, Some c) \<Rightarrow> Some (CommandPost m c) | _ \<Rightarrow> None)
           else if event = Some (JStr ''turnBoundary'') then map_option CommandBoundary command
           else None)
      | _ \<Rightarrow> None)"

definition parse_hook_entries :: "(json \<Rightarrow> string) \<Rightarrow> json \<Rightarrow> string + hook_config_entry list" where
  "parse_hook_entries issues j =
     (case j of
        JArr js \<Rightarrow> (case all_some (map parse_hook_entry js) of None \<Rightarrow> Inl (issues j) | Some es \<Rightarrow> Inr es)
      | _ \<Rightarrow> Inl (issues j))"

section \<open>Hooks that run commands\<close>

definition tool_facts_json :: "tool_call_facts \<Rightarrow> json" where
  "tool_facts_json f = JObj [(''toolUseId'', JStr (cf_tool_use_id f)), (''toolName'', JStr (cf_tool_name f)),
     (''input'', JObj (cf_input f)), (''backgroundTaskCount'', jnat (cf_background_task_count f))]"

definition turn_facts_json :: "turn_facts \<Rightarrow> json" where
  "turn_facts_json t = JObj ([(''turn'', jnat (tf_turn t)), (''maxTurns'', jnat (tf_max_turns t))] @
     optional_member ''terminalToolName'' (map_option JStr (tf_terminal_tool_name t)) @
     [(''toolCalls'', jnat (tf_tool_calls t)), (''backgroundTaskCount'', jnat (tf_background_task_count t)),
      (''hasPendingSteers'', JBool (tf_has_pending_steers t))])"

definition parse_decision :: "json \<Rightarrow> (string \<times> string option) option" where
  "parse_decision j =
     (case j of
        JObj kvs \<Rightarrow>
          (case (parse_enum [''passthrough'', ''deny''] (map_of kvs ''decision''), parse_optional_string (map_of kvs ''reason'')) of
             (Some d, Some r) \<Rightarrow> Some (d, r)
           | _ \<Rightarrow> None)
      | _ \<Rightarrow> None)"

definition parse_notification :: "json \<Rightarrow> string option option" where
  "parse_notification j = (case j of JObj kvs \<Rightarrow> parse_optional_text (map_of kvs ''notification'') | _ \<Rightarrow> None)"

fun failure_text :: "command_outcome \<Rightarrow> string" where
  "failure_text (CommandExited code _ err) = ''exit '' @ (case code of None \<Rightarrow> ''null'' | Some n \<Rightarrow> string_of_nat n) @ '' '' @ err"
| "failure_text (ExecuteError _) = ''execute_error''"
| "failure_text CommandAborted = ''aborted''"

text \<open>\<open>Inr None\<close>: the command printed nothing.\<close>

definition run_hook_command :: "(json \<Rightarrow> string) \<Rightarrow> (json \<Rightarrow> 'a option) \<Rightarrow> hook_command \<Rightarrow> command_outcome \<Rightarrow> string + 'a option" where
  "run_hook_command issues schema c result =
     (let say = (\<lambda>rest. ''hook command \"'' @ hc_command c @ ''\"'' @ rest) in
      case result of
        CommandExited (Some 0) out err \<Rightarrow>
          (if trim out = [] then Inr None
           else case json_parse (trim out) of
                  None \<Rightarrow> Inl (say '' produced non-JSON output'')
                | Some j \<Rightarrow> (case schema j of None \<Rightarrow> Inl (say ('' output is invalid: '' @ issues j)) | Some x \<Rightarrow> Inr (Some x)))
      | _ \<Rightarrow> Inl (say ('' failed: '' @ failure_text result)))"

definition decide_by_command :: "(json \<Rightarrow> string) \<Rightarrow> (hook_command \<Rightarrow> json \<Rightarrow> command_outcome) \<Rightarrow> hook_command \<Rightarrow> tool_call_facts \<Rightarrow> string + hook_decision" where
  "decide_by_command issues exec c facts =
     and_then (run_hook_command issues parse_decision c (exec c (tool_facts_json facts))) (\<lambda>parsed. Inr
       (case parsed of
          Some (d, reason) \<Rightarrow> if d = ''deny'' then Deny (or_default reason ''denied by hook'') else Passthrough
        | None \<Rightarrow> Passthrough))"

definition notify_by_command :: "(json \<Rightarrow> string) \<Rightarrow> (hook_command \<Rightarrow> json \<Rightarrow> command_outcome) \<Rightarrow> hook_command \<Rightarrow> turn_facts \<Rightarrow> (string \<times> string option) list \<times> string option" where
  "notify_by_command issues exec c turn =
     (case run_hook_command issues parse_notification c (exec c (turn_facts_json turn)) of
        Inl err \<Rightarrow> ([], Some err)
      | Inr (Some (Some msg)) \<Rightarrow> ([(msg, None)], None)
      | Inr _ \<Rightarrow> ([], None))"

text \<open>A post hook's command is given the call, not its result.\<close>

fun compile_hook :: "(json \<Rightarrow> string) \<Rightarrow> (hook_command \<Rightarrow> json \<Rightarrow> command_outcome) \<Rightarrow> hook_config_entry \<Rightarrow> hook_entry option" where
  "compile_hook issues exec (CommandPre m c) = Some (PreToolUse m (decide_by_command issues exec c))"
| "compile_hook issues exec (CommandPost m c) = Some (PostToolUse m (\<lambda>call result. decide_by_command issues exec c call))"
| "compile_hook issues exec (CommandBoundary c) = Some (TurnBoundary (notify_by_command issues exec c))"
| "compile_hook issues exec AdvisorApproval = None"

record loaded_hook_config =
  lh_sdk_hooks :: "hook_entry list"
  lh_advisor_approval :: bool

definition load_hook_config ::
  "(json \<Rightarrow> string) \<Rightarrow> (hook_command \<Rightarrow> json \<Rightarrow> command_outcome) \<Rightarrow> file_read \<Rightarrow> string list \<Rightarrow> string + loaded_hook_config" where
  "load_hook_config issues exec file path =
     and_then (load_entries_file file path ''hook config'' (parse_hook_entries issues) fill_cwd) (\<lambda>es.
       if length (filter (\<lambda>e. e = AdvisorApproval) es) > 1
       then Inl (''hook config '' @ show_path path @ '' declares duplicate advisor_approval hooks'')
       else Inr \<lparr>lh_sdk_hooks = List.map_filter (compile_hook issues exec) es, lh_advisor_approval = (AdvisorApproval \<in> set es)\<rparr>)"

section \<open>Configured commands fail closed\<close>

text \<open>What a command must have said for its hook to pass.\<close>

definition command_passes :: "command_outcome \<Rightarrow> bool" where
  "command_passes x =
     (case x of
        CommandExited (Some 0) out _ \<Rightarrow>
          trim out = [] \<or>
          (case json_parse (trim out) of None \<Rightarrow> False
           | Some j \<Rightarrow> (case parse_decision j of None \<Rightarrow> False | Some (d, _) \<Rightarrow> d = ''passthrough''))
      | _ \<Rightarrow> False)"

lemma parse_decision_cases: "parse_decision j = Some (d, r) \<Longrightarrow> d = ''passthrough'' \<or> d = ''deny''"
  by (auto simp: parse_decision_def parse_enum_def split: json.splits option.splits if_splits)

lemma decide_passes: "decide_by_command issues exec c call = Inr Passthrough \<longleftrightarrow> command_passes (exec c (tool_facts_json call))"
proof (cases "\<exists>out err. exec c (tool_facts_json call) = CommandExited (Some 0) out err")
  case True
  then obtain out err where x: "exec c (tool_facts_json call) = CommandExited (Some 0) out err" by blast
  show ?thesis
    using parse_decision_cases
    by (fastforce simp: decide_by_command_def run_hook_command_def command_passes_def x Let_def and_then_Inr_iff
        split: option.splits prod.splits if_splits)
next
  case False
  then show ?thesis
    by (auto simp: decide_by_command_def run_hook_command_def command_passes_def Let_def and_then_Inr_iff
        split: command_outcome.splits option.splits nat.splits)
qed

lemma compiled_pre:
  "PreToolUse m f \<in> set (List.map_filter (compile_hook issues exec) es) \<longleftrightarrow>
   (\<exists>c. CommandPre m c \<in> set es \<and> f = decide_by_command issues exec c)"
proof -
  have "compile_hook issues exec e = Some (PreToolUse m f) \<longleftrightarrow> (\<exists>c. e = CommandPre m c \<and> f = decide_by_command issues exec c)" for e
    by (cases e) auto
  then show ?thesis by (force simp: List.map_filter_def)
qed

text \<open>
  C30: command hooks fail closed, from the file to the tool call. With the hooks that \<open>hooks.json\<close>
  configures, a call passes exactly when every command whose matcher fits the tool exited with 0
  and printed nothing or a JSON verdict to pass. A command that cannot be started, is timed out,
  fails, prints no JSON or a malformed verdict denies the call.
\<close>

theorem configured_hooks_fail_closed:
  assumes "load_hook_config issues exec file path = Inr cfg"
  shows "\<exists>es. load_entries_file file path ''hook config'' (parse_hook_entries issues) fill_cwd = Inr es \<and>
    (pre_tool_use (make_hook_engine (lh_sdk_hooks cfg)) call = Passthrough \<longleftrightarrow>
      (\<forall>m c. CommandPre m c \<in> set es \<and> hook_matches m (cf_tool_name call) \<longrightarrow> command_passes (exec c (tool_facts_json call))))"
proof -
  from assms obtain es where es: "load_entries_file file path ''hook config'' (parse_hook_entries issues) fill_cwd = Inr es"
    "lh_sdk_hooks cfg = List.map_filter (compile_hook issues exec) es"
    by (auto simp: load_hook_config_def and_then_Inr_iff split: if_splits)
  have "pre_tool_use (make_hook_engine (lh_sdk_hooks cfg)) call = Passthrough \<longleftrightarrow>
      (\<forall>m c. CommandPre m c \<in> set es \<and> hook_matches m (cf_tool_name call) \<longrightarrow> command_passes (exec c (tool_facts_json call)))"
    unfolding es(2) pre_hooks_pass compiled_pre decide_passes [of issues exec, symmetric] by blast
  with es(1) show ?thesis by blast
qed

definition sample_hooks_file :: file_read where
  "sample_hooks_file = FileText (stringify (JArr [
     JObj [(''event'', JStr ''preToolUse''), (''matcher'', JObj [(''toolName'', JStr ''edit'')]), (''command'', JObj [(''command'', JStr ''check'')])],
     JObj [(''event'', JStr ''preToolUse''), (''hook'', JStr ''advisor_approval''), (''module'', JObj [(''path'', JStr ''advisor-hook.ts'')])]]))"

definition refusing_command :: "hook_command \<Rightarrow> json \<Rightarrow> command_outcome" where
  "refusing_command c payload =
     CommandExited (Some 0) (stringify (JObj [(''decision'', JStr ''deny''), (''reason'', JStr ''no'')])) []"

definition edit_call :: tool_call_facts where
  "edit_call = \<lparr>cf_tool_use_id = ''t1'', cf_tool_name = ''edit'', cf_input = [], cf_background_task_count = 0\<rparr>"

definition sample_hooks :: "string + loaded_hook_config" where
  "sample_hooks = load_hook_config (\<lambda>_. []) refusing_command sample_hooks_file [''repo'', ''.ephai'', ''hooks.json'']"

lemma map_sum_Inr_TrueE: "map_sum f p r = Inr True \<Longrightarrow> (\<And>x. r = Inr x \<Longrightarrow> p x \<Longrightarrow> thesis) \<Longrightarrow> thesis"
  by (cases r) auto

theorem configured_hooks_fail_closed_witness:
  "\<exists>cfg. sample_hooks = Inr cfg \<and> lh_advisor_approval cfg \<and> pre_tool_use (make_hook_engine (lh_sdk_hooks cfg)) edit_call \<noteq> Passthrough"
proof -
  have ok: "map_sum (\<lambda>_. ()) lh_advisor_approval sample_hooks = Inr True" by code_simp
  then obtain cfg where cfg: "sample_hooks = Inr cfg" "lh_advisor_approval cfg" by (rule map_sum_Inr_TrueE)
  from configured_hooks_fail_closed [OF cfg(1) [unfolded sample_hooks_def], of edit_call] obtain es where
    es: "load_entries_file sample_hooks_file [''repo'', ''.ephai'', ''hooks.json''] ''hook config'' (parse_hook_entries (\<lambda>_. [])) fill_cwd = Inr es"
    and iff: "pre_tool_use (make_hook_engine (lh_sdk_hooks cfg)) edit_call = Passthrough \<longleftrightarrow>
      (\<forall>m c. CommandPre m c \<in> set es \<and> hook_matches m (cf_tool_name edit_call) \<longrightarrow> command_passes (refusing_command c (tool_facts_json edit_call)))"
    by blast
  have "load_entries_file sample_hooks_file [''repo'', ''.ephai'', ''hooks.json''] ''hook config'' (parse_hook_entries (\<lambda>_. [])) fill_cwd =
      Inr [CommandPre (Some ''edit'') \<lparr>hc_command = ''check'', hc_cwd = Some ''/repo'', hc_timeout_ms = None\<rparr>, AdvisorApproval]"
    by code_simp
  with es have "es = [CommandPre (Some ''edit'') \<lparr>hc_command = ''check'', hc_cwd = Some ''/repo'', hc_timeout_ms = None\<rparr>, AdvisorApproval]"
    by simp
  then have "CommandPre (Some ''edit'') \<lparr>hc_command = ''check'', hc_cwd = Some ''/repo'', hc_timeout_ms = None\<rparr> \<in> set es" by simp
  moreover have "\<not> command_passes (refusing_command c j)" for c j
  proof -
    have "\<not> command_passes (refusing_command \<lparr>hc_command = [], hc_cwd = None, hc_timeout_ms = None\<rparr> JNull)" by code_simp
    then show ?thesis by (simp add: refusing_command_def)
  qed
  moreover have "hook_matches (Some ''edit'') (cf_tool_name edit_call)" by (simp add: hook_matches_def edit_call_def)
  ultimately have "pre_tool_use (make_hook_engine (lh_sdk_hooks cfg)) edit_call \<noteq> Passthrough" using iff by blast
  with cfg show ?thesis by blast
qed

end
