(* ===== verification/HostConfig.thy ===== *)
theory HostConfig
  imports HookConfig AgentFactory
begin

text \<open>
  The host's configuration directory (\<open>coding-agent/src/config\<close>): where it is found, the profiles
  and workflow configurations as Markdown with a frontmatter, the model clients with their
  credentials, and their composition (\<open>load.ts\<close>). The YAML parser is an argument (\<open>None\<close> when it
  throws), as are the texts of zod's issues; a file tree is given as it was when it was read.
\<close>

section \<open>Files\<close>

text \<open>A file that cannot be read is \<open>FileNode None\<close>; \<open>OtherNode\<close> is neither a file nor a directory.\<close>

datatype fs_node = FileNode "string option" | DirNode "(string \<times> fs_node) list" | OtherNode

fun node_at :: "string list \<Rightarrow> fs_node \<Rightarrow> fs_node option" where
  "node_at [] n = Some n"
| "node_at (s # ss) (DirNode es) = (case map_of es s of None \<Rightarrow> None | Some n \<Rightarrow> node_at ss n)"
| "node_at (s # ss) n = Some OtherNode"

fun file_of :: "fs_node option \<Rightarrow> file_read" where
  "file_of None = FileMissing"
| "file_of (Some (FileNode (Some t))) = FileText t"
| "file_of (Some _) = FileUnreadable"

definition EPHAI_DIR_NAME :: string where
  "EPHAI_DIR_NAME = ''.ephai''"

text \<open>The nearest ancestor of the working directory that has a \<open>.ephai\<close>.\<close>

function find_config_root :: "(string list \<Rightarrow> bool) \<Rightarrow> string list \<Rightarrow> string list option" where
  "find_config_root exists_at dir =
     (if exists_at (dir @ [EPHAI_DIR_NAME]) then Some (dir @ [EPHAI_DIR_NAME])
      else if dir = [] then None
      else find_config_root exists_at (butlast dir))"
  by pat_completeness auto
termination by (relation "measure (\<lambda>(_, dir). length dir)") auto

declare find_config_root.simps [simp del]

definition ephai_config_root :: "(string list \<Rightarrow> bool) \<Rightarrow> string list \<Rightarrow> string list" where
  "ephai_config_root exists_at cwd =
     (case find_config_root exists_at cwd of Some found \<Rightarrow> found | None \<Rightarrow> cwd @ [EPHAI_DIR_NAME])"

definition config_base_dir :: "(string list \<Rightarrow> bool) \<Rightarrow> string list \<Rightarrow> string list" where
  "config_base_dir exists_at cwd = butlast (ephai_config_root exists_at cwd)"

section \<open>Frontmatter\<close>

text \<open>
  The regular expression of both loaders: three dashes and a line break open the file, the YAML is
  the shortest text before a line break and three dashes that end the file or are followed by a
  line break, and the second group is all that follows them. A line break is a line feed, after a
  carriage return or not.
\<close>

fun strip_break :: "string \<Rightarrow> string option" where
  "strip_break [] = None"
| "strip_break (c # cs) =
     (if c = CHR 0x0A then Some cs
      else if c = CHR 0x0D \<and> cs \<noteq> [] \<and> hd cs = CHR 0x0A then Some (tl cs)
      else None)"

definition strip_fence :: "string \<Rightarrow> string option" where
  "strip_fence s = (if take 3 s = ''---'' then Some (drop 3 s) else None)"

definition closing_fence :: "string \<Rightarrow> string option" where
  "closing_fence s =
     (case Option.bind (strip_break s) strip_fence of
        None \<Rightarrow> None
      | Some rest \<Rightarrow> if rest = [] \<or> strip_break rest \<noteq> None then Some rest else None)"

fun until_fence :: "string \<Rightarrow> (string \<times> string) option" where
  "until_fence s =
     (case closing_fence s of
        Some rest \<Rightarrow> Some ([], rest)
      | None \<Rightarrow> (case s of [] \<Rightarrow> None | c # cs \<Rightarrow> map_option (\<lambda>(y, rest). (c # y, rest)) (until_fence cs)))"

declare until_fence.simps [simp del]

definition frontmatter :: "string \<Rightarrow> (string \<times> string) option" where
  "frontmatter raw = Option.bind (Option.bind (strip_fence raw) strip_break) until_fence"

section \<open>Profiles\<close>

definition parse_texts :: "json option \<Rightarrow> string list option" where
  "parse_texts j = (case j of Some (JArr js) \<Rightarrow> all_some (map (\<lambda>v. parse_text (Some v)) js) | _ \<Rightarrow> None)"

definition parse_default_texts :: "json option \<Rightarrow> string list option" where
  "parse_default_texts j = (case j of None \<Rightarrow> Some [] | Some _ \<Rightarrow> parse_texts j)"

text \<open>The parsed frontmatter; its prompt and path are filled in by the loader.\<close>

definition parse_profile :: "json \<Rightarrow> agent_profile option" where
  "parse_profile j =
     (case j of
        JObj kvs \<Rightarrow>
          (if strict_keys [''name'', ''llm_client_id'', ''description'', ''max_turns'', ''allowed_tools'', ''agentic_workflows'', ''subagents''] kvs then
             (case (parse_text (map_of kvs ''name''), parse_text (map_of kvs ''llm_client_id''), parse_optional_text (map_of kvs ''description''),
                    optional_nat parse_positive (map_of kvs ''max_turns''), parse_texts (map_of kvs ''allowed_tools''),
                    parse_default_texts (map_of kvs ''agentic_workflows''), parse_default_texts (map_of kvs ''subagents'')) of
                (Some n, Some l, Some d, Some m, Some ts, Some ws, Some ss) \<Rightarrow>
                  Some \<lparr>ap_name = n, ap_llm = l, ap_description = d, ap_max_turns = m, ap_allowed_tools = ts, ap_workflows = ws,
                       ap_subagents = ss, ap_system_prompt = [], ap_source_path = []\<rparr>
              | _ \<Rightarrow> None)
           else None)
      | _ \<Rightarrow> None)"

text \<open>What both loaders do up to the schema; \<open>what\<close> names the kind of file.\<close>

definition read_frontmatter :: "(string \<Rightarrow> json option) \<Rightarrow> string \<Rightarrow> string \<Rightarrow> file_read \<Rightarrow> string + (json \<times> string)" where
  "read_frontmatter yaml what path file =
     (case file of
        FileText raw \<Rightarrow>
          (case frontmatter raw of
             None \<Rightarrow> Inl (what @ '' '' @ path @ '' must open with a --- YAML frontmatter block'')
           | Some (y, rest) \<Rightarrow>
               (case yaml y of
                  None \<Rightarrow> Inl (what @ '' '' @ path @ '' has invalid YAML frontmatter'')
                | Some data \<Rightarrow> Inr (data, rest)))
      | _ \<Rightarrow> Inl (what @ '' '' @ path @ '' is not readable''))"

definition load_agent_profile :: "(string \<Rightarrow> json option) \<Rightarrow> (json \<Rightarrow> string) \<Rightarrow> string \<Rightarrow> file_read \<Rightarrow> string + agent_profile" where
  "load_agent_profile yaml issues path file =
     and_then (read_frontmatter yaml ''agent profile'' path file) (\<lambda>(data, rest).
       case parse_profile data of
         None \<Rightarrow> Inl (''agent profile '' @ path @ '' is invalid: '' @ issues data)
       | Some p \<Rightarrow> Inr (p\<lparr>ap_system_prompt := trim rest, ap_source_path := path\<rparr>))"

text \<open>The Markdown files below a directory with their paths, in the order the directories list them.\<close>

fun markdown_in :: "string \<Rightarrow> (string \<times> fs_node) list \<Rightarrow> (string \<times> file_read) list"
  and markdown_at :: "string \<Rightarrow> string \<Rightarrow> fs_node \<Rightarrow> (string \<times> file_read) list" where
  "markdown_in dir [] = []"
| "markdown_in dir ((name, n) # es) =
     (if starts_with ''.'' name then [] else markdown_at (dir @ ''/'' @ name) name n) @ markdown_in dir es"
| "markdown_at path name (DirNode es) = markdown_in path es"
| "markdown_at path name (FileNode t) = (if starts_with (rev ''.md'') (rev name) then [(path, file_of (Some (FileNode t)))] else [])"
| "markdown_at path name OtherNode = []"

text \<open>\<open>readdirSync\<close> of a path that is no directory throws.\<close>

definition read_dir :: "fs_node option \<Rightarrow> string + (string \<times> fs_node) list" where
  "read_dir n = (case n of None \<Rightarrow> Inl ''ENOENT'' | Some (DirNode es) \<Rightarrow> Inr es | Some _ \<Rightarrow> Inl ''ENOTDIR'')"

fun load_profiles_from ::
  "(string \<Rightarrow> json option) \<Rightarrow> (json \<Rightarrow> string) \<Rightarrow> profile_registry \<Rightarrow> (string \<times> file_read) list \<Rightarrow> string + profile_registry" where
  "load_profiles_from yaml issues ps [] = Inr ps"
| "load_profiles_from yaml issues ps ((path, file) # fs) =
     and_then (load_agent_profile yaml issues path file) (\<lambda>p.
       if ap_name p \<in> set (map fst ps) then Inl (''duplicate agent profile name \"'' @ ap_name p @ ''\" ('' @ ap_source_path p @ '')'')
       else load_profiles_from yaml issues (ps @ [(ap_name p, p)]) fs)"

definition check_subagents :: "profile_registry \<Rightarrow> agent_profile \<Rightarrow> string + unit" where
  "check_subagents ps p =
     check_all (\<lambda>target. if map_of ps target = None
        then Inl (''agent profile \"'' @ ap_name p @ ''\" names unknown subagent \"'' @ target @ ''\"'') else Inr ()) (ap_subagents p)"

definition load_agent_profiles ::
  "(string \<Rightarrow> json option) \<Rightarrow> (json \<Rightarrow> string) \<Rightarrow> string list \<Rightarrow> fs_node option \<Rightarrow> string + profile_registry" where
  "load_agent_profiles yaml issues dir n =
     and_then (read_dir n) (\<lambda>es.
     and_then (load_profiles_from yaml issues [] (sort_key fst (markdown_in (show_path dir) es))) (\<lambda>ps.
     and_then (check_all (check_subagents ps \<circ> snd) ps) (\<lambda>_. Inr ps)))"

section \<open>Workflow configurations\<close>

definition RESERVED_TOOL :: string where
  "RESERVED_TOOL = ''read_workflow_docs''"

definition is_tool_name :: "string \<Rightarrow> bool" where
  "is_tool_name s = (s \<noteq> [] \<and> hd s \<in> set ''abcdefghijklmnopqrstuvwxyz'' \<and>
     list_all (\<lambda>c. c \<in> set ''abcdefghijklmnopqrstuvwxyz0123456789_'') (tl s))"

definition parse_participant :: "json \<Rightarrow> node_def option" where
  "parse_participant j =
     (case j of
        JObj kvs \<Rightarrow>
          (if strict_keys [''kind'', ''name'', ''description''] kvs then
             (case (parse_enum [''agent'', ''workflow''] (map_of kvs ''kind''), parse_text (map_of kvs ''name''), parse_optional_text (map_of kvs ''description'')) of
                (Some k, Some n, Some d) \<Rightarrow>
                  Some \<lparr>nd_kind = (if k = ''agent'' then AgentKind else WorkflowKind), nd_name = n, nd_description = d\<rparr>
              | _ \<Rightarrow> None)
           else None)
      | _ \<Rightarrow> None)"

definition parse_participants :: "json option \<Rightarrow> (string \<times> node_def) list option" where
  "parse_participants j =
     (case j of
        None \<Rightarrow> Some []
      | Some (JObj kvs) \<Rightarrow>
          all_some (map (\<lambda>(role, v). if role = [] then None else map_option (Pair role) (parse_participant v)) kvs)
      | _ \<Rightarrow> None)"

text \<open>The parsed frontmatter; its documentation is filled in by the loader, which resolves the module.\<close>

definition parse_workflow_config :: "json \<Rightarrow> workflow_config option" where
  "parse_workflow_config j =
     (case j of
        JObj kvs \<Rightarrow>
          (if strict_keys [''name'', ''type'', ''description'', ''module'', ''participants'', ''tools'', ''args''] kvs then
             (case (parse_text (map_of kvs ''name''), parse_text (map_of kvs ''type''), parse_text (map_of kvs ''description''),
                    parse_optional_text (map_of kvs ''module''), parse_participants (map_of kvs ''participants''),
                    Option.bind (parse_texts (map_of kvs ''tools'')) (\<lambda>ts. if ts = [] then None else Some ts)) of
                (Some n, Some t, Some d, Some m, Some ps, Some ts) \<Rightarrow>
                  Some \<lparr>cw_name = n, cw_type = t, cw_module = m, cw_args = map_of kvs ''args'', cw_description = d, cw_docs = [],
                       cw_participants = ps, cw_tools = ts\<rparr>
              | _ \<Rightarrow> None)
           else None)
      | _ \<Rightarrow> None)"

definition resolve_against :: "string list \<Rightarrow> string \<Rightarrow> string" where
  "resolve_against dir p =
     (let q = join_path (if starts_with ''/'' p then [] else dir) p in if q = [] then ''/'' else show_path q)"

definition check_workflow_tools :: "string \<Rightarrow> string list \<Rightarrow> string + unit" where
  "check_workflow_tools name ts =
     and_then (check_all (\<lambda>t.
         if \<not> is_tool_name t then Inl (''agentic workflow \"'' @ name @ ''\" declares invalid tool name \"'' @ t @ ''\"'')
         else if t = RESERVED_TOOL then Inl (''agentic workflow \"'' @ name @ ''\" must not declare '' @ RESERVED_TOOL)
         else Inr ()) ts) (\<lambda>_.
       if distinct ts then Inr () else Inl (''agentic workflow \"'' @ name @ ''\" declares duplicate tool names''))"

definition load_workflow_config ::
  "(string \<Rightarrow> json option) \<Rightarrow> (json \<Rightarrow> string) \<Rightarrow> string list \<Rightarrow> string \<Rightarrow> file_read \<Rightarrow> string + workflow_config" where
  "load_workflow_config yaml issues path workflow_name file =
     and_then (read_frontmatter yaml ''agentic workflow config'' (show_path path) file) (\<lambda>(data, rest).
       case parse_workflow_config data of
         None \<Rightarrow> Inl (''agentic workflow config '' @ show_path path @ '' is invalid: '' @ issues data)
       | Some c \<Rightarrow>
           (if cw_name c \<noteq> workflow_name then
              Inl (''agentic workflow config '' @ show_path path @ '' name \"'' @ cw_name c @ ''\" must equal directory \"'' @ workflow_name @ ''\"'')
            else if \<not> is_tool_name (cw_name c) then
              Inl (''agentic workflow name \"'' @ cw_name c @ ''\" must be a snake_case tool-name fragment'')
            else and_then (check_workflow_tools (cw_name c) (cw_tools c)) (\<lambda>_.
              Inr (c\<lparr>cw_module := map_option (resolve_against (butlast path)) (cw_module c), cw_docs := trim rest\<rparr>))))"

definition workflow_dirs :: "(string \<times> fs_node) list \<Rightarrow> (string \<times> (string \<times> fs_node) list) list" where
  "workflow_dirs es =
     sort_key fst (List.map_filter (\<lambda>(name, n). case n of DirNode fs \<Rightarrow> if starts_with ''.'' name then None else Some (name, fs) | _ \<Rightarrow> None) es)"

fun load_workflows_from ::
  "(string \<Rightarrow> json option) \<Rightarrow> (json \<Rightarrow> string) \<Rightarrow> string list \<Rightarrow> string list \<Rightarrow> (string \<times> (string \<times> fs_node) list) list \<Rightarrow>
   string + workflow_config list" where
  "load_workflows_from yaml issues at_dir seen [] = Inr []"
| "load_workflows_from yaml issues at_dir seen ((dir, fs) # ds) =
     (let path = at_dir @ [dir, ''workflow.md''] in
      if map_of fs ''workflow.md'' = None then Inl (''agentic workflow directory '' @ show_path (at_dir @ [dir]) @ '' must contain workflow.md'')
      else and_then (load_workflow_config yaml issues path dir (file_of (map_of fs ''workflow.md''))) (\<lambda>c.
        if cw_name c \<in> set seen then Inl (''duplicate agentic workflow name \"'' @ cw_name c @ ''\"'')
        else and_then (load_workflows_from yaml issues at_dir (cw_name c # seen) ds) (\<lambda>cs. Inr (c # cs))))"

text \<open>A missing root means no workflows.\<close>

definition load_workflow_configs ::
  "(string \<Rightarrow> json option) \<Rightarrow> (json \<Rightarrow> string) \<Rightarrow> string list \<Rightarrow> fs_node option \<Rightarrow> string + workflow_config list" where
  "load_workflow_configs yaml issues dir n =
     (if n = None then Inr []
      else and_then (read_dir n) (\<lambda>es. load_workflows_from yaml issues dir [] (workflow_dirs es)))"

section \<open>Model clients\<close>

datatype llm_auth = CodexAuthFile string | InlineCredential string

record llm_client_entry =
  le_id :: string
  le_provider :: provider
  le_model :: string
  le_effort :: "reasoning_effort option"
  le_base_url :: "string option"
  le_auth :: llm_auth

definition parse_named :: "(string \<times> 'a) list \<Rightarrow> json option \<Rightarrow> 'a option" where
  "parse_named table j = (case j of Some (JStr s) \<Rightarrow> map_of table s | _ \<Rightarrow> None)"

definition parse_provider :: "json option \<Rightarrow> provider option" where
  "parse_provider = parse_named [(''anthropic_api'', AnthropicApi), (''openai_api'', OpenAiApi),
     (''claude_coding_plan'', ClaudeCodingPlan), (''codex_coding_plan'', CodexCodingPlan)]"

definition parse_effort :: "json option \<Rightarrow> reasoning_effort option option" where
  "parse_effort j = (case j of None \<Rightarrow> Some None | Some _ \<Rightarrow> map_option Some (parse_named
     [(''minimal'', EffortMinimal), (''low'', EffortLow), (''medium'', EffortMedium), (''high'', EffortHigh), (''max'', EffortMax)] j))"

definition parse_auth :: "json option \<Rightarrow> llm_auth option" where
  "parse_auth j =
     (case j of
        Some (JObj kvs) \<Rightarrow>
          (if map_of kvs ''kind'' = Some (JStr ''codex_cli_auth_file'') then map_option CodexAuthFile (parse_text (map_of kvs ''path''))
           else if map_of kvs ''kind'' = Some (JStr ''inline'') then map_option InlineCredential (parse_text (map_of kvs ''credential''))
           else None)
      | _ \<Rightarrow> None)"

definition parse_llm_client :: "json \<Rightarrow> llm_client_entry option" where
  "parse_llm_client j =
     (case j of
        JObj kvs \<Rightarrow>
          (case (parse_text (map_of kvs ''id''), parse_provider (map_of kvs ''provider''), parse_text (map_of kvs ''model_id''),
                 parse_effort (map_of kvs ''reasoning_effort''), parse_optional_text (map_of kvs ''base_url''), parse_auth (map_of kvs ''auth'')) of
             (Some i, Some p, Some m, Some e, Some b, Some a) \<Rightarrow>
               Some \<lparr>le_id = i, le_provider = p, le_model = m, le_effort = e, le_base_url = b, le_auth = a\<rparr>
           | _ \<Rightarrow> None)
      | _ \<Rightarrow> None)"

definition parse_llm_clients :: "json \<Rightarrow> llm_client_entry list option" where
  "parse_llm_clients j =
     (case j of
        JObj kvs \<Rightarrow> (case map_of kvs ''clients'' of Some (JArr js) \<Rightarrow> all_some (map parse_llm_client js) | _ \<Rightarrow> None)
      | _ \<Rightarrow> None)"

definition read_credential :: "(string \<Rightarrow> file_read) \<Rightarrow> llm_auth \<Rightarrow> string + string" where
  "read_credential read_path a =
     (case a of
        InlineCredential c \<Rightarrow> Inr c
      | CodexAuthFile path \<Rightarrow>
          (case (case read_path path of FileText t \<Rightarrow> json_parse t | _ \<Rightarrow> None) of
             None \<Rightarrow> Inl (''codex auth file '' @ path @ '' is not readable (run \"codex login\")'')
           | Some j \<Rightarrow>
               (case (case j of JObj kvs \<Rightarrow> (case map_of kvs ''tokens'' of Some (JObj ts) \<Rightarrow> parse_text (map_of ts ''access_token'') | _ \<Rightarrow> None)
                      | _ \<Rightarrow> None) of
                  None \<Rightarrow> Inl (''codex auth file '' @ path @ '' has no tokens.access_token'')
                | Some token \<Rightarrow> Inr token)))"

definition connection_for :: "(string \<Rightarrow> file_read) \<Rightarrow> llm_client_entry \<Rightarrow> string + connection" where
  "connection_for read_path e =
     and_then (read_credential read_path (le_auth e)) (\<lambda>credential.
       Inr \<lparr>cn_provider = le_provider e, cn_base_url = le_base_url e, cn_secret = Secret credential\<rparr>)"

text \<open>
  The configuration is built as an object. \<open>in\<close> also finds what every object inherits; the keys that
  are array indices are enumerated first, in ascending order.
\<close>

definition object_prototype :: "string list" where
  "object_prototype = [''constructor'', ''__defineGetter__'', ''__defineSetter__'', ''hasOwnProperty'', ''__lookupGetter__'',
     ''__lookupSetter__'', ''isPrototypeOf'', ''propertyIsEnumerable'', ''toString'', ''valueOf'', ''__proto__'', ''toLocaleString'']"

definition array_index :: "string \<Rightarrow> nat option" where
  "array_index k =
     (if k \<noteq> [] \<and> list_all is_digit k \<and> (k = ''0'' \<or> hd k \<noteq> CHR ''0'') \<and> nat_of_digits k < 2 ^ 32 - 1 then Some (nat_of_digits k) else None)"

definition add_member :: "string \<Rightarrow> 'v \<Rightarrow> (string \<times> 'v) list \<Rightarrow> (string \<times> 'v) list" where
  "add_member k v kvs =
     (case array_index k of
        None \<Rightarrow> kvs @ [(k, v)]
      | Some i \<Rightarrow>
          (let below = (\<lambda>kv. case array_index (fst kv) of Some j \<Rightarrow> j < i | None \<Rightarrow> False) in
           takeWhile below kvs @ (k, v) # dropWhile below kvs))"

fun add_llm_clients ::
  "(string \<Rightarrow> file_read) \<Rightarrow> string \<Rightarrow> llm_client_entry list \<Rightarrow> (string \<times> 'c llm_profile) list \<Rightarrow> string + (string \<times> 'c llm_profile) list" where
  "add_llm_clients read_path path [] config = Inr config"
| "add_llm_clients read_path path (e # es) config =
     (if le_id e \<in> set (map fst config) \<or> le_id e \<in> set object_prototype
      then Inl (''llm clients config '' @ path @ '' has duplicate client id \"'' @ le_id e @ ''\"'')
      else and_then (connection_for read_path e) (\<lambda>cn.
        add_llm_clients read_path path es (add_member (le_id e)
          \<lparr>pf_model = le_model e, pf_effort = le_effort e, pf_max_tokens = None, pf_source = ViaConnection cn\<rparr> config)))"

definition load_llm_clients ::
  "(string \<Rightarrow> file_read) \<Rightarrow> (json \<Rightarrow> string) \<Rightarrow> string \<Rightarrow> file_read \<Rightarrow> string + (string \<times> 'c llm_profile) list" where
  "load_llm_clients read_path issues path file =
     (case (case file of FileText t \<Rightarrow> json_parse t | _ \<Rightarrow> None) of
        None \<Rightarrow> Inl (''llm clients config '' @ path @ '' is not readable JSON'')
      | Some j \<Rightarrow>
          (case parse_llm_clients j of
             None \<Rightarrow> Inl (''llm clients config '' @ path @ '' is invalid: '' @ issues j)
           | Some es \<Rightarrow> add_llm_clients read_path path es []))"

section \<open>Script commands\<close>

text \<open>\<open>path.extname\<close>.\<close>

definition extname :: "string \<Rightarrow> string" where
  "extname path =
     (let base = rev (takeWhile (\<lambda>c. c \<noteq> CHR ''/'') (dropWhile (\<lambda>c. c = CHR ''/'') (rev path)));
          ext = CHR ''.'' # rev (takeWhile (\<lambda>c. c \<noteq> CHR ''.'') (rev base))
      in if CHR ''.'' \<notin> set base \<or> length base = length ext \<or> base = ''..'' then [] else ext)"

text \<open>The command and the directory it runs in; \<open>tsx\<close> is the loader's URL.\<close>

definition resolve_script_command :: "string \<Rightarrow> string list \<Rightarrow> string \<Rightarrow> string + (string \<times> string)" where
  "resolve_script_command tsx base_dir path =
     (let script = (if starts_with ''/'' path then path else resolve_against base_dir path); ext = extname script in
      if ext \<in> {''.cjs'', ''.mjs'', ''.js''} then Inr (''node '' @ quote script, show_path base_dir)
      else if ext \<in> {''.ts'', ''.mts'', ''.cts''} then Inr (''node --import '' @ quote tsx @ '' '' @ quote script, show_path base_dir)
      else Inl (''script '' @ script @ '' must be a .cjs, .mjs, .js, .ts, .mts, or .cts file''))"

section \<open>The whole configuration\<close>

record 'c coding_agent_config =
  cc_base_dir :: "string list"
  cc_llm_clients :: "(string \<times> 'c llm_profile) list"
  cc_hooks :: "hook_entry list"
  cc_advisor_approval :: bool
  cc_records_dir :: "string list"
  cc_profiles :: profile_registry
  cc_workflows :: "workflow_config list"

text \<open>What the host reads with: the file tree from the top, paths of credentials, and the libraries.\<close>

record config_host =
  ch_tree :: fs_node
  ch_read :: "string \<Rightarrow> file_read"
  ch_yaml :: "string \<Rightarrow> json option"
  ch_issues :: "json \<Rightarrow> string"
  ch_exec :: "hook_command \<Rightarrow> json \<Rightarrow> command_outcome"

definition load_coding_agent_config :: "config_host \<Rightarrow> string list \<Rightarrow> string + 'c coding_agent_config" where
  "load_coding_agent_config ch dir =
     (let node = (\<lambda>p. node_at (dir @ p) (ch_tree ch));
          hooks_path = [''hooks'', ''hooks.json'']; clients_path = [''llm-clients'', ''llm-clients.json''] in
      and_then (load_hook_config (ch_issues ch) (ch_exec ch) (file_of (node hooks_path)) (dir @ hooks_path)) (\<lambda>hooks.
      and_then (load_llm_clients (ch_read ch) (ch_issues ch) (show_path (dir @ clients_path)) (file_of (node clients_path))) (\<lambda>clients.
      and_then (load_agent_profiles (ch_yaml ch) (ch_issues ch) (dir @ [''agents'']) (node [''agents''])) (\<lambda>profiles.
      and_then (load_workflow_configs (ch_yaml ch) (ch_issues ch) (dir @ [''agentic-workflows'']) (node [''agentic-workflows''])) (\<lambda>workflows.
        Inr \<lparr>cc_base_dir = butlast dir, cc_llm_clients = clients, cc_hooks = lh_sdk_hooks hooks,
             cc_advisor_approval = lh_advisor_approval hooks, cc_records_dir = dir @ [''runs''], cc_profiles = profiles,
             cc_workflows = workflows\<rparr>)))))"

end
