(* ===== verification/HostProps.thy ===== *)
theory HostProps
  imports HostConfig
begin

text \<open>
  What the host's loaders promise: the frontmatter is the one the regular expression matches, loaded
  profiles and workflow configurations are well formed for the factories that take them.
\<close>

section \<open>The frontmatter is the match of the regular expression\<close>

definition is_break :: "string \<Rightarrow> bool" where
  "is_break b = (b = [CHR 0x0A] \<or> b = [CHR 0x0D, CHR 0x0A])"

definition ends_line :: "string \<Rightarrow> bool" where
  "ends_line r = (r = [] \<or> (\<exists>b t. is_break b \<and> r = b @ t))"

lemma strip_break_iff: "strip_break s = Some r \<longleftrightarrow> (\<exists>b. is_break b \<and> s = b @ r)"
proof -
  have breaks: "(\<exists>b. is_break b \<and> s = b @ r) \<longleftrightarrow> s = CHR 0x0A # r \<or> s = CHR 0x0D # CHR 0x0A # r"
    by (simp add: is_break_def conj_disj_distribR ex_disj_distrib)
  show ?thesis
  proof (cases s)
    case (Cons c cs)
    then show ?thesis unfolding breaks by (cases cs) (simp_all, blast)
  qed (simp add: is_break_def)
qed

lemma strip_fence_iff: "strip_fence s = Some r \<longleftrightarrow> s = ''---'' @ r"
proof
  assume "strip_fence s = Some r"
  then have "take 3 s = ''---''" "drop 3 s = r" by (simp_all add: strip_fence_def split: if_splits)
  then show "s = ''---'' @ r" using append_take_drop_id [of 3 s] by simp
qed (simp add: strip_fence_def)

lemma closing_fence_iff: "closing_fence s = Some r \<longleftrightarrow> (\<exists>b. is_break b \<and> s = b @ ''---'' @ r) \<and> ends_line r"
proof -
  have fence: "Option.bind (strip_break s) strip_fence = Some q \<longleftrightarrow> (\<exists>b. is_break b \<and> s = b @ ''---'' @ q)" for q
    by (simp only: bind_eq_Some_conv strip_break_iff strip_fence_iff) blast
  have ends: "ends_line q \<longleftrightarrow> q = [] \<or> strip_break q \<noteq> None" for q
    by (auto simp add: ends_line_def strip_break_iff)
  show ?thesis
  proof (cases "Option.bind (strip_break s) strip_fence")
    case None
    then show ?thesis using fence [of r] by (simp add: closing_fence_def)
  next
    case (Some q)
    then show ?thesis using fence [of r] ends [of q] by (auto simp: closing_fence_def)
  qed
qed

lemma until_fence_iff:
  "until_fence s = Some (y, r) \<longleftrightarrow>
   (\<exists>n \<le> length s. y = take n s \<and> closing_fence (drop n s) = Some r \<and> (\<forall>k < n. closing_fence (drop k s) = None))"
proof (induction s arbitrary: y)
  case Nil
  then show ?case by (auto simp: until_fence.simps [of "[]"] closing_fence_def)
next
  case (Cons c cs)
  show ?case
  proof (cases "closing_fence (c # cs)")
    case (Some q)
    have "n = 0" if "\<forall>k < n. closing_fence (drop k (c # cs)) = None" for n
      using Some that by (cases n) auto
    then have "(\<exists>n \<le> length (c # cs). y = take n (c # cs) \<and> closing_fence (drop n (c # cs)) = Some r \<and> (\<forall>k < n. closing_fence (drop k (c # cs)) = None))
        \<longleftrightarrow> y = [] \<and> q = r"
      using Some by force
    then show ?thesis using Some by (auto simp: until_fence.simps [of "c # cs"])
  next
    case None
    have "(\<exists>n \<le> length (c # cs). y = take n (c # cs) \<and> closing_fence (drop n (c # cs)) = Some r \<and> (\<forall>k < n. closing_fence (drop k (c # cs)) = None))
        \<longleftrightarrow> (\<exists>n \<le> length cs. y = c # take n cs \<and> closing_fence (drop n cs) = Some r \<and> (\<forall>k < n. closing_fence (drop k cs) = None))"
      (is "?l \<longleftrightarrow> ?r")
    proof
      assume ?l
      then obtain n where n: "n \<le> length (c # cs)" "y = take n (c # cs)" "closing_fence (drop n (c # cs)) = Some r"
        "\<And>k. k < n \<Longrightarrow> closing_fence (drop k (c # cs)) = None" by blast
      with None obtain m where m: "n = Suc m" by (cases n) auto
      then have "closing_fence (drop k cs) = None" if "k < m" for k using n(4) [of "Suc k"] that by simp
      with n m show ?r by (auto intro!: exI [of _ m])
    next
      assume ?r
      then obtain n where n: "n \<le> length cs" "y = c # take n cs" "closing_fence (drop n cs) = Some r"
        "\<forall>k < n. closing_fence (drop k cs) = None" by blast
      then have "closing_fence (drop k (c # cs)) = None" if "k < Suc n" for k using None that by (cases k) auto
      with n show ?l by (intro exI [of _ "Suc n"]) auto
    qed
    also have "\<dots> \<longleftrightarrow> (\<exists>y'. y = c # y' \<and> until_fence cs = Some (y', r))" using Cons.IH by auto
    also have "\<dots> \<longleftrightarrow> until_fence (c # cs) = Some (y, r)" using None by (auto simp: until_fence.simps [of "c # cs"])
    finally show ?thesis by blast
  qed
qed

text \<open>A split of a text at a closing fence.\<close>

definition fenced :: "string \<Rightarrow> string \<Rightarrow> string \<Rightarrow> bool" where
  "fenced s y r = (\<exists>b. is_break b \<and> s = y @ b @ ''---'' @ r \<and> ends_line r)"

lemma fenced_drop: "fenced s y r \<longleftrightarrow> (\<exists>n \<le> length s. y = take n s \<and> closing_fence (drop n s) = Some r)"
proof
  assume "fenced s y r"
  then obtain b where "is_break b" "s = y @ b @ ''---'' @ r" "ends_line r" by (auto simp: fenced_def)
  then show "\<exists>n \<le> length s. y = take n s \<and> closing_fence (drop n s) = Some r"
    by (intro exI [of _ "length y"]) (auto simp: closing_fence_iff)
next
  assume "\<exists>n \<le> length s. y = take n s \<and> closing_fence (drop n s) = Some r"
  then obtain n where "y = take n s" "closing_fence (drop n s) = Some r" by blast
  then show "fenced s y r" unfolding closing_fence_iff fenced_def by (metis append_take_drop_id)
qed

lemma until_fence_shortest:
  "until_fence s = Some (y, r) \<longleftrightarrow> fenced s y r \<and> (\<forall>y' r'. fenced s y' r' \<longrightarrow> length y \<le> length y')"
proof
  assume "until_fence s = Some (y, r)"
  then obtain n where n: "n \<le> length s" "y = take n s" "closing_fence (drop n s) = Some r"
    "\<forall>k < n. closing_fence (drop k s) = None" unfolding until_fence_iff by blast
  moreover have "length y \<le> length y'" if "fenced s y' r'" for y' r'
  proof -
    from that obtain m where "m \<le> length s" "y' = take m s" "closing_fence (drop m s) = Some r'" unfolding fenced_drop by blast
    with n show ?thesis by (cases "m < n") auto
  qed
  ultimately show "fenced s y r \<and> (\<forall>y' r'. fenced s y' r' \<longrightarrow> length y \<le> length y')" unfolding fenced_drop by blast
next
  assume *: "fenced s y r \<and> (\<forall>y' r'. fenced s y' r' \<longrightarrow> length y \<le> length y')"
  then obtain n where n: "n \<le> length s" "y = take n s" "closing_fence (drop n s) = Some r" unfolding fenced_drop by blast
  have "closing_fence (drop k s) = None" if "k < n" for k
  proof (rule ccontr)
    assume "closing_fence (drop k s) \<noteq> None"
    then obtain q where "closing_fence (drop k s) = Some q" by blast
    then have "fenced s (take k s) q" unfolding fenced_drop using that n by (intro exI [of _ k]) simp
    with * have "length y \<le> length (take k s)" by blast
    with that n show False by simp
  qed
  with n show "until_fence s = Some (y, r)" unfolding until_fence_iff by blast
qed

text \<open>
  C37: \<open>frontmatter\<close> finds what the regular expression \<open>FRONTMATTER_SHAPE\<close> matches. The file opens with
  three dashes and a line break; its YAML is the shortest text that a line break and three dashes
  follow which end their line; and the rest is everything after them. Without such an opening or such
  a closing fence nothing is found.
\<close>

theorem frontmatter_exact:
  "frontmatter raw = Some (y, rest) \<longleftrightarrow>
   (\<exists>a s. is_break a \<and> raw = ''---'' @ a @ s \<and> fenced s y rest \<and>
     (\<forall>y' rest'. fenced s y' rest' \<longrightarrow> length y \<le> length y'))"
proof -
  have "frontmatter raw = Some (y, rest) \<longleftrightarrow> (\<exists>s. Option.bind (strip_fence raw) strip_break = Some s \<and> until_fence s = Some (y, rest))"
    by (auto simp: frontmatter_def bind_eq_Some_conv)
  moreover have "Option.bind (strip_fence raw) strip_break = Some s \<longleftrightarrow> (\<exists>a. is_break a \<and> raw = ''---'' @ a @ s)" for s
    by (auto simp: bind_eq_Some_conv strip_break_iff strip_fence_iff)
  ultimately show ?thesis unfolding until_fence_shortest by blast
qed

definition sample_profile_text :: string where
  "sample_profile_text = ''---'' @ newline @ ''name: x'' @ newline @ ''---'' @ newline @ ''Body'' @ newline @ ''---''"

theorem frontmatter_exact_witness:
  "\<exists>a s. is_break a \<and> sample_profile_text = ''---'' @ a @ s \<and> fenced s ''name: x'' (newline @ ''Body'' @ newline @ ''---'') \<and>
     (\<forall>y' rest'. fenced s y' rest' \<longrightarrow> length ''name: x'' \<le> length y')"
proof -
  have "frontmatter sample_profile_text = Some (''name: x'', newline @ ''Body'' @ newline @ ''---'')" by code_simp
  then show ?thesis by (rule iffD1 [OF frontmatter_exact])
qed

section \<open>Loaded profiles\<close>

lemma check_all_ok: "is_ok (check_all f xs) \<longleftrightarrow> (\<forall>x \<in> set xs. is_ok (f x))"
  by (induction xs) (auto simp: and_then_def is_ok_def split: sum.splits)

lemma check_all_Inr: "check_all f xs = Inr u \<longleftrightarrow> (\<forall>x \<in> set xs. is_ok (f x))"
  unfolding check_all_ok [symmetric] by (cases "check_all f xs") (auto simp: is_ok_def)

lemma and_then_ok: "is_ok (and_then r f) \<longleftrightarrow> (\<exists>x. r = Inr x \<and> is_ok (f x))"
  by (cases r) simp_all

lemma ok_iff: "(\<exists>x. r = Inr x) \<longleftrightarrow> is_ok r"
  by (cases r) simp_all

lemma unit_ok: "r = Inr () \<longleftrightarrow> is_ok r"
  by (cases r) simp_all

lemma check_unique_ok: "is_ok (check_unique kind seen ns) \<longleftrightarrow> distinct ns \<and> set ns \<inter> set seen = {}"
  by (induction ns arbitrary: seen) auto

lemma check_selection_ok:
  "is_ok (check_selection p seen ns) \<longleftrightarrow> distinct ns \<and> set ns \<inter> set seen = {} \<and> set ns \<inter> set injected_tool_names = {}"
  by (induction ns arbitrary: seen) auto

lemma all_some_members: "all_some (map f xs) = Some ys \<Longrightarrow> \<forall>y \<in> set ys. \<exists>x \<in> set xs. f x = Some y"
  by (induction xs arbitrary: ys) (fastforce split: option.splits)+

lemma parse_text_nonempty: "parse_text j = Some s \<Longrightarrow> s \<noteq> []"
  by (auto simp: parse_text_def split: option.splits json.splits if_splits)

lemma parse_texts_nonempty: "parse_texts j = Some ts \<Longrightarrow> [] \<notin> set ts"
  by (auto simp: parse_texts_def split: option.splits json.splits dest!: all_some_members dest: parse_text_nonempty)

lemma parse_default_texts_nonempty: "parse_default_texts j = Some ts \<Longrightarrow> [] \<notin> set ts"
  by (auto simp: parse_default_texts_def dest: parse_texts_nonempty split: option.splits)

definition profile_ok :: "agent_profile \<Rightarrow> bool" where
  "profile_ok p = (ap_name p \<noteq> [] \<and> ap_llm p \<noteq> [] \<and> [] \<notin> set (ap_allowed_tools p @ ap_workflows p @ ap_subagents p) \<and>
     (\<forall>n. ap_max_turns p = Some n \<longrightarrow> 0 < n))"

lemma optional_positive: "optional_nat parse_positive j = Some (Some n) \<Longrightarrow> 0 < n"
  by (auto simp: optional_nat_def parse_positive_def split: option.splits json.splits if_splits)

lemma parse_profile_ok: "parse_profile j = Some p \<Longrightarrow> profile_ok p"
  by (auto simp: parse_profile_def profile_ok_def split: json.splits option.splits if_splits
      dest: parse_text_nonempty parse_texts_nonempty parse_default_texts_nonempty optional_positive)

lemma load_agent_profile_ok:
  assumes "load_agent_profile yaml issues path source = Inr p"
  shows "profile_ok p"
proof -
  from assms obtain data rest q where "parse_profile data = Some q" "p = q\<lparr>ap_system_prompt := trim rest, ap_source_path := path\<rparr>"
    by (fastforce simp: load_agent_profile_def and_then_Inr_iff split: option.splits)
  then show ?thesis using parse_profile_ok [of data q] by (simp add: profile_ok_def)
qed

definition registry_ok :: "profile_registry \<Rightarrow> bool" where
  "registry_ok ps = (distinct (map fst ps) \<and> list_all (\<lambda>(k, p). k = ap_name p \<and> profile_ok p) ps)"

lemma load_profiles_from_ok: "load_profiles_from yaml issues ps fs = Inr qs \<Longrightarrow> registry_ok ps \<Longrightarrow> registry_ok qs"
proof (induction fs arbitrary: ps)
  case (Cons f fs)
  obtain path source where f: "f = (path, source)" by (cases f)
  with Cons.prems obtain p where p: "load_agent_profile yaml issues path source = Inr p" "ap_name p \<notin> set (map fst ps)"
    "load_profiles_from yaml issues (ps @ [(ap_name p, p)]) fs = Inr qs"
    by (auto simp: and_then_Inr_iff split: if_splits)
  moreover have "registry_ok (ps @ [(ap_name p, p)])"
    using Cons.prems(2) p(2) load_agent_profile_ok [OF p(1)] by (auto simp: registry_ok_def)
  ultimately show ?case using Cons.IH by blast
qed simp

text \<open>Without dynamic tools, what the factory resolves for a profile whose subagents are known.\<close>

lemma resolve_static_tools:
  assumes "\<forall>t \<in> set (ap_subagents p). is_ok (require_profile ps t)"
  shows "resolve_dynamic_tools p ps service None =
    and_then (assert_unique ''agentic workflow'' (ap_workflows p)) (\<lambda>_.
    and_then (assert_unique ''subagent'' (ap_subagents p)) (\<lambda>_.
      Inr \<lparr>rv_workflows = ap_workflows p, rv_subagents = ap_subagents p\<rparr>))"
proof -
  have "check_all (\<lambda>n. and_then (require_profile ps n) (\<lambda>_. Inr ())) (ap_subagents p) = Inr ()"
    unfolding check_all_Inr using assms by (auto simp: and_then_ok elim: is_okE)
  then show ?thesis by (simp add: resolve_dynamic_tools_def Let_def)
qed

lemma loaded_registry:
  assumes "load_agent_profiles yaml issues dir n = Inr ps"
  shows "registry_ok ps \<and> (\<forall>e \<in> set ps. is_ok (check_subagents ps (snd e)))"
proof -
  obtain es where es: "read_dir n = Inr es" using assms by (cases "read_dir n") (simp_all add: load_agent_profiles_def)
  define fs where "fs = sort_key fst (markdown_in (show_path dir) es)"
  from assms have both: "and_then (load_profiles_from yaml issues [] fs) (\<lambda>qs. and_then (check_all (check_subagents qs \<circ> snd) qs) (\<lambda>_. Inr qs)) = Inr ps"
    by (simp only: load_agent_profiles_def es and_then_simps fs_def)
  then have loaded: "load_profiles_from yaml issues [] fs = Inr ps" and checked: "check_all (check_subagents ps \<circ> snd) ps = Inr ()"
    unfolding and_then_Inr_iff by auto
  have "registry_ok ps" by (rule load_profiles_from_ok [OF loaded]) (simp add: registry_ok_def)
  with checked show ?thesis by (simp add: check_all_Inr)
qed

lemma registry_subagents_known:
  assumes "is_ok (check_subagents ps p)"
  shows "\<forall>t \<in> set (ap_subagents p). is_ok (require_profile ps t)"
  using assms by (auto simp: check_subagents_def check_all_ok require_profile_def split: if_splits option.splits)

text \<open>Which stored profiles the factory accepts as they are.\<close>

definition creatable_profile :: "agent_profile \<Rightarrow> bool" where
  "creatable_profile p = (distinct (ap_workflows p) \<and> distinct (ap_subagents p) \<and> distinct (ap_allowed_tools p) \<and>
     set (ap_allowed_tools p) \<inter> set injected_tool_names = {})"

lemma factory_create_ok:
  assumes "is_ok (check_subagents ps p)" and "map_of ps name = Some p"
  shows "is_ok (factory_create ps service name outcome) \<longleftrightarrow> creatable_profile p"
proof -
  have "is_ok (factory_create ps service name outcome) \<longleftrightarrow> distinct (ap_workflows p) \<and> distinct (ap_subagents p) \<and>
      is_ok (validate_tool_selection p)"
    using assms(2) check_unique_ok [of _ "[]"]
    by (simp add: factory_create_def create_bound_agent_def require_profile_def [of ps name]
        resolve_static_tools [OF registry_subagents_known [OF assms(1)]] and_then_ok ok_iff unit_ok assert_unique_def)
  then show ?thesis by (simp add: creatable_profile_def validate_tool_selection_def check_selection_ok)
qed

text \<open>
  C38: what \<open>loadAgentProfiles\<close> returns fits the agent factory. Names are unique and every profile is
  stored under its own, with no empty names and a positive turn budget; every subagent is a profile of
  the registry. So the factory creates an agent of a loaded profile unless the profile names a tool,
  a workflow or a subagent twice, or a tool that only the factory may add.
\<close>

theorem loaded_profiles_fit_factory:
  assumes "load_agent_profiles yaml issues dir n = Inr ps" and "(name, p) \<in> set ps"
  shows "distinct (map fst ps) \<and> name = ap_name p \<and> profile_ok p \<and> (\<forall>t \<in> set (ap_subagents p). is_ok (require_profile ps t)) \<and>
    (is_ok (factory_create ps service name outcome) \<longleftrightarrow>
       distinct (ap_workflows p) \<and> distinct (ap_subagents p) \<and> distinct (ap_allowed_tools p) \<and>
       set (ap_allowed_tools p) \<inter> set injected_tool_names = {})"
proof -
  have ok: "registry_ok ps" and subs: "is_ok (check_subagents ps p)"
    using loaded_registry [OF assms(1)] assms(2) by auto
  with assms(2) have p: "map_of ps name = Some p" "name = ap_name p" "profile_ok p"
    by (auto simp: registry_ok_def list_all_iff)
  from ok p registry_subagents_known [OF subs] factory_create_ok [OF subs p(1), of service outcome]
  show ?thesis by (auto simp: registry_ok_def creatable_profile_def)
qed

definition sample_registry :: "string + profile_registry" where
  "sample_registry = load_agent_profiles
     (\<lambda>y. if y = ''a'' then Some (JObj [(''name'', JStr ''worker''), (''llm_client_id'', JStr ''fast''), (''allowed_tools'', JArr [JStr ''read''])]) else None)
     (\<lambda>_. []) [''c'', ''agents''] (Some (DirNode [(''a.md'', FileNode (Some (''---'' @ newline @ ''a'' @ newline @ ''---''))), (''.hidden.md'', OtherNode)]))"

theorem loaded_profiles_fit_factory_witness:
  "\<exists>ps p. sample_registry = Inr ps \<and> map_of ps ''worker'' = Some p \<and> profile_ok p \<and>
     is_ok (factory_create ps (None :: unit tool_service option) ''worker'' (None :: json outcome_binding option))"
proof -
  obtain ps where ps1: "sample_registry = Inr ps"
    by (rule is_okE [of sample_registry]) (code_simp)
  have "map_sum (\<lambda>_. ()) (map (\<lambda>(k, p). (k, ap_workflows p, ap_subagents p, ap_allowed_tools p))) sample_registry =
      (Inr [(''worker'', [], [], [''read''])] :: unit + _)"
    by code_simp
  then have ps: "sample_registry = Inr ps" "map (\<lambda>(k, p). (k, ap_workflows p, ap_subagents p, ap_allowed_tools p)) ps = [(''worker'', [], [], [''read''])]"
    by (simp_all add: ps1)
  from ps(2) obtain p where p: "ps = [(''worker'', p)]" "ap_workflows p = []" "ap_subagents p = []" "ap_allowed_tools p = [''read'']"
    by (cases ps) (auto split: prod.splits)
  then have member: "(''worker'', p) \<in> set ps" by simp
  from loaded_profiles_fit_factory [OF ps(1) [unfolded sample_registry_def] member, of "None :: unit tool_service option" "None :: json outcome_binding option"]
  have "profile_ok p" and "is_ok (factory_create ps (None :: unit tool_service option) ''worker'' (None :: json outcome_binding option))"
    using p(2-4) by (auto simp: injected_tool_names_def)
  with ps(1) p(1) show ?thesis by auto
qed

section \<open>Loaded workflow configurations\<close>

definition config_ok :: "workflow_config \<Rightarrow> bool" where
  "config_ok c = (is_tool_name (cw_name c) \<and> cw_type c \<noteq> [] \<and> cw_tools c \<noteq> [] \<and> distinct (cw_tools c) \<and>
     list_all is_tool_name (cw_tools c) \<and> RESERVED_TOOL \<notin> set (cw_tools c) \<and>
     (\<forall>m. cw_module c = Some m \<longrightarrow> starts_with ''/'' m))"

lemma check_workflow_tools_ok:
  "is_ok (check_workflow_tools name ts) \<longleftrightarrow> list_all is_tool_name ts \<and> RESERVED_TOOL \<notin> set ts \<and> distinct ts"
  by (auto simp: check_workflow_tools_def and_then_ok ok_iff unit_ok check_all_ok list_all_iff split: if_splits)

lemma resolve_against_absolute: "starts_with ''/'' (resolve_against dir p)"
proof -
  have "starts_with ''/'' (show_path q)" if "q \<noteq> []" for q
    using that by (cases q) (simp_all add: show_path_def starts_with_def)
  then show ?thesis by (simp add: resolve_against_def Let_def starts_with_def [of _ "''/''"])
qed

lemma parse_config_fields:
  "parse_workflow_config data = Some c \<Longrightarrow> cw_type c \<noteq> [] \<and> cw_tools c \<noteq> []"
  by (auto simp: parse_workflow_config_def bind_eq_Some_conv split: json.splits option.splits if_splits dest: parse_text_nonempty)

lemma load_workflow_config_ok:
  assumes "load_workflow_config yaml issues path name source = Inr c"
  shows "config_ok c \<and> cw_name c = name"
proof -
  from assms obtain data rest where read: "read_frontmatter yaml ''agentic workflow config'' (show_path path) source = Inr (data, rest)"
    by (auto simp: load_workflow_config_def and_then_Inr_iff)
  with assms obtain q where q: "parse_workflow_config data = Some q"
    by (auto simp: load_workflow_config_def split: option.splits)
  have checks: "cw_name q = name" "is_tool_name (cw_name q)" "is_ok (check_workflow_tools (cw_name q) (cw_tools q))"
    and c: "c = q\<lparr>cw_module := map_option (resolve_against (butlast path)) (cw_module q), cw_docs := trim rest\<rparr>"
    using assms by (auto simp: load_workflow_config_def read q and_then_Inr_iff split: if_splits)
  from checks(3) have "list_all is_tool_name (cw_tools q) \<and> RESERVED_TOOL \<notin> set (cw_tools q) \<and> distinct (cw_tools q)"
    by (simp add: check_workflow_tools_ok)
  then show ?thesis using checks(1,2) parse_config_fields [OF q]
    by (auto simp: c config_ok_def resolve_against_absolute)
qed

lemma load_workflows_from_ok:
  "load_workflows_from yaml issues at_dir seen ds = Inr cs \<Longrightarrow>
   map cw_name cs = map fst ds \<and> list_all config_ok cs \<and> distinct (map cw_name cs) \<and> set (map cw_name cs) \<inter> set seen = {}"
proof (induction ds arbitrary: seen cs)
  case (Cons d ds)
  obtain dir fs where d: "d = (dir, fs)" by (cases d)
  from Cons.prems obtain c cs' where c: "load_workflow_config yaml issues (at_dir @ [dir, ''workflow.md'']) dir (file_of (map_of fs ''workflow.md'')) = Inr c"
    and seen: "cw_name c \<notin> set seen" and rest: "load_workflows_from yaml issues at_dir (cw_name c # seen) ds = Inr cs'" and cs: "cs = c # cs'"
    by (auto simp: d Let_def and_then_Inr_iff split: if_splits)
  note ih = Cons.IH [OF rest]
  then have names: "cw_name ` set cs' = fst ` set ds" by (metis list.set_map)
  from load_workflow_config_ok [OF c] have "config_ok c" "cw_name c = dir" by simp_all
  moreover from ih have "distinct (map fst ds)" by metis
  ultimately show ?case using ih seen names by (simp add: cs d)
qed simp

lemma load_modules_types:
  fixes import_script :: "string \<Rightarrow> string + (string \<times> ('m workflow_module, 's) script_export) list"
  shows "load_workflow_modules import_script cs = Inr (ms, ss) \<Longrightarrow> map wm_type ms = map cw_type cs"
proof (induction cs arbitrary: ms ss)
  case (Cons c cs)
  from Cons.prems obtain exports :: "(string \<times> ('m workflow_module, 's) script_export) list" and m ms' ss' where m: "module_from_exports exports c = Inr m" and rest: "load_workflow_modules import_script cs = Inr (ms', ss')" and ms: "ms = m # ms'"
    by (auto simp: and_then_Inr_iff split: option.splits)
  from m have "wm_type m = cw_type c" by (auto simp: module_from_exports_def Let_def split: list.splits if_splits)
  with Cons.IH [OF rest] show ?case by (simp add: ms)
qed simp

lemma new_map_distinct: "distinct (map fst kvs) \<Longrightarrow> map_of (new_map kvs) = map_of kvs"
proof (induction kvs rule: rev_induct)
  case (snoc kv kvs)
  obtain k v where kv: "kv = (k, v)" by (cases kv)
  with snoc have "map_of (new_map kvs) = map_of kvs" "map_of kvs k = None" by (simp_all add: map_of_eq_None_iff)
  then show ?case by (simp add: kv new_map_snoc map_add_def fun_eq_iff split: option.split)
qed (simp add: new_map_def)

lemma new_map_keys: "dom (map_of (new_map kvs)) = fst ` set kvs"
proof (induction kvs rule: rev_induct)
  case (snoc kv kvs)
  obtain k v where kv: "kv = (k, v)" by (cases kv)
  have "dom (map_of (new_map (kvs @ [kv]))) = dom ((map_of (new_map kvs))(k \<mapsto> v))" unfolding kv new_map_snoc ..
  also have "\<dots> = fst ` set (kvs @ [kv])" unfolding dom_fun_upd by (simp add: snoc kv)
  finally show ?case .
qed (simp add: new_map_def)

lemma factory_finds:
  fixes import_script :: "string \<Rightarrow> string + (string \<times> ('m workflow_module, 's) script_export) list"
  assumes "distinct (map cw_name cs)" and "load_workflow_modules import_script cs = Inr (ms, ss)" and "c \<in> set cs"
  shows "\<exists>m. get_workflow (workflow_factory_of cs ms) (cw_name c) = Inr (c, m) \<and> wm_type m = cw_type c"
proof -
  have "map_of (new_map (map (\<lambda>c. (cw_name c, c)) cs)) (cw_name c) = Some c"
    using assms(1,3) by (subst new_map_distinct) (auto simp: comp_def)
  moreover have "cw_type c \<in> wm_type ` set ms"
    using load_modules_types [OF assms(2)] assms(3) by (metis (no_types) image_eqI list.set_map)
  then obtain m where "map_of (new_map (map (\<lambda>m. (wm_type m, m)) ms)) (cw_type c) = Some m"
    using new_map_keys [of "map (\<lambda>m. (wm_type m, m)) ms"] by (auto simp: dom_def image_image set_eq_iff)
  ultimately show ?thesis
    using new_map_self by (force simp: get_workflow_def workflow_factory_of_def)
qed

text \<open>
  C39: what \<open>loadAgenticWorkflowConfigs\<close> returns fits the workflow factory. There is one configuration
  per directory that is not hidden, named like it and in their order; names and tool names are snake
  case, tool names are distinct and none is reserved, module paths are absolute. When the modules
  load as well, the factory finds each configuration under its name, with a module of its type.
\<close>

theorem loaded_workflows_fit_factory:
  fixes import_script :: "string \<Rightarrow> string + (string \<times> ('m workflow_module, 's) script_export) list"
  assumes "load_workflow_configs yaml issues dir (Some n) = Inr cs"
  shows "(\<exists>es. n = DirNode es \<and> map cw_name cs = map fst (workflow_dirs es)) \<and> distinct (map cw_name cs) \<and> list_all config_ok cs \<and>
    (\<forall>ms ss. load_workflow_modules import_script cs = Inr (ms, ss) \<longrightarrow>
       (\<forall>c \<in> set cs. \<exists>m. get_workflow (workflow_factory_of cs ms) (cw_name c) = Inr (c, m) \<and> wm_type m = cw_type c))"
proof -
  obtain es where es: "n = DirNode es" "load_workflows_from yaml issues dir [] (workflow_dirs es) = Inr cs"
    using assms by (cases n) (auto simp: load_workflow_configs_def read_dir_def)
  note ok = load_workflows_from_ok [OF es(2)]
  from es(1) ok factory_finds [of cs import_script] show ?thesis by blast
qed

definition sample_workflows :: "string + workflow_config list" where
  "sample_workflows = load_workflow_configs
     (\<lambda>y. if y = ''w'' then Some (JObj [(''name'', JStr ''ralph''), (''type'', JStr ''loop''), (''description'', JStr ''d''),
        (''module'', JStr ''./w.mjs''), (''tools'', JArr [JStr ''delegate_ralph''])]) else None)
     (\<lambda>_. []) [''c'', ''agentic-workflows'']
     (Some (DirNode [(''ralph'', DirNode [(''workflow.md'', FileNode (Some (''---'' @ newline @ ''w'' @ newline @ ''---'')))]), (''.git'', DirNode [])]))"

definition sample_import :: "string \<Rightarrow> string + (string \<times> (unit workflow_module, unit) script_export) list" where
  "sample_import path = (if path = ''/c/agentic-workflows/ralph/w.mjs''
     then Inr [(''module'', ModuleExport \<lparr>wm_type = ''loop'', wm_parse = Inr, wm_create = (\<lambda>_ _ _. Inr ())\<rparr>)] else Inl ''no such module'')"

theorem loaded_workflows_fit_factory_witness:
  "\<exists>cs ms ss c m. sample_workflows = Inr cs \<and> load_workflow_modules sample_import cs = Inr (ms, ss) \<and> cw_name c = ''ralph'' \<and>
     get_workflow (workflow_factory_of cs ms) ''ralph'' = Inr (c, m) \<and> wm_type m = cw_type c"
proof -
  obtain cs where cs: "sample_workflows = Inr cs" by (rule is_okE [of sample_workflows]) (code_simp)
  have "is_ok (and_then sample_workflows (load_workflow_modules sample_import))" by code_simp
  then obtain ms ss where loaded: "load_workflow_modules sample_import cs = Inr (ms, ss)" by (auto simp: cs elim!: is_okE)
  have "map_sum (\<lambda>_. ()) (map cw_name) sample_workflows = (Inr [''ralph''] :: unit + _)" by code_simp
  then obtain c where c: "cs = [c]" "cw_name c = ''ralph''" by (auto simp: cs)
  from loaded_workflows_fit_factory [OF cs [unfolded sample_workflows_def], of sample_import] loaded c
  obtain m where "get_workflow (workflow_factory_of cs ms) (cw_name c) = Inr (c, m)" "wm_type m = cw_type c" by auto
  with cs loaded c show ?thesis by auto
qed

section \<open>The configuration's root\<close>

text \<open>The root that is found belongs to the nearest ancestor that has one.\<close>

lemma config_root_nearest:
  "find_config_root exists_at dir = Some r \<longleftrightarrow>
   (\<exists>k \<le> length dir. r = take k dir @ [EPHAI_DIR_NAME] \<and> exists_at r \<and>
      (\<forall>j. k < j \<and> j \<le> length dir \<longrightarrow> \<not> exists_at (take j dir @ [EPHAI_DIR_NAME])))"
proof (induction exists_at dir rule: find_config_root.induct)
  case (1 exists_at dir)
  show ?case
  proof (cases "exists_at (dir @ [EPHAI_DIR_NAME])")
    case True
    then have "take k dir = dir" if "k \<le> length dir" "\<forall>j. k < j \<and> j \<le> length dir \<longrightarrow> \<not> exists_at (take j dir @ [EPHAI_DIR_NAME])" for k
      using that(1) that(2) [rule_format, of "length dir"] by (cases "k < length dir") auto
    with True show ?thesis by (subst find_config_root.simps) (auto simp: take_all)
  next
    case none: False
    show ?thesis
    proof (cases "dir = []")
      case True
      with none show ?thesis by (subst find_config_root.simps) simp
    next
      case False
      then obtain up s where dir: "dir = up @ [s]" by (cases dir rule: rev_cases) auto
      have shorter: "(\<forall>j. k < j \<and> j \<le> length dir \<longrightarrow> \<not> exists_at (take j dir @ [EPHAI_DIR_NAME])) \<longleftrightarrow>
          (\<forall>j. k < j \<and> j \<le> length up \<longrightarrow> \<not> exists_at (take j up @ [EPHAI_DIR_NAME]))" if "k \<le> length up" for k
        using none that by (auto simp: dir le_Suc_eq)
      have whole: "k \<le> length up" if "k \<le> length dir" "exists_at (take k dir @ [EPHAI_DIR_NAME])" for k
        using that none by (auto simp: dir le_Suc_eq)
      have "find_config_root exists_at dir = find_config_root exists_at up"
        using none False by (subst find_config_root.simps) (simp add: dir)
      also have "find_config_root exists_at up = Some r \<longleftrightarrow> (\<exists>k \<le> length up. r = take k up @ [EPHAI_DIR_NAME] \<and> exists_at r \<and>
          (\<forall>j. k < j \<and> j \<le> length up \<longrightarrow> \<not> exists_at (take j up @ [EPHAI_DIR_NAME])))"
        using 1 [OF none False] by (simp add: dir)
      also have "\<dots> \<longleftrightarrow> (\<exists>k \<le> length dir. r = take k dir @ [EPHAI_DIR_NAME] \<and> exists_at r \<and>
          (\<forall>j. k < j \<and> j \<le> length dir \<longrightarrow> \<not> exists_at (take j dir @ [EPHAI_DIR_NAME])))"
        (is "(\<exists>k \<le> length up. ?up k) \<longleftrightarrow> (\<exists>k \<le> length dir. ?dir k)")
      proof
        assume "\<exists>k \<le> length up. ?up k"
        then obtain k where k: "k \<le> length up" "?up k" by blast
        have "take k dir = take k up" using k(1) by (simp add: dir)
        with k(2) have "?dir k" using shorter [OF k(1)] by metis
        moreover have "k \<le> length dir" using k(1) by (simp add: dir)
        ultimately show "\<exists>k \<le> length dir. ?dir k" by blast
      next
        assume "\<exists>k \<le> length dir. ?dir k"
        then obtain k where k: "k \<le> length dir" "?dir k" by blast
        with whole have le: "k \<le> length up" by blast
        then have "take k dir = take k up" by (simp add: dir)
        with k(2) have "?up k" using shorter [OF le] by metis
        with le show "\<exists>k \<le> length up. ?up k" by blast
      qed
      finally show ?thesis .
    qed
  qed
qed

section \<open>Inherited names\<close>

text \<open>
  A single client is refused as a duplicate when its id is a property that every object inherits:
  the loader asks with \<open>in\<close> whether the id is taken.
\<close>

lemma inherited_ids_are_duplicates:
  assumes "le_id e \<in> set object_prototype"
  shows "add_llm_clients read_path path [e] [] = Inl (''llm clients config '' @ path @ '' has duplicate client id \"'' @ le_id e @ ''\"'')"
  using assms by simp

lemma add_member_keys: "fst ` set (add_member k v kvs) = insert k (fst ` set kvs)"
proof -
  have "set (takeWhile p kvs) \<union> set (dropWhile p kvs) = set kvs" for p
    by (metis set_append takeWhile_dropWhile_id)
  then show ?thesis by (simp add: add_member_def Let_def image_Un [symmetric] split: option.split)
qed

text \<open>Otherwise the clients load exactly when their ids differ and their credentials can be read.\<close>

lemma add_llm_clients_ok:
  "is_ok (add_llm_clients read_path path es config) \<longleftrightarrow>
   distinct (map le_id es) \<and> set (map le_id es) \<inter> (fst ` set config \<union> set object_prototype) = {} \<and>
   (\<forall>e \<in> set es. is_ok (connection_for read_path e))"
proof (induction es arbitrary: config)
  case (Cons e es)
  show ?case
  proof (cases "connection_for read_path e")
    case (Inr cn)
    then show ?thesis by (auto simp: Cons.IH add_member_keys)
  qed simp
qed simp

end
