(* ===== verification/Bootstrap.thy ===== *)
theory Bootstrap
  imports HostProps
begin

text \<open>
  The composition root (\<open>coding-agent/src/bootstrap.ts\<close>, \<open>cli/main.ts\<close>) and the tool bundle it
  injects (\<open>tools/sandbox/index.ts\<close>): the configuration, the agent runtime, the workflow modules, the
  agent factory and the operator agent, and what can still keep the operator from starting.
\<close>

section \<open>The bundle of sandbox tools\<close>

text \<open>The input as the tool's schema returns it.\<close>

fun sandbox_call_json :: "sandbox_tool_call \<Rightarrow> json_object" where
  "sandbox_call_json (ReadCall i) = [(''path'', JStr (ri_path i))] @ optional_member ''offset'' (map_option jnat (ri_offset i)) @
     optional_member ''limit'' (map_option jnat (ri_limit i))"
| "sandbox_call_json (MultiReadCall ps) = [(''paths'', JArr (map JStr ps))]"
| "sandbox_call_json (WriteCall i) = [(''path'', JStr (fst i)), (''content'', JStr (snd i))]"
| "sandbox_call_json (EditCall i) = [(''path'', JStr (ei_path i)), (''old_string'', JStr (ei_old i)), (''new_string'', JStr (ei_new i)),
     (''replace_all'', JBool (ei_all i))]"
| "sandbox_call_json (ExecCall i) = [(''command'', JStr (xi_command i))] @ optional_member ''cwd'' (map_option JStr (xi_cwd i)) @
     optional_member ''timeout_ms'' (map_option jnat (xi_timeout_ms i))"
| "sandbox_call_json (StdinCall i) = [(''command_id'', JStr (fst i)), (''input'', JStr (snd i))]"
| "sandbox_call_json (TranscriptCall i) = [(''command_id'', JStr (ti_command i))] @ optional_member ''offset'' (map_option jnat (ti_offset i)) @
     optional_member ''limit'' (map_option jnat (ti_limit i))"

definition sandbox_tool :: "zod_host \<Rightarrow> string \<Rightarrow> string \<Rightarrow> tool_def" where
  "sandbox_tool zh name description =
     engine_tool zh name description (\<lambda>i. map_option sandbox_call_json (parse_sandbox_call name i))"

definition create_sandbox_tools :: "zod_host \<Rightarrow> tool_def list" where
  "create_sandbox_tools zh =
     [sandbox_tool zh ''read'' ''Read a file from the sandbox workspace.'',
      sandbox_tool zh ''multi_read'' ''Read several files from the sandbox workspace.'',
      sandbox_tool zh ''write'' ''Write a file in the sandbox workspace.'',
      sandbox_tool zh ''edit'' ''Replace a string in a sandbox workspace file.'',
      sandbox_tool zh ''exec_command'' ''Run a shell command in the sandbox workspace.'',
      sandbox_tool zh ''command_stdin'' ''Write to the stdin of a running sandbox command.'',
      sandbox_tool zh ''read_command_transcript'' ''Read the transcript of a sandbox command by id.'']"

section \<open>The composition\<close>

definition SUBMIT_MAIN_DESCRIPTION :: string where
  "SUBMIT_MAIN_DESCRIPTION = ''Finish the operator run by submitting its final outcome summary.''"

definition MAIN_ADVISOR_PROMPT :: string where
  "MAIN_ADVISOR_PROMPT = ''Review whether the operator'' @ [CHR 0x27] @ ''s terminal submission faithfully completes the user'' @ [CHR 0x27] @ ''s goal.''"

definition parse_main_outcome :: "zod_host \<Rightarrow> json_object \<Rightarrow> zod_issue list + json" where
  "parse_main_outcome zh kvs =
     (case parse_text (map_of kvs ''summary'') of
        None \<Rightarrow> Inl (zh_issues zh ''submit_main_outcome'' kvs)
      | Some s \<Rightarrow> Inr (JObj [(''summary'', JStr s)]))"

definition main_outcome_fn :: "zod_host \<Rightarrow> outcome_error + json outcome_binding" where
  "main_outcome_fn zh =
     and_then (create_agent_outcome_fn ''submit_main_outcome'' (Some SUBMIT_MAIN_DESCRIPTION) None (zh_schema zh ''submit_main_outcome'') (parse_main_outcome zh))
       (\<lambda>f. Inr (AdvisedOutcome f MAIN_ADVISOR_PROMPT))"

text \<open>What stops a process at startup.\<close>

datatype boot_error = BadConfig string | BadModel provider_error | BadOutcome outcome_error

text \<open>
  What the process runs in: the host of its configuration, the decoding of access tokens, zod, the
  import of workflow scripts and the host's approval hook.
\<close>

record 'm boot_host =
  bh_config :: config_host
  bh_decode :: "string \<Rightarrow> json option"
  bh_zod :: zod_host
  bh_import :: "string \<Rightarrow> string + (string \<times> ('m workflow_module, context_store) script_export) list"
  bh_approval :: "string \<Rightarrow> string \<Rightarrow> hook_entry"

record ('m, 'c) coding_agent =
  ca_config :: "'c coding_agent_config"
  ca_runtime :: "'c agent_runtime"
  ca_workflows :: "'m workflow_factory"
  ca_service :: "'m tool_service"
  ca_host :: engine_host
  ca_agents :: profile_registry
  ca_operator :: "json bound_agent"

definition lift_error :: "('e \<Rightarrow> 'f) \<Rightarrow> 'e + 'a \<Rightarrow> 'f + 'a" where
  "lift_error f r = (case r of Inl e \<Rightarrow> Inl (f e) | Inr x \<Rightarrow> Inr x)"

definition bootstrap :: "'m boot_host \<Rightarrow> string list \<Rightarrow> boot_error + ('m, 'c) coding_agent" where
  "bootstrap bh root_dir =
     and_then (lift_error BadConfig (load_coding_agent_config (bh_config bh) root_dir)) (\<lambda>cfg.
     and_then (lift_error BadModel (create_agent_runtime (bh_decode bh)
         \<lparr>rc_llm_clients = cc_llm_clients cfg, rc_hooks = cc_hooks cfg, rc_task_timeout = None\<rparr>)) (\<lambda>rt.
     and_then (lift_error BadConfig (load_workflow_modules (bh_import bh) (cc_workflows cfg))) (\<lambda>(ms, stores).
       let workflows = workflow_factory_of (cc_workflows cfg) ms;
           service = \<lparr>ts_factory = workflows, ts_context = compose_context_stores stores, ts_access = allow_all_access\<rparr>;
           host = \<lparr>eh_zod = bh_zod bh, eh_approval = (if cc_advisor_approval cfg then Some (bh_approval bh) else None),
                   eh_extra = create_sandbox_tools (bh_zod bh)\<rparr> in
       and_then (lift_error BadConfig (build_agent_factory (cc_profiles cfg))) (\<lambda>agents.
       and_then (lift_error BadOutcome (main_outcome_fn (bh_zod bh))) (\<lambda>main_fn.
       and_then (lift_error BadConfig (factory_create agents (Some service) ''operator'' (Some main_fn))) (\<lambda>op.
         Inr \<lparr>ca_config = cfg, ca_runtime = rt, ca_workflows = workflows, ca_service = service, ca_host = host,
              ca_agents = agents, ca_operator = op\<rparr>))))))"

text \<open>\<open>main\<close>: without a root, the one found from the working directory.\<close>

definition main_program :: "'m boot_host \<Rightarrow> (string list \<Rightarrow> bool) \<Rightarrow> string list \<Rightarrow> string list option \<Rightarrow> boot_error + ('m, 'c) coding_agent" where
  "main_program bh exists_at cwd dir = bootstrap bh (or_default dir (ephai_config_root exists_at cwd))"

text \<open>What the start of an agent builds, as \<open>start_agent\<close> does.\<close>

definition agent_for_run :: "('m, 'c) coding_agent \<Rightarrow> string \<Rightarrow> json bound_agent \<Rightarrow> string + (json, 'c) agent" where
  "agent_for_run ca run b =
     and_then (build_agent_spec (ca_host ca) (ba_profile b) (Some (ca_service ca)) run (ba_outcome b) (ba_tools b)) (create_agent (ca_runtime ca))"

section \<open>What a started process still lacks\<close>

lemma select_tools_ok:
  "is_ok (select_tools p available seen ns) \<longleftrightarrow> distinct ns \<and> set ns \<inter> set seen = {} \<and> set ns \<inter> set injected_tool_names = {} \<and>
     set ns \<subseteq> fst ` set available"
proof (induction ns arbitrary: seen)
  case (Cons n ns)
  have "map_of available n = None \<longleftrightarrow> n \<notin> fst ` set available" by (simp add: map_of_eq_None_iff)
  with Cons [of "n # seen"] show ?case by (auto simp: and_then_ok ok_iff split: option.splits)
qed simp

definition selectable_tools :: "string list" where
  "selectable_tools = [''list_background_tasks'', ''cancel_background_task'', ''read_agent_run'', ''read'', ''multi_read'', ''write'', ''edit'',
     ''exec_command'', ''command_stdin'', ''read_command_transcript'']"

lemma available_names: "fst ` set (available_tools zh (create_sandbox_tools zh)) = set selectable_tools"
proof -
  have "fst ` set (available_tools zh (create_sandbox_tools zh)) = dom (map_of (available_tools zh (create_sandbox_tools zh)))"
    by (simp add: dom_map_of_conv_image_fst)
  also have "\<dots> = set selectable_tools"
    unfolding available_tools_def new_map_keys
    by (simp add: image_image create_sandbox_tools_def sandbox_tool_def list_background_tasks_def cancel_background_task_def
        read_agent_run_def selectable_tools_def insert_commute)
  finally show ?thesis .
qed

lemma lift_error_Inr [simp]: "lift_error f r = Inr x \<longleftrightarrow> r = Inr x"
  by (cases r) (simp_all add: lift_error_def)

lemma build_spec_ok:
  "is_ok (build_agent_spec eh p (Some sv) run (Some (AdvisedOutcome f prompt)) rv) \<longleftrightarrow>
   is_ok (select_tools p (available_tools (eh_zod eh) (eh_extra eh)) [] (ap_allowed_tools p)) \<and> eh_approval eh \<noteq> None"
proof -
  have w: "\<exists>ts q. workflow_part eh p (Some sv) names = Inr (ts, q)" for names
    by (auto simp: workflow_part_def render_workflow_prompt_def list_description_def factory_description_def)
  have o: "(\<exists>a b c. outcome_part eh run (Some (AdvisedOutcome f prompt)) = Inr (a, b, c)) \<longleftrightarrow> eh_approval eh \<noteq> None"
    by (auto simp: outcome_part_def split: option.splits)
  show ?thesis
  proof (cases "select_tools p (available_tools (eh_zod eh) (eh_extra eh)) [] (ap_allowed_tools p)")
    case (Inr ts)
    from w [of "rv_workflows rv"] obtain wts q where wq: "workflow_part eh p (Some sv) (rv_workflows rv) = Inr (wts, q)" by blast
    show ?thesis
    proof (cases "outcome_part eh run (Some (AdvisedOutcome f prompt))")
      case (Inl err)
      with o Inr wq show ?thesis by (simp add: build_agent_spec_def select_ordinary_tools_def)
    next
      case (Inr abc)
      with o \<open>select_tools _ _ _ _ = _\<close> wq show ?thesis
        by (cases abc) (simp add: build_agent_spec_def select_ordinary_tools_def)
    qed
  qed (simp add: build_agent_spec_def select_ordinary_tools_def)
qed

lemma main_outcome_fn_Inr:
  "main_outcome_fn zh = Inr b \<Longrightarrow> \<exists>f. b = AdvisedOutcome f MAIN_ADVISOR_PROMPT \<and> of_name f = ''submit_main_outcome''"
proof -
  have "trim ''submit_main_outcome'' = ''submit_main_outcome''" by code_simp
  then show "main_outcome_fn zh = Inr b \<Longrightarrow> \<exists>f. b = AdvisedOutcome f MAIN_ADVISOR_PROMPT \<and> of_name f = ''submit_main_outcome''"
    by (auto simp: main_outcome_fn_def create_agent_outcome_fn_def Let_def)
qed

lemma factory_created:
  assumes "factory_create ps service name outcome = Inr b"
  shows "map_of ps name = Some (ba_profile b) \<and> ba_outcome b = outcome \<and> is_ok (validate_tool_selection (ba_profile b))"
  using assms by (auto simp: factory_create_def create_bound_agent_def and_then_Inr_iff require_profile_def split: option.splits)

lemma bootstrapped:
  assumes "bootstrap bh dir = Inr ca"
  shows "load_coding_agent_config (bh_config bh) dir = Inr (ca_config ca)"
    and "map fst (ar_registry (ca_runtime ca)) = map fst (cc_llm_clients (ca_config ca))"
    and "\<exists>ms stores. load_workflow_modules (bh_import bh) (cc_workflows (ca_config ca)) = Inr (ms, stores) \<and>
           ts_factory (ca_service ca) = workflow_factory_of (cc_workflows (ca_config ca)) ms"
    and "eh_approval (ca_host ca) = (if cc_advisor_approval (ca_config ca) then Some (bh_approval bh) else None)"
    and "eh_extra (ca_host ca) = create_sandbox_tools (eh_zod (ca_host ca))"
    and "ca_agents ca = cc_profiles (ca_config ca) \<and> is_ok (validate_advisor_profile (ca_agents ca))"
    and "\<exists>f. ba_outcome (ca_operator ca) = Some (AdvisedOutcome f MAIN_ADVISOR_PROMPT) \<and> of_name f = ''submit_main_outcome''"
    and "map_of (ca_agents ca) ''operator'' = Some (ba_profile (ca_operator ca)) \<and> is_ok (validate_tool_selection (ba_profile (ca_operator ca)))"
proof -
  from assms obtain cfg rt ms stores agents main_fn op where
    cfg: "load_coding_agent_config (bh_config bh) dir = Inr cfg"
    and rt: "create_agent_runtime (bh_decode bh) \<lparr>rc_llm_clients = cc_llm_clients cfg, rc_hooks = cc_hooks cfg, rc_task_timeout = None\<rparr> = Inr rt"
    and ms: "load_workflow_modules (bh_import bh) (cc_workflows cfg) = Inr (ms, stores)"
    and agents: "build_agent_factory (cc_profiles cfg) = Inr agents"
    and main: "main_outcome_fn (bh_zod bh) = Inr main_fn"
    and op: "factory_create agents (Some \<lparr>ts_factory = workflow_factory_of (cc_workflows cfg) ms, ts_context = compose_context_stores stores,
        ts_access = allow_all_access\<rparr>) ''operator'' (Some main_fn) = Inr op"
    and ca: "ca = \<lparr>ca_config = cfg, ca_runtime = rt, ca_workflows = workflow_factory_of (cc_workflows cfg) ms,
        ca_service = \<lparr>ts_factory = workflow_factory_of (cc_workflows cfg) ms, ts_context = compose_context_stores stores, ts_access = allow_all_access\<rparr>,
        ca_host = \<lparr>eh_zod = bh_zod bh, eh_approval = (if cc_advisor_approval cfg then Some (bh_approval bh) else None), eh_extra = create_sandbox_tools (bh_zod bh)\<rparr>,
        ca_agents = agents, ca_operator = op\<rparr>"
    unfolding bootstrap_def Let_def and_then_Inr_iff lift_error_Inr by (auto simp: and_then_Inr_iff)
  have "map fst (ar_registry rt) = map fst (cc_llm_clients cfg)"
    using rt registry_keys by (auto simp: create_agent_runtime_def and_then_Inr_iff)
  moreover have "agents = cc_profiles cfg \<and> is_ok (validate_advisor_profile agents)"
    using agents by (auto simp: build_agent_factory_def and_then_Inr_iff)
  moreover note main_outcome_fn_Inr [OF main] factory_created [OF op]
  ultimately show "load_coding_agent_config (bh_config bh) dir = Inr (ca_config ca)"
    and "map fst (ar_registry (ca_runtime ca)) = map fst (cc_llm_clients (ca_config ca))"
    and "\<exists>ms stores. load_workflow_modules (bh_import bh) (cc_workflows (ca_config ca)) = Inr (ms, stores) \<and>
           ts_factory (ca_service ca) = workflow_factory_of (cc_workflows (ca_config ca)) ms"
    and "eh_approval (ca_host ca) = (if cc_advisor_approval (ca_config ca) then Some (bh_approval bh) else None)"
    and "eh_extra (ca_host ca) = create_sandbox_tools (eh_zod (ca_host ca))"
    and "ca_agents ca = cc_profiles (ca_config ca) \<and> is_ok (validate_advisor_profile (ca_agents ca))"
    and "\<exists>f. ba_outcome (ca_operator ca) = Some (AdvisedOutcome f MAIN_ADVISOR_PROMPT) \<and> of_name f = ''submit_main_outcome''"
    and "map_of (ca_agents ca) ''operator'' = Some (ba_profile (ca_operator ca)) \<and> is_ok (validate_tool_selection (ba_profile (ca_operator ca)))"
    using cfg ms by (auto simp: ca)
qed

lemma loaded_config:
  assumes "load_coding_agent_config ch dir = Inr cfg"
  shows "registry_ok (cc_profiles cfg)" and "distinct (map cw_name (cc_workflows cfg))"
proof -
  from assms have
    p: "load_agent_profiles (ch_yaml ch) (ch_issues ch) (dir @ [''agents'']) (node_at (dir @ [''agents'']) (ch_tree ch)) = Inr (cc_profiles cfg)"
    and w: "load_workflow_configs (ch_yaml ch) (ch_issues ch) (dir @ [''agentic-workflows'']) (node_at (dir @ [''agentic-workflows'']) (ch_tree ch)) = Inr (cc_workflows cfg)"
    unfolding load_coding_agent_config_def Let_def and_then_Inr_iff by auto
  show "registry_ok (cc_profiles cfg)" using loaded_registry [OF p] by simp
  show "distinct (map cw_name (cc_workflows cfg))"
    using w load_workflows_from_ok by (fastforce simp: load_workflow_configs_def and_then_Inr_iff split: if_splits)
qed

lemma loaded_subagents:
  assumes "load_coding_agent_config ch dir = Inr cfg"
  shows "\<forall>e \<in> set (cc_profiles cfg). is_ok (check_subagents (cc_profiles cfg) (snd e))"
proof -
  from assms have "load_agent_profiles (ch_yaml ch) (ch_issues ch) (dir @ [''agents'']) (node_at (dir @ [''agents'']) (ch_tree ch)) = Inr (cc_profiles cfg)"
    unfolding load_coding_agent_config_def Let_def and_then_Inr_iff by auto
  then show ?thesis using loaded_registry by blast
qed

lemma workflows_startable:
  assumes "load_coding_agent_config ch dir = Inr cfg" and "\<exists>ms stores. load_workflow_modules import_script (cc_workflows cfg) = Inr (ms, stores) \<and>
      ts_factory sv = workflow_factory_of (cc_workflows cfg) ms" and "c \<in> set (cc_workflows cfg)"
  shows "can_start_workflow sv (cw_name c)"
  using assms(2) factory_finds [OF loaded_config(2) [OF assms(1)] _ assms(3)]
  by (fastforce simp: can_start_workflow_def)

lemma advisor_registered:
  assumes "load_coding_agent_config ch dir = Inr cfg" and "is_ok (validate_advisor_profile (cc_profiles cfg))"
  shows "ADVISOR_AGENT_NAME \<in> set (map fst (cc_profiles cfg))"
  using loaded_config(1) [OF assms(1)] assms(2)
  by (force simp: registry_ok_def list_all_iff validate_advisor_profile_def split: if_splits)

text \<open>What startup does check.\<close>

lemma main_outcome_fn_ok: "is_ok (main_outcome_fn zh)"
proof -
  have "trim ''submit_main_outcome'' = ''submit_main_outcome''" by code_simp
  then show ?thesis by (simp add: main_outcome_fn_def create_agent_outcome_fn_def Let_def)
qed

lemma bootstrap_succeeds:
  fixes bh :: "'m boot_host" and cfg :: "'c coding_agent_config"
  assumes cfg: "load_coding_agent_config (bh_config bh) dir = Inr cfg"
    and rt: "is_ok (create_agent_runtime (bh_decode bh) \<lparr>rc_llm_clients = cc_llm_clients cfg, rc_hooks = cc_hooks cfg, rc_task_timeout = None\<rparr>)"
    and modules: "is_ok (load_workflow_modules (bh_import bh) (cc_workflows cfg))"
    and advisor: "is_ok (validate_advisor_profile (cc_profiles cfg))"
    and operator: "map_of (cc_profiles cfg) ''operator'' = Some p" "creatable_profile p"
  shows "\<exists>ca :: ('m, 'c) coding_agent. bootstrap bh dir = Inr ca \<and> ca_config ca = cfg \<and> ca_agents ca = cc_profiles cfg"
proof -
  obtain r where r: "create_agent_runtime (bh_decode bh) \<lparr>rc_llm_clients = cc_llm_clients cfg, rc_hooks = cc_hooks cfg, rc_task_timeout = None\<rparr> = Inr r"
    using rt by (rule is_okE)
  obtain ms stores where ms: "load_workflow_modules (bh_import bh) (cc_workflows cfg) = Inr (ms, stores)"
    using modules by (elim is_okE) auto
  obtain b where b: "main_outcome_fn (bh_zod bh) = Inr b" using main_outcome_fn_ok by (rule is_okE)
  have agents: "build_agent_factory (cc_profiles cfg) = Inr (cc_profiles cfg)"
    using advisor by (auto simp: build_agent_factory_def elim: is_okE)
  have "is_ok (check_subagents (cc_profiles cfg) p)"
    using loaded_subagents [OF cfg] map_of_SomeD [OF operator(1)] by fastforce
  then have "is_ok (factory_create (cc_profiles cfg) (Some sv) ''operator'' (Some b))" for sv :: "'m tool_service"
    using factory_create_ok operator by blast
  then obtain op where "factory_create (cc_profiles cfg) (Some \<lparr>ts_factory = workflow_factory_of (cc_workflows cfg) ms,
      ts_context = compose_context_stores stores, ts_access = allow_all_access\<rparr>) ''operator'' (Some b) = Inr op"
    by (rule is_okE)
  then show ?thesis
    by (simp add: bootstrap_def cfg r ms b agents lift_error_def Let_def)
qed

text \<open>
  C40: what remains to fail once \<open>bootstrap\<close> has returned. The operator and an advisor have profiles, and
  every configured workflow can be started through the service. The operator itself starts exactly when its
  profile names only tools of the engine's and the sandbox's bundles, its model is a configured client, and
  hooks.json declares the advisor's approval: these three are not checked at startup.
\<close>

theorem operator_starts_exactly:
  assumes "bootstrap bh dir = Inr ca"
  shows "(\<exists>p. map_of (ca_agents ca) ''operator'' = Some p \<and> ba_profile (ca_operator ca) = p \<and>
      (is_ok (agent_for_run ca run (ca_operator ca)) \<longleftrightarrow>
         set (ap_allowed_tools p) \<subseteq> set selectable_tools \<and> ap_llm p \<in> set (map fst (cc_llm_clients (ca_config ca))) \<and>
         cc_advisor_approval (ca_config ca))) \<and>
    ADVISOR_AGENT_NAME \<in> set (map fst (ca_agents ca)) \<and>
    (\<forall>c \<in> set (cc_workflows (ca_config ca)). can_start_workflow (ca_service ca) (cw_name c))"
proof -
  note b = bootstrapped [OF assms]
  define p where "p = ba_profile (ca_operator ca)"
  define rv where "rv = ba_tools (ca_operator ca)"
  obtain f where f: "ba_outcome (ca_operator ca) = Some (AdvisedOutcome f MAIN_ADVISOR_PROMPT)" "of_name f = ''submit_main_outcome''"
    using b(7) by blast
  have selection: "is_ok (select_tools p (available_tools (eh_zod (ca_host ca)) (eh_extra (ca_host ca))) [] (ap_allowed_tools p))
      \<longleftrightarrow> set (ap_allowed_tools p) \<subseteq> set selectable_tools"
    using b(8) by (simp add: select_tools_ok b(5) available_names validate_tool_selection_def check_selection_ok p_def)
  have model: "map_of (ar_registry (ca_runtime ca)) (ap_llm p) \<noteq> None \<longleftrightarrow> ap_llm p \<in> set (map fst (cc_llm_clients (ca_config ca)))"
    unfolding b(2) [symmetric] by (simp add: map_of_eq_None_iff)
  have created: "is_ok (create_agent (ca_runtime ca) spec) \<longleftrightarrow> map_of (ar_registry (ca_runtime ca)) (ap_llm p) \<noteq> None"
    if spec: "build_agent_spec (ca_host ca) p (Some (ca_service ca)) run (Some (AdvisedOutcome f MAIN_ADVISOR_PROMPT)) rv = Inr spec" for spec
  proof -
    note built = built_spec [OF spec]
    have "set (ap_allowed_tools p) \<subseteq> set selectable_tools"
      using spec selection build_spec_ok [of "ca_host ca" p "ca_service ca" run f MAIN_ADVISOR_PROMPT rv] by simp
    then have "of_name f \<notin> set (expected_tools p rv (Some (AdvisedOutcome f MAIN_ADVISOR_PROMPT)))"
      by (auto simp: expected_tools_def f selectable_tools_def)
    then show ?thesis using built by (simp add: creatable bound_names)
  qed
  have "is_ok (agent_for_run ca run (ca_operator ca)) \<longleftrightarrow>
      set (ap_allowed_tools p) \<subseteq> set selectable_tools \<and> ap_llm p \<in> set (map fst (cc_llm_clients (ca_config ca))) \<and> cc_advisor_approval (ca_config ca)"
  proof (cases "build_agent_spec (ca_host ca) p (Some (ca_service ca)) run (Some (AdvisedOutcome f MAIN_ADVISOR_PROMPT)) rv")
    case (Inl err)
    with build_spec_ok [of "ca_host ca" p "ca_service ca" run f MAIN_ADVISOR_PROMPT rv] selection b(4)
    show ?thesis by (auto simp: agent_for_run_def f p_def rv_def)
  next
    case (Inr spec)
    with build_spec_ok [of "ca_host ca" p "ca_service ca" run f MAIN_ADVISOR_PROMPT rv] selection b(4) created [OF Inr] model
    show ?thesis by (auto simp: agent_for_run_def f p_def rv_def split: if_splits)
  qed
  moreover have "can_start_workflow (ca_service ca) (cw_name c)" if "c \<in> set (cc_workflows (ca_config ca))" for c
    using workflows_startable [OF b(1,3) that] .
  ultimately show ?thesis using b(6,8) advisor_registered [OF b(1)] by (auto simp: p_def)
qed

section \<open>A sample configuration\<close>

definition profile_text :: "string \<Rightarrow> fs_node" where
  "profile_text y = FileNode (Some (''---'' @ newline @ y @ newline @ ''---'' @ newline @ ''Act.''))"

definition sample_tree :: fs_node where
  "sample_tree = DirNode [(''c'', DirNode [
     (''hooks'', DirNode [(''hooks.json'', FileNode (Some (stringify (JArr [
        JObj [(''event'', JStr ''preToolUse''), (''hook'', JStr ''advisor_approval''), (''module'', JObj [(''path'', JStr ''advisor-hook.ts'')])]]))))]),
     (''llm-clients'', DirNode [(''llm-clients.json'', FileNode (Some (stringify (JObj [(''clients'', JArr [
        JObj [(''id'', JStr ''fast''), (''provider'', JStr ''openai_api''), (''model_id'', JStr ''m''),
          (''auth'', JObj [(''kind'', JStr ''inline''), (''credential'', JStr ''k'')])]])]))))]),
     (''agents'', DirNode [(''operator.md'', profile_text ''o''), (''advisor.md'', profile_text ''a'')])])]"

definition sample_yaml :: "string \<Rightarrow> json option" where
  "sample_yaml y =
     (if y \<noteq> ''o'' \<and> y \<noteq> ''a'' then None
      else Some (JObj [(''name'', JStr (if y = ''o'' then ''operator'' else ''advisor'')), (''llm_client_id'', JStr ''fast''),
        (''allowed_tools'', JArr [JStr ''read''])]))"

definition sample_boot :: "unit boot_host" where
  "sample_boot = \<lparr>bh_config = \<lparr>ch_tree = sample_tree, ch_read = (\<lambda>_. FileMissing), ch_yaml = sample_yaml, ch_issues = (\<lambda>_. []),
       ch_exec = (\<lambda>_ _. CommandAborted)\<rparr>,
     bh_decode = (\<lambda>_. None), bh_zod = \<lparr>zh_issues = (\<lambda>_ _. []), zh_schema = (\<lambda>_. [])\<rparr>, bh_import = (\<lambda>_. Inl ''none''),
     bh_approval = (\<lambda>_ tool. require_no_background_tasks tool)\<rparr>"

definition sample_clients :: "(string \<times> unit llm_profile) list" where
  "sample_clients = [(''fast'', \<lparr>pf_model = ''m'', pf_effort = None, pf_max_tokens = None,
     pf_source = ViaConnection \<lparr>cn_provider = OpenAiApi, cn_base_url = None, cn_secret = Secret ''k''\<rparr>\<rparr>)]"

definition config_digest :: "string + unit coding_agent_config \<Rightarrow>
    ((string list \<times> string \<times> bool) option \<times> bool \<times> (string \<times> unit llm_profile) list \<times> workflow_config list \<times> bool) option" where
  "config_digest r =
     (case r of Inl _ \<Rightarrow> None
      | Inr cfg \<Rightarrow> Some (map_option (\<lambda>p. (ap_allowed_tools p, ap_llm p, creatable_profile p)) (map_of (cc_profiles cfg) ''operator''),
          is_ok (validate_advisor_profile (cc_profiles cfg)), cc_llm_clients cfg, cc_workflows cfg, cc_advisor_approval cfg))"

lemma sample_clients_connect:
  "is_ok (create_agent_runtime decode \<lparr>rc_llm_clients = sample_clients, rc_hooks = hooks, rc_task_timeout = None\<rparr>)"
  by (simp add: create_agent_runtime_def sample_clients_def resolve_llm_def create_llm_client_def resolve_profile_def Let_def)

theorem operator_starts_exactly_witness:
  "\<exists>ca :: (unit, unit) coding_agent. bootstrap sample_boot [''c''] = Inr ca \<and>
     is_ok (agent_for_run ca ''agent-1'' (ca_operator ca)) \<and> ADVISOR_AGENT_NAME \<in> set (map fst (ca_agents ca))"
proof -
  have "config_digest (load_coding_agent_config (bh_config sample_boot) [''c'']) = Some (Some ([''read''], ''fast'', True), True, sample_clients, [], True)"
    by code_simp
  then obtain cfg :: "unit coding_agent_config" and p where cfg: "load_coding_agent_config (bh_config sample_boot) [''c''] = Inr cfg"
    and p: "map_of (cc_profiles cfg) ''operator'' = Some p" "ap_allowed_tools p = [''read'']" "ap_llm p = ''fast''" "creatable_profile p"
    and d: "is_ok (validate_advisor_profile (cc_profiles cfg))" "cc_llm_clients cfg = sample_clients" "cc_workflows cfg = []" "cc_advisor_approval cfg"
    unfolding config_digest_def by (auto split: sum.splits)
  have runtime: "is_ok (create_agent_runtime (bh_decode sample_boot) \<lparr>rc_llm_clients = cc_llm_clients cfg, rc_hooks = cc_hooks cfg, rc_task_timeout = None\<rparr>)"
    unfolding d(2) by (rule sample_clients_connect)
  have modules: "is_ok (load_workflow_modules (bh_import sample_boot) (cc_workflows cfg))" by (simp add: d(3))
  from bootstrap_succeeds [OF cfg runtime modules d(1) p(1,4)]
  obtain ca :: "(unit, unit) coding_agent" where ca: "bootstrap sample_boot [''c''] = Inr ca" "ca_config ca = cfg" "ca_agents ca = cc_profiles cfg"
    by blast
  from operator_starts_exactly [OF ca(1), of "''agent-1''"] p d ca(2,3) show ?thesis
    by (auto simp: ca(1) selectable_tools_def sample_clients_def)
qed

end
