(* ===== verification/Doubles.thy ===== *)
theory Doubles
  imports Complex_Main
begin

text \<open>
  How a product of JavaScript numbers is rounded: a double keeps the 53 leading bits of a positive
  value, and a value between two doubles becomes the nearest one, of two equally near ones the even
  one. Values are written as naturals, scaled by a power of two.
\<close>

fun bit_length :: "nat \<Rightarrow> nat" where
  "bit_length n = (if n = 0 then 0 else Suc (bit_length (n div 2)))"

declare bit_length.simps [simp del]

definition round_half_even :: "nat \<Rightarrow> nat \<Rightarrow> nat" where
  "round_half_even p unit =
     (let q = p div unit; r = p mod unit in if 2 * r < unit \<or> 2 * r = unit \<and> even q then q else q + 1)"

definition double_round :: "nat \<Rightarrow> nat" where
  "double_round p = (let unit = 2 ^ (bit_length p - 53) in round_half_even p unit * unit)"

lemma bit_length_bounds: "0 < n \<Longrightarrow> 2 ^ (bit_length n - 1) \<le> n \<and> n < 2 ^ bit_length n \<and> 0 < bit_length n"
proof (induction n rule: bit_length.induct)
  case (1 n)
  show ?case
  proof (cases "n = 1")
    case True
    then show ?thesis by (simp add: bit_length.simps)
  next
    case False
    with 1 have "2 ^ (bit_length (n div 2) - 1) \<le> n div 2 \<and> n div 2 < 2 ^ bit_length (n div 2) \<and> 0 < bit_length (n div 2)"
      by simp
    then obtain b where b: "bit_length (n div 2) = Suc b" "2 ^ b \<le> n div 2" "n div 2 < 2 ^ Suc b"
      by (cases "bit_length (n div 2)") auto
    have "2 * 2 ^ b \<le> n" "n < 2 * 2 ^ Suc b" using b(2,3) by linarith+
    with b(1) 1(2) show ?thesis by (simp add: bit_length.simps [of n])
  qed
qed

text \<open>The rounded value is off by at most one part in \<open>2 ^ 53\<close>; a value just above a multiple of the unit is rounded to it.\<close>

lemma half_even_error:
  assumes "0 < u"
  shows "2 * p \<le> 2 * (round_half_even p u * u) + u" "2 * (round_half_even p u * u) \<le> 2 * p + u"
proof -
  define q r where "q = p div u" and "r = p mod u"
  have p: "p = q * u + r" "r < u" using assms by (simp_all add: q_def r_def)
  have "round_half_even p u = q \<and> 2 * r \<le> u \<or> round_half_even p u = q + 1 \<and> u \<le> 2 * r"
    by (auto simp: round_half_even_def Let_def q_def [symmetric] r_def [symmetric])
  then show "2 * p \<le> 2 * (round_half_even p u * u) + u" "2 * (round_half_even p u * u) \<le> 2 * p + u"
    using p by (auto simp: algebra_simps)
qed

lemma scaled_error:
  fixes a b c p u :: nat
  assumes "2 * a \<le> 2 * b + u" "c * u \<le> p"
  shows "2 * c * a \<le> 2 * c * b + p"
proof -
  have "c * (2 * a) \<le> c * (2 * b + u)" using assms(1) by (rule mult_le_mono2)
  then have "c * (2 * a) \<le> c * (2 * b) + p" unfolding distrib_left using assms(2) by linarith
  then show ?thesis by (simp only: ac_simps)
qed

lemma double_round_error:
  "2 * 2 ^ 52 * p \<le> 2 * 2 ^ 52 * double_round p + p" "2 * 2 ^ 52 * double_round p \<le> 2 * 2 ^ 52 * p + p"
proof -
  define k where "k = bit_length p - 53"
  have d: "double_round p = round_half_even p (2 ^ k) * 2 ^ k" by (simp add: double_round_def Let_def k_def)
  have "2 * 2 ^ 52 * p \<le> 2 * 2 ^ 52 * double_round p + p \<and> 2 * 2 ^ 52 * double_round p \<le> 2 * 2 ^ 52 * p + p"
  proof (cases "k = 0")
    case True
    then have "double_round p = p" by (simp add: d round_half_even_def)
    then show ?thesis by (simp only: le_add1)
  next
    case False
    then have "0 < p" by (cases "p = 0") (simp_all add: k_def bit_length.simps [of 0])
    then have "2 ^ (bit_length p - 1) \<le> p" using bit_length_bounds by blast
    moreover have "bit_length p - 1 = 52 + k" using False by (simp add: k_def)
    ultimately have u: "2 ^ 52 * 2 ^ k \<le> p" by (simp only: power_add)
    have "(0::nat) < 2 ^ k" by simp
    from half_even_error [OF this, of p, folded d] show ?thesis using scaled_error u by blast
  qed
  then show "2 * 2 ^ 52 * p \<le> 2 * 2 ^ 52 * double_round p + p" "2 * 2 ^ 52 * double_round p \<le> 2 * 2 ^ 52 * p + p" by blast+
qed

lemma double_round_above:
  assumes "2 * r < 2 ^ (bit_length (a + r) - 53)" "2 ^ (bit_length (a + r) - 53) dvd a"
  shows "double_round (a + r) = a"
proof -
  define u :: nat where "u = 2 ^ (bit_length (a + r) - 53)"
  from assms obtain q where a: "a = u * q" and r: "2 * r < u" unfolding u_def [symmetric] by auto
  have "(a + r) div u = q" "(a + r) mod u = r" using r by (simp_all add: a)
  then have "round_half_even (a + r) u = q" using r by (simp only: round_half_even_def Let_def if_True simp_thms)
  then show ?thesis unfolding double_round_def Let_def u_def [symmetric] by (simp only: a ac_simps)
qed

end
