(* ===== verification/ShippedHooks.thy ===== *)
theory ShippedHooks
  imports HookConfig Doubles
begin

text \<open>
  The hooks that the repository ships (\<open>coding-agent/.ephai/hooks\<close>): its \<open>hooks.json\<close> and the two
  scripts that it runs at every turn boundary. A script reads the turn's facts as JSON from its
  standard input and prints a notification or nothing.
\<close>

section \<open>The scripts\<close>

text \<open>A member that is a natural number.\<close>

definition number_member :: "json_object \<Rightarrow> string \<Rightarrow> nat option" where
  "number_member kvs k = (case map_of kvs k of Some (JNum n) \<Rightarrow> Some (nat_of_digits n) | _ \<Rightarrow> None)"

definition notification_json :: "string \<Rightarrow> json" where
  "notification_json msg = JObj [(''notification'', JStr msg)]"

text \<open>
  \<open>Math.ceil(turn.maxTurns * 0.8)\<close> on doubles, scaled by \<open>2 ^ 52\<close>: \<open>FOUR_FIFTHS\<close> is the double that the
  literal 0.8 denotes, and the product is rounded before its ceiling is taken.
\<close>

definition FOUR_FIFTHS :: nat where
  "FOUR_FIFTHS = 3602879701896397"

definition budget_threshold :: "nat \<Rightarrow> nat" where
  "budget_threshold max_turns = (double_round (max_turns * FOUR_FIFTHS) + (2 ^ 52 - 1)) div 2 ^ 52"

definition budget_text :: "nat \<Rightarrow> nat \<Rightarrow> string option \<Rightarrow> string" where
  "budget_text turn max_turns terminal =
     ''Turn '' @ string_of_nat turn @ '' of '' @ string_of_nat max_turns @ '' (80% of budget). Wrap up and submit via '' @
     (case terminal of Some n \<Rightarrow> n | None \<Rightarrow> ''your terminal tool'') @ ''.''"

definition string_member :: "json_object \<Rightarrow> string \<Rightarrow> string option" where
  "string_member kvs k = (case map_of kvs k of Some (JStr s) \<Rightarrow> Some s | _ \<Rightarrow> None)"

definition budget_reminder :: "json \<Rightarrow> command_outcome" where
  "budget_reminder turn =
     (case turn of
        JObj kvs \<Rightarrow>
          (case (number_member kvs ''turn'', number_member kvs ''maxTurns'') of
             (Some t, Some m) \<Rightarrow>
               CommandExited (Some 0)
                 (if t = budget_threshold m then stringify (notification_json (budget_text t m (string_member kvs ''terminalToolName''))) else []) []
           | _ \<Rightarrow> CommandExited (Some 0) [] [])
      | _ \<Rightarrow> CommandExited (Some 0) [] [])"

definition reminder_text :: "string \<Rightarrow> string" where
  "reminder_text terminal =
     ''You produced no tool call and have no background work. To finish this run you must call your terminal tool '' @ terminal @ ''.''"

definition remind_terminal_submission :: "json \<Rightarrow> command_outcome" where
  "remind_terminal_submission turn =
     (case turn of
        JObj kvs \<Rightarrow>
          (case string_member kvs ''terminalToolName'' of
             Some n \<Rightarrow>
               CommandExited (Some 0)
                 (if number_member kvs ''toolCalls'' = Some 0 \<and> number_member kvs ''backgroundTaskCount'' = Some 0 \<and>
                     map_of kvs ''hasPendingSteers'' = Some (JBool False)
                  then stringify (notification_json (reminder_text n)) else []) []
           | None \<Rightarrow> CommandExited (Some 0) [] [])
      | _ \<Rightarrow> CommandExited (Some 0) [] [])"

section \<open>The shipped configuration\<close>

definition BUDGET_COMMAND :: string where
  "BUDGET_COMMAND = ''node budget-reminder.cjs''"

definition REMINDER_COMMAND :: string where
  "REMINDER_COMMAND = ''node remind-terminal-submission.cjs''"

definition boundary_entry :: "string \<Rightarrow> json" where
  "boundary_entry cmd = JObj [(''event'', JStr ''turnBoundary''),
     (''command'', JObj [(''command'', JStr cmd), (''timeout_ms'', jnat 5000)])]"

definition shipped_hooks :: json where
  "shipped_hooks = JArr
     [JObj [(''event'', JStr ''preToolUse''), (''hook'', JStr ''advisor_approval''),
        (''module'', JObj [(''path'', JStr ''advisor-hook.ts''), (''export'', JStr ''requireAdvisoryPass'')])],
      boundary_entry BUDGET_COMMAND, boundary_entry REMINDER_COMMAND]"

text \<open>
  What a command does on a host where node runs the two scripts that are in the directory \<open>home\<close>: the
  commands name them relative to the directory they are started in. Anything else is up to the host.
\<close>

definition shipped_commands :: "string \<Rightarrow> (hook_command \<Rightarrow> json \<Rightarrow> command_outcome) \<Rightarrow> hook_command \<Rightarrow> json \<Rightarrow> command_outcome" where
  "shipped_commands home other c payload =
     (if hc_cwd c = Some home \<and> hc_command c = BUDGET_COMMAND then budget_reminder payload
      else if hc_cwd c = Some home \<and> hc_command c = REMINDER_COMMAND then remind_terminal_submission payload
      else other c payload)"

section \<open>The threshold\<close>

text \<open>No rounding error reaches the threshold of a budget below \<open>2 ^ 50\<close>.\<close>

lemma threshold_whole:
  assumes m: "m < 2 ^ 50"
  shows "budget_threshold m = (4 * m + 4) div 5"
proof -
  define t where "t = (4 * m + 4) div 5"
  define p where "p = m * FOUR_FIFTHS"
  have p5: "5 * p = 2 ^ 54 * m + m" by (simp add: p_def FOUR_FIFTHS_def)
  have t: "4 * m \<le> 5 * t" "5 * t < 4 * m + 5" unfolding t_def by linarith+
  have e: "9007199254740992 * p \<le> 9007199254740992 * double_round p + p" "9007199254740992 * double_round p \<le> 9007199254740992 * p + p"
    using double_round_error [of p] by simp_all
  have big: "5 * p = 18014398509481985 * m" "m < 1125899906842624" using p5 m by simp_all
  have above: "4503599627370496 * t < double_round p + 4503599627370496" using e(1) big t by linarith
  have below: "double_round p \<le> 4503599627370496 * t"
  proof (cases "5 * t = 4 * m")
    case False
    then have "4 * m + 1 \<le> 5 * t" using t by linarith
    with e(2) big show ?thesis by linarith
  next
    case True
    define q where "q = m div 5"
    have q: "m = 5 * q" "t = 4 * q" using True unfolding q_def by presburger+
    then have p: "p = 2 ^ 54 * q + q" using big(1) by simp
    define k where "k = bit_length p - 53"
    have len: "2 ^ (bit_length p - 1) \<le> p \<and> p < 2 ^ bit_length p" if "0 < q" using bit_length_bounds [of p] that p by simp
    have "2 * q < 2 ^ k"
    proof (cases "q = 0")
      case False
      then have l: "p < 2 ^ bit_length p" using len by simp
      have "2 ^ 54 * q \<le> p" by (simp add: p)
      then have "2 ^ 54 * q < 2 ^ bit_length p" using l by linarith
      also have "\<dots> \<le> 2 ^ (53 + k)" by (rule power_increasing) (simp_all add: k_def)
      finally show ?thesis by (simp add: power_add)
    qed simp
    moreover have "2 ^ k dvd 2 ^ 54 * q"
    proof (cases "q = 0")
      case False
      then have l: "2 ^ (bit_length p - 1) \<le> p" using len by simp
      have "p < 2 ^ 105" using big by simp
      then have "(2::nat) ^ (bit_length p - 1) < 2 ^ 105" using l by linarith
      then have "bit_length p - 1 < 105" by (rule power_less_imp_less_exp [rotated]) simp
      then have "k \<le> 54" by (simp add: k_def)
      then show ?thesis by (metis dvd_mult2 le_imp_power_dvd)
    qed simp
    ultimately have "double_round (2 ^ 54 * q + q) = 2 ^ 54 * q"
      by (intro double_round_above) (simp_all only: k_def p)
    then show ?thesis using p q by simp
  qed
  show ?thesis using above below unfolding budget_threshold_def p_def [symmetric] t_def [symmetric] by simp
qed

lemma threshold_ceiling:
  assumes "m < 2 ^ 50"
  shows "int (budget_threshold m) = \<lceil>4 / 5 * (of_nat m :: rat)\<rceil>"
proof -
  define t where "t = (4 * m + 4) div 5"
  have "4 * m \<le> 5 * t" "5 * t < 4 * m + 5" unfolding t_def by linarith+
  then have "of_nat (4 * m) \<le> (of_nat (5 * t) :: rat)" "(of_nat (5 * t) :: rat) < of_nat (4 * m + 5)"
    by (simp_all only: of_nat_le_iff of_nat_less_iff)
  then have "\<lceil>4 / 5 * (of_nat m :: rat)\<rceil> = int t" by (intro ceiling_unique) simp_all
  then show ?thesis using threshold_whole [OF assms] by (simp add: t_def)
qed

section \<open>What an agent is told\<close>

text \<open>A printed notification is read back as it was written.\<close>

lemma trim_object: "trim (stringify (JObj kvs)) = stringify (JObj kvs)"
  by (simp add: trim_def is_space_def)

lemma notification_read:
  assumes "msg \<noteq> []"
  shows "run_hook_command issues parse_notification c (CommandExited (Some 0) (stringify (notification_json msg)) []) = Inr (Some (Some msg))"
proof -
  define out where "out = stringify (notification_json msg)"
  have "trim out = out" and "out \<noteq> []" unfolding out_def notification_json_def trim_object by simp_all
  moreover have "json_parse out = Some (notification_json msg)"
    using json_parse_stringify [of "notification_json msg" "[]"] by (simp add: out_def notification_json_def skip_ws_def)
  moreover have "parse_notification (notification_json msg) = Some (Some msg)"
    using assms by (simp add: notification_json_def parse_notification_def parse_optional_text_def parse_text_def)
  ultimately show ?thesis by (simp add: run_hook_command_def Let_def flip: out_def)
qed

lemma nothing_read: "run_hook_command issues parse_notification c (CommandExited (Some 0) [] []) = Inr None"
  by (simp add: run_hook_command_def trim_def)

lemmas read_members = number_member_def string_member_def turn_facts_json_def optional_member_def jnat_def

lemma told_budget:
  "notify_by_command issues (shipped_commands home other) \<lparr>hc_command = BUDGET_COMMAND, hc_cwd = Some home, hc_timeout_ms = t\<rparr> f =
   (if tf_turn f = budget_threshold (tf_max_turns f)
    then [(budget_text (tf_turn f) (tf_max_turns f) (tf_terminal_tool_name f), None)] else [], None)"
proof -
  have out: "budget_reminder (turn_facts_json f) = CommandExited (Some 0)
      (if tf_turn f = budget_threshold (tf_max_turns f)
       then stringify (notification_json (budget_text (tf_turn f) (tf_max_turns f) (tf_terminal_tool_name f))) else []) []"
    by (cases "tf_terminal_tool_name f") (simp_all add: budget_reminder_def read_members)
  have "budget_text a b n \<noteq> []" for a b n by (simp add: budget_text_def)
  then show ?thesis by (simp add: notify_by_command_def shipped_commands_def out nothing_read notification_read)
qed

lemma told_reminder:
  "notify_by_command issues (shipped_commands home other) \<lparr>hc_command = REMINDER_COMMAND, hc_cwd = Some home, hc_timeout_ms = t\<rparr> f =
   (case tf_terminal_tool_name f of
      Some n \<Rightarrow> if tf_tool_calls f = 0 \<and> tf_background_task_count f = 0 \<and> \<not> tf_has_pending_steers f then [(reminder_text n, None)] else []
    | None \<Rightarrow> [], None)"
proof -
  have out: "remind_terminal_submission (turn_facts_json f) = CommandExited (Some 0)
      (case tf_terminal_tool_name f of
         Some n \<Rightarrow> if tf_tool_calls f = 0 \<and> tf_background_task_count f = 0 \<and> \<not> tf_has_pending_steers f then stringify (notification_json (reminder_text n)) else []
       | None \<Rightarrow> []) []"
    by (cases "tf_terminal_tool_name f") (simp_all add: remind_terminal_submission_def read_members)
  have "reminder_text n \<noteq> []" for n by (simp add: reminder_text_def)
  moreover have "hc_command \<lparr>hc_command = REMINDER_COMMAND, hc_cwd = Some home, hc_timeout_ms = t\<rparr> \<noteq> BUDGET_COMMAND"
    by (simp add: REMINDER_COMMAND_def BUDGET_COMMAND_def)
  ultimately show ?thesis
    by (simp add: notify_by_command_def shipped_commands_def out nothing_read notification_read split: option.split)
qed

lemma shipped_entries:
  "load_entries_file (FileText (stringify shipped_hooks)) path ''hook config'' (parse_hook_entries issues) fill_cwd =
   Inr [AdvisorApproval,
     CommandBoundary \<lparr>hc_command = BUDGET_COMMAND, hc_cwd = Some (show_path (command_cwd_for path)), hc_timeout_ms = Some 5000\<rparr>,
     CommandBoundary \<lparr>hc_command = REMINDER_COMMAND, hc_cwd = Some (show_path (command_cwd_for path)), hc_timeout_ms = Some 5000\<rparr>]"
proof -
  have "json_parse (stringify shipped_hooks) = Some shipped_hooks"
    using json_parse_stringify [of shipped_hooks "[]"] jnat_numerals [of 5000]
    by (simp add: shipped_hooks_def boundary_entry_def skip_ws_def)
  moreover have "parse_hook_entries issues shipped_hooks =
      Inr [AdvisorApproval, CommandBoundary \<lparr>hc_command = BUDGET_COMMAND, hc_cwd = None, hc_timeout_ms = Some 5000\<rparr>,
        CommandBoundary \<lparr>hc_command = REMINDER_COMMAND, hc_cwd = None, hc_timeout_ms = Some 5000\<rparr>]"
  proof -
    have p: "parse_positive (jnat 5000) = Some 5000"
      using string_of_nat_digits [of 5000] by (simp add: parse_positive_def jnat_def is_digit_def list_all_iff)
    show ?thesis
      by (simp add: parse_hook_entries_def shipped_hooks_def boundary_entry_def parse_hook_entry_def Let_def parse_tool_matcher_def
          parse_hook_command_def parse_text_def parse_optional_string_def optional_nat_def p parse_advisor_module_def
          BUDGET_COMMAND_def REMINDER_COMMAND_def)
  qed
  ultimately show ?thesis by (simp add: load_entries_file_def with_default_cwd_def)
qed

definition notices_told :: "turn_facts \<Rightarrow> (string \<times> string option) list" where
  "notices_told f =
     (if tf_turn f = budget_threshold (tf_max_turns f)
      then [(budget_text (tf_turn f) (tf_max_turns f) (tf_terminal_tool_name f), None)] else []) @
     (case tf_terminal_tool_name f of
        Some n \<Rightarrow> if tf_tool_calls f = 0 \<and> tf_background_task_count f = 0 \<and> \<not> tf_has_pending_steers f
                   then [(reminder_text n, None)] else []
      | None \<Rightarrow> [])"

lemma shipped_hooks_loaded:
  "\<exists>cfg. load_hook_config issues (shipped_commands (show_path (base @ [''.ephai'', ''hooks''])) other)
       (FileText (stringify shipped_hooks)) (base @ [''.ephai'', ''hooks'', ''hooks.json'']) = Inr cfg
     \<and> lh_advisor_approval cfg \<and> (\<forall>f. turn_boundary (make_hook_engine (lh_sdk_hooks cfg)) f = (notices_told f, []))"
proof -
  have "command_cwd_for (base @ [''.ephai'', ''hooks'', ''hooks.json'']) = base @ [''.ephai'', ''hooks'']"
    by (simp add: command_cwd_for_def butlast_append)
  then show ?thesis
    by (simp add: load_hook_config_def shipped_entries List.map_filter_def make_hook_engine_def turn_boundary_def
        told_budget told_reminder notices_told_def Let_def)
qed

text \<open>
  C31: what the shipped hooks tell an agent, from \<open>hooks.json\<close> to the notices of a turn. The file loads
  and demands the advisor's approval, and its commands are started where the scripts are. At a turn
  boundary the agent is told to wrap up exactly on the turn at four fifths of its budget, rounded up,
  and is told to submit exactly when it must submit, called no tool and has neither background work
  nor a pending steer; no hook fails.
\<close>

theorem shipped_hooks_tell:
  "\<exists>cfg. load_hook_config issues (shipped_commands (show_path (base @ [''.ephai'', ''hooks''])) other)
       (FileText (stringify shipped_hooks)) (base @ [''.ephai'', ''hooks'', ''hooks.json'']) = Inr cfg
     \<and> lh_advisor_approval cfg
     \<and> (\<forall>f. tf_max_turns f < 2 ^ 50 \<longrightarrow>
          turn_boundary (make_hook_engine (lh_sdk_hooks cfg)) f =
          ((if int (tf_turn f) = \<lceil>4 / 5 * (of_nat (tf_max_turns f) :: rat)\<rceil>
            then [(''Turn '' @ string_of_nat (tf_turn f) @ '' of '' @ string_of_nat (tf_max_turns f) @
                    '' (80% of budget). Wrap up and submit via '' @
                    (case tf_terminal_tool_name f of Some n \<Rightarrow> n | None \<Rightarrow> ''your terminal tool'') @ ''.'', None)] else []) @
           (case tf_terminal_tool_name f of
              Some n \<Rightarrow> if tf_tool_calls f = 0 \<and> tf_background_task_count f = 0 \<and> \<not> tf_has_pending_steers f
                         then [(''You produced no tool call and have no background work. '' @
                           ''To finish this run you must call your terminal tool '' @ n @ ''.'', None)] else []
            | None \<Rightarrow> []), []))"
proof -
  have turn: "int (tf_turn f) = \<lceil>4 / 5 * (of_nat (tf_max_turns f) :: rat)\<rceil> \<longleftrightarrow> tf_turn f = budget_threshold (tf_max_turns f)"
    if "tf_max_turns f < 2 ^ 50" for f using threshold_ceiling [OF that] by linarith
  have reminder: "''You produced no tool call and have no background work. '' @
      ''To finish this run you must call your terminal tool '' @ n @ ''.'' = reminder_text n" for n
    by (simp add: reminder_text_def)
  obtain cfg where "load_hook_config issues (shipped_commands (show_path (base @ [''.ephai'', ''hooks''])) other)
       (FileText (stringify shipped_hooks)) (base @ [''.ephai'', ''hooks'', ''hooks.json'']) = Inr cfg"
    and "lh_advisor_approval cfg" and "\<And>f. turn_boundary (make_hook_engine (lh_sdk_hooks cfg)) f = (notices_told f, [])"
    using shipped_hooks_loaded by blast
  then show ?thesis
    by (intro exI [of _ cfg] conjI allI impI)
      (simp_all only: notices_told_def turn reminder budget_text_def)
qed

definition last_turns :: turn_facts where
  "last_turns = \<lparr>tf_turn = 6, tf_max_turns = 7, tf_terminal_tool_name = Some ''submit'', tf_tool_calls = 0,
     tf_background_task_count = 0, tf_has_pending_steers = True\<rparr>"

theorem shipped_hooks_tell_witness:
  "\<exists>cfg. load_hook_config (\<lambda>_. []) (shipped_commands ''/repo/.ephai/hooks'' (\<lambda>_ _. CommandAborted))
       (FileText (stringify shipped_hooks)) [''repo'', ''.ephai'', ''hooks'', ''hooks.json''] = Inr cfg
     \<and> turn_boundary (make_hook_engine (lh_sdk_hooks cfg)) last_turns =
         ([(''Turn 6 of 7 (80% of budget). Wrap up and submit via submit.'', None)], [])"
proof -
  obtain cfg where cfg: "load_hook_config (\<lambda>_. []) (shipped_commands ''/repo/.ephai/hooks'' (\<lambda>_ _. CommandAborted))
      (FileText (stringify shipped_hooks)) [''repo'', ''.ephai'', ''hooks'', ''hooks.json''] = Inr cfg"
    and tells: "tf_max_turns last_turns < 2 ^ 50 \<longrightarrow>
      turn_boundary (make_hook_engine (lh_sdk_hooks cfg)) last_turns =
          ((if int (tf_turn last_turns) = \<lceil>4 / 5 * (of_nat (tf_max_turns last_turns) :: rat)\<rceil>
            then [(''Turn '' @ string_of_nat (tf_turn last_turns) @ '' of '' @ string_of_nat (tf_max_turns last_turns) @
                    '' (80% of budget). Wrap up and submit via '' @
                    (case tf_terminal_tool_name last_turns of Some n \<Rightarrow> n | None \<Rightarrow> ''your terminal tool'') @ ''.'', None)] else []) @
           (case tf_terminal_tool_name last_turns of
              Some n \<Rightarrow> if tf_tool_calls last_turns = 0 \<and> tf_background_task_count last_turns = 0 \<and> \<not> tf_has_pending_steers last_turns
                         then [(''You produced no tool call and have no background work. '' @
                           ''To finish this run you must call your terminal tool '' @ n @ ''.'', None)] else []
            | None \<Rightarrow> []), [])"
    using shipped_hooks_tell [of "\<lambda>_. []" "[''repo'']" "\<lambda>_ _. CommandAborted"] by (auto simp: show_path_def)
  have "\<lceil>4 / 5 * (of_nat 7 :: rat)\<rceil> = 6" by (simp add: ceiling_unique)
  moreover have "string_of_nat 6 = ''6''" "string_of_nat 7 = ''7''" by code_simp+
  ultimately show ?thesis using cfg tells by (simp add: last_turns_def)
qed

text \<open>The reminder of the budget comes on a turn of the run, before its budget is used up.\<close>

lemma budget_threshold_bounds:
  "1 \<le> m \<Longrightarrow> m < 2 ^ 50 \<Longrightarrow> 1 \<le> budget_threshold m \<and> budget_threshold m \<le> m"
  by (simp add: threshold_whole) linarith

end
