(* ===== verification/Spec2Isabelle.thy ===== *)
theory Spec2Isabelle
  imports NodeEvents AnthropicDecoder OpenAiDecoder AnthropicEncoder OpenAiEncoder LoopExamples AgentRuntime WorkflowExamples RalphExamples PursuitStore RunBridge OutcomeAdvisory NodeRunner Bootstrap ShippedHooks
begin

text \<open>
  Ephemeral-Agent is an agent harness in TypeScript. \<open>packages/agent-core\<close> runs one agent against
  a model provider and one workflow of agents; \<open>packages/agent-engine\<close> builds agents and workflows
  from profiles and configurations, and keeps their records; \<open>packages/coding-agent\<close> is the host:
  its configuration, its sandbox, its hooks and two bundled workflows. This library models the three
  packages' own logic. Paths below are relative to \<open>packages/\<close>.

  HOW THE PARTS INTERACT. A host's configuration gives model clients, hooks, profiles and workflow
  configurations. The agent factory turns a profile and an outcome contract into a template, which
  the agent runtime validates and starts. A run is a loop: it asks the streaming client for a turn,
  whose wire encodes the request and decodes the provider's events; runs the turn's tool calls as a
  batch through the hooks and the pipeline; drains steers and notices; parks while background tasks
  are open; and ends by a text, by an accepted terminal submission, by an interrupt or by its turn
  budget. Its events are numbered, recorded and then shown. A workflow run asks its implementation
  what to dispatch, launches nodes through the node runner (agent runs or delegated workflow runs),
  takes their submissions and settlements one at a time and finishes once.
\<close>

text \<open>
  THE THEORIES, by layer, with the files they translate.

  Foundations. \<open>Prelude\<close>: the JavaScript library operations on strings, arrays and maps, results,
  and the collections \<open>op_defs\<close>, \<open>inv_intros\<close>, \<open>frame_simps\<close>. \<open>Json\<close>, \<open>JsonParse\<close>: JSON values,
  \<open>JSON.stringify\<close> and \<open>JSON.parse\<close> with their round trip. \<open>Schemas\<close>: the pieces of the declared
  zod schemas as parse functions. \<open>Contracts\<close>: \<open>agent-core/src/contracts\<close>.

  Interfaces, as locales. \<open>PushStream\<close>: \<open>push_stream\<close>, the queue between a pushing producer and one
  pulling iterator; first-in-first-out delivery and no lost wake-up follow from its laws. It is
  interpreted on \<open>EventStream\<close> (\<open>run-handle.ts\<close>) and on \<open>NodeEvents\<close> (\<open>nodes/events.ts\<close>).
  \<open>WakeSource\<close>: \<open>wake_source\<close>, a level-triggered wait, interpreted on the inbox, the steer queue and
  the task registry, which are the three things a parked loop waits for. \<open>StreamClient\<close>:
  \<open>stream_decoder\<close>, a wire's decoder, interpreted on both wires, from which the contract of one leg
  follows. \<open>RunBridge\<close>: \<open>recording\<close>, a store that a run's pump appends to, interpreted on the agent
  and on the workflow store. \<open>WorkflowStates\<close>: \<open>settled_workflow\<close>, what an implementation keeps of its
  own state and so holds in every reachable run; \<open>PursuitProps\<close> interprets it on the pursuit.

  Agent core, \<open>agent-core/src/agents\<close>. \<open>LlmTypes\<close>, \<open>Retry\<close>, \<open>StreamClient\<close>, \<open>Wire\<close>, the two encoders
  and the two decoders: \<open>llm-client\<close>. \<open>Access\<close>: \<open>llm-client/access\<close>, \<open>profiles.ts\<close>, \<open>registry.ts\<close>.
  \<open>Events\<close>, \<open>EventStream\<close>, \<open>RunHandle\<close>, \<open>Conversation\<close>, \<open>Turn\<close>, \<open>AgentLoop\<close>: \<open>engine\<close>. \<open>Inbox\<close>:
  \<open>notification\<close>. \<open>Supervisor\<close>: \<open>background\<close>. \<open>Hooks\<close>, \<open>Pipeline\<close>, \<open>Terminal\<close>, \<open>Executor\<close>: \<open>tool\<close>.
  \<open>RunState\<close>, \<open>AgentRuntime\<close>: \<open>agent-runtime.ts\<close>. \<open>LoopSafety\<close>, \<open>LoopCore\<close>, \<open>LoopProps\<close> and
  \<open>LoopExamples\<close> prove what holds in every reachable state of a loop.

  Workflows. \<open>WorkflowTypes\<close>, \<open>Workflow\<close>, \<open>WorkflowProps\<close>, \<open>WorkflowExamples\<close>:
  \<open>agent-core/src/agentic-workflows\<close> and \<open>agent-core/src/nodes\<close>. \<open>RalphLoop\<close>, \<open>RalphProps\<close>,
  \<open>RalphExamples\<close> and \<open>PursuitTypes\<close>, \<open>PursuitContext\<close>, \<open>Pursuit\<close>, \<open>PursuitProgress\<close>,
  \<open>PursuitGraph\<close>, \<open>PursuitProps\<close>, \<open>PursuitTree\<close>, \<open>PursuitStore\<close>: the bundled workflows under
  \<open>coding-agent/.ephai/agentic-workflows\<close>. \<open>PursuitTree\<close> specifies what the context of a pursuit holds.

  Engine, \<open>agent-engine/src\<close>. \<open>RunStores\<close>, \<open>RunLog\<close>, \<open>RunBridge\<close>: \<open>runs\<close>. \<open>OutcomeAdvisory\<close>,
  \<open>AgentFactory\<close>: \<open>agents\<close>. \<open>WorkflowFactory\<close>: \<open>agentic-workflows\<close>. \<open>EngineTools\<close>: \<open>tools\<close>.
  \<open>NodeRunner\<close>: \<open>nodes\<close>.

  Host, \<open>coding-agent/src\<close>. \<open>Gateway\<close>: \<open>sandbox\<close>. \<open>SandboxTools\<close>: \<open>tools/sandbox\<close>. \<open>HookConfig\<close>:
  \<open>config/hook-config.ts\<close>, \<open>entries-file.ts\<close>, \<open>scripts/execute-json-command.ts\<close>. \<open>ShippedHooks\<close>:
  the scripts and the \<open>hooks.json\<close> under \<open>.ephai/hooks\<close>; \<open>Doubles\<close>: the rounding of the product
  that the budget reminder computes in doubles. \<open>HostConfig\<close>, \<open>HostProps\<close>: the rest of \<open>config\<close>
  and \<open>scripts/script-runner.ts\<close>, over a tree of files. \<open>Bootstrap\<close>: \<open>bootstrap.ts\<close>, \<open>cli/main.ts\<close>.
\<close>

text \<open>
  HOW CODE BECOMES DEFINITIONS. A class is a record of its fields and one function per method; a
  method that awaits host code is split at the await, and what resumes it is a later operation. So a
  component whose calls interleave (the batch executor, the loop, the task registry, a workflow run,
  a node handle, a gateway call) is a transition system: an executable function on labels, and the
  reachable states of it, inductively or as the states after a list of labels. Its properties hold
  for every interleaving of the labels. A throw is \<open>Inl\<close>, or a datatype of the component where it
  tells throws apart; \<open>undefined\<close> is \<open>None\<close>. Map and Set keep insertion order, so they are
  association lists and lists. Array indices that the code leaves unchecked are guarded as the code
  behaves there.

  Strings are lists of characters, that is of code units below 256; a number inside a JSON value is
  its rendering. Token counts are integers and delays rationals. Counters that the code keeps in
  doubles (event numbers, turns) are naturals: below \<open>2 ^ 53\<close> the two agree.

  Nothing runs out of fuel: every loop is a terminating function or a transition system. \<open>JSON.parse\<close>
  recurses on a bound, the length of the text, and the round trip shows that this bound reads every
  rendering. The number of steps of a batch is bounded by a measure; the loop's turns by the
  template's \<open>maxTurns\<close>; retries by the configuration; the search for a dependency cycle by the
  unvisited items.

  PARAMETERS. What comes from outside the repository is an argument: the provider's chunks, the
  clock, random identifiers, timers, child processes and the gateway (what they answer and when), the
  outcome schemas, hooks and tools a host supplies, the texts of zod's issues and the JSON schemas zod
  derives, YAML and base64 decoding, the collation order of \<open>localeCompare\<close>, and the pursuit that the context
  builder sees in the state of a snapshot, which the code casts unchecked. The disk is a map
  from directories to files; its failures are missing directories and files.
\<close>

text \<open>
  WHAT THE LEMMAS SHOW.

  Streams and waits: delivery in order, one finish that comes last, no lost wake-up, no steer or
  notice lost. Retry and wires: bounded attempts, no retry after visible output, one completion per
  leg, messages reassembled however they were cut. Batches: every call answered once and in order, at
  most eight at a time, terminal calls last, and termination. Background tasks: settled once, drained
  at the end of a run. The loop: every request answers the calls before it, the exits mean what they
  say, a parked run wakes. Workflows: one outcome, one settlement per node, one accepted submission
  per node, interrupts are final. Bundled workflows: the ralph loop's bounds and the meaning of its
  outcome; pursuit's check for cyclic plans is exact, its legs and attempts stay within its plan in
  every reachable run, and what agents list and find of its context is what the pursuit holds.

  Records: the stores refine one log per run; what an observer saw is on record. Factories: agents
  are well-formed and their terminal tools guarded; bindings survive the round trip; failed starts are
  on record. Node runner: numbered events, one settlement, agreement with the workflow. Host: hooks
  fail closed, the shipped hooks say exactly what they are meant to, sandbox calls stay inside the
  run's sandbox, gateway calls settle once and retry within bounds. Configuration: frontmatter is found
  as the regular expression says; what loads fits the factories; after startup the operator starts
  exactly when its tools, its model and the approval hook are there.

  Where the code does not do what its comments promise, a lemma shows the run that does not: a steer
  accepted in the commit window of a terminal submission (\<open>commit_window_drops_steer\<close>), launches
  after a workflow's end (\<open>launch_after_finish\<close>), settlements lost with their record
  (\<open>unrecorded_settlement_is_lost\<close>), the gateway's timers (\<open>connect_timeout_cuts_replies\<close>), sandboxes
  that leak or are never bound (\<open>failed_end_leaks_sandbox\<close>, \<open>unbound_sandbox_tools_fail\<close>), reads outside
  the store (\<open>read_run_escapes_store\<close>), recorded contexts that are never found
  (\<open>recorded_context_is_never_found\<close>), and client ids that count as duplicates because every object
  inherits them (\<open>inherited_ids_are_duplicates\<close>).

  NOT MODELLED. The vendors' SDK clients and the calls that open their streams; the scripts under
  \<open>pursuit/scripts\<close>, which nothing runs; the tests, the end-to-end suites and the test kits; files that
  only re-export or only declare interfaces.
\<close>

end
